(* ===== verification/Prelude.thy ===== *)
theory Prelude
  imports Main "HOL-Library.Word" "HOL-Library.Monad_Syntax" "HOL-Library.Sublist"
begin

unbundle bit_operations_syntax

text \<open>
  Shared vocabulary of the development: how Python's bytes, strings and slices are
  represented, the reads that can raise, and the generic list lemmas the components use.

  \<^item> \<open>bytes\<close> is a list of 8-bit words; \<open>byte_at p i\<close> is \<open>p[i]\<close>, with \<open>None\<close> for the
    IndexError Python raises past the end, while slices (\<open>slice a b p\<close> for \<open>p[a:b]\<close>) never
    raise, as in Python.
  \<^item> \<open>ustr\<close> is a Python string: a list of Unicode code points. \<open>U ''abc''\<close> is the string
    literal \<^verbatim>\<open>"abc"\<close> and \<open>B ''abc''\<close> the bytes literal \<^verbatim>\<open>b"abc"\<close>.
  \<^item> Offsets and lengths are \<open>nat\<close>: every offset the code computes is non-negative, and
    Python's integers do not overflow.
\<close>

section \<open>Collections of facts\<close>

named_theorems reads \<open>facts that discharge a guarded read\<close>
named_theorems text_simps \<open>equations of the Python string operations\<close>

section \<open>Bytes and reads\<close>

type_synonym bytes = "8 word list"
type_synonym ustr = "nat list"

definition U :: "string \<Rightarrow> ustr" where
  "U s = map of_char s"

definition B :: "string \<Rightarrow> bytes" where
  "B s = map of_char s"

lemma U_eq_iff [simp]: "U a = U b \<longleftrightarrow> a = b"
  by (simp add: U_def inj_on_def map_inj_on inj_map_eq_map)

lemma U_Nil [simp]: "U [] = []"
  by (simp add: U_def)

lemma U_eq_Nil [simp]: "U a = [] \<longleftrightarrow> a = []" "[] = U a \<longleftrightarrow> a = []"
  by (auto simp: U_def)

lemma U_append: "U (a @ b) = U a @ U b"
  by (simp add: U_def)

definition byte_at :: "bytes \<Rightarrow> nat \<Rightarrow> nat option" where
  "byte_at p i = (if i < length p then Some (unat (p ! i)) else None)"

lemma byte_at_Some [simp, reads]: "i < length p \<Longrightarrow> byte_at p i = Some (unat (p ! i))"
  by (simp add: byte_at_def)

lemma byte_at_None [simp]: "length p \<le> i \<Longrightarrow> byte_at p i = None"
  by (simp add: byte_at_def)

lemma byte_at_eq_None_iff: "byte_at p i = None \<longleftrightarrow> length p \<le> i"
  by (simp add: byte_at_def not_less)

lemma unat_byte_less [simp]: "unat (b :: 8 word) < 256"
  using unsigned_less [of b] by simp

lemma byte_at_less: "byte_at p i = Some n \<Longrightarrow> n < 256"
  by (auto simp: byte_at_def split: if_splits)

text \<open>Python's \<open>p[a:b]\<close>, \<open>p[a:]\<close> and \<open>p[:b]\<close> for non-negative bounds.\<close>

definition slice :: "nat \<Rightarrow> nat \<Rightarrow> 'a list \<Rightarrow> 'a list" where
  "slice a b p = take (b - a) (drop a p)"

lemma length_slice [simp]: "length (slice a b p) = min (b - a) (length p - a)"
  by (simp add: slice_def min.commute)

lemma slice_append_left: "b \<le> length p \<Longrightarrow> slice a b (p @ q) = slice a b p"
  by (simp add: slice_def)

lemma slice_all: "length p \<le> b \<Longrightarrow> slice 0 b p = p"
  by (simp add: slice_def)

text \<open>\<open>int.from_bytes(p, "big")\<close> and \<open>int.from_bytes(p, "little")\<close>.\<close>

definition be :: "bytes \<Rightarrow> nat" where
  "be p = foldl (\<lambda>n b. n * 256 + unat b) 0 p"

definition le :: "bytes \<Rightarrow> nat" where
  "le p = be (rev p)"

lemma be_Nil [simp]: "be [] = 0"
  by (simp add: be_def)

lemma be_snoc [simp]: "be (p @ [b]) = be p * 256 + unat b"
  by (simp add: be_def)

lemma be_less: "be p < 256 ^ length p"
proof (induction p rule: rev_induct)
  case (snoc b p)
  have "be p * 256 + unat b < (be p + 1) * 256" by simp
  also have "\<dots> \<le> 256 ^ length p * 256" using snoc by (intro mult_right_mono) auto
  finally show ?case by (simp add: mult.commute)
qed simp

lemma be_slice2_less: "be (slice a (a + 2) p) < 65536"
proof -
  have "be (slice a (a + 2) p) < 256 ^ length (slice a (a + 2) p)" by (rule be_less)
  also have "\<dots> \<le> 256 ^ 2" by (intro power_increasing) auto
  finally show ?thesis by simp
qed

lemma be_length2_less: "length p \<le> 2 \<Longrightarrow> be p < 65536"
  using be_less [of p] power_increasing [of "length p" 2 "256::nat"] by simp

text \<open>\<open>n.to_bytes(2, "big")\<close> for a number that fits.\<close>

definition to_be2 :: "nat \<Rightarrow> bytes" where
  "to_be2 n = [of_nat (n div 256), of_nat (n mod 256)]"

lemma unat_of_nat_byte: "n < 256 \<Longrightarrow> unat (of_nat n :: 8 word) = n"
  by (simp add: unat_of_nat)

lemma length_to_be2 [simp]: "length (to_be2 n) = 2"
  by (simp add: to_be2_def)

lemma be_to_be2 [simp]: "n < 65536 \<Longrightarrow> be (to_be2 n) = n"
  by (simp add: be_def to_be2_def unat_of_nat)

section \<open>Lists\<close>

text \<open>\<open>unique_ordered\<close>-style duplicate removal keeps the first occurrence.\<close>

fun unique_from :: "'a list \<Rightarrow> 'a list \<Rightarrow> 'a list" where
  "unique_from seen [] = []"
| "unique_from seen (x # xs) =
     (if x \<in> set seen then unique_from seen xs else x # unique_from (x # seen) xs)"

lemma set_unique_from [simp]: "set (unique_from seen xs) = set xs - set seen"
  by (induction seen xs rule: unique_from.induct) auto

lemma distinct_unique_from [simp]: "distinct (unique_from seen xs)"
  by (induction seen xs rule: unique_from.induct) auto

lemma takeWhile_dropWhile_length: "length (takeWhile P xs) + length (dropWhile P xs) = length xs"
  by (metis length_append takeWhile_dropWhile_id)

lemma length_dropWhile_less_eq [simp]: "length (dropWhile P xs) \<le> length xs"
  by (rule length_dropWhile_le)

lemma suffix_dropWhile': "suffix (dropWhile P xs) xs"
  by (rule suffix_dropWhile)

end
