(* ===== verification/Py_Values.thy ===== *)
theory Py_Values
  imports Complex_Main Prelude
begin

text \<open>
  Dynamically typed Python values, as they reach the program in JSON documents and in packet
  dictionaries, with the conversions the code applies to them: truth value, \<open>int()\<close>,
  \<open>str()\<close>, and the two coercion helpers of \<^verbatim>\<open>utils.py\<close>.
\<close>

section \<open>Values and exceptions\<close>

datatype pyfloat = Fin rat | PosInf | NegInf | NaN

datatype pyval =
    PNone
  | PBool bool
  | PInt int
  | PFloat pyfloat
  | PStr ustr
  | PBytes bytes
  | PList "pyval list"
  | PDict "(ustr \<times> pyval) list"

datatype pyexc = ValueError | TypeError | OverflowError | IndexError | RuntimeError

fun truthy :: "pyval \<Rightarrow> bool" where
  "truthy PNone = False"
| "truthy (PBool b) = b"
| "truthy (PInt n) = (n \<noteq> 0)"
| "truthy (PFloat f) = (f \<noteq> Fin 0)"
| "truthy (PStr s) = (s \<noteq> [])"
| "truthy (PBytes b) = (b \<noteq> [])"
| "truthy (PList xs) = (xs \<noteq> [])"
| "truthy (PDict d) = (d \<noteq> [])"

section \<open>Strings\<close>

text \<open>The code points \<open>str.isspace\<close> accepts, which is what \<open>str.strip\<close> removes.\<close>

definition is_space :: "nat \<Rightarrow> bool" where
  "is_space c \<longleftrightarrow> (9 \<le> c \<and> c \<le> 13) \<or> (28 \<le> c \<and> c \<le> 32) \<or> c = 133 \<or> c = 160 \<or> c = 5760
     \<or> (8192 \<le> c \<and> c \<le> 8202) \<or> c = 8232 \<or> c = 8233 \<or> c = 8239 \<or> c = 8287 \<or> c = 12288"

definition lstrip_by :: "('a \<Rightarrow> bool) \<Rightarrow> 'a list \<Rightarrow> 'a list" where
  "lstrip_by P s = dropWhile P s"

definition rstrip_by :: "('a \<Rightarrow> bool) \<Rightarrow> 'a list \<Rightarrow> 'a list" where
  "rstrip_by P s = rev (dropWhile P (rev s))"

definition strip_by :: "('a \<Rightarrow> bool) \<Rightarrow> 'a list \<Rightarrow> 'a list" where
  "strip_by P s = rstrip_by P (lstrip_by P s)"

abbreviation strip :: "ustr \<Rightarrow> ustr" where
  "strip \<equiv> strip_by is_space"

text \<open>
  Case mapping. Exact on the Latin-1 range \<open>0..255\<close>, which covers every protocol name,
  address, header and DNS label the code folds; other code points are left alone.
\<close>

definition lower_cp :: "nat \<Rightarrow> nat" where
  "lower_cp c = (if 65 \<le> c \<and> c \<le> 90 then c + 32
     else if 192 \<le> c \<and> c \<le> 222 \<and> c \<noteq> 215 then c + 32 else c)"

definition lower :: "ustr \<Rightarrow> ustr" where
  "lower s = map lower_cp s"

definition is_digit :: "nat \<Rightarrow> bool" where
  "is_digit c \<longleftrightarrow> 48 \<le> c \<and> c \<le> 57"

section \<open>Numbers and text\<close>

text \<open>\<open>str(n)\<close> for an integer.\<close>

fun dec :: "nat \<Rightarrow> ustr" where
  "dec n = (if n < 10 then [48 + n] else dec (n div 10) @ [48 + n mod 10])"

declare dec.simps [simp del]

definition dec_int :: "int \<Rightarrow> ustr" where
  "dec_int n = (if n < 0 then 45 # dec (nat (- n)) else dec (nat n))"

text \<open>
  \<open>int(s)\<close> on a string of ASCII digits: surrounding white space, one sign, single
  underscores between digits, and CPython's limit of 4300 digits.
\<close>

fun digits_value :: "bool \<Rightarrow> nat \<Rightarrow> ustr \<Rightarrow> nat option" where
  "digits_value after acc [] = (if after then Some acc else None)"
| "digits_value after acc (c # cs) =
     (if is_digit c then digits_value True (acc * 10 + (c - 48)) cs
      else if c = 95 \<and> after then digits_value False acc cs
      else None)"

definition nat_of_str :: "ustr \<Rightarrow> nat option" where
  "nat_of_str s = (if length (filter is_digit s) > 4300 then None else digits_value False 0 s)"

definition int_of_str :: "ustr \<Rightarrow> int option" where
  "int_of_str s = (case strip s of
       [] \<Rightarrow> None
     | c # cs \<Rightarrow> if c = 45 then map_option (\<lambda>n. - int n) (nat_of_str cs)
                else if c = 43 then map_option int (nat_of_str cs)
                else map_option int (nat_of_str (c # cs)))"

text \<open>\<open>int(value)\<close>: truncation of finite floats, and the exception each other kind raises.\<close>

definition trunc_rat :: "rat \<Rightarrow> int" where
  "trunc_rat r = (if r < 0 then \<lceil>r\<rceil> else \<lfloor>r\<rfloor>)"

fun py_int :: "pyval \<Rightarrow> pyexc + int" where
  "py_int (PBool b) = Inr (if b then 1 else 0)"
| "py_int (PInt n) = Inr n"
| "py_int (PFloat (Fin r)) = Inr (trunc_rat r)"
| "py_int (PFloat NaN) = Inl ValueError"
| "py_int (PFloat _) = Inl OverflowError"
| "py_int (PStr s) = (case int_of_str s of None \<Rightarrow> Inl ValueError | Some n \<Rightarrow> Inr n)"
| "py_int (PBytes b) = (case int_of_str (map unat b) of None \<Rightarrow> Inl ValueError | Some n \<Rightarrow> Inr n)"
| "py_int _ = Inl TypeError"

text \<open>\<open>utils.safe_int\<close> and \<open>utils.clamp_int\<close>: any exception gives the default.\<close>

definition safe_int :: "pyval \<Rightarrow> int \<Rightarrow> int" where
  "safe_int v d = (case py_int v of Inl _ \<Rightarrow> d | Inr n \<Rightarrow> n)"

definition clamp_int :: "pyval \<Rightarrow> int \<Rightarrow> int \<Rightarrow> int option \<Rightarrow> int option" where
  "clamp_int v lo hi d = (case py_int v of Inl _ \<Rightarrow> d | Inr n \<Rightarrow> Some (max lo (min hi n)))"

text \<open>
  \<open>utils.coerce_bool\<close>: native booleans, the integers 0 and 1, and the textual spellings; any
  other value is a \<open>ValueError\<close>.
\<close>

definition coerce_bool :: "pyval \<Rightarrow> pyexc + bool" where
  "coerce_bool v = (case v of
       PBool b \<Rightarrow> Inr b
     | PInt n \<Rightarrow> if n = 0 then Inr False else if n = 1 then Inr True else Inl ValueError
     | PStr s \<Rightarrow> (let t = lower (strip s) in
         if t \<in> {U ''1'', U ''true'', U ''yes'', U ''on''} then Inr True
         else if t \<in> {U ''0'', U ''false'', U ''no'', U ''off''} then Inr False
         else Inl ValueError)
     | _ \<Rightarrow> Inl ValueError)"

section \<open>Lemmas\<close>

lemma lstrip_by_suffix: "suffix (lstrip_by P s) s"
  by (simp add: lstrip_by_def suffix_dropWhile)

lemma rstrip_by_prefix: "prefix (rstrip_by P s) s"
  using suffix_dropWhile [of P "rev s"] by (simp add: rstrip_by_def suffix_to_prefix)

lemma strip_by_sublist: "sublist (strip_by P s) s"
proof -
  have "sublist (rstrip_by P (lstrip_by P s)) (lstrip_by P s)"
    by (rule prefix_imp_sublist) (rule rstrip_by_prefix)
  moreover have "sublist (lstrip_by P s) s"
    by (rule suffix_imp_sublist) (rule lstrip_by_suffix)
  ultimately show ?thesis
    unfolding strip_by_def by (rule sublist_order.order_trans)
qed

lemma length_strip_by: "length (strip_by P s) \<le> length s"
  by (rule sublist_length_le) (rule strip_by_sublist)

lemma set_strip_by: "set (strip_by P s) \<subseteq> set s"
  by (rule set_mono_sublist) (rule strip_by_sublist)

lemma dropWhile_hd_id: "s \<noteq> [] \<Longrightarrow> \<not> P (hd s) \<Longrightarrow> dropWhile P s = s"
  by (cases s) auto

lemma strip_by_id: "s \<noteq> [] \<Longrightarrow> \<not> P (hd s) \<Longrightarrow> \<not> P (last s) \<Longrightarrow> strip_by P s = s"
  by (simp add: strip_by_def lstrip_by_def rstrip_by_def dropWhile_hd_id hd_rev)

lemma strip_by_Nil [simp]: "strip_by P [] = []"
  by (simp add: strip_by_def lstrip_by_def rstrip_by_def)

lemma strip_by_all_not: "\<forall>c \<in> set s. \<not> P c \<Longrightarrow> strip_by P s = s"
  by (cases "s = []") (auto intro!: strip_by_id)

lemma length_lower [simp]: "length (lower s) = length s"
  by (simp add: lower_def)

lemma lower_append [simp]: "lower (a @ b) = lower a @ lower b"
  by (simp add: lower_def)

lemma lower_Nil [simp]: "lower [] = []"
  by (simp add: lower_def)

lemma lower_cp_idem [simp]: "lower_cp (lower_cp c) = lower_cp c"
  by (auto simp: lower_cp_def)

lemma lower_idem [simp]: "lower (lower s) = lower s"
  by (simp add: lower_def)

lemma is_digit_48 [simp]: "n < 10 \<Longrightarrow> is_digit (48 + n)"
  by (simp add: is_digit_def)

lemma dec_digits: "\<forall>c \<in> set (dec n). is_digit c"
proof (induction n rule: dec.induct)
  case (1 n)
  show ?case
    using 1 by (subst dec.simps) (auto simp: is_digit_def)
qed

lemma dec_nonempty [simp]: "dec n \<noteq> []"
  by (subst dec.simps) simp

lemma digits_value_digits:
  "\<forall>c \<in> set xs. is_digit c \<Longrightarrow> xs \<noteq> [] \<or> a \<Longrightarrow>
   digits_value a acc xs = Some (foldl (\<lambda>n c. n * 10 + (c - 48)) acc xs)"
  by (induction a acc xs rule: digits_value.induct) auto

lemma foldl_dec: "foldl (\<lambda>n c. n * 10 + (c - 48)) 0 (dec n) = n"
proof (induction n rule: dec.induct)
  case (1 n)
  show ?case using 1 by (subst dec.simps) auto
qed

lemma nat_of_str_dec: "length (dec n) \<le> 4300 \<Longrightarrow> nat_of_str (dec n) = Some n"
  using dec_digits [of n] digits_value_digits [of "dec n" False 0]
  by (auto simp: nat_of_str_def foldl_dec filter_id_conv)

lemma dec_inj [simp]: "dec m = dec n \<longleftrightarrow> m = n"
  by (metis foldl_dec)

lemma is_digit_not_space: "is_digit c \<Longrightarrow> \<not> is_space c"
  by (auto simp: is_digit_def is_space_def)

lemma hd_dec_digit: "is_digit (hd (dec n))"
  using dec_digits [of n] hd_in_set [OF dec_nonempty [of n]] by blast

lemma int_of_str_dec: "length (dec n) \<le> 4300 \<Longrightarrow> int_of_str (dec n) = Some (int n)"
proof -
  assume len: "length (dec n) \<le> 4300"
  have s: "strip (dec n) = dec n"
    using dec_digits [of n] by (intro strip_by_all_not) (auto dest: is_digit_not_space)
  obtain c cs where c: "dec n = c # cs" by (cases "dec n") auto
  with hd_dec_digit [of n] have "is_digit c" by simp
  then have "c \<noteq> 45" "c \<noteq> 43" by (auto simp: is_digit_def)
  with nat_of_str_dec [OF len] s c show ?thesis by (simp add: int_of_str_def)
qed

lemma clamp_int_bounds: "lo \<le> hi \<Longrightarrow> clamp_int v lo hi None = Some n \<Longrightarrow> lo \<le> n \<and> n \<le> hi"
  by (auto simp: clamp_int_def split: sum.splits)

lemma coerce_bool_total: "coerce_bool v = Inl e \<Longrightarrow> e = ValueError"
  by (cases v) (auto simp: coerce_bool_def Let_def split: if_splits)

end
