(* ===== verification/Packet_Pipeline.thy ===== *)
theory Packet_Pipeline
  imports Py_Values
begin

text \<open>
  The bounded packet cache between the capture threads and the processing jobs, and the
  validation of its settings (\<^verbatim>\<open>packet_pipeline.py\<close>).

  Every method body of \<open>PacketCache\<close> runs under the cache's condition lock, so each is one
  atomic step on the record below and any interleaving of threads is a sequence of such
  steps. \<open>get\<close> releases the lock while it waits, so it is two steps: the entry, which
  either returns at once or starts waiting, and the resumption after the notification or
  the timeout.
\<close>

section \<open>State and operations\<close>

record 'a packet_cache =
  pc_items :: "'a list"
  pc_limit :: int
  pc_closed :: bool
  pc_accepted :: int
  pc_dropped :: int
  pc_peak :: int

definition new_cache :: "int \<Rightarrow> 'a packet_cache" where
  "new_cache bnd = \<lparr>pc_items = [], pc_limit = bnd, pc_closed = False,
                    pc_accepted = 0, pc_dropped = 0, pc_peak = 0\<rparr>"

text \<open>
  \<open>while len(items) > bound: items.popleft(); dropped += 1\<close>. The result is what is left,
  the new drop count and whether \<open>popleft\<close> raised on an empty deque, which happens only
  when the bound is negative.
\<close>

fun evict :: "int \<Rightarrow> 'a list \<Rightarrow> int \<Rightarrow> 'a list \<times> int \<times> bool" where
  "evict bound [] d = ([], d, 0 > bound)"
| "evict bound (x # xs) d =
     (if int (length (x # xs)) > bound then evict bound xs (d + 1) else (x # xs, d, False))"

definition put :: "'a \<Rightarrow> 'a packet_cache \<Rightarrow> (pyexc + bool) \<times> 'a packet_cache" where
  "put x c =
    (if pc_closed c then (Inr False, c)
     else case evict (pc_limit c - 1) (pc_items c) (pc_dropped c) of (xs, d, raised) \<Rightarrow>
       if raised then (Inl IndexError, c\<lparr>pc_items := xs, pc_dropped := d\<rparr>)
       else let ys = xs @ [x] in
         (Inr True, c\<lparr>pc_items := ys, pc_dropped := d, pc_accepted := pc_accepted c + 1,
                      pc_peak := max (pc_peak c) (int (length ys))\<rparr>))"

definition get_many :: "int \<Rightarrow> 'a packet_cache \<Rightarrow> 'a list \<times> 'a packet_cache" where
  "get_many n c = (take (nat n) (pc_items c), c\<lparr>pc_items := drop (nat n) (pc_items c)\<rparr>)"

definition get_resume :: "'a packet_cache \<Rightarrow> 'a option \<times> 'a packet_cache" where
  "get_resume c = (case pc_items c of [] \<Rightarrow> (None, c) | x # xs \<Rightarrow> (Some x, c\<lparr>pc_items := xs\<rparr>))"

definition get_waits :: "'a packet_cache \<Rightarrow> bool" where
  "get_waits c \<longleftrightarrow> pc_items c = [] \<and> \<not> pc_closed c"

definition set_limit :: "int \<Rightarrow> 'a packet_cache \<Rightarrow> (pyexc + unit) \<times> 'a packet_cache" where
  "set_limit n c =
    (case evict n (pc_items c) (pc_dropped c) of (xs, d, raised) \<Rightarrow>
       (if raised then Inl IndexError else Inr (), c\<lparr>pc_limit := n, pc_items := xs, pc_dropped := d\<rparr>))"

definition reset_counters :: "'a packet_cache \<Rightarrow> 'a packet_cache" where
  "reset_counters c = c\<lparr>pc_accepted := 0, pc_dropped := 0, pc_peak := int (length (pc_items c))\<rparr>"

definition close_cache :: "'a packet_cache \<Rightarrow> 'a packet_cache" where
  "close_cache c = c\<lparr>pc_closed := True, pc_items := []\<rparr>"

section \<open>Interleavings\<close>

datatype 'a cache_op =
  Put 'a | GetMany int | GetEnter | GetResume | SetLimit int | ResetCounters | Close

datatype 'a cache_res = Accepted bool | Taken "'a list" | Waiting | Nothing | Unit | Raised pyexc

definition get_res :: "'a option \<Rightarrow> 'a cache_res" where
  "get_res r = (case r of None \<Rightarrow> Nothing | Some x \<Rightarrow> Taken [x])"

fun cache_step :: "'a cache_op \<Rightarrow> 'a packet_cache \<Rightarrow> 'a cache_res \<times> 'a packet_cache" where
  "cache_step (Put x) c = (case put x c of (Inl e, c') \<Rightarrow> (Raised e, c') | (Inr b, c') \<Rightarrow> (Accepted b, c'))"
| "cache_step (GetMany n) c = (case get_many n c of (xs, c') \<Rightarrow> (Taken xs, c'))"
| "cache_step GetEnter c =
     (if get_waits c then (Waiting, c) else case get_resume c of (r, c') \<Rightarrow> (get_res r, c'))"
| "cache_step GetResume c = (case get_resume c of (r, c') \<Rightarrow> (get_res r, c'))"
| "cache_step (SetLimit n) c =
     (case set_limit n c of (Inl e, c') \<Rightarrow> (Raised e, c') | (Inr _, c') \<Rightarrow> (Unit, c'))"
| "cache_step ResetCounters c = (Unit, reset_counters c)"
| "cache_step Close c = (Unit, close_cache c)"

type_synonym 'a cache_trace = "('a cache_op \<times> 'a cache_res) list"

fun cache_run :: "'a cache_op list \<Rightarrow> 'a packet_cache \<Rightarrow> 'a cache_trace \<times> 'a packet_cache" where
  "cache_run [] c = ([], c)"
| "cache_run (p # ps) c =
     (case cache_step p c of (r, c') \<Rightarrow> case cache_run ps c' of (tr, c'') \<Rightarrow> ((p, r) # tr, c''))"

text \<open>What the producers got in and what the consumers got out, in order.\<close>

fun accepted_of :: "'a cache_op \<times> 'a cache_res \<Rightarrow> 'a list" where
  "accepted_of (Put x, Accepted True) = [x]"
| "accepted_of _ = []"

fun taken_of :: "'a cache_op \<times> 'a cache_res \<Rightarrow> 'a list" where
  "taken_of (_, Taken xs) = xs"
| "taken_of _ = []"

definition accepted_seq :: "'a cache_trace \<Rightarrow> 'a list" where
  "accepted_seq tr = concat (map accepted_of tr)"

definition taken_seq :: "'a cache_trace \<Rightarrow> 'a list" where
  "taken_seq tr = concat (map taken_of tr)"

section \<open>Settings\<close>

definition PACKET_CACHE_LIMIT_DEFAULT :: int where "PACKET_CACHE_LIMIT_DEFAULT = 20000"
definition PACKET_CACHE_LIMIT_MIN :: int where "PACKET_CACHE_LIMIT_MIN = 1000"
definition PACKET_CACHE_LIMIT_MAX :: int where "PACKET_CACHE_LIMIT_MAX = 1000000"
definition PACKET_JOBS_DEFAULT :: int where "PACKET_JOBS_DEFAULT = 2"
definition PIPELINE_BATCH_MAX :: int where "PIPELINE_BATCH_MAX = 64"
definition PACKET_JOBS_MIN :: int where "PACKET_JOBS_MIN = 1"
definition PACKET_JOBS_MAX :: int where "PACKET_JOBS_MAX = 16"
definition PERSIST_MODES :: "ustr list" where "PERSIST_MODES = [U ''alerts'', U ''all'']"

lemmas pipeline_consts =
  PACKET_CACHE_LIMIT_DEFAULT_def PACKET_CACHE_LIMIT_MIN_def PACKET_CACHE_LIMIT_MAX_def
  PACKET_JOBS_DEFAULT_def PIPELINE_BATCH_MAX_def PACKET_JOBS_MIN_def PACKET_JOBS_MAX_def

definition bounded_int :: "pyval \<Rightarrow> int \<Rightarrow> int \<Rightarrow> pyexc + int" where
  "bounded_int v low high =
    (if (case v of PInt _ \<Rightarrow> True | PFloat _ \<Rightarrow> True | PStr _ \<Rightarrow> True | _ \<Rightarrow> False) then
       (case py_int v of
          Inl e \<Rightarrow> Inl (if e = TypeError \<or> e = ValueError then ValueError else e)
        | Inr n \<Rightarrow> if n < low \<or> n > high then Inl ValueError else Inr n)
     else Inl ValueError)"

record pipeline_settings =
  ps_cache_limit :: "int option"
  ps_jobs :: "int option"
  ps_persist_mode :: "ustr option"

text \<open>
  \<open>str(values["persist_mode"] or "")\<close> is \<open>py_str\<close> of a truthy value; the value is a
  persist mode only when it is one of the two strings, and no number, list or dictionary
  prints as one of them, so every truthy non-string is a \<open>ValueError\<close>.
\<close>

definition mode_text :: "pyval \<Rightarrow> ustr option" where
  "mode_text v = (if \<not> truthy v then Some [] else case v of PStr s \<Rightarrow> Some (lower (strip s)) | _ \<Rightarrow> None)"

definition coerce_pipeline_settings :: "pyval \<Rightarrow> pyexc + pipeline_settings" where
  "coerce_pipeline_settings values =
    (case values of
       PDict d \<Rightarrow>
         (case (case map_of d (U ''cache_limit'') of None \<Rightarrow> Inr None
                | Some v \<Rightarrow> map_sum id Some (bounded_int v PACKET_CACHE_LIMIT_MIN PACKET_CACHE_LIMIT_MAX)) of
            Inl e \<Rightarrow> Inl e
          | Inr bnd \<Rightarrow>
         (case (case map_of d (U ''jobs'') of None \<Rightarrow> Inr None
                | Some v \<Rightarrow> map_sum id Some (bounded_int v PACKET_JOBS_MIN PACKET_JOBS_MAX)) of
            Inl e \<Rightarrow> Inl e
          | Inr jobs \<Rightarrow>
         (case (case map_of d (U ''persist_mode'') of None \<Rightarrow> Inr None
                | Some v \<Rightarrow> (case mode_text v of
                     Some m \<Rightarrow> if m \<in> set PERSIST_MODES then Inr (Some m) else Inl ValueError
                   | None \<Rightarrow> Inl ValueError)) of
            Inl e \<Rightarrow> Inl e
          | Inr mode \<Rightarrow> Inr \<lparr>ps_cache_limit = bnd, ps_jobs = jobs, ps_persist_mode = mode\<rparr>)))
     | _ \<Rightarrow> Inl ValueError)"

section \<open>Eviction\<close>

lemma evict_eq:
  "0 \<le> bound \<Longrightarrow> evict bound xs d =
     (drop (length xs - nat bound) xs, d + int (length xs - nat bound), False)"
proof (induction xs arbitrary: d)
  case (Cons x xs)
  show ?case
  proof (cases "int (length (x # xs)) > bound")
    case True
    then have "length (x # xs) - nat bound = Suc (length xs - nat bound)" using Cons.prems by simp
    with True Cons show ?thesis by simp
  next
    case False
    then have "length (x # xs) - nat bound = 0" by simp
    with False show ?thesis by simp
  qed
qed simp

lemma evict_neg: "bound < 0 \<Longrightarrow> evict bound xs d = ([], d + int (length xs), True)"
  by (induction xs arbitrary: d) auto

lemma suffix_drop_iff: "suffix (drop n xs) xs"
  by (rule suffix_drop)

section \<open>Lemmas on single steps\<close>

definition cache_inv :: "'a packet_cache \<Rightarrow> bool" where
  "cache_inv c \<longleftrightarrow> pc_limit c > 0 \<and> int (length (pc_items c)) \<le> pc_limit c
     \<and> int (length (pc_items c)) \<le> pc_peak c \<and> pc_dropped c \<ge> 0 \<and> pc_accepted c \<ge> 0"

text \<open>An operation the program can issue: every limit is positive (see \<open>coerce_pipeline_settings\<close>).\<close>

fun op_ok :: "'a cache_op \<Rightarrow> bool" where
  "op_ok (SetLimit n) = (n > 0)"
| "op_ok _ = True"

lemma put_open:
  assumes "\<not> pc_closed c" "pc_limit c > 0"
  shows "put x c = (Inr True, c\<lparr>
      pc_items := drop (length (pc_items c) - nat (pc_limit c - 1)) (pc_items c) @ [x],
      pc_dropped := pc_dropped c + int (length (pc_items c) - nat (pc_limit c - 1)),
      pc_accepted := pc_accepted c + 1,
      pc_peak := max (pc_peak c)
        (int (length (drop (length (pc_items c) - nat (pc_limit c - 1)) (pc_items c) @ [x])))\<rparr>)"
  using assms by (simp add: put_def evict_eq Let_def)

lemma put_closed: "pc_closed c \<Longrightarrow> put x c = (Inr False, c)"
  by (simp add: put_def)

lemma cache_step_inv: "cache_inv c \<Longrightarrow> op_ok p \<Longrightarrow> cache_inv (snd (cache_step p c))"
proof (cases p)
  case (Put x)
  assume "cache_inv c" "op_ok p"
  then show ?thesis using Put
    by (cases "pc_closed c") (auto simp: put_open put_closed cache_inv_def)
next
  case (SetLimit n)
  assume "cache_inv c" "op_ok p"
  then show ?thesis using SetLimit
    by (auto simp: set_limit_def evict_eq cache_inv_def)
qed (auto simp: cache_inv_def get_many_def get_resume_def get_waits_def reset_counters_def
  close_cache_def split: list.splits)

lemma cache_step_no_raise: "cache_inv c \<Longrightarrow> op_ok p \<Longrightarrow> fst (cache_step p c) \<noteq> Raised e"
  by (cases p; cases "pc_closed c")
     (auto simp: put_open put_closed cache_inv_def set_limit_def evict_eq get_many_def get_resume_def
       get_res_def split: list.splits)

text \<open>
  One step moves a prefix of what was waiting out of the cache; what a consumer received is
  part of that prefix, and the accepted item, if any, is at the back.
\<close>

lemma evict_split: "evict bound xs d = (ys, d', r) \<Longrightarrow> \<exists>zs. xs = zs @ ys \<and> d' = d + int (length zs)"
proof (induction xs arbitrary: d)
  case (Cons x xs)
  show ?case
  proof (cases "int (length (x # xs)) > bound")
    case True
    with Cons.prems have "evict bound xs (d + 1) = (ys, d', r)" by simp
    from Cons.IH [OF this] obtain zs where "xs = zs @ ys" "d' = d + 1 + int (length zs)" by blast
    then have "x # xs = (x # zs) @ ys \<and> d' = d + int (length (x # zs))" by simp
    then show ?thesis by blast
  qed (use Cons.prems in auto)
qed auto

lemma cache_step_moves:
  "\<exists>out. pc_items c @ accepted_of (p, fst (cache_step p c)) = out @ pc_items (snd (cache_step p c))
     \<and> subseq (taken_of (p, fst (cache_step p c))) out"
proof (cases p)
  case (Put x)
  obtain xs d r where e: "evict (pc_limit c - 1) (pc_items c) (pc_dropped c) = (xs, d, r)"
    by (cases "evict (pc_limit c - 1) (pc_items c) (pc_dropped c)") auto
  from evict_split [OF this] obtain zs where "pc_items c = zs @ xs" by blast
  with Put e show ?thesis
    by (cases "pc_closed c"; cases r) (auto simp: put_def Let_def intro: exI [of _ zs])
next
  case (GetMany n)
  then show ?thesis
    by (auto simp: get_many_def intro!: exI [of _ "take (nat n) (pc_items c)"])
next
  case (SetLimit n)
  obtain xs d r where e: "evict n (pc_items c) (pc_dropped c) = (xs, d, r)"
    by (cases "evict n (pc_items c) (pc_dropped c)") auto
  from evict_split [OF this] obtain zs where "pc_items c = zs @ xs" by blast
  with SetLimit e show ?thesis
    by (cases r) (auto simp: set_limit_def intro: exI [of _ zs])
qed (auto simp: get_resume_def get_res_def reset_counters_def close_cache_def split: list.splits)

lemma cache_step_count:
  assumes "p \<noteq> Close" "p \<noteq> ResetCounters" "step = cache_step p c"
  shows "pc_accepted (snd step) = pc_accepted c + int (length (accepted_of (p, fst step)))"
    and "pc_dropped (snd step) + int (length (taken_of (p, fst step))) + int (length (pc_items (snd step)))
       = pc_dropped c + int (length (pc_items c)) + int (length (accepted_of (p, fst step)))"
proof -
  have "pc_accepted (snd step) = pc_accepted c + int (length (accepted_of (p, fst step)))
    \<and> pc_dropped (snd step) + int (length (taken_of (p, fst step))) + int (length (pc_items (snd step)))
       = pc_dropped c + int (length (pc_items c)) + int (length (accepted_of (p, fst step)))"
  proof (cases p)
    case (Put x)
    obtain xs d r where e: "evict (pc_limit c - 1) (pc_items c) (pc_dropped c) = (xs, d, r)"
      by (cases "evict (pc_limit c - 1) (pc_items c) (pc_dropped c)") auto
    from evict_split [OF this] obtain zs
      where "pc_items c = zs @ xs" "d = pc_dropped c + int (length zs)" by blast
    with Put e assms show ?thesis
      by (cases "pc_closed c"; cases r) (auto simp: put_def Let_def)
  next
    case (SetLimit n)
    obtain xs d r where e: "evict n (pc_items c) (pc_dropped c) = (xs, d, r)"
      by (cases "evict n (pc_items c) (pc_dropped c)") auto
    from evict_split [OF this] obtain zs
      where "pc_items c = zs @ xs" "d = pc_dropped c + int (length zs)" by blast
    with SetLimit e assms show ?thesis by (cases r) (auto simp: set_limit_def)
  qed (use assms in \<open>auto simp: get_many_def get_resume_def get_res_def split: list.splits\<close>)
  then show "pc_accepted (snd step) = pc_accepted c + int (length (accepted_of (p, fst step)))"
    and "pc_dropped (snd step) + int (length (taken_of (p, fst step))) + int (length (pc_items (snd step)))
       = pc_dropped c + int (length (pc_items c)) + int (length (accepted_of (p, fst step)))"
    by auto
qed

section \<open>Runs\<close>

lemma cache_run_Cons:
  "cache_run (p # ps) c =
     ((p, fst (cache_step p c)) # fst (cache_run ps (snd (cache_step p c))),
      snd (cache_run ps (snd (cache_step p c))))"
  by (simp add: split_beta)

lemma cache_run_inv: "cache_inv c \<Longrightarrow> list_all op_ok ps \<Longrightarrow> cache_inv (snd (cache_run ps c))"
  by (induction ps arbitrary: c) (auto simp: cache_run_Cons cache_step_inv simp del: cache_run.simps(2))

lemma cache_run_no_raise:
  "cache_inv c \<Longrightarrow> list_all op_ok ps \<Longrightarrow> Raised e \<notin> snd ` set (fst (cache_run ps c))"
  by (induction ps arbitrary: c)
     (auto simp: cache_run_Cons cache_step_inv cache_step_no_raise simp del: cache_run.simps(2)
       dest: cache_step_no_raise sym)

lemma cache_run_moves:
  "\<exists>out. pc_items c @ accepted_seq (fst (cache_run ps c)) = out @ pc_items (snd (cache_run ps c))
     \<and> subseq (taken_seq (fst (cache_run ps c))) out"
proof (induction ps arbitrary: c)
  case (Cons p ps)
  let ?c = "snd (cache_step p c)"
  obtain o1 where o1: "pc_items c @ accepted_of (p, fst (cache_step p c)) = o1 @ pc_items ?c"
      "subseq (taken_of (p, fst (cache_step p c))) o1" using cache_step_moves by blast
  obtain o2 where o2: "pc_items ?c @ accepted_seq (fst (cache_run ps ?c)) = o2 @ pc_items (snd (cache_run ps ?c))"
      "subseq (taken_seq (fst (cache_run ps ?c))) o2" using Cons.IH by blast
  have "pc_items c @ accepted_seq (fst (cache_run (p # ps) c)) = (o1 @ o2) @ pc_items (snd (cache_run (p # ps) c))"
    using o1(1) o2(1) unfolding cache_run_Cons accepted_seq_def
    by (metis append.assoc concat.simps(2) fst_conv list.simps(9) snd_conv)
  moreover have "subseq (taken_seq (fst (cache_run (p # ps) c))) (o1 @ o2)"
    using o1(2) o2(2) by (simp add: cache_run_Cons taken_seq_def list_emb_append_mono del: cache_run.simps(2))
  ultimately show ?case by blast
qed (auto simp: accepted_seq_def taken_seq_def)

lemma cache_run_accepted:
  "Close \<notin> set ps \<Longrightarrow> ResetCounters \<notin> set ps \<Longrightarrow>
   pc_accepted (snd (cache_run ps c)) = pc_accepted c + int (length (accepted_seq (fst (cache_run ps c))))"
proof (induction ps arbitrary: c)
  case (Cons p ps)
  then show ?case using cache_step_count(1) [OF _ _ refl, of p c]
    by (auto simp: cache_run_Cons accepted_seq_def simp del: cache_run.simps(2))
qed (simp add: accepted_seq_def)

lemma cache_run_count:
  "Close \<notin> set ps \<Longrightarrow> ResetCounters \<notin> set ps \<Longrightarrow>
   pc_dropped (snd (cache_run ps c)) + int (length (taken_seq (fst (cache_run ps c))))
     + int (length (pc_items (snd (cache_run ps c))))
   = pc_dropped c + int (length (pc_items c)) + int (length (accepted_seq (fst (cache_run ps c))))"
proof (induction ps arbitrary: c)
  case (Cons p ps)
  let ?c = "snd (cache_step p c)"
  have "pc_dropped (snd (cache_run ps ?c)) + int (length (taken_seq (fst (cache_run ps ?c))))
      + int (length (pc_items (snd (cache_run ps ?c))))
    = pc_dropped ?c + int (length (pc_items ?c)) + int (length (accepted_seq (fst (cache_run ps ?c))))"
    using Cons.IH Cons.prems by simp
  moreover have "p \<noteq> Close" "p \<noteq> ResetCounters" using Cons.prems by auto
  ultimately show ?case using cache_step_count(2) [OF _ _ refl, of p c]
    by (simp add: cache_run_Cons accepted_seq_def taken_seq_def del: cache_run.simps(2))
qed (simp add: accepted_seq_def taken_seq_def)

lemma new_cache_inv: "bnd > 0 \<Longrightarrow> cache_inv (new_cache bnd)"
  by (simp add: new_cache_def cache_inv_def)

lemma bounded_int_range: "bounded_int v low high = Inr n \<Longrightarrow> low \<le> n \<and> n \<le> high"
  by (auto simp: bounded_int_def split: if_splits sum.splits pyval.splits)

lemma bounded_int_errors: "bounded_int v low high = Inl e \<Longrightarrow> e = ValueError \<or> e = OverflowError"
  by (cases v rule: py_int.cases)
     (auto simp: bounded_int_def split: if_splits sum.splits option.splits)

lemma map_sum_cases:
  assumes "map_sum id Some r = s" "\<And>e. r = Inl e \<Longrightarrow> s = Inl e \<Longrightarrow> P" "\<And>x. r = Inr x \<Longrightarrow> s = Inr (Some x) \<Longrightarrow> P"
  shows P
  using assms by (cases r) auto

section \<open>The cache as a queue\<close>

text \<open>
  What a processing job relies on: taking one item or a batch removes exactly the oldest
  items, in order. \<open>next_batch\<close> is one turn of \<open>Sniffer._pipeline_worker\<close>; \<open>env\<close> is what the
  other threads do between its two calls.
\<close>

definition next_batch ::
  "('s \<Rightarrow> 'a option \<times> 's) \<Rightarrow> (int \<Rightarrow> 's \<Rightarrow> 'a list \<times> 's) \<Rightarrow> ('s \<Rightarrow> 's) \<Rightarrow> 's \<Rightarrow> 'a list \<times> 's" where
  "next_batch get1 many env s =
     (case get1 s of
        (None, s1) \<Rightarrow> ([], s1)
      | (Some x, s1) \<Rightarrow> (case many (PIPELINE_BATCH_MAX - 1) (env s1) of (xs, s2) \<Rightarrow> (x # xs, s2)))"

locale packet_queue =
  fixes waiting :: "'s \<Rightarrow> 'a list"
    and get1 :: "'s \<Rightarrow> 'a option \<times> 's"
    and many :: "int \<Rightarrow> 's \<Rightarrow> 'a list \<times> 's"
  assumes get1_res: "fst (get1 s) = (case waiting s of [] \<Rightarrow> None | x # _ \<Rightarrow> Some x)"
    and get1_rest: "waiting (snd (get1 s)) = tl (waiting s)"
    and many_res: "fst (many n s) = take (nat n) (waiting s)"
    and many_rest: "waiting (snd (many n s)) = drop (nat n) (waiting s)"
begin

lemma batch_length: "length (fst (next_batch get1 many env s)) \<le> nat PIPELINE_BATCH_MAX"
  using many_res by (auto simp: next_batch_def pipeline_consts split: option.splits prod.splits)
    (metis fst_conv length_take min.cobounded2 nat_numeral)

lemma batch_oldest_first:
  "fst (next_batch get1 many id s) @ waiting (snd (next_batch get1 many id s)) = waiting s"
proof (cases "waiting s")
  case Nil
  obtain r s1 where g: "get1 s = (r, s1)" by (cases "get1 s")
  with get1_res [of s] get1_rest [of s] Nil show ?thesis by (simp add: next_batch_def)
next
  case (Cons x xs)
  obtain r s1 where g: "get1 s = (r, s1)" by (cases "get1 s")
  obtain ys s2 where m: "many (PIPELINE_BATCH_MAX - 1) s1 = (ys, s2)"
    by (cases "many (PIPELINE_BATCH_MAX - 1) s1")
  from g get1_res [of s] get1_rest [of s] Cons have "r = Some x" "waiting s1 = xs" by auto
  moreover from m many_res [of "PIPELINE_BATCH_MAX - 1" s1] many_rest [of "PIPELINE_BATCH_MAX - 1" s1]
  have "ys @ waiting s2 = waiting s1" by simp
  ultimately show ?thesis using g m Cons by (simp add: next_batch_def)
qed

lemma batch_empty_iff: "fst (next_batch get1 many env s) = [] \<longleftrightarrow> waiting s = []"
  using get1_res [of s]
  by (cases "get1 s") (auto simp: next_batch_def split: list.splits option.splits prod.splits)

end

interpretation cache: packet_queue pc_items get_resume get_many
  by unfold_locales (auto simp: get_resume_def get_many_def split: list.splits)

section \<open>Properties\<close>

text \<open>
  Under any interleaving of the cache's methods whose limits are positive, starting from
  a fresh cache, the number of waiting packets never exceeds the retention limit in force,
  the recorded peak is at least the depth, and no method raises.
\<close>

theorem cache_bounded:
  assumes "0 < bnd" "list_all op_ok ps" "cache_run ps (new_cache bnd) = (tr, c)"
  shows "int (length (pc_items c)) \<le> pc_limit c \<and> int (length (pc_items c)) \<le> pc_peak c
    \<and> (\<forall>e. Raised e \<notin> snd ` set tr)"
  using cache_run_inv [OF new_cache_inv [OF assms(1)] assms(2)]
    cache_run_no_raise [OF new_cache_inv [OF assms(1)] assms(2)] assms(3)
  by (auto simp: cache_inv_def)

definition demo_ops :: "nat cache_op list" where
  "demo_ops = [Put 1, Put 2, Put 3, GetEnter, SetLimit 1, Put 4, GetMany 5]"

lemma demo_run: "cache_run demo_ops (new_cache 2) =
    ([(Put 1, Accepted True), (Put 2, Accepted True), (Put 3, Accepted True), (GetEnter, Taken [2]),
      (SetLimit 1, Unit), (Put 4, Accepted True), (GetMany 5, Taken [4])],
     \<lparr>pc_items = [], pc_limit = 1, pc_closed = False, pc_accepted = 4, pc_dropped = 2, pc_peak = 2\<rparr>)"
  by (simp add: demo_ops_def new_cache_def put_def Let_def get_waits_def get_resume_def get_res_def
      set_limit_def get_many_def)

lemma demo_ops_ok: "list_all op_ok demo_ops" "Close \<notin> set demo_ops" "ResetCounters \<notin> set demo_ops"
  by (simp_all add: demo_ops_def)

theorem cache_bounded_witness:
  "int (length (pc_items (snd (cache_run demo_ops (new_cache 2))))) \<le> 1"
  using cache_bounded [of 2 demo_ops, OF _ demo_ops_ok(1) demo_run] by (simp add: demo_run)

text \<open>
  First in, first out, newest survive: whatever the interleaving (and whatever the
  limits), the packets the cache accepted are some departed packets followed by exactly those
  still waiting, and what the consumers received is, in order, part of the departed ones.
\<close>

theorem cache_fifo:
  "\<exists>departed. accepted_seq (fst (cache_run ps (new_cache bnd)))
       = departed @ pc_items (snd (cache_run ps (new_cache bnd)))
     \<and> subseq (taken_seq (fst (cache_run ps (new_cache bnd)))) departed"
  using cache_run_moves [of "new_cache bnd" ps] by (simp add: new_cache_def)

text \<open>
  C26. Conservation: as long as the cache is not closed and its counters are not reset, every
  accepted packet is counted exactly once as dropped, or was handed to a consumer, or is
  still waiting, and \<open>accepted\<close> counts the accepted packets.
\<close>

theorem cache_conservation:
  assumes "Close \<notin> set ps" "ResetCounters \<notin> set ps" "cache_run ps (new_cache bnd) = (tr, c)"
  shows "pc_accepted c = int (length (accepted_seq tr))
    \<and> pc_accepted c = pc_dropped c + int (length (taken_seq tr)) + int (length (pc_items c))"
  using cache_run_accepted [OF assms(1,2), of "new_cache bnd"] cache_run_count [OF assms(1,2), of "new_cache bnd"]
    assms(3) by (simp add: new_cache_def)

theorem cache_conservation_witness:
  "pc_accepted (snd (cache_run demo_ops (new_cache 2)))
     = int (length (accepted_seq (fst (cache_run demo_ops (new_cache 2)))))"
  using cache_conservation [OF demo_ops_ok(2,3) demo_run] by (simp add: demo_run)

text \<open>
  Settings that pass validation are in range, so every cache built or resized from them
  has a positive limit; a rejected document raises \<open>ValueError\<close>, or the \<open>OverflowError\<close>
  that \<open>int()\<close> raises on an infinite float, which \<open>_bounded_int\<close> does not catch.
\<close>

theorem pipeline_settings_range:
  "case coerce_pipeline_settings v of
     Inr s \<Rightarrow>
       (case ps_cache_limit s of None \<Rightarrow> True | Some n \<Rightarrow> 1000 \<le> n \<and> n \<le> 1000000 \<and> cache_inv (new_cache n))
       \<and> (case ps_jobs s of None \<Rightarrow> True | Some n \<Rightarrow> 1 \<le> n \<and> n \<le> 16)
       \<and> (case ps_persist_mode s of None \<Rightarrow> True | Some m \<Rightarrow> m = U ''alerts'' \<or> m = U ''all'')
   | Inl e \<Rightarrow> e = ValueError \<or> e = OverflowError"
proof (cases v)
  case (PDict d)
  show ?thesis
    unfolding PDict coerce_pipeline_settings_def pyval.case
    by (auto simp: PERSIST_MODES_def new_cache_inv pipeline_consts
        split: option.splits sum.splits if_splits elim!: map_sum_cases
        dest: bounded_int_range bounded_int_errors)
qed (simp_all add: coerce_pipeline_settings_def)

end
