(* ===== verification/Py_Text.thy ===== *)
theory Py_Text
  imports Py_Values
begin

text \<open>
  The text and byte-string operations the program uses (Python's \<open>str\<close> and \<open>bytes\<close> methods,
  \<open>ipaddress\<close> printing) and the text helpers of \<^verbatim>\<open>utils.py\<close> built from them.
\<close>

section \<open>Searching and splitting\<close>

definition startswith :: "'a list \<Rightarrow> 'a list \<Rightarrow> bool" where
  "startswith s p \<longleftrightarrow> take (length p) s = p"

lemma startswith_prefix: "startswith s p \<longleftrightarrow> prefix p s"
  by (simp add: startswith_def prefix_def) (metis append_eq_conv_conj append_take_drop_id)

text \<open>\<open>s.find(p)\<close>: the first index at which \<open>p\<close> occurs, \<open>None\<close> for Python's \<open>-1\<close>.\<close>

fun find_sub :: "'a list \<Rightarrow> 'a list \<Rightarrow> nat option" where
  "find_sub p [] = (if p = [] then Some 0 else None)"
| "find_sub p (c # cs) = (if startswith (c # cs) p then Some 0 else map_option Suc (find_sub p cs))"

lemma find_sub_Some: "find_sub p s = Some i \<Longrightarrow> i + length p \<le> length s \<and> startswith (drop i s) p"
proof (induction s arbitrary: i)
  case (Cons c cs)
  then show ?case
    by (cases "startswith (c # cs) p") (auto simp: startswith_prefix dest: prefix_length_le)
qed (auto simp: startswith_def split: if_splits)

lemma find_sub_None: "find_sub p s = None \<longleftrightarrow> \<not> sublist p s"
proof (induction s)
  case (Cons c cs)
  then show ?case by (auto simp: startswith_prefix sublist_Cons_right)
qed auto

definition contains :: "'a list \<Rightarrow> 'a list \<Rightarrow> bool" where
  "contains s p \<longleftrightarrow> find_sub p s \<noteq> None"

lemma contains_sublist: "contains s p \<longleftrightarrow> sublist p s"
  by (simp add: contains_def find_sub_None)

text \<open>\<open>s.split(c, n)\<close> for a one-character separator; \<open>None\<close> for no limit.\<close>

fun split_from :: "'a \<Rightarrow> nat option \<Rightarrow> 'a list \<Rightarrow> 'a list \<Rightarrow> 'a list list" where
  "split_from c n acc [] = [acc]"
| "split_from c n acc (x # xs) =
     (if x = c \<and> n \<noteq> Some 0 then acc # split_from c (map_option (\<lambda>k. k - 1) n) [] xs
      else split_from c n (acc @ [x]) xs)"

definition split_at :: "'a \<Rightarrow> nat option \<Rightarrow> 'a list \<Rightarrow> 'a list list" where
  "split_at c n s = split_from c n [] s"

lemma split_from_nonempty [simp]: "split_from c n acc s \<noteq> []"
  by (induction s arbitrary: n acc) auto

lemma split_at_nonempty [simp]: "split_at c n s \<noteq> []"
  by (simp add: split_at_def)

text \<open>\<open>s.split()\<close>: the maximal runs of non-space characters.\<close>

fun words_from :: "ustr \<Rightarrow> ustr \<Rightarrow> ustr list" where
  "words_from acc [] = (if acc = [] then [] else [acc])"
| "words_from acc (c # cs) =
     (if is_space c then (if acc = [] then [] else [acc]) @ words_from [] cs else words_from (acc @ [c]) cs)"

definition words :: "ustr \<Rightarrow> ustr list" where
  "words s = words_from [] s"

text \<open>\<open>sep.join(parts)\<close>.\<close>

fun join :: "'a list \<Rightarrow> 'a list list \<Rightarrow> 'a list" where
  "join sep [] = []"
| "join sep [x] = x"
| "join sep (x # y # ys) = x @ sep @ join sep (y # ys)"

text \<open>ASCII upper-casing: the code only upper-cases protocol names and printable-ASCII text.\<close>

definition upper :: "ustr \<Rightarrow> ustr" where
  "upper s = map (\<lambda>c. if 97 \<le> c \<and> c \<le> 122 then c - 32 else c) s"

definition is_alpha :: "nat \<Rightarrow> bool" where
  "is_alpha c \<longleftrightarrow> (65 \<le> c \<and> c \<le> 90) \<or> (97 \<le> c \<and> c \<le> 122)"

definition all_digits :: "ustr \<Rightarrow> bool" where
  "all_digits s \<longleftrightarrow> s \<noteq> [] \<and> list_all is_digit s"

section \<open>Decoding\<close>

text \<open>
  UTF-8 with an error handler: \<open>err\<close> is what one ill-formed maximal subpart decodes to, \<open>[]\<close>
  for \<open>errors="ignore"\<close> and U+FFFD for \<open>errors="replace"\<close>. \<open>utf8_step b bs\<close> is the code point
  (or an error) at a lead byte and the number of following bytes it consumes.
\<close>

definition is_cont :: "nat \<Rightarrow> bool" where
  "is_cont b \<longleftrightarrow> 128 \<le> b \<and> b < 192"

definition second_ok :: "nat \<Rightarrow> nat \<Rightarrow> bool" where
  "second_ok b c \<longleftrightarrow>
     (if b = 224 then 160 \<le> c \<and> c < 192
      else if b = 237 then 128 \<le> c \<and> c < 160
      else if b = 240 then 144 \<le> c \<and> c < 192
      else if b = 244 then 128 \<le> c \<and> c < 144
      else is_cont c)"

fun utf8_step :: "nat \<Rightarrow> nat list \<Rightarrow> nat option \<times> nat" where
  "utf8_step b bs =
     (if b < 128 then (Some b, 0)
      else if b < 194 \<or> b > 244 then (None, 0)
      else case bs of
        [] \<Rightarrow> (None, 0)
      | c # cs \<Rightarrow>
          if \<not> second_ok b c then (None, 0)
          else if b < 224 then (Some ((b - 192) * 64 + (c - 128)), 1)
          else case cs of
            [] \<Rightarrow> (None, 1)
          | d # ds \<Rightarrow>
              if \<not> is_cont d then (None, 1)
              else if b < 240 then (Some ((b - 224) * 4096 + (c - 128) * 64 + (d - 128)), 2)
              else case ds of
                [] \<Rightarrow> (None, 2)
              | e # es \<Rightarrow>
                  if \<not> is_cont e then (None, 2)
                  else (Some ((b - 240) * 262144 + (c - 128) * 4096 + (d - 128) * 64 + (e - 128)), 3))"

fun utf8_from :: "ustr \<Rightarrow> nat list \<Rightarrow> ustr" where
  "utf8_from err [] = []"
| "utf8_from err (b # bs) =
     (case utf8_step b bs of (r, k) \<Rightarrow>
        (case r of None \<Rightarrow> err | Some c \<Rightarrow> [c]) @ utf8_from err (drop k bs))"

definition utf8_ignore :: "bytes \<Rightarrow> ustr" where
  "utf8_ignore bs = utf8_from [] (map unat bs)"

definition utf8_replace :: "bytes \<Rightarrow> ustr" where
  "utf8_replace bs = utf8_from [65533] (map unat bs)"

definition ascii_replace :: "bytes \<Rightarrow> ustr" where
  "ascii_replace bs = map (\<lambda>b. if unat b < 128 then unat b else 65533) bs"

definition isascii :: "bytes \<Rightarrow> bool" where
  "isascii bs \<longleftrightarrow> list_all (\<lambda>b. unat b < 128) bs"

text \<open>\<open>bytes.decode("latin-1")\<close>, and \<open>bytes.decode("ascii")\<close> where it does not raise.\<close>

definition latin1 :: "bytes \<Rightarrow> ustr" where
  "latin1 bs = map unat bs"

section \<open>Numbers in hexadecimal\<close>

definition hexdigit :: "nat \<Rightarrow> nat" where
  "hexdigit n = (if n < 10 then 48 + n else 87 + n)"

text \<open>\<open>f"{n:x}"\<close> and \<open>f"{n:0wx}"\<close>.\<close>

fun hex_nat :: "nat \<Rightarrow> ustr" where
  "hex_nat n = (if n < 16 then [hexdigit n] else hex_nat (n div 16) @ [hexdigit (n mod 16)])"

declare hex_nat.simps [simp del]

definition hexw :: "nat \<Rightarrow> nat \<Rightarrow> ustr" where
  "hexw w n = (let h = hex_nat n in replicate (w - length h) 48 @ h)"

definition hex_bytes :: "bytes \<Rightarrow> ustr" where
  "hex_bytes bs = concat (map (\<lambda>b. hexw 2 (unat b)) bs)"

section \<open>Text helpers of utils.py\<close>

text \<open>\<open>re.sub(P+, " ", s)\<close> for a character class \<open>P\<close>: every maximal run becomes one space.\<close>

fun squash :: "(nat \<Rightarrow> bool) \<Rightarrow> bool \<Rightarrow> ustr \<Rightarrow> ustr" where
  "squash P inside [] = []"
| "squash P inside (c # cs) =
     (if P c then (if inside then squash P True cs else 32 # squash P True cs) else c # squash P False cs)"

definition printable :: "nat \<Rightarrow> bool" where
  "printable c \<longleftrightarrow> 32 \<le> c \<and> c \<le> 126"

abbreviation ellipsis :: nat where "ellipsis \<equiv> 8230"

definition normalize_text :: "nat \<Rightarrow> ustr \<Rightarrow> ustr" where
  "normalize_text lmt raw =
     (let cleaned = squash is_space False (strip (squash (\<lambda>c. \<not> printable c) False raw)) in
      if lmt \<noteq> 0 \<and> length cleaned > lmt then rstrip_by is_space (take (lmt - 1) cleaned) @ [ellipsis]
      else cleaned)"

definition bytes_to_hex_preview :: "nat \<Rightarrow> bytes \<Rightarrow> ustr" where
  "bytes_to_hex_preview lmt payload = hex_bytes (take lmt payload)"

definition bytes_to_text_preview :: "nat \<Rightarrow> bytes \<Rightarrow> ustr" where
  "bytes_to_text_preview lmt payload =
     (if payload = [] then [] else normalize_text lmt (utf8_ignore payload))"

definition format_mac :: "bytes \<Rightarrow> ustr" where
  "format_mac raw = join (U '':'') (map (\<lambda>b. hexw 2 (unat b)) (take 6 raw))"

text \<open>
  \<open>math.ceil(n * 0.55)\<close> for \<open>n \<le> 128\<close>. The float product is exact enough to agree with the
  rational ceiling everywhere but at 100, where \<open>100 * 0.55\<close> is 55.00000000000001.
\<close>

definition ceil_055 :: "nat \<Rightarrow> nat" where
  "ceil_055 n = (if n = 100 then 56 else (11 * n + 19) div 20)"

definition is_printable_payload :: "bytes \<Rightarrow> bool" where
  "is_printable_payload payload \<longleftrightarrow> payload \<noteq> [] \<and>
     length (filter (\<lambda>b. printable (unat b) \<or> unat b \<in> {9, 10, 13}) (take 128 payload))
       \<ge> max 8 (ceil_055 (min (length payload) 128))"

definition unique_ordered :: "'a list \<Rightarrow> 'a list" where
  "unique_ordered xs = unique_from [] xs"

definition normalize_protocol_name :: "ustr \<Rightarrow> ustr" where
  "normalize_protocol_name v = (let t = lower (strip v) in if t = [] then U ''unknown'' else t)"

section \<open>Addresses\<close>

text \<open>\<open>str(ipaddress.IPv4Address(raw))\<close>: the constructor raises unless there are 4 bytes.\<close>

definition ipv4_str :: "bytes \<Rightarrow> ustr option" where
  "ipv4_str raw = (if length raw = 4 then Some (join (U ''.'') (map (\<lambda>b. dec (unat b)) raw)) else None)"

text \<open>
  \<open>str(ipaddress.IPv6Address(raw))\<close> (Python 3.12): the hextets without leading zeros, the
  first of the longest runs of two or more zero hextets replaced by \<open>::\<close>.
\<close>

fun hextets :: "bytes \<Rightarrow> nat list" where
  "hextets (a # b # rest) = (unat a * 256 + unat b) # hextets rest"
| "hextets _ = []"

text \<open>State of the scan: index, current run (start, length), best run (start, length).\<close>

fun zero_run :: "nat \<Rightarrow> nat option \<Rightarrow> nat \<Rightarrow> nat \<Rightarrow> nat \<Rightarrow> nat list \<Rightarrow> nat \<times> nat" where
  "zero_run i start len bstart blen [] = (bstart, blen)"
| "zero_run i start len bstart blen (h # hs) =
     (if h = 0 then
        (let len' = len + 1; st = (case start of None \<Rightarrow> i | Some s \<Rightarrow> s) in
         if len' > blen then zero_run (i + 1) (Some st) len' st len' hs
         else zero_run (i + 1) (Some st) len' bstart blen hs)
      else zero_run (i + 1) None 0 bstart blen hs)"

definition compress_hextets :: "nat list \<Rightarrow> ustr" where
  "compress_hextets hs =
     (case zero_run 0 None 0 0 0 hs of (st, len) \<Rightarrow>
        let ts = map hex_nat hs in
        if len > 1 then
          (let tail = drop (st + len) ts;
               body = take st ts @ [[]] @ (if tail = [] then [[]] else tail) in
           join (U '':'') (if st = 0 then [] # body else body))
        else join (U '':'') ts)"

definition ipv6_str :: "bytes \<Rightarrow> ustr option" where
  "ipv6_str raw = (if length raw = 16 then Some (compress_hextets (hextets raw)) else None)"

section \<open>Lemmas\<close>

lemma ipv4_str_Some [reads]: "length raw = 4 \<Longrightarrow> \<exists>s. ipv4_str raw = Some s"
  by (simp add: ipv4_str_def)

lemma ipv6_str_Some [reads]: "length raw = 16 \<Longrightarrow> \<exists>s. ipv6_str raw = Some s"
  by (simp add: ipv6_str_def)

lemma squash_length: "length (squash P i s) \<le> length s"
  by (induction P i s rule: squash.induct) auto

lemma squash_set: "set (squash P i s) \<subseteq> insert 32 {c \<in> set s. \<not> P c}"
  by (induction P i s rule: squash.induct) auto

lemma set_rstrip_by: "set (rstrip_by P s) \<subseteq> set s"
  using set_dropWhileD [of _ P "rev s"] by (auto simp: rstrip_by_def)

lemma length_rstrip_by: "length (rstrip_by P s) \<le> length s"
  using length_dropWhile_le [of P "rev s"] by (simp add: rstrip_by_def)

lemma normalize_text_clean:
  "set (squash is_space False (strip (squash (\<lambda>c. \<not> printable c) False raw))) \<subseteq> Collect printable"
proof -
  have "set (squash (\<lambda>c. \<not> printable c) False raw) \<subseteq> Collect printable"
    using squash_set [of "\<lambda>c. \<not> printable c" False raw] by (auto simp: printable_def)
  then have "set (strip (squash (\<lambda>c. \<not> printable c) False raw)) \<subseteq> Collect printable"
    by (rule subset_trans [OF set_strip_by])
  then show ?thesis
    using squash_set [of is_space False "strip (squash (\<lambda>c. \<not> printable c) False raw)"]
    by (auto simp: printable_def)
qed

lemma normalize_text_chars: "set (normalize_text lmt raw) \<subseteq> insert ellipsis (Collect printable)"
proof -
  let ?c = "squash is_space False (strip (squash (\<lambda>c. \<not> printable c) False raw))"
  have "set (rstrip_by is_space (take n ?c)) \<subseteq> Collect printable" for n
    using set_rstrip_by [of is_space "take n ?c"] set_take_subset [of n ?c] normalize_text_clean [of raw]
    by blast
  then show ?thesis using normalize_text_clean [of raw] by (auto simp: normalize_text_def Let_def)
qed

lemma normalize_text_length: "lmt \<noteq> 0 \<Longrightarrow> length (normalize_text lmt raw) \<le> lmt"
  using length_rstrip_by [of is_space "take (lmt - 1) (squash is_space False (strip (squash (\<lambda>c. \<not> printable c) False raw)))"]
  by (auto simp: normalize_text_def Let_def not_less)

lemma text_preview_length: "lmt \<noteq> 0 \<Longrightarrow> length (bytes_to_text_preview lmt p) \<le> lmt"
  by (simp add: bytes_to_text_preview_def normalize_text_length)

lemma text_preview_chars: "set (bytes_to_text_preview lmt p) \<subseteq> insert ellipsis (Collect printable)"
  using normalize_text_chars by (auto simp: bytes_to_text_preview_def)

lemma normalize_protocol_name_nonempty [simp]: "normalize_protocol_name v \<noteq> []"
  by (simp add: normalize_protocol_name_def Let_def)

end
