(* ===== verification/App_Protocols.thy ===== *)
theory App_Protocols
  imports Py_Text
begin

text \<open>
  Application-protocol identification (\<^verbatim>\<open>app_protocols.py\<close>): the protocol tables, the payload
  signatures, and the signature-first, port-second classification of TCP segments and UDP
  datagrams. A name is a string; the empty string means unknown.
\<close>

section \<open>Tables\<close>

definition IP_PROTOCOLS :: "(nat \<times> string) list" where
  "IP_PROTOCOLS = [
    (4, ''ipip''), (8, ''egp''), (33, ''dccp''), (46, ''rsvp''), (88, ''eigrp''), (89, ''ospf''),
    (103, ''pim''), (112, ''vrrp''), (115, ''l2tp''), (136, ''udplite'')]"

definition ETHER_PROTOCOLS :: "(nat \<times> string) list" where
  "ETHER_PROTOCOLS = [
    (35020, ''lldp''), (34958, ''eapol''), (34915, ''pppoe''), (34916, ''pppoe''),
    (34887, ''mpls''), (34962, ''profinet''), (34980, ''ethercat''), (36864, ''loop''),
    (2114, ''wol'')]"

definition OUI_CISCO :: bytes where
  "OUI_CISCO = [0, 0, 12]"

definition SNAP_PROTOCOLS :: "((bytes \<times> nat) \<times> string) list" where
  "SNAP_PROTOCOLS = [((OUI_CISCO, 8192), ''cdp''), ((OUI_CISCO, 8196), ''dtp''), ((OUI_CISCO, 267), ''pvstp'')]"

definition TCP_PORT_PROTOCOLS :: "(nat \<times> string) list" where
  "TCP_PORT_PROTOCOLS = [
    (21, ''ftp''), (2121, ''ftp''), (20, ''ftp-data''), (22, ''ssh''), (2222, ''ssh''),
    (8022, ''ssh''), (23, ''telnet''), (2323, ''telnet''), (25, ''smtp''), (587, ''smtp''),
    (2525, ''smtp''), (465, ''smtps''), (43, ''whois''), (79, ''finger''), (80, ''http''),
    (8000, ''http''), (8008, ''http''), (8080, ''http''), (8081, ''http''), (8888, ''http''),
    (88, ''kerberos''), (110, ''pop3''), (995, ''pop3s''), (111, ''rpcbind''), (119, ''nntp''),
    (135, ''msrpc''), (139, ''smb''), (445, ''smb''), (143, ''imap''), (993, ''imaps''),
    (179, ''bgp''), (389, ''ldap''), (3268, ''ldap''), (443, ''tls''), (8443, ''tls''),
    (9443, ''tls''), (636, ''ldaps''), (3269, ''ldaps''), (873, ''rsync''), (1080, ''socks''),
    (1433, ''mssql''), (1521, ''oracle''), (1723, ''pptp''), (3128, ''http-proxy''),
    (3306, ''mysql''), (3307, ''mysql''), (3389, ''rdp''), (3390, ''rdp''), (5060, ''sip''),
    (5061, ''sip''), (5222, ''xmpp''), (5269, ''xmpp''), (5432, ''postgres''),
    (5433, ''postgres''), (5672, ''amqp''), (5900, ''vnc''), (5901, ''vnc''), (5902, ''vnc''),
    (5903, ''vnc''), (6379, ''redis''), (6380, ''redis''), (6667, ''irc''), (6697, ''irc''),
    (9200, ''elasticsearch''), (9418, ''git''), (11211, ''memcached''), (27017, ''mongodb''),
    (1883, ''mqtt''), (8883, ''mqtt''), (502, ''modbus''), (20000, ''dnp3''), (47808, ''bacnet''),
    (102, ''s7comm'')]"

definition UDP_PORT_PROTOCOLS :: "(nat \<times> string) list" where
  "UDP_PORT_PROTOCOLS = [
    (53, ''dns''), (67, ''dhcp''), (68, ''dhcp''), (546, ''dhcpv6''), (547, ''dhcpv6''),
    (69, ''tftp''), (88, ''kerberos''), (123, ''ntp''), (137, ''nbns''), (138, ''nbdgm''),
    (161, ''snmp''), (162, ''snmp''), (177, ''xdmcp''), (500, ''isakmp''), (4500, ''isakmp''),
    (514, ''syslog''), (520, ''rip''), (521, ''rip''), (623, ''ipmi''), (1194, ''openvpn''),
    (1701, ''l2tp''), (1812, ''radius''), (1813, ''radius''), (1900, ''ssdp''), (3478, ''stun''),
    (3479, ''stun''), (4789, ''vxlan''), (5060, ''sip''), (5061, ''sip''), (5353, ''mdns''),
    (5355, ''llmnr''), (6081, ''geneve''), (5683, ''coap''), (5684, ''coap''),
    (51820, ''wireguard''), (47808, ''bacnet''), (443, ''quic'')]"

definition HTTP_PREFIXES :: "bytes list" where
  "HTTP_PREFIXES = [B ''GET '', B ''POST '', B ''HEAD '', B ''PUT '', B ''DELETE '', B ''OPTIONS '', B ''PATCH '', B ''TRACE '', B ''CONNECT '', B ''HTTP/'']"

definition SSDP_PREFIXES :: "bytes list" where
  "SSDP_PREFIXES = [B ''M-SEARCH '', B ''NOTIFY '', B ''HTTP/1.1 200 OK'' @ [13, 10] @ B ''CACHE-CONTROL'']"

definition SIP_PREFIXES :: "bytes list" where
  "SIP_PREFIXES = [B ''INVITE '', B ''REGISTER '', B ''SUBSCRIBE '', B ''BYE '', B ''CANCEL '', B ''ACK '', B ''OPTIONS sip:'', B ''SIP/2.0'']"

section \<open>Signatures\<close>

definition looks_like_tls :: "bytes \<Rightarrow> bool" where
  "looks_like_tls payload \<longleftrightarrow> length payload \<ge> 3
     \<and> payload ! 0 \<in> {0x14, 0x15, 0x16, 0x17} \<and> payload ! 1 = 3 \<and> unat (payload ! 2) \<le> 4"

definition looks_like_quic :: "bytes \<Rightarrow> bool" where
  "looks_like_quic payload \<longleftrightarrow> length payload \<ge> 5
     \<and> payload ! 0 AND 0x80 \<noteq> 0 \<and> payload ! 0 AND 0x40 \<noteq> 0
     \<and> (let version = be (slice 1 5 payload) in
          version = 0 \<or> version div 65536 \<in> {0x0000, 0x0001, 0xFF00, 0xFACE})"

definition startswith_any :: "bytes \<Rightarrow> bytes list \<Rightarrow> bool" where
  "startswith_any payload pres \<longleftrightarrow> list_ex (startswith payload) pres"

section \<open>Classification\<close>

definition port_protocol :: "(nat \<times> string) list \<Rightarrow> nat \<Rightarrow> nat \<Rightarrow> string" where
  "port_protocol table src dst =
     (case map_of table dst of
        Some n \<Rightarrow> n
      | None \<Rightarrow> (case map_of table src of Some n \<Rightarrow> n | None \<Rightarrow> []))"

definition tcp_signature :: "bytes \<Rightarrow> string" where
  "tcp_signature data =
     (if data = [] then []
      else if looks_like_tls data then ''tls''
      else if startswith data (B ''SSH-'') then ''ssh''
      else if startswith_any data SIP_PREFIXES then ''sip''
      else if startswith_any data HTTP_PREFIXES then ''http''
      else if startswith data (B ''RFB '') then ''vnc''
      else if startswith data [0xFF, 0xFB] \<or> startswith data [0xFF, 0xFD] then ''telnet''
      else if slice 0 1 data = [0xFF] \<and> length data \<ge> 4 \<and> data ! 1 \<in> {0xFB, 0xFC, 0xFD, 0xFE} then ''telnet''
      else if contains (take 8 data) (0xFE # B ''SMB'') \<or> contains (take 8 data) (0xFF # B ''SMB'') then ''smb''
      else [])"

definition classify_tcp :: "nat \<Rightarrow> nat \<Rightarrow> bytes \<Rightarrow> string" where
  "classify_tcp src dst payload =
     (let sig = tcp_signature payload in if sig \<noteq> [] then sig else port_protocol TCP_PORT_PROTOCOLS src dst)"

definition udp_signature :: "bytes \<Rightarrow> string" where
  "udp_signature data =
     (if data = [] then []
      else if startswith_any data SSDP_PREFIXES then ''ssdp''
      else if startswith_any data SIP_PREFIXES then ''sip''
      else if looks_like_quic data then ''quic''
      else [])"

definition classify_udp :: "nat \<Rightarrow> nat \<Rightarrow> bytes \<Rightarrow> string" where
  "classify_udp src dst payload =
     (let sig = udp_signature payload in if sig \<noteq> [] then sig else port_protocol UDP_PORT_PROTOCOLS src dst)"

section \<open>Lemmas\<close>

lemma port_protocol_range:
  "port_protocol table src dst \<noteq> [] \<Longrightarrow> port_protocol table src dst \<in> snd ` set table"
  by (force simp: port_protocol_def split: option.splits dest: map_of_SomeD)

lemma tcp_signature_range:
  "tcp_signature data \<in> {[], ''tls'', ''ssh'', ''sip'', ''http'', ''vnc'', ''telnet'', ''smb''}"
  by (auto simp: tcp_signature_def)

lemma udp_signature_range: "udp_signature data \<in> {[], ''ssdp'', ''sip'', ''quic''}"
  by (auto simp: udp_signature_def)

lemma classify_tcp_range:
  "classify_tcp src dst payload \<noteq> [] \<Longrightarrow>
   classify_tcp src dst payload \<in> {''tls'', ''ssh'', ''sip'', ''http'', ''vnc'', ''telnet'', ''smb''} \<union> snd ` set TCP_PORT_PROTOCOLS"
  using tcp_signature_range [of payload] port_protocol_range [of TCP_PORT_PROTOCOLS src dst]
  by (auto simp: classify_tcp_def Let_def split: if_splits)

lemma classify_udp_range:
  "classify_udp src dst payload \<noteq> [] \<Longrightarrow>
   classify_udp src dst payload \<in> {''ssdp'', ''sip'', ''quic''} \<union> snd ` set UDP_PORT_PROTOCOLS"
  using udp_signature_range [of payload] port_protocol_range [of UDP_PORT_PROTOCOLS src dst]
  by (auto simp: classify_udp_def Let_def split: if_splits)

lemma port_protocol_destination:
  "map_of table dst = Some n \<Longrightarrow> port_protocol table src dst = n"
  by (simp add: port_protocol_def)

end
