(* ===== verification/App_Decoders.thy ===== *)
theory App_Decoders
  imports App_Protocols
begin

text \<open>
  The content decoders of \<^verbatim>\<open>app_decoders.py\<close>. A decoder maps a payload to a dictionary of
  fields (an association list, in insertion order), or to \<open>None\<close> where an index read past
  the end of the payload would raise. \<open>decode\<close> is the dispatcher with its \<open>except\<close> clause.
\<close>

type_synonym fields = "(string \<times> pyval) list"

text \<open>\<open>fields[k] = v\<close> on an insertion-ordered dictionary.\<close>

fun set_field :: "string \<Rightarrow> pyval \<Rightarrow> fields \<Rightarrow> fields" where
  "set_field k v [] = [(k, v)]"
| "set_field k v ((k', v') # fs) = (if k = k' then (k, v) # fs else (k', v') # set_field k v fs)"

abbreviation S :: "string \<Rightarrow> pyval" where "S s \<equiv> PStr (U s)"
abbreviation N :: "nat \<Rightarrow> pyval" where "N n \<equiv> PInt (int n)"

text \<open>\<open>table.get(k, default)\<close> on a table of names.\<close>

definition name_or :: "(nat \<times> string) list \<Rightarrow> nat \<Rightarrow> ustr \<Rightarrow> ustr" where
  "name_or tbl k d = (case map_of tbl k of Some s \<Rightarrow> U s | None \<Rightarrow> d)"

section \<open>Lines and headers\<close>

definition MAX_LINE :: nat where "MAX_LINE = 200"

definition find_or_len :: "bytes \<Rightarrow> bytes \<Rightarrow> nat" where
  "find_or_len p payload = (case find_sub p payload of None \<Rightarrow> length payload | Some i \<Rightarrow> min (length payload) i)"

definition ascii_line :: "bytes \<Rightarrow> ustr" where
  "ascii_line payload =
     (let end1 = find_or_len [13, 10] payload; end2 = find_or_len [10] payload in
      strip (bytes_to_text_preview MAX_LINE (take (min end1 end2) payload)))"

definition lower_bytes :: "bytes \<Rightarrow> bytes" where
  "lower_bytes bs = map (\<lambda>b. if 65 \<le> unat b \<and> unat b \<le> 90 then b + 32 else b) bs"

definition header_value :: "bytes \<Rightarrow> bytes \<Rightarrow> ustr" where
  "header_value payload name =
     (let lowered = lower_bytes (take 2048 payload);
          needle = [13, 10] @ lower_bytes name @ B '':'';
          start = (case find_sub needle lowered of
             Some i \<Rightarrow> Some (i + length needle)
           | None \<Rightarrow> if startswith lowered (lower_bytes name @ B '':'') then Some (length name + 1) else None)
      in case start of
           None \<Rightarrow> []
         | Some st \<Rightarrow>
             (let en = (case find_sub [13, 10] (drop st payload) of
                          Some i \<Rightarrow> st + i
                        | None \<Rightarrow> min (length payload) (st + 120))
              in strip (bytes_to_text_preview 120 (slice st en payload))))"

section \<open>TLS, SSH, HTTP\<close>

definition TLS_RECORD_TYPES :: "(nat \<times> string) list" where
  "TLS_RECORD_TYPES = [(0x14, ''change-cipher-spec''), (0x15, ''alert''), (0x16, ''handshake''), (0x17, ''application-data'')]"

definition TLS_HANDSHAKE_TYPES :: "(nat \<times> string) list" where
  "TLS_HANDSHAKE_TYPES = [
    (1, ''client-hello''), (2, ''server-hello''), (4, ''new-session-ticket''), (11, ''certificate''),
    (12, ''server-key-exchange''), (13, ''certificate-request''), (14, ''server-hello-done''),
    (15, ''certificate-verify''), (16, ''client-key-exchange''), (20, ''finished'')]"

definition TLS_VERSIONS :: "(nat \<times> string) list" where
  "TLS_VERSIONS = [(0x0301, ''TLS 1.0''), (0x0302, ''TLS 1.1''), (0x0303, ''TLS 1.2''), (0x0304, ''TLS 1.3''), (0x0300, ''SSL 3.0'')]"

definition decode_tls :: "bytes \<Rightarrow> fields option" where
  "decode_tls payload =
     (if length payload < 5 then Some [] else do {
        b0 \<leftarrow> byte_at payload 0;
        b1 \<leftarrow> byte_at payload 1;
        case map_of TLS_RECORD_TYPES b0 of
          None \<Rightarrow> Some []
        | Some rec \<Rightarrow>
            if b1 \<noteq> 3 then Some []
            else let version = name_or TLS_VERSIONS (be (slice 1 3 payload)) [];
                     fs = [(''tls_record'', S rec), (''tls_version'', PStr version)] in
              if b0 = 0x16 \<and> length payload \<ge> 6 then do {
                b5 \<leftarrow> byte_at payload 5;
                let handshake = name_or TLS_HANDSHAKE_TYPES b5 (U ''type-'' @ dec b5);
                    label = (if version \<noteq> [] \<and> b5 \<noteq> 1 then version @ U '' '' @ handshake
                             else U ''TLS '' @ handshake) in
                Some (fs @ [(''tls_handshake'', PStr handshake), (''summary'', PStr label)])
              } else
                Some (fs @ [(''summary'', PStr (strip ((if version = [] then U ''TLS'' else version) @ U '' '' @ U rec)))])
      })"

definition nth_or :: "ustr list \<Rightarrow> nat \<Rightarrow> ustr" where
  "nth_or xs i = (if i < length xs then xs ! i else [])"

definition decode_ssh :: "bytes \<Rightarrow> fields option" where
  "decode_ssh payload =
     (if \<not> startswith payload (B ''SSH-'') then Some []
      else let banner = ascii_line payload; parts = split_at 45 (Some 2) banner in
        Some [(''ssh_version'', PStr (nth_or parts 1)), (''ssh_software'', PStr (nth_or parts 2)),
              (''summary'', PStr (U ''SSH '' @ banner)), (''banner_text'', PStr banner)])"

definition HTTP_METHODS :: "bytes list" where
  "HTTP_METHODS = [B ''GET'', B ''POST'', B ''HEAD'', B ''PUT'', B ''DELETE'', B ''OPTIONS'', B ''PATCH'', B ''TRACE'', B ''CONNECT'']"

definition decode_http :: "bytes \<Rightarrow> fields option" where
  "decode_http payload =
     (if startswith payload (B ''HTTP/'') then
        (let line = ascii_line payload; parts = split_at 32 (Some 2) line;
             status = (if length parts > 1 \<and> all_digits (parts ! 1) then parts ! 1 else []) in
         Some (filter (\<lambda>(k, v). truthy v)
           [(''http_status'', PStr status), (''http_server'', PStr (header_value payload (B ''Server''))),
            (''summary'', PStr (U ''HTTP response '' @ line))]))
      else if \<not> list_ex (\<lambda>m. startswith payload (m @ B '' '')) HTTP_METHODS then Some []
      else let line = ascii_line payload; parts = split_at 32 (Some 2) line in
        Some [(''http_method'', PStr (nth_or parts 0)), (''http_path'', PStr (nth_or parts 1)),
              (''http_host'', PStr (header_value payload (B ''Host''))),
              (''http_user_agent'', PStr (header_value payload (B ''User-Agent''))),
              (''summary'', PStr (U ''HTTP '' @ line))])"

section \<open>NTP and line protocols\<close>

definition NTP_MODES :: "(nat \<times> string) list" where
  "NTP_MODES = [(0, ''reserved''), (1, ''symmetric-active''), (2, ''symmetric-passive''), (3, ''client''),
    (4, ''server''), (5, ''broadcast''), (6, ''control''), (7, ''private'')]"

definition decode_ntp :: "bytes \<Rightarrow> fields option" where
  "decode_ntp payload =
     (if length payload < 4 then Some [] else do {
        flags \<leftarrow> byte_at payload 0;
        stratum \<leftarrow> byte_at payload 1;
        let mode = name_or NTP_MODES (flags AND 7) (U ''unknown'');
        let version = (flags div 8) AND 7;
        let fs = [(''ntp_mode'', PStr mode), (''ntp_version'', N version), (''ntp_stratum'', N stratum)];
        if flags AND 7 = 7 then
          Some (fs @ [(''summary'', S ''NTP private/monlist request (amplification vector)''),
                      (''ntp_amplification_candidate'', PBool True)])
        else Some (fs @ [(''summary'', PStr (U ''NTP v'' @ dec version @ U '' '' @ mode @ U '' stratum '' @ dec stratum))])
      })"

definition decode_line_protocol :: "bytes \<Rightarrow> string \<Rightarrow> string \<Rightarrow> fields option" where
  "decode_line_protocol payload label low =
     (let line = ascii_line payload in
      if line = [] then Some []
      else let token = hd (split_at 32 (Some 1) line);
               digits = takeWhile is_digit token;
               fs = [(''summary'', PStr (U label @ U '' '' @ line)), (''banner_text'', PStr line)] in
        if digits \<noteq> [] \<and> (length digits = length token \<or> token ! length digits \<in> {45, 43})
        then Some (fs @ [(low @ ''_status'', PStr digits)])
        else Some (fs @ [(low @ ''_command'', PStr (upper token))]))"

definition decode_ftp :: "bytes \<Rightarrow> fields option" where "decode_ftp p = decode_line_protocol p ''FTP'' ''ftp''"
definition decode_smtp :: "bytes \<Rightarrow> fields option" where "decode_smtp p = decode_line_protocol p ''SMTP'' ''smtp''"
definition decode_pop3 :: "bytes \<Rightarrow> fields option" where "decode_pop3 p = decode_line_protocol p ''POP3'' ''pop3''"
definition decode_imap :: "bytes \<Rightarrow> fields option" where "decode_imap p = decode_line_protocol p ''IMAP'' ''imap''"
definition decode_irc :: "bytes \<Rightarrow> fields option" where "decode_irc p = decode_line_protocol p ''IRC'' ''irc''"
definition decode_nntp :: "bytes \<Rightarrow> fields option" where "decode_nntp p = decode_line_protocol p ''NNTP'' ''nntp''"

text \<open>\<open>text.replace(p, r)\<close>.\<close>

fun replace_sub :: "'a list \<Rightarrow> 'a list \<Rightarrow> 'a list \<Rightarrow> 'a list" where
  "replace_sub p r [] = []"
| "replace_sub p r (c # cs) =
     (if p \<noteq> [] \<and> startswith (c # cs) p then r @ replace_sub p r (drop (length p - 1) cs)
      else c # replace_sub p r cs)"

definition decode_redis :: "bytes \<Rightarrow> fields option" where
  "decode_redis payload =
     (if \<not> list_ex (startswith payload) [B ''*'', B ''+'', B ''-'', B ''$'', B '':''] then Some []
      else let t = bytes_to_text_preview 160 (take 160 payload);
               command = (case filter (\<lambda>w. list_all is_alpha w \<and> length w > 2)
                                 (words (replace_sub [92, 114, 92, 110] (U '' '') t)) of
                            [] \<Rightarrow> []
                          | w # _ \<Rightarrow> upper w) in
        Some [(''redis_command'', PStr command),
              (''summary'', PStr (U ''Redis '' @ (if command = [] then U ''command'' else command)))])"

section \<open>SIP and SSDP\<close>

definition decode_sip :: "bytes \<Rightarrow> fields option" where
  "decode_sip payload =
     (let line = ascii_line payload in
      if line = [] then Some []
      else Some [(''sip_method'', PStr (hd (split_at 32 (Some 1) line))),
                 (''sip_from'', PStr (header_value payload (B ''From''))),
                 (''sip_to'', PStr (header_value payload (B ''To''))),
                 (''summary'', PStr (U ''SIP '' @ line))])"

definition decode_ssdp :: "bytes \<Rightarrow> fields option" where
  "decode_ssdp payload =
     (let line = ascii_line payload in
      if line = [] then Some []
      else let st = header_value payload (B ''ST'');
               target = (if st = [] then header_value payload (B ''NT'') else st);
               meth = hd (split_at 32 (Some 1) line) in
        Some [(''ssdp_method'', PStr meth), (''ssdp_target'', PStr target),
              (''summary'', PStr (U ''SSDP '' @ meth @ (if target = [] then [] else U '' for '' @ target)))])"

section \<open>Binary infrastructure protocols\<close>

definition BGP_MESSAGE_TYPES :: "(nat \<times> string) list" where
  "BGP_MESSAGE_TYPES = [(1, ''OPEN''), (2, ''UPDATE''), (3, ''NOTIFICATION''), (4, ''KEEPALIVE''), (5, ''ROUTE-REFRESH'')]"

definition decode_bgp :: "bytes \<Rightarrow> fields option" where
  "decode_bgp payload =
     (if length payload < 19 \<or> take 16 payload \<noteq> replicate 16 0xFF then Some [] else do {
        k \<leftarrow> byte_at payload 18;
        let kind = name_or BGP_MESSAGE_TYPES k (U ''type-'' @ dec k);
        Some [(''bgp_message'', PStr kind), (''summary'', PStr (U ''BGP '' @ kind))]
      })"

definition KERBEROS_MESSAGE_TYPES :: "(nat \<times> string) list" where
  "KERBEROS_MESSAGE_TYPES = [(10, ''AS-REQ''), (11, ''AS-REP''), (12, ''TGS-REQ''), (13, ''TGS-REP''),
    (14, ''AP-REQ''), (15, ''AP-REP''), (30, ''KRB-ERROR'')]"

definition decode_kerberos :: "bytes \<Rightarrow> fields option" where
  "decode_kerberos payload =
     (if payload = [] then Some [] else do {
        tag \<leftarrow> byte_at payload 0;
        if tag AND 0xE0 \<noteq> 0x60 then Some []
        else case map_of KERBEROS_MESSAGE_TYPES (tag AND 0x1F) of
          None \<Rightarrow> Some []
        | Some kind \<Rightarrow> Some [(''kerberos_message'', S kind), (''summary'', S (''Kerberos '' @ kind))]
      })"

definition LDAP_OPERATIONS :: "(nat \<times> string) list" where
  "LDAP_OPERATIONS = [(0, ''bind-request''), (1, ''bind-response''), (2, ''unbind-request''), (3, ''search-request''),
    (4, ''search-entry''), (5, ''search-done''), (6, ''modify-request''), (8, ''add-request''),
    (10, ''delete-request''), (16, ''abandon-request''), (23, ''extended-request'')]"

definition decode_ldap :: "bytes \<Rightarrow> fields option" where
  "decode_ldap payload =
     (if length payload < 7 then Some [] else do {
        b0 \<leftarrow> byte_at payload 0;
        if b0 \<noteq> 0x30 then Some [] else do {
          b1 \<leftarrow> byte_at payload 1;
          let off = (if b1 AND 0x80 \<noteq> 0 then 2 + (b1 AND 0x7F) else 2);
          if off + 2 > length payload then Some [] else do {
            t \<leftarrow> byte_at payload off;
            if t \<noteq> 2 then Some [] else do {
              l \<leftarrow> byte_at payload (off + 1);
              let off2 = off + 2 + l;
              if off2 \<ge> length payload then Some [] else do {
                x \<leftarrow> byte_at payload off2;
                case map_of LDAP_OPERATIONS (x AND 0x1F) of
                  None \<Rightarrow> Some []
                | Some operation \<Rightarrow> Some [(''ldap_operation'', S operation), (''summary'', S (''LDAP '' @ operation))]
              }}}}})"

definition SMB2_COMMANDS :: "(nat \<times> string) list" where
  "SMB2_COMMANDS = [(0, ''NEGOTIATE''), (1, ''SESSION_SETUP''), (2, ''LOGOFF''), (3, ''TREE_CONNECT''), (4, ''TREE_DISCONNECT''),
    (5, ''CREATE''), (6, ''CLOSE''), (8, ''READ''), (9, ''WRITE''), (14, ''QUERY_DIRECTORY''), (16, ''QUERY_INFO'')]"

fun smb_at :: "bytes \<Rightarrow> nat list \<Rightarrow> fields" where
  "smb_at payload [] = []"
| "smb_at payload (start # rest) =
     (let window = slice start (start + 8) payload in
      if take 4 window = 0xFE # B ''SMB'' \<and> length payload \<ge> start + 16 then
        (let command = le (slice (start + 12) (start + 14) payload);
             name = name_or SMB2_COMMANDS command (U ''command-'' @ dec command) in
         [(''smb_version'', S ''SMB2''), (''smb_command'', PStr name), (''summary'', PStr (U ''SMB2 '' @ name))])
      else if take 4 window = 0xFF # B ''SMB'' then
        [(''smb_version'', S ''SMB1''), (''summary'', S ''SMB1 (legacy dialect)'')]
      else smb_at payload rest)"

definition decode_smb :: "bytes \<Rightarrow> fields option" where
  "decode_smb payload = Some (smb_at payload [0, 4])"

definition decode_quic :: "bytes \<Rightarrow> fields option" where
  "decode_quic payload =
     (if length payload < 5 then Some [] else do {
        b0 \<leftarrow> byte_at payload 0;
        if b0 AND 0x80 = 0 then Some []
        else let version = be (slice 1 5 payload) in
          if version = 0 then Some [(''quic_version'', S ''negotiation''), (''summary'', S ''QUIC version negotiation'')]
          else let kind = name_or [(0, ''initial''), (1, ''0-RTT''), (2, ''handshake''), (3, ''retry'')]
                            ((b0 AND 0x30) div 16) (U ''long-header'') in
            Some [(''quic_version'', PStr (U ''0x'' @ hexw 8 version)), (''quic_packet'', PStr kind),
                  (''summary'', PStr (U ''QUIC '' @ kind))]
      })"

definition STUN_METHODS :: "(nat \<times> string) list" where
  "STUN_METHODS = [(0x0001, ''binding-request''), (0x0101, ''binding-response''), (0x0111, ''binding-error'')]"

definition decode_stun :: "bytes \<Rightarrow> fields option" where
  "decode_stun payload =
     (if length payload < 20 \<or> slice 4 8 payload \<noteq> [0x21, 0x12, 0xA4, 0x42] then Some []
      else let meth = name_or STUN_METHODS (be (slice 0 2 payload)) (U ''message'') in
        Some [(''stun_method'', PStr meth), (''summary'', PStr (U ''STUN '' @ meth))])"

definition ISAKMP_EXCHANGES :: "(nat \<times> string) list" where
  "ISAKMP_EXCHANGES = [(2, ''identity-protection''), (4, ''aggressive''), (5, ''informational''),
    (34, ''IKE_SA_INIT''), (35, ''IKE_AUTH''), (36, ''CREATE_CHILD_SA''), (37, ''INFORMATIONAL'')]"

definition decode_isakmp :: "bytes \<Rightarrow> fields option" where
  "decode_isakmp payload =
     (if length payload < 28 then Some [] else do {
        x \<leftarrow> byte_at payload 18;
        version \<leftarrow> byte_at payload 17;
        let exchange = name_or ISAKMP_EXCHANGES x (U ''exchange-'' @ dec x);
        Some [(''isakmp_exchange'', PStr exchange),
              (''isakmp_version'', PStr (dec (version div 16) @ U ''.'' @ dec (version AND 0x0F))),
              (''summary'', PStr (U ''ISAKMP/IKEv'' @ dec (version div 16) @ U '' '' @ exchange))]
      })"

definition WIREGUARD_TYPES :: "(nat \<times> string) list" where
  "WIREGUARD_TYPES = [(1, ''handshake-initiation''), (2, ''handshake-response''), (3, ''cookie-reply''), (4, ''transport-data'')]"

definition decode_wireguard :: "bytes \<Rightarrow> fields option" where
  "decode_wireguard payload =
     (if length payload < 4 \<or> slice 1 4 payload \<noteq> [0, 0, 0] then Some [] else do {
        b0 \<leftarrow> byte_at payload 0;
        case map_of WIREGUARD_TYPES b0 of
          None \<Rightarrow> Some []
        | Some kind \<Rightarrow> Some [(''wireguard_message'', S kind), (''summary'', S (''WireGuard '' @ kind))]
      })"

definition decode_vxlan :: "bytes \<Rightarrow> fields option" where
  "decode_vxlan payload =
     (if length payload < 8 then Some [] else do {
        b0 \<leftarrow> byte_at payload 0;
        if b0 AND 8 = 0 then Some []
        else let vni = be (slice 4 7 payload) in
          Some [(''vxlan_vni'', N vni), (''summary'', PStr (U ''VXLAN VNI '' @ dec vni))]
      })"

section \<open>Link-layer discovery\<close>

definition LLDP_TLV_TYPES :: "(nat \<times> string) list" where
  "LLDP_TLV_TYPES = [(1, ''chassis-id''), (2, ''port-id''), (3, ''ttl''), (4, ''port-description''),
    (5, ''system-name''), (6, ''system-description'')]"

definition lldp_tlv :: "nat \<Rightarrow> bytes \<Rightarrow> fields \<Rightarrow> fields" where
  "lldp_tlv tlv_type value fs =
     (case map_of LLDP_TLV_TYPES tlv_type of
        None \<Rightarrow> fs
      | Some name \<Rightarrow>
          if name = ''system-name'' \<or> name = ''port-description'' then
            set_field (''lldp_'' @ replace_sub ''-'' ''_'' name) (PStr (bytes_to_text_preview 80 value)) fs
          else if name = ''port-id'' \<and> length value > 1 then
            set_field ''lldp_port_id'' (PStr (bytes_to_text_preview 60 (drop 1 value))) fs
          else fs)"

function lldp_walk :: "bytes \<Rightarrow> nat \<Rightarrow> fields \<Rightarrow> fields" where
  "lldp_walk payload off fs =
     (if off + 2 \<le> length payload then
        (let header = be (slice off (off + 2) payload); tlv_type = header div 512; len = header AND 0x1FF in
         if tlv_type = 0 \<or> off + 2 + len > length payload then fs
         else lldp_walk payload (off + 2 + len) (lldp_tlv tlv_type (slice (off + 2) (off + 2 + len) payload) fs))
      else fs)"
  by pat_completeness auto

termination lldp_walk
  by (relation "measure (\<lambda>(payload, off, fs). length payload - off)") auto

declare lldp_walk.simps [simp del]

definition field_text :: "fields \<Rightarrow> string \<Rightarrow> ustr" where
  "field_text fs k = (case map_of fs k of Some (PStr s) \<Rightarrow> s | _ \<Rightarrow> [])"

definition decode_lldp :: "bytes \<Rightarrow> fields option" where
  "decode_lldp payload =
     (let fs = lldp_walk payload 0 [] in
      if fs = [] then Some []
      else let sysname = field_text fs ''lldp_system_name'';
               label = (if sysname = [] then U ''neighbour'' else sysname);
               port = field_text fs ''lldp_port_id'' in
        Some (set_field ''summary'' (PStr (U ''LLDP '' @ label @ (if port = [] then [] else U '' port '' @ port))) fs))"

definition EAPOL_TYPES :: "(nat \<times> string) list" where
  "EAPOL_TYPES = [(0, ''EAP-packet''), (1, ''start''), (2, ''logoff''), (3, ''key''), (4, ''encapsulated-ASF-alert'')]"

definition decode_eapol :: "bytes \<Rightarrow> fields option" where
  "decode_eapol payload =
     (if length payload < 4 then Some [] else do {
        b1 \<leftarrow> byte_at payload 1;
        let kind = name_or EAPOL_TYPES b1 (U ''type-'' @ dec b1);
        Some [(''eapol_type'', PStr kind), (''summary'', PStr (U ''802.1X EAPOL '' @ kind))]
      })"

definition cdp_tlv :: "nat \<Rightarrow> bytes \<Rightarrow> fields \<Rightarrow> fields" where
  "cdp_tlv tlv_type value fs =
     (if tlv_type = 1 then set_field ''cdp_device_id'' (PStr (bytes_to_text_preview 80 value)) fs
      else if tlv_type = 3 then set_field ''cdp_port_id'' (PStr (bytes_to_text_preview 60 value)) fs
      else if tlv_type = 5 then set_field ''cdp_software'' (PStr (bytes_to_text_preview 100 value)) fs
      else fs)"

function cdp_walk :: "bytes \<Rightarrow> nat \<Rightarrow> fields \<Rightarrow> fields" where
  "cdp_walk payload off fs =
     (if off + 4 \<le> length payload then
        (let tlv_type = be (slice off (off + 2) payload); len = be (slice (off + 2) (off + 4) payload) in
         if len < 4 \<or> off + len > length payload then fs
         else cdp_walk payload (off + len) (cdp_tlv tlv_type (slice (off + 4) (off + len) payload) fs))
      else fs)"
  by pat_completeness auto

termination cdp_walk
  by (relation "measure (\<lambda>(payload, off, fs). length payload - off)") auto

declare cdp_walk.simps [simp del]

definition decode_cdp :: "bytes \<Rightarrow> fields option" where
  "decode_cdp payload =
     (if length payload < 4 then Some []
      else let fs = cdp_walk payload 4 [] in
        if fs = [] then Some []
        else let dev = field_text fs ''cdp_device_id'' in
          Some (set_field ''summary'' (PStr (U ''CDP '' @ (if dev = [] then U ''advertisement'' else dev))) fs))"

section \<open>Dispatch\<close>

definition DECODERS :: "(string \<times> (bytes \<Rightarrow> fields option)) list" where
  "DECODERS = [
     (''tls'', decode_tls), (''ssh'', decode_ssh), (''http'', decode_http), (''http-proxy'', decode_http),
     (''ntp'', decode_ntp), (''ftp'', decode_ftp), (''smtp'', decode_smtp), (''pop3'', decode_pop3),
     (''imap'', decode_imap), (''irc'', decode_irc), (''nntp'', decode_nntp), (''redis'', decode_redis),
     (''sip'', decode_sip), (''ssdp'', decode_ssdp), (''bgp'', decode_bgp), (''kerberos'', decode_kerberos),
     (''ldap'', decode_ldap), (''smb'', decode_smb), (''quic'', decode_quic), (''stun'', decode_stun),
     (''isakmp'', decode_isakmp), (''wireguard'', decode_wireguard), (''vxlan'', decode_vxlan),
     (''lldp'', decode_lldp), (''eapol'', decode_eapol), (''cdp'', decode_cdp)]"

definition find_decoder :: "ustr \<Rightarrow> (bytes \<Rightarrow> fields option) option" where
  "find_decoder proto =
     map_option snd (find (\<lambda>(n, _). U n = lower (strip proto)) DECODERS)"

definition decode :: "ustr \<Rightarrow> bytes \<Rightarrow> fields" where
  "decode proto payload =
     (case find_decoder proto of
        None \<Rightarrow> []
      | Some decoder \<Rightarrow>
          if payload = [] then []
          else case decoder payload of None \<Rightarrow> [] | Some fs \<Rightarrow> fs)"

section \<open>Lemmas\<close>

text \<open>No decoder reads past the end of the payload.\<close>

named_theorems decoder_total

lemma decode_tls_total [decoder_total]: "decode_tls p \<noteq> None"
  by (auto simp: decode_tls_def byte_at_def Let_def split: option.splits if_splits)

lemma decode_ssh_total [decoder_total]: "decode_ssh p \<noteq> None"
  by (simp add: decode_ssh_def Let_def)

lemma decode_http_total [decoder_total]: "decode_http p \<noteq> None"
  by (simp add: decode_http_def Let_def)

lemma decode_ntp_total [decoder_total]: "decode_ntp p \<noteq> None"
  by (auto simp: decode_ntp_def byte_at_def Let_def split: if_splits)

lemma decode_line_protocol_total [decoder_total]: "decode_line_protocol p l w \<noteq> None"
  by (simp add: decode_line_protocol_def Let_def)

lemma decode_redis_total [decoder_total]: "decode_redis p \<noteq> None"
  by (simp add: decode_redis_def Let_def)

lemma decode_sip_total [decoder_total]: "decode_sip p \<noteq> None"
  by (simp add: decode_sip_def Let_def)

lemma decode_ssdp_total [decoder_total]: "decode_ssdp p \<noteq> None"
  by (simp add: decode_ssdp_def Let_def)

lemma decode_bgp_total [decoder_total]: "decode_bgp p \<noteq> None"
  by (auto simp: decode_bgp_def byte_at_def Let_def split: if_splits)

lemma decode_kerberos_total [decoder_total]: "decode_kerberos p \<noteq> None"
  by (auto simp: decode_kerberos_def byte_at_def Let_def split: option.splits if_splits)

lemma decode_ldap_total [decoder_total]: "decode_ldap p \<noteq> None"
  by (auto simp: decode_ldap_def byte_at_def Let_def split: option.splits if_splits)

lemma decode_smb_total [decoder_total]: "decode_smb p \<noteq> None"
  by (simp add: decode_smb_def)

lemma decode_quic_total [decoder_total]: "decode_quic p \<noteq> None"
  by (auto simp: decode_quic_def byte_at_def Let_def split: if_splits)

lemma decode_stun_total [decoder_total]: "decode_stun p \<noteq> None"
  by (simp add: decode_stun_def Let_def)

lemma decode_isakmp_total [decoder_total]: "decode_isakmp p \<noteq> None"
  by (auto simp: decode_isakmp_def byte_at_def Let_def split: if_splits)

lemma decode_wireguard_total [decoder_total]: "decode_wireguard p \<noteq> None"
  by (auto simp: decode_wireguard_def byte_at_def Let_def split: option.splits if_splits)

lemma decode_vxlan_total [decoder_total]: "decode_vxlan p \<noteq> None"
  by (auto simp: decode_vxlan_def byte_at_def Let_def split: if_splits)

lemma decode_lldp_total [decoder_total]: "decode_lldp p \<noteq> None"
  by (simp add: decode_lldp_def Let_def)

lemma decode_eapol_total [decoder_total]: "decode_eapol p \<noteq> None"
  by (auto simp: decode_eapol_def byte_at_def Let_def split: if_splits)

lemma decode_cdp_total [decoder_total]: "decode_cdp p \<noteq> None"
  by (simp add: decode_cdp_def Let_def)

lemmas line_decoders = decode_ftp_def decode_smtp_def decode_pop3_def decode_imap_def decode_irc_def decode_nntp_def

lemma all_decoders_total: "list_all (\<lambda>(n, d). \<forall>p. d p \<noteq> None) DECODERS"
  by (simp add: DECODERS_def line_decoders decoder_total del: not_None_eq)

lemma find_decoder_in: "find_decoder proto = Some d \<Longrightarrow> \<exists>n. (n, d) \<in> set DECODERS"
  by (auto simp: find_decoder_def find_Some_iff set_conv_nth split_beta)

text \<open>The dispatcher's \<open>except\<close> clause is never taken.\<close>

lemma decode_no_exception:
  "find_decoder proto = Some d \<Longrightarrow> payload \<noteq> [] \<Longrightarrow> d payload = Some (decode proto payload)"
  using find_decoder_in [of proto d] all_decoders_total
  by (auto simp: decode_def list_all_iff split: option.splits)

section \<open>What the decoders put into a packet\<close>

text \<open>A decoded text is clean when it has only printable ASCII characters and the ellipsis.\<close>

definition clean_cp :: "nat \<Rightarrow> bool" where
  "clean_cp c \<longleftrightarrow> printable c \<or> c = ellipsis"

abbreviation clean :: "ustr \<Rightarrow> bool" where
  "clean s \<equiv> list_all clean_cp s"

fun clean_value :: "pyval \<Rightarrow> bool" where
  "clean_value (PStr s) = clean s"
| "clean_value _ = True"

definition DECODER_KEYS :: "string list" where
  "DECODER_KEYS = [''summary'', ''banner_text'', ''http_method'', ''http_path'', ''http_host'',
     ''http_status'', ''http_server'', ''http_user_agent'',
     ''tls_record'', ''tls_version'', ''tls_handshake'', ''ssh_version'', ''ssh_software'',
     ''ntp_mode'', ''ntp_version'', ''ntp_stratum'', ''ntp_amplification_candidate'',
     ''ftp_status'', ''ftp_command'', ''smtp_status'', ''smtp_command'', ''pop3_status'', ''pop3_command'',
     ''imap_status'', ''imap_command'', ''irc_status'', ''irc_command'', ''nntp_status'', ''nntp_command'',
     ''redis_command'', ''sip_method'', ''sip_from'', ''sip_to'', ''ssdp_method'', ''ssdp_target'',
     ''bgp_message'', ''kerberos_message'', ''ldap_operation'', ''smb_version'', ''smb_command'',
     ''quic_version'', ''quic_packet'', ''stun_method'', ''isakmp_exchange'', ''isakmp_version'',
     ''wireguard_message'', ''vxlan_vni'', ''lldp_system_name'', ''lldp_port_description'', ''lldp_port_id'',
     ''eapol_type'', ''cdp_device_id'', ''cdp_port_id'', ''cdp_software'']"

definition good_field :: "string \<times> pyval \<Rightarrow> bool" where
  "good_field f \<longleftrightarrow> fst f \<in> set DECODER_KEYS \<and> clean_value (snd f)"

text \<open>Clean texts: literals, numbers, previews, and the pieces cut out of them.\<close>

lemma clean_append: "clean a \<Longrightarrow> clean b \<Longrightarrow> clean (a @ b)"
  by simp

lemma clean_set: "clean s \<longleftrightarrow> set s \<subseteq> insert ellipsis (Collect printable)"
  by (auto simp: list_all_iff clean_cp_def)

lemma clean_sub: "set a \<subseteq> set b \<Longrightarrow> clean b \<Longrightarrow> clean a"
  by (auto simp: list_all_iff)

lemma clean_dec: "clean (dec n)"
  using dec_digits [of n] by (auto simp: list_all_iff clean_cp_def is_digit_def printable_def)

lemma clean_hexdigit: "n < 16 \<Longrightarrow> clean_cp (hexdigit n)"
  by (auto simp: hexdigit_def clean_cp_def printable_def)

lemma clean_hex_nat: "clean (hex_nat n)"
proof (induction n rule: hex_nat.induct)
  case (1 n)
  then show ?case by (subst hex_nat.simps) (simp add: clean_hexdigit)
qed

lemma clean_hexw: "clean (hexw w n)"
  using clean_hex_nat [of n]
  by (auto simp: hexw_def Let_def clean_cp_def printable_def list_all_iff)

lemma clean_preview: "clean (bytes_to_text_preview n p)"
  unfolding clean_set by (rule text_preview_chars)

lemma clean_strip: "clean s \<Longrightarrow> clean (strip s)"
  by (rule clean_sub [OF set_strip_by])

lemma clean_ascii_line: "clean (ascii_line p)"
  unfolding ascii_line_def Let_def by (intro clean_strip clean_preview)

lemma clean_header_value: "clean (header_value p n)"
proof -
  have "clean (strip (bytes_to_text_preview k q))" for k q
    by (intro clean_strip clean_preview)
  then show ?thesis by (simp add: header_value_def Let_def split: option.split)
qed

lemma clean_split_from: "clean acc \<Longrightarrow> clean s \<Longrightarrow> list_all clean (split_from c n acc s)"
  by (induction s arbitrary: n acc) auto

lemma clean_split_at: "clean s \<Longrightarrow> list_all clean (split_at c n s)"
  unfolding split_at_def by (rule clean_split_from) auto

lemma clean_nth_or: "list_all clean xs \<Longrightarrow> clean (nth_or xs i)"
  by (simp add: nth_or_def list_all_length)

lemma clean_nth: "i < length (split_at c n s) \<Longrightarrow> clean s \<Longrightarrow> clean (split_at c n s ! i)"
  using clean_split_at [of s c n] by (simp add: list_all_length)

lemma clean_hd_split_at: "clean s \<Longrightarrow> clean (hd (split_at c n s))"
  using clean_split_at [of s c n] by (cases "split_at c n s") auto

lemma clean_upper: "clean s \<Longrightarrow> clean (upper s)"
  by (auto simp: upper_def printable_def clean_cp_def list_all_iff)

lemma clean_words_from: "clean acc \<Longrightarrow> clean s \<Longrightarrow> list_all clean (words_from acc s)"
  by (induction acc s rule: words_from.induct) auto

lemma clean_replace_sub: "clean r \<Longrightarrow> clean s \<Longrightarrow> clean (replace_sub p r s)"
proof (induction p r s rule: replace_sub.induct)
  case (2 p r c cs)
  have "clean (drop (length p - 1) cs)" by (rule clean_sub [OF set_drop_subset]) (use 2(4) in simp)
  with 2 show ?case by simp
qed simp

definition clean_names :: "(nat \<times> string) list \<Rightarrow> bool" where
  "clean_names tbl \<longleftrightarrow> list_all (\<lambda>(k, s). list_all printable (U s)) tbl"

lemma clean_U: "list_all printable (U s) \<Longrightarrow> clean (U s)"
  by (simp add: list_all_iff clean_cp_def)

lemma clean_name_or: "clean_names tbl \<Longrightarrow> clean d \<Longrightarrow> clean (name_or tbl k d)"
  by (auto simp: name_or_def clean_names_def list_all_iff clean_cp_def split: option.splits dest!: map_of_SomeD)

lemma clean_map_of: "map_of tbl k = Some s \<Longrightarrow> clean_names tbl \<Longrightarrow> clean (U s)"
  by (auto simp: clean_names_def list_all_iff clean_cp_def dest!: map_of_SomeD)

lemmas clean_intros = clean_append clean_dec clean_hexw clean_preview clean_strip clean_ascii_line
  clean_header_value clean_nth_or clean_upper clean_name_or clean_split_at clean_hd_split_at

lemma clean_tables:
  "clean_names TLS_RECORD_TYPES" "clean_names TLS_HANDSHAKE_TYPES" "clean_names TLS_VERSIONS"
  "clean_names NTP_MODES" "clean_names BGP_MESSAGE_TYPES" "clean_names KERBEROS_MESSAGE_TYPES"
  "clean_names LDAP_OPERATIONS" "clean_names SMB2_COMMANDS" "clean_names STUN_METHODS"
  "clean_names ISAKMP_EXCHANGES" "clean_names WIREGUARD_TYPES" "clean_names EAPOL_TYPES"
  by (simp_all add: clean_names_def U_def printable_def TLS_RECORD_TYPES_def TLS_HANDSHAKE_TYPES_def TLS_VERSIONS_def
      NTP_MODES_def BGP_MESSAGE_TYPES_def KERBEROS_MESSAGE_TYPES_def LDAP_OPERATIONS_def SMB2_COMMANDS_def
      STUN_METHODS_def ISAKMP_EXCHANGES_def WIREGUARD_TYPES_def EAPOL_TYPES_def)

lemma clean_lit: "clean (U s) \<longleftrightarrow> list_all (\<lambda>c. clean_cp (of_char c)) s"
  by (simp add: U_def list_all_iff)

lemma clean_cp_numeral: "clean_cp (numeral n) \<longleftrightarrow> (32 \<le> (numeral n :: nat) \<and> numeral n \<le> (126 :: nat)) \<or> numeral n = (8230 :: nat)"
  by (simp only: clean_cp_def printable_def)

lemma clean_map_of_chars: "clean_names tbl \<Longrightarrow> map_of tbl k = Some s \<Longrightarrow> list_all (\<lambda>c. clean_cp (of_char c)) s"
  using clean_map_of [of tbl k s] by (simp add: clean_lit)

lemmas clean_lookup = clean_tables [THEN clean_map_of_chars]

lemma clean_first_word: "list_all clean ws \<Longrightarrow> clean (case filter P ws of [] \<Rightarrow> [] | w # _ \<Rightarrow> upper w)"
  by (induction ws) (auto simp: clean_upper)

lemma clean_words: "clean s \<Longrightarrow> list_all clean (words s)"
  unfolding words_def by (rule clean_words_from) auto

lemma decoder_key_in:
  "''summary'' \<in> set DECODER_KEYS"
  "''banner_text'' \<in> set DECODER_KEYS"
  "''http_method'' \<in> set DECODER_KEYS"
  "''http_path'' \<in> set DECODER_KEYS"
  "''http_host'' \<in> set DECODER_KEYS"
  "''http_status'' \<in> set DECODER_KEYS"
  "''http_server'' \<in> set DECODER_KEYS"
  "''http_user_agent'' \<in> set DECODER_KEYS"
  "''tls_record'' \<in> set DECODER_KEYS"
  "''tls_version'' \<in> set DECODER_KEYS"
  "''tls_handshake'' \<in> set DECODER_KEYS"
  "''ssh_version'' \<in> set DECODER_KEYS"
  "''ssh_software'' \<in> set DECODER_KEYS"
  "''ntp_mode'' \<in> set DECODER_KEYS"
  "''ntp_version'' \<in> set DECODER_KEYS"
  "''ntp_stratum'' \<in> set DECODER_KEYS"
  "''ntp_amplification_candidate'' \<in> set DECODER_KEYS"
  "''ftp_status'' \<in> set DECODER_KEYS"
  "''ftp_command'' \<in> set DECODER_KEYS"
  "''smtp_status'' \<in> set DECODER_KEYS"
  "''smtp_command'' \<in> set DECODER_KEYS"
  "''pop3_status'' \<in> set DECODER_KEYS"
  "''pop3_command'' \<in> set DECODER_KEYS"
  "''imap_status'' \<in> set DECODER_KEYS"
  "''imap_command'' \<in> set DECODER_KEYS"
  "''irc_status'' \<in> set DECODER_KEYS"
  "''irc_command'' \<in> set DECODER_KEYS"
  "''nntp_status'' \<in> set DECODER_KEYS"
  "''nntp_command'' \<in> set DECODER_KEYS"
  "''redis_command'' \<in> set DECODER_KEYS"
  "''sip_method'' \<in> set DECODER_KEYS"
  "''sip_from'' \<in> set DECODER_KEYS"
  "''sip_to'' \<in> set DECODER_KEYS"
  "''ssdp_method'' \<in> set DECODER_KEYS"
  "''ssdp_target'' \<in> set DECODER_KEYS"
  "''bgp_message'' \<in> set DECODER_KEYS"
  "''kerberos_message'' \<in> set DECODER_KEYS"
  "''ldap_operation'' \<in> set DECODER_KEYS"
  "''smb_version'' \<in> set DECODER_KEYS"
  "''smb_command'' \<in> set DECODER_KEYS"
  "''quic_version'' \<in> set DECODER_KEYS"
  "''quic_packet'' \<in> set DECODER_KEYS"
  "''stun_method'' \<in> set DECODER_KEYS"
  "''isakmp_exchange'' \<in> set DECODER_KEYS"
  "''isakmp_version'' \<in> set DECODER_KEYS"
  "''wireguard_message'' \<in> set DECODER_KEYS"
  "''vxlan_vni'' \<in> set DECODER_KEYS"
  "''lldp_system_name'' \<in> set DECODER_KEYS"
  "''lldp_port_description'' \<in> set DECODER_KEYS"
  "''lldp_port_id'' \<in> set DECODER_KEYS"
  "''eapol_type'' \<in> set DECODER_KEYS"
  "''cdp_device_id'' \<in> set DECODER_KEYS"
  "''cdp_port_id'' \<in> set DECODER_KEYS"
  "''cdp_software'' \<in> set DECODER_KEYS"
  by (simp_all add: DECODER_KEYS_def)

lemma good_field_simps:
  "good_field (k, PStr s) \<longleftrightarrow> k \<in> set DECODER_KEYS \<and> clean s"
  "good_field (k, PInt n) \<longleftrightarrow> k \<in> set DECODER_KEYS"
  "good_field (k, PBool b) \<longleftrightarrow> k \<in> set DECODER_KEYS"
  by (simp_all add: good_field_def)

lemmas good_simps = good_field_simps decoder_key_in clean_lit clean_cp_numeral clean_tables Let_def
  clean_dec clean_hexw clean_preview clean_strip clean_ascii_line clean_header_value clean_nth_or clean_upper
  clean_name_or clean_split_at clean_hd_split_at bind_eq_Some_conv

named_theorems decoder_good

lemma decode_tls_good [decoder_good]: "decode_tls p = Some fs \<Longrightarrow> list_all good_field fs"
proof (cases "map_of TLS_RECORD_TYPES (unat (p ! 0))")
  case (Some rec)
  have "list_all (\<lambda>c. clean_cp (of_char c)) rec" by (rule clean_lookup(1) [OF Some])
  then show "decode_tls p = Some fs \<Longrightarrow> list_all good_field fs"
    by (auto simp: decode_tls_def good_simps byte_at_def Some split: if_splits)
qed (auto simp: decode_tls_def byte_at_def split: if_splits)

lemma decode_ssh_good [decoder_good]: "decode_ssh p = Some fs \<Longrightarrow> list_all good_field fs"
  by (auto simp: decode_ssh_def good_simps split: if_splits option.splits)

lemma decode_http_good [decoder_good]: "decode_http p = Some fs \<Longrightarrow> list_all good_field fs"
  by (auto simp: decode_http_def good_simps clean_nth split: if_splits option.splits)

lemma decode_ntp_good [decoder_good]: "decode_ntp p = Some fs \<Longrightarrow> list_all good_field fs"
  by (auto simp: decode_ntp_def good_simps split: if_splits option.splits)

lemma decode_redis_good [decoder_good]: "decode_redis p = Some fs \<Longrightarrow> list_all good_field fs"
  by (auto simp: decode_redis_def good_simps clean_first_word clean_words clean_replace_sub split: if_splits)

lemma decode_sip_good [decoder_good]: "decode_sip p = Some fs \<Longrightarrow> list_all good_field fs"
  by (auto simp: decode_sip_def good_simps split: if_splits option.splits)

lemma decode_ssdp_good [decoder_good]: "decode_ssdp p = Some fs \<Longrightarrow> list_all good_field fs"
  by (auto simp: decode_ssdp_def good_simps split: if_splits option.splits)

lemma decode_bgp_good [decoder_good]: "decode_bgp p = Some fs \<Longrightarrow> list_all good_field fs"
  by (auto simp: decode_bgp_def good_simps split: if_splits option.splits)

lemma decode_kerberos_good [decoder_good]: "decode_kerberos p = Some fs \<Longrightarrow> list_all good_field fs"
  by (auto simp: decode_kerberos_def good_simps byte_at_def split: if_splits option.splits; erule clean_lookup)

lemma decode_ldap_good [decoder_good]: "decode_ldap p = Some fs \<Longrightarrow> list_all good_field fs"
  by (auto simp: decode_ldap_def good_simps byte_at_def split: if_splits option.splits; erule clean_lookup)

lemma decode_smb_good [decoder_good]: "decode_smb p = Some fs \<Longrightarrow> list_all good_field fs"
  by (auto simp: decode_smb_def good_simps split: if_splits option.splits)

lemma decode_quic_good [decoder_good]: "decode_quic p = Some fs \<Longrightarrow> list_all good_field fs"
  by (auto simp: decode_quic_def good_simps clean_names_def printable_def U_def split: if_splits option.splits)

lemma decode_stun_good [decoder_good]: "decode_stun p = Some fs \<Longrightarrow> list_all good_field fs"
  by (auto simp: decode_stun_def good_simps split: if_splits option.splits)

lemma decode_isakmp_good [decoder_good]: "decode_isakmp p = Some fs \<Longrightarrow> list_all good_field fs"
  by (auto simp: decode_isakmp_def good_simps split: if_splits option.splits)

lemma decode_wireguard_good [decoder_good]: "decode_wireguard p = Some fs \<Longrightarrow> list_all good_field fs"
  by (auto simp: decode_wireguard_def good_simps byte_at_def split: if_splits option.splits; erule clean_lookup)

lemma decode_vxlan_good [decoder_good]: "decode_vxlan p = Some fs \<Longrightarrow> list_all good_field fs"
  by (auto simp: decode_vxlan_def good_simps split: if_splits option.splits)

lemma decode_eapol_good [decoder_good]: "decode_eapol p = Some fs \<Longrightarrow> list_all good_field fs"
  by (auto simp: decode_eapol_def good_simps split: if_splits option.splits)

lemma decode_ftp_good [decoder_good]: "decode_ftp p = Some fs \<Longrightarrow> list_all good_field fs"
  and decode_smtp_good [decoder_good]: "decode_smtp p = Some fs \<Longrightarrow> list_all good_field fs"
  and decode_pop3_good [decoder_good]: "decode_pop3 p = Some fs \<Longrightarrow> list_all good_field fs"
  and decode_imap_good [decoder_good]: "decode_imap p = Some fs \<Longrightarrow> list_all good_field fs"
  and decode_irc_good [decoder_good]: "decode_irc p = Some fs \<Longrightarrow> list_all good_field fs"
  and decode_nntp_good [decoder_good]: "decode_nntp p = Some fs \<Longrightarrow> list_all good_field fs"
proof -
  have digits: "clean (takeWhile is_digit s)" if "clean s" for s
    by (rule clean_sub [OF _ that]) (auto dest: set_takeWhileD)
  show "decode_ftp p = Some fs \<Longrightarrow> list_all good_field fs" "decode_smtp p = Some fs \<Longrightarrow> list_all good_field fs"
    "decode_pop3 p = Some fs \<Longrightarrow> list_all good_field fs" "decode_imap p = Some fs \<Longrightarrow> list_all good_field fs"
    "decode_irc p = Some fs \<Longrightarrow> list_all good_field fs" "decode_nntp p = Some fs \<Longrightarrow> list_all good_field fs"
    by (auto simp: line_decoders decode_line_protocol_def good_simps digits split: if_splits)
qed

lemma set_field_good: "list_all good_field fs \<Longrightarrow> good_field (k, v) \<Longrightarrow> list_all good_field (set_field k v fs)"
  by (induction k v fs rule: set_field.induct) auto

lemma lldp_tlv_good: "list_all good_field fs \<Longrightarrow> list_all good_field (lldp_tlv t v fs)"
  by (auto simp: lldp_tlv_def good_simps startswith_def intro!: set_field_good split: option.splits)

lemma lldp_walk_good: "list_all good_field fs \<Longrightarrow> list_all good_field (lldp_walk p off fs)"
proof (induction p off fs rule: lldp_walk.induct)
  case (1 p off fs)
  then show ?case by (subst lldp_walk.simps) (auto simp: Let_def lldp_tlv_good)
qed

lemma cdp_walk_good: "list_all good_field fs \<Longrightarrow> list_all good_field (cdp_walk p off fs)"
proof (induction p off fs rule: cdp_walk.induct)
  case (1 p off fs)
  then show ?case
    by (subst cdp_walk.simps) (auto simp: Let_def cdp_tlv_def good_simps set_field_good)
qed

lemma clean_field_text: "list_all good_field fs \<Longrightarrow> clean (field_text fs k)"
proof (cases "map_of fs k")
  case (Some v)
  assume "list_all good_field fs"
  then have "clean_value v" using map_of_SomeD [OF Some] by (auto simp: list_all_iff good_field_def)
  then show ?thesis by (cases v) (auto simp: field_text_def Some)
qed (simp add: field_text_def)

lemma decode_lldp_good [decoder_good]: "decode_lldp p = Some fs \<Longrightarrow> list_all good_field fs"
  using lldp_walk_good [of "[]" p 0]
  by (auto simp: decode_lldp_def good_simps clean_field_text intro!: set_field_good split: if_splits)

lemma decode_cdp_good [decoder_good]: "decode_cdp p = Some fs \<Longrightarrow> list_all good_field fs"
  using cdp_walk_good [of "[]" p 4]
  by (auto simp: decode_cdp_def good_simps clean_field_text intro!: set_field_good split: if_splits)

lemma all_decoders_good: "list_all (\<lambda>(n, d). \<forall>p fs. d p = Some fs \<longrightarrow> list_all good_field fs) DECODERS"
  by (simp add: DECODERS_def decoder_good)

lemma decode_good: "list_all good_field (decode proto payload)"
proof (cases "find_decoder proto = None \<or> payload = []")
  case False
  then obtain d where d: "find_decoder proto = Some d" "payload \<noteq> []" by auto
  obtain n where "(n, d) \<in> set DECODERS" using find_decoder_in [OF d(1)] by blast
  then have "\<forall>p fs. d p = Some fs \<longrightarrow> list_all good_field fs"
    using all_decoders_good unfolding list_all_iff by blast
  then show ?thesis using decode_no_exception [OF d] by blast
qed (auto simp: decode_def split: option.splits)

section \<open>Properties\<close>

text \<open>
  Every read of every decoder is in bounds: no registered decoder raises, on any payload,
  so the \<open>except\<close> clause of the dispatcher never hides a decode.
\<close>

theorem decoders_never_raise:
  "list_all (\<lambda>(n, d). \<forall>p. d p \<noteq> None) DECODERS
   \<and> (\<forall>proto payload. decode proto payload =
        (case find_decoder proto of None \<Rightarrow> [] | Some d \<Rightarrow> if payload = [] then [] else the (d payload)))"
proof (intro conjI allI)
  show "list_all (\<lambda>(n, d). \<forall>p. d p \<noteq> None) DECODERS" by (rule all_decoders_total)
  show "decode proto payload =
        (case find_decoder proto of None \<Rightarrow> [] | Some d \<Rightarrow> if payload = [] then [] else the (d payload))"
    for proto payload
  proof (cases "find_decoder proto")
    case (Some d)
    show ?thesis
    proof (cases "payload = []")
      case False
      then have "the (d payload) = decode proto payload" using decode_no_exception [OF Some] by (metis option.sel)
      then show ?thesis using False by (simp add: Some)
    qed (simp add: Some decode_def)
  qed (simp add: decode_def)
qed

text \<open>
  Whatever the payload bytes, every text field a decoder produces contains only printable
  ASCII and the ellipsis, and its keys come from a fixed list of 54 names, none of which is an
  address, port, protocol, transport or length field of the packet.
\<close>

theorem decoder_fields_clean:
  "(\<forall>f \<in> set (decode proto payload). fst f \<in> set DECODER_KEYS \<and> clean_value (snd f))
   \<and> set DECODER_KEYS \<inter> {''proto'', ''transport'', ''src_ip'', ''dst_ip'', ''src_port'', ''dst_port'', ''length'',
        ''payload_len'', ''payload_text'', ''flow_key'', ''direction'', ''domain''} = {}"
proof
  show "\<forall>f \<in> set (decode proto payload). fst f \<in> set DECODER_KEYS \<and> clean_value (snd f)"
    using decode_good [of proto payload] by (auto simp: list_all_iff good_field_def)
qed (simp add: DECODER_KEYS_def)

theorem decoder_fields_clean_witness:
  "fst (''summary'', S ''BGP KEEPALIVE'') \<in> set DECODER_KEYS \<and> clean_value (snd (''summary'', S ''BGP KEEPALIVE''))"
proof -
  have "(''summary'', S ''BGP KEEPALIVE'') \<in> set (decode (U ''bgp'') (replicate 16 0xFF @ [0, 19, 4]))"
    by code_simp
  then show ?thesis using decoder_fields_clean [of "U ''bgp''" "replicate 16 0xFF @ [0, 19, 4]"] by blast
qed

end
