(* ===== verification/Wire_Formats.thy ===== *)
theory Wire_Formats
  imports App_Decoders
begin

text \<open>
  The free functions of \<^verbatim>\<open>sniffer.py\<close> that read wire formats: HTTP request lines, DNS names and
  messages, the TLS server name, and NetBIOS names. A Python function that catches every
  exception is a body in the \<open>option\<close> monad, where \<open>None\<close> is the raised exception, followed by
  the handler's value.
\<close>

definition catch :: "'a option \<Rightarrow> 'a \<Rightarrow> 'a" where
  "catch body handler = (case body of None \<Rightarrow> handler | Some x \<Rightarrow> x)"

lemma catch_Some [simp]: "catch (Some x) h = x"
  by (simp add: catch_def)

section \<open>HTTP request lines\<close>

definition HTTP_REQUEST_METHODS :: "string list" where
  "HTTP_REQUEST_METHODS = [''GET'', ''POST'', ''PUT'', ''DELETE'', ''HEAD'', ''OPTIONS'', ''PATCH'', ''CONNECT'', ''TRACE'']"

definition starts_ci :: "ustr \<Rightarrow> string \<Rightarrow> bool" where
  "starts_ci s p \<longleftrightarrow> startswith (lower s) (lower (U p))"

text \<open>
  \<open>HTTP_REQUEST_LINE_RE.match\<close>: a method name in any case, white space, a run of other
  characters, white space, \<open>HTTP/d.d\<close>. The result is the method and the path.
\<close>

definition http_version_at :: "ustr \<Rightarrow> bool" where
  "http_version_at s \<longleftrightarrow> starts_ci s ''HTTP/'' \<and> length s \<ge> 8 \<and> is_digit (s ! 5) \<and> s ! 6 = 46 \<and> is_digit (s ! 7)"

definition match_request_line :: "ustr \<Rightarrow> (ustr \<times> ustr) option" where
  "match_request_line s =
     (case find (starts_ci s) HTTP_REQUEST_METHODS of
        None \<Rightarrow> None
      | Some m \<Rightarrow>
          (let meth = take (length m) s; r1 = drop (length m) s; r2 = dropWhile is_space r1;
               path = takeWhile (\<lambda>c. \<not> is_space c) r2; r3 = dropWhile (\<lambda>c. \<not> is_space c) r2;
               r4 = dropWhile is_space r3 in
           if length r2 < length r1 \<and> path \<noteq> [] \<and> length r4 < length r3 \<and> http_version_at r4
           then Some (meth, path) else None))"

text \<open>
  \<open>HTTP_HOST_HEADER_RE.search\<close>: \<open>Host:\<close> in any case at the start of the text or after a
  carriage return, newline or space. When only blanks with a tab follow, the pattern's
  second group backtracks onto the tab and strips to the empty string.
\<close>

definition host_chars :: "nat \<Rightarrow> bool" where
  "host_chars c \<longleftrightarrow> c \<noteq> 13 \<and> c \<noteq> 10 \<and> c \<noteq> 32"

definition host_here :: "ustr \<Rightarrow> ustr option" where
  "host_here s =
     (if \<not> starts_ci s ''Host:'' then None
      else let r = drop 5 s; blanks = takeWhile (\<lambda>c. c = 32 \<or> c = 9) r; v = takeWhile host_chars (drop (length blanks) r) in
        if v \<noteq> [] then Some v else if 9 \<in> set blanks then Some [9] else None)"

fun search_host :: "bool \<Rightarrow> ustr \<Rightarrow> ustr option" where
  "search_host boundary [] = None"
| "search_host boundary (c # cs) =
     (case (if boundary then host_here (c # cs) else None) of
        Some v \<Rightarrow> Some v
      | None \<Rightarrow> search_host (c = 13 \<or> c = 10 \<or> c = 32) cs)"

definition extract_http_request :: "ustr \<Rightarrow> ustr \<times> ustr \<times> ustr" where
  "extract_http_request t =
     (if t = [] then ([], [], [])
      else case match_request_line (strip t) of
        None \<Rightarrow> ([], [], [])
      | Some (meth, path) \<Rightarrow>
          (upper meth, strip path, case search_host True t of None \<Rightarrow> [] | Some h \<Rightarrow> strip h))"

section \<open>DNS names\<close>

definition MAX_JUMPS :: nat where "MAX_JUMPS = 20"

definition resume_or :: "nat option \<Rightarrow> nat \<Rightarrow> nat" where
  "resume_or r pos = (case r of None \<Rightarrow> pos | Some x \<Rightarrow> x)"

text \<open>
  The loop of \<open>_read_dns_name\<close>: position, number of compression jumps taken, where the caller
  resumes, labels so far. It ends because a turn either takes one of at most 20 jumps or
  adds one of at most 129 labels.
\<close>

function dns_name_loop :: "bytes \<Rightarrow> nat \<Rightarrow> nat \<Rightarrow> nat option \<Rightarrow> ustr list \<Rightarrow> ustr list \<times> nat" where
  "dns_name_loop payload pos jumps resume labels =
     (if pos \<ge> length payload then (labels, resume_or resume pos)
      else let len = unat (payload ! pos) in
        if len = 0 then (labels, resume_or resume (pos + 1))
        else if len AND 0xC0 = 0xC0 then
          (if pos + 1 \<ge> length payload then (labels, resume_or resume pos)
           else let pointer = (len AND 0x3F) * 256 + unat (payload ! (pos + 1));
                    resume' = resume_or resume (pos + 2) in
             if jumps + 1 > MAX_JUMPS \<or> pointer \<ge> length payload \<or> pointer = pos then (labels, resume')
             else dns_name_loop payload pointer (jumps + 1) (Some resume') labels)
        else if pos + 1 + len > length payload then (labels, resume_or resume (pos + 1))
        else let labels' = labels @ [latin1 (slice (pos + 1) (pos + 1 + len) payload)] in
          if length labels' > 128 then (labels', resume_or resume (pos + 1 + len))
          else dns_name_loop payload (pos + 1 + len) jumps resume labels')"
  by pat_completeness auto

termination dns_name_loop
  by (relation "measure (\<lambda>(payload, pos, jumps, resume, labels). (21 - jumps) + (129 - length labels))")
     (auto simp: MAX_JUMPS_def)

declare dns_name_loop.simps [simp del]

definition dns_name_text :: "ustr list \<Rightarrow> ustr" where
  "dns_name_text labels = lower (strip_by (\<lambda>c. c = 46) (join (U ''.'') labels))"

definition read_dns_name :: "bytes \<Rightarrow> nat \<Rightarrow> ustr \<times> nat" where
  "read_dns_name payload off =
     (case dns_name_loop payload off 0 None [] of (labels, resume) \<Rightarrow> (dns_name_text labels, resume))"

section \<open>DNS messages\<close>

fun txt_chunks :: "bytes \<Rightarrow> ustr list" where
  "txt_chunks [] = []"
| "txt_chunks (l # rest) = ascii_replace (take (unat l) rest) # txt_chunks (drop (unat l) rest)"

definition dns_rdata_body :: "nat \<Rightarrow> bytes \<Rightarrow> bytes \<Rightarrow> nat \<Rightarrow> ustr option" where
  "dns_rdata_body rtype rdata full off =
     (if rtype = 1 \<and> length rdata = 4 then ipv4_str rdata
      else if rtype = 28 \<and> length rdata = 16 then ipv6_str rdata
      else if rtype \<in> {2, 5, 12} then Some (fst (read_dns_name full off))
      else if rtype = 16 then Some (join (U '' '') (txt_chunks rdata))
      else Some (take 64 (hex_bytes rdata)))"

definition dns_rdata_preview :: "nat \<Rightarrow> bytes \<Rightarrow> bytes \<Rightarrow> nat \<Rightarrow> ustr" where
  "dns_rdata_preview rtype rdata full off = catch (dns_rdata_body rtype rdata full off) (take 64 (hex_bytes rdata))"

record dns_question =
  q_name :: ustr
  q_type :: nat
  q_class :: nat

record dns_answer =
  a_name :: ustr
  a_type :: nat
  a_ttl :: nat
  a_rdata :: ustr

record dns_message =
  is_response :: bool
  rcode :: nat
  questions :: "dns_question list"
  answers :: "dns_answer list"

fun read_questions :: "bytes \<Rightarrow> nat \<Rightarrow> nat \<Rightarrow> dns_question list \<times> nat" where
  "read_questions payload 0 off = ([], off)"
| "read_questions payload (Suc n) off =
     (if off \<ge> length payload then ([], off)
      else case read_dns_name payload off of (name, off1) \<Rightarrow>
        if off1 + 4 > length payload then ([], off1)
        else (case read_questions payload n (off1 + 4) of (qs, off2) \<Rightarrow>
          (\<lparr>q_name = name, q_type = be (slice off1 (off1 + 2) payload),
            q_class = be (slice (off1 + 2) (off1 + 4) payload)\<rparr> # qs, off2)))"

fun read_answers :: "bytes \<Rightarrow> nat \<Rightarrow> nat \<Rightarrow> dns_answer list" where
  "read_answers payload 0 off = []"
| "read_answers payload (Suc n) off =
     (if off \<ge> length payload then []
      else case read_dns_name payload off of (name, off1) \<Rightarrow>
        if off1 + 10 > length payload then []
        else let rtype = be (slice off1 (off1 + 2) payload);
                 ttl = be (slice (off1 + 4) (off1 + 8) payload);
                 rdlength = be (slice (off1 + 8) (off1 + 10) payload);
                 off2 = off1 + 10;
                 rdata = (if off2 + rdlength \<le> length payload then slice off2 (off2 + rdlength) payload else []) in
          \<lparr>a_name = name, a_type = rtype, a_ttl = ttl, a_rdata = dns_rdata_preview rtype rdata payload off2\<rparr>
            # read_answers payload n (off2 + rdlength))"

definition empty_dns_message :: dns_message where
  "empty_dns_message = \<lparr>is_response = False, rcode = 0, questions = [], answers = []\<rparr>"

definition parse_dns_message :: "bytes \<Rightarrow> dns_message" where
  "parse_dns_message payload =
     (if length payload < 12 then empty_dns_message
      else let flags = be (slice 2 4 payload);
               qdcount = be (slice 4 6 payload);
               ancount = be (slice 6 8 payload) in
        case read_questions payload (min qdcount 32) 12 of (qs, off) \<Rightarrow>
          \<lparr>is_response = (flags AND 0x8000 \<noteq> 0), rcode = flags AND 0xF, questions = qs,
           answers = read_answers payload (min ancount 32) off\<rparr>)"

definition DNS_QTYPE_NAMES :: "(nat \<times> string) list" where
  "DNS_QTYPE_NAMES = [(1, ''A''), (2, ''NS''), (5, ''CNAME''), (6, ''SOA''), (12, ''PTR''), (15, ''MX''),
     (16, ''TXT''), (28, ''AAAA''), (33, ''SRV''), (255, ''ANY'')]"

definition DNS_RCODE_NAMES :: "(nat \<times> string) list" where
  "DNS_RCODE_NAMES = [(0, ''NOERROR''), (1, ''FORMERR''), (2, ''SERVFAIL''), (3, ''NXDOMAIN''), (4, ''NOTIMP''), (5, ''REFUSED'')]"

definition dns_message_summary :: "ustr \<Rightarrow> dns_message \<Rightarrow> ustr" where
  "dns_message_summary pre m =
     (let base = (case questions m of
            [] \<Rightarrow> pre @ U '' message''
          | q # _ \<Rightarrow> pre @ U '' '' @ (if is_response m then U ''response'' else U ''query'') @ U '' ''
                     @ q_name q @ U '' '' @ name_or DNS_QTYPE_NAMES (q_type q) (dec (q_type q)));
          with_answer = (if is_response m then
              (case answers m of [] \<Rightarrow> base | a # _ \<Rightarrow> base @ U '' -> '' @ a_rdata a)
            else base) in
      if is_response m \<and> rcode m \<noteq> 0
      then with_answer @ U '' ['' @ name_or DNS_RCODE_NAMES (rcode m) (dec (rcode m)) @ U '']''
      else with_answer)"

text \<open>The query-only reader \<open>extract_dns_query_name\<close>: no compression, ASCII labels.\<close>

function query_labels :: "bytes \<Rightarrow> nat \<Rightarrow> ustr list \<Rightarrow> ustr list option" where
  "query_labels payload off labels =
     (if off \<ge> length payload then Some labels
      else let len = unat (payload ! off) in
        if len = 0 then Some labels
        else if len AND 0xC0 \<noteq> 0 then None
        else if off + 1 + len > length payload then None
        else let label = slice (off + 1) (off + 1 + len) payload in
          if \<not> isascii label then None
          else if off + 1 + len > 512 then None
          else query_labels payload (off + 1 + len) (labels @ [latin1 label]))"
  by pat_completeness auto

termination query_labels
  by (relation "measure (\<lambda>(payload, off, labels). length payload - off)") auto

declare query_labels.simps [simp del]

definition extract_dns_query_name :: "bytes \<Rightarrow> ustr" where
  "extract_dns_query_name payload =
     (if length payload < 12 then []
      else if payload ! 2 AND 0x80 \<noteq> 0 then []
      else if be (slice 4 6 payload) < 1 then []
      else case query_labels payload 12 [] of
        None \<Rightarrow> []
      | Some labels \<Rightarrow> (let name = dns_name_text labels in if list_all printable name then name else []))"

section \<open>TLS server name\<close>

definition looks_like_tls_record :: "bytes \<Rightarrow> bool" where
  "looks_like_tls_record payload \<longleftrightarrow> length payload \<ge> 3
     \<and> payload ! 0 \<in> {0x14, 0x15, 0x16, 0x17} \<and> payload ! 1 = 3 \<and> unat (payload ! 2) \<le> 4"

function sni_extensions :: "bytes \<Rightarrow> nat \<Rightarrow> nat \<Rightarrow> ustr option" where
  "sni_extensions payload en pos =
     (if pos + 4 \<le> en then
        (let ext_type = be (slice pos (pos + 2) payload);
             ext_len = be (slice (pos + 2) (pos + 4) payload);
             start = pos + 4 in
         if ext_type = 0 \<and> start + 2 \<le> en then
           (let p = start + 2 in
            if p + 3 \<le> en then do {
              name_type \<leftarrow> byte_at payload p;
              let name_len = be (slice (p + 1) (p + 3) payload);
              let name = slice (p + 3) (p + 3 + name_len) payload;
              if name_type = 0 \<and> p + 3 + name_len \<le> en \<and> isascii name then Some (lower (strip (latin1 name)))
              else Some []
            } else Some [])
         else sni_extensions payload en (start + ext_len))
      else Some [])"
  by pat_completeness auto

termination sni_extensions
  by (relation "measure (\<lambda>(payload, en, pos). en - pos)") auto

declare sni_extensions.simps [simp del]

definition extract_tls_sni_body :: "bytes \<Rightarrow> ustr option" where
  "extract_tls_sni_body payload =
     (if length payload < 44 then Some [] else do {
        b0 \<leftarrow> byte_at payload 0;
        if b0 \<noteq> 0x16 then Some [] else do {
        b5 \<leftarrow> byte_at payload 5;
        if b5 \<noteq> 1 then Some [] else do {
        let pos = 9 + 2 + 32;
        if pos \<ge> length payload then Some [] else do {
        session_id_len \<leftarrow> byte_at payload pos;
        let pos = pos + 1 + session_id_len;
        if pos + 2 > length payload then Some [] else do {
        let pos = pos + 2 + be (slice pos (pos + 2) payload);
        if pos \<ge> length payload then Some [] else do {
        comp_len \<leftarrow> byte_at payload pos;
        let pos = pos + 1 + comp_len;
        if pos + 2 > length payload then Some []
        else sni_extensions payload (min (pos + 2 + be (slice pos (pos + 2) payload)) (length payload)) (pos + 2)
        }}}}}})"

definition extract_tls_sni :: "bytes \<Rightarrow> ustr" where
  "extract_tls_sni payload = catch (extract_tls_sni_body payload) []"

section \<open>NetBIOS names\<close>

fun nbns_chars :: "bytes \<Rightarrow> ustr option" where
  "nbns_chars (a # b # rest) =
     (if 65 \<le> unat a \<and> unat a \<le> 80 \<and> 65 \<le> unat b \<and> unat b \<le> 80
      then map_option (\<lambda>cs. ((unat a - 65) * 16 + (unat b - 65)) # cs) (nbns_chars rest)
      else None)"
| "nbns_chars _ = Some []"

definition decode_nbns_name :: "bytes \<Rightarrow> ustr" where
  "decode_nbns_name encoded =
     (if length encoded \<noteq> 32 then []
      else case nbns_chars encoded of
        None \<Rightarrow> []
      | Some cs \<Rightarrow> rstrip_by is_space (rstrip_by (\<lambda>c. c = 0) cs))"

section \<open>Lemmas on DNS names\<close>

lemma dns_name_loop_resume:
  "snd (dns_name_loop payload pos jumps (Some r) labels) = r"
proof (induction payload pos jumps "Some r" labels rule: dns_name_loop.induct)
  case (1 payload pos jumps labels)
  then show ?case by (subst dns_name_loop.simps) (simp add: Let_def resume_or_def)
qed

lemma dns_name_loop_bounds:
  "pos \<le> length payload \<Longrightarrow>
   pos \<le> snd (dns_name_loop payload pos jumps None labels)
   \<and> snd (dns_name_loop payload pos jumps None labels) \<le> length payload"
proof (induction payload pos jumps "None :: nat option" labels rule: dns_name_loop.induct)
  case (1 payload pos jumps labels)
  show ?case
  proof (cases "pos \<ge> length payload \<or> unat (payload ! pos) = 0 \<or> unat (payload ! pos) AND 0xC0 = 0xC0")
    case True
    then show ?thesis using 1(2)
      by (subst (1 2) dns_name_loop.simps) (auto simp: Let_def resume_or_def dns_name_loop_resume)
  next
    case False
    let ?len = "unat (payload ! pos)"
    let ?labels = "labels @ [latin1 (slice (pos + 1) (pos + 1 + ?len) payload)]"
    show ?thesis
    proof (cases "pos + 1 + ?len > length payload \<or> length ?labels > 128")
      case True
      then show ?thesis using False 1(2) by (subst (1 2) dns_name_loop.simps) (auto simp: Let_def resume_or_def)
    next
      case more: False
      have "pos + 1 + ?len \<le> snd (dns_name_loop payload (pos + 1 + ?len) jumps None ?labels)
          \<and> snd (dns_name_loop payload (pos + 1 + ?len) jumps None ?labels) \<le> length payload"
        by (rule 1(1)) (use False more in auto)
      then show ?thesis using False more by (subst (1 2) dns_name_loop.simps) (auto simp: Let_def)
    qed
  qed
qed

lemma read_dns_name_bounds:
  "off \<le> length payload \<Longrightarrow> off \<le> snd (read_dns_name payload off) \<and> snd (read_dns_name payload off) \<le> length payload"
  using dns_name_loop_bounds [of off payload 0 "[]"] by (simp add: read_dns_name_def split_beta)

text \<open>Encoding of a name, and how the loop reads it.\<close>

definition dns_label :: "bytes \<Rightarrow> bytes" where
  "dns_label l = of_nat (length l) # l"

definition dns_labels :: "bytes list \<Rightarrow> bytes" where
  "dns_labels ls = concat (map dns_label ls)"

definition label_ok :: "bytes \<Rightarrow> bool" where
  "label_ok l \<longleftrightarrow> l \<noteq> [] \<and> length l \<le> 63"

definition dns_pointer :: "nat \<Rightarrow> bytes" where
  "dns_pointer o' = [of_nat (192 + o' div 256), of_nat (o' mod 256)]"

definition at_offset :: "bytes \<Rightarrow> nat \<Rightarrow> bytes \<Rightarrow> bool" where
  "at_offset payload off bs \<longleftrightarrow> prefix bs (drop off payload)"

lemma at_offset_length: "at_offset payload off bs \<Longrightarrow> bs \<noteq> [] \<Longrightarrow> off + length bs \<le> length payload"
  by (auto simp: at_offset_def dest!: prefix_length_le) (cases bs; simp)

lemma at_offset_nth: "at_offset payload off bs \<Longrightarrow> i < length bs \<Longrightarrow> payload ! (off + i) = bs ! i"
proof -
  assume "at_offset payload off bs" and i: "i < length bs"
  then obtain r where r: "drop off payload = bs @ r" by (auto simp: at_offset_def prefix_def)
  then have "drop off payload ! i = bs ! i" using i by (simp add: nth_append)
  moreover have "off \<le> length payload" using r i by (cases "off \<le> length payload") auto
  ultimately show ?thesis by simp
qed

lemma at_offset_slice: "at_offset payload off bs \<Longrightarrow> slice off (off + length bs) payload = bs"
  by (auto simp: at_offset_def slice_def prefix_def)

lemma at_offset_append:
  "at_offset payload off (a @ b) \<longleftrightarrow> at_offset payload off a \<and> at_offset payload (off + length a) b"
proof -
  have eq: "drop (off + length a) payload = drop (length a) (drop off payload)" by (simp add: add.commute)
  show ?thesis unfolding at_offset_def eq by (auto simp: prefix_def simp del: drop_drop)
qed

lemma at_offset_Cons: "at_offset payload off (x # b) \<longleftrightarrow> at_offset payload off [x] \<and> at_offset payload (off + 1) b"
  using at_offset_append [of payload off "[x]" b] by simp

lemma and_C0: "(n :: nat) AND 0xC0 = (n div 64 mod 4) * 64"
proof -
  have "n AND push_bit 6 (mask 2) = push_bit 6 (take_bit 2 (drop_bit 6 n))"
    by (rule bit_eqI) (auto simp: bit_simps)
  then show ?thesis by (simp add: push_bit_eq_mult mask_eq_exp_minus_1 take_bit_eq_mod drop_bit_eq_div)
qed

lemma and_3F: "(n :: nat) AND 0x3F = n mod 64"
  using take_bit_eq_mask [of 6 n] by (simp add: take_bit_eq_mod mask_eq_exp_minus_1)

lemma label_mask: "n \<le> 63 \<Longrightarrow> (n :: nat) AND 0xC0 \<noteq> 0xC0"
  by (simp add: and_C0)

lemma pointer_mask: "192 \<le> n \<Longrightarrow> n < 256 \<Longrightarrow> (n :: nat) AND 0xC0 = 0xC0 \<and> n AND 0x3F = n - 192"
proof -
  assume n: "192 \<le> n" "n < 256"
  then have d: "n div 64 = 3" by simp
  then have "n mod 64 = n - 192" using div_mult_mod_eq [of n 64] by simp
  with d show ?thesis by (simp add: and_C0 and_3F)
qed

lemma loop_label:
  assumes "at_offset payload pos (dns_label l)" "label_ok l" "length labels < 128"
  shows "dns_name_loop payload pos jumps resume labels =
    dns_name_loop payload (pos + length (dns_label l)) jumps resume (labels @ [latin1 l])"
proof -
  have len: "pos + Suc (length l) \<le> length payload"
    using at_offset_length [OF assms(1)] by (simp add: dns_label_def)
  have b: "unat (payload ! pos) = length l"
    using at_offset_nth [OF assms(1), of 0] assms(2) by (simp add: dns_label_def label_ok_def unat_of_nat)
  have "at_offset payload (pos + 1) l"
    using assms(1) unfolding dns_label_def by (rule at_offset_Cons [THEN iffD1, THEN conjunct2])
  then have sl: "slice (pos + 1) (pos + 1 + length l) payload = l" by (rule at_offset_slice)
  have "length l \<noteq> 0" "length l AND 0xC0 \<noteq> 0xC0" using assms(2) label_mask by (auto simp: label_ok_def)
  then show ?thesis using len b sl assms(3)
    by (subst dns_name_loop.simps) (simp add: Let_def dns_label_def)
qed

lemma loop_labels:
  assumes "at_offset payload pos (dns_labels ls)" "list_all label_ok ls" "length labels + length ls \<le> 128"
  shows "dns_name_loop payload pos jumps resume labels =
    dns_name_loop payload (pos + length (dns_labels ls)) jumps resume (labels @ map latin1 ls)"
  using assms
proof (induction ls arbitrary: pos labels)
  case (Cons l ls)
  have "at_offset payload pos (dns_label l)" "at_offset payload (pos + length (dns_label l)) (dns_labels ls)"
    using Cons.prems(1) by (simp_all add: dns_labels_def at_offset_append)
  with Cons show ?case by (simp add: loop_label dns_labels_def add.assoc)
qed (simp add: dns_labels_def)

lemma loop_zero:
  assumes "at_offset payload pos [0]"
  shows "dns_name_loop payload pos jumps resume labels = (labels, resume_or resume (pos + 1))"
  using at_offset_length [OF assms] at_offset_nth [OF assms, of 0]
  by (subst dns_name_loop.simps) simp

lemma loop_pointer:
  assumes "at_offset payload pos (dns_pointer t)" "t < 16384" "t < length payload" "t \<noteq> pos" "jumps < MAX_JUMPS"
  shows "dns_name_loop payload pos jumps resume labels =
    dns_name_loop payload t (jumps + 1) (Some (resume_or resume (pos + 2))) labels"
proof -
  have len: "pos + 2 \<le> length payload" using at_offset_length [OF assms(1)] by (simp add: dns_pointer_def)
  have p: "payload ! pos = of_nat (192 + t div 256)" "payload ! (pos + 1) = of_nat (t mod 256)"
    using at_offset_nth [OF assms(1), of 0] at_offset_nth [OF assms(1), of 1]
    by (simp_all add: dns_pointer_def)
  have b: "unat (payload ! pos) = 192 + t div 256" "unat (payload ! (pos + 1)) = t mod 256"
    unfolding p by (rule unat_of_nat_byte; use assms(2) in simp)+
  have m: "(192 + t div 256) AND 0xC0 = 0xC0" "(192 + t div 256) AND 0x3F = t div 256"
    using pointer_mask [of "192 + t div 256"] assms(2) by auto
  show ?thesis using len b m assms(3-5)
    by (subst dns_name_loop.simps) (simp add: Let_def)
qed

text \<open>The name starting at an offset, uncompressed or through one pointer.\<close>

lemma read_plain_name:
  assumes "at_offset payload off (dns_labels ls @ [0])" "list_all label_ok ls" "length ls \<le> 128"
  shows "read_dns_name payload off = (dns_name_text (map latin1 ls), off + length (dns_labels ls) + 1)"
  using assms loop_labels [of payload off ls "[]" 0 None]
  by (simp add: read_dns_name_def at_offset_append loop_zero resume_or_def)

lemma read_compressed_name:
  assumes "at_offset payload off (dns_labels ls @ dns_pointer t)" "at_offset payload t (dns_labels ms @ [0])"
    and "list_all label_ok ls" "list_all label_ok ms" "length ls + length ms \<le> 128"
    and "t < 16384" "t < off"
  shows "read_dns_name payload off = (dns_name_text (map latin1 (ls @ ms)), off + length (dns_labels ls) + 2)"
proof -
  have "t < length payload" using assms(2) at_offset_length by fastforce
  moreover have "t \<noteq> off + length (dns_labels ls)" using assms(7) by simp
  ultimately have "dns_name_loop payload (off + length (dns_labels ls)) 0 None (map latin1 ls)
      = dns_name_loop payload t 1 (Some (off + length (dns_labels ls) + 2)) (map latin1 ls)"
    using assms(1,6) loop_pointer [of payload "off + length (dns_labels ls)" t 0]
    by (simp add: at_offset_append MAX_JUMPS_def resume_or_def)
  moreover have "dns_name_loop payload off 0 None []
      = dns_name_loop payload (off + length (dns_labels ls)) 0 None (map latin1 ls)"
    using loop_labels [of payload off ls "[]" 0 None] assms(1,3,5) by (simp add: at_offset_append)
  moreover have "dns_name_loop payload t 1 r (map latin1 ls)
      = dns_name_loop payload (t + length (dns_labels ms)) 1 r (map latin1 (ls @ ms))" for r
    using loop_labels [of payload t ms "map latin1 ls" 1 r] assms(2,4,5) by (simp add: at_offset_append)
  ultimately show ?thesis
    using assms(2) by (simp add: read_dns_name_def at_offset_append loop_zero resume_or_def)
qed

section \<open>Lemmas on DNS messages\<close>

lemma read_questions_shape:
  "off \<le> length payload \<Longrightarrow>
   length (fst (read_questions payload n off)) \<le> n
   \<and> list_all (\<lambda>q. q_type q < 65536 \<and> q_class q < 65536) (fst (read_questions payload n off))
   \<and> snd (read_questions payload n off) \<le> length payload"
proof (induction n arbitrary: off)
  case (Suc n)
  obtain name off1 where r: "read_dns_name payload off = (name, off1)" by (cases "read_dns_name payload off")
  have b: "off1 \<le> length payload" using read_dns_name_bounds [OF Suc.prems] r by simp
  have "be (slice (off1 + 2) (off1 + 4) payload) < 65536" by (rule be_length2_less) simp
  with Suc.IH [of "off1 + 4"] b r be_slice2_less [of off1 payload] Suc.prems show ?case
    by (auto simp: split_beta)
qed simp

lemma read_answers_shape:
  "length (read_answers payload n off) \<le> n
   \<and> list_all (\<lambda>a. a_type a < 65536 \<and> a_ttl a < 4294967296) (read_answers payload n off)"
proof (induction n arbitrary: off)
  case (Suc n)
  obtain name off1 where r: "read_dns_name payload off = (name, off1)" by (cases "read_dns_name payload off")
  have "be (slice (off1 + 4) (off1 + 8) payload) < 256 ^ length (slice (off1 + 4) (off1 + 8) payload)" by (rule be_less)
  also have "\<dots> \<le> 256 ^ 4" by (intro power_increasing) auto
  finally show ?case using Suc.IH r be_slice2_less [of off1 payload] by (auto simp: Let_def)
qed simp

lemma extract_tls_sni_total: "extract_tls_sni_body payload \<noteq> None"
proof -
  have ext: "en \<le> length payload \<Longrightarrow> sni_extensions payload en pos \<noteq> None" for en pos
  proof (induction payload en pos rule: sni_extensions.induct)
    case (1 payload en pos)
    then show ?case by (subst sni_extensions.simps) (auto simp: Let_def)
  qed
  then show ?thesis
    by (auto simp: extract_tls_sni_body_def byte_at_def Let_def split: if_splits simp del: not_None_eq)
qed

section \<open>Lemmas on the TLS server name\<close>

definition tls_extension :: "nat \<times> bytes \<Rightarrow> bytes" where
  "tls_extension e = to_be2 (fst e) @ to_be2 (length (snd e)) @ snd e"

definition server_name :: "bytes \<Rightarrow> bytes" where
  "server_name name = to_be2 (length name + 3) @ [0] @ to_be2 (length name) @ name"

definition client_hello :: "bytes \<Rightarrow> bytes \<Rightarrow> bytes \<Rightarrow> bytes \<Rightarrow> bytes \<Rightarrow> (nat \<times> bytes) list \<Rightarrow> bytes" where
  "client_hello hdr random sid suites cm exts =
     (let ext = concat (map tls_extension exts) in
      hdr @ random @ [of_nat (length sid)] @ sid @ to_be2 (length suites) @ suites
        @ [of_nat (length cm)] @ cm @ to_be2 (length ext) @ ext)"

lemma at_offset_be2:
  "at_offset payload pos (to_be2 n) \<Longrightarrow> n < 65536 \<Longrightarrow> q = pos + 2 \<Longrightarrow> be (slice pos q payload) = n"
  using at_offset_slice [of payload pos "to_be2 n"] by simp

lemma at_offset_byte: "at_offset payload pos [b] \<Longrightarrow> pos < length payload \<and> payload ! pos = b"
  using at_offset_length [of payload pos "[b]"] at_offset_nth [of payload pos "[b]" 0] by simp

lemma sni_skip:
  assumes "at_offset payload pos (tls_extension e)" "fst e \<noteq> 0" "fst e < 65536" "length (snd e) < 65536"
    and "pos + length (tls_extension e) \<le> en"
  shows "sni_extensions payload en pos = sni_extensions payload en (pos + length (tls_extension e))"
proof -
  have "at_offset payload pos (to_be2 (fst e))" "at_offset payload (pos + 2) (to_be2 (length (snd e)))"
    using assms(1) unfolding tls_extension_def at_offset_append length_to_be2 by blast+
  then have "be (slice pos (pos + 2) payload) = fst e" "be (slice (pos + 2) (pos + 4) payload) = length (snd e)"
    using assms(3,4) by (auto intro!: at_offset_be2)
  moreover have "length (tls_extension e) = 4 + length (snd e)" by (simp add: tls_extension_def)
  ultimately show ?thesis using assms(2,5)
    by (subst sni_extensions.simps) (simp add: Let_def add.assoc del: add_2_eq_Suc')
qed

lemma sni_hit:
  assumes at: "at_offset payload pos (tls_extension (0, server_name name))" and len: "length name < 65000"
    and en: "pos + length (tls_extension (0, server_name name)) \<le> en" and as: "isascii name"
  shows "sni_extensions payload en pos = Some (lower (strip (latin1 name)))"
proof -
  have a: "at_offset payload pos (to_be2 0)" "at_offset payload (pos + 6) [0]"
    "at_offset payload (pos + 7) (to_be2 (length name))" "at_offset payload (pos + 9) name"
    using at unfolding tls_extension_def server_name_def fst_conv snd_conv at_offset_append length_to_be2
    by (simp_all add: eval_nat_numeral)
  have "be (slice pos (pos + 2) payload) = 0" using at_offset_be2 [OF a(1)] by simp
  moreover have "byte_at payload (pos + 6) = Some 0" using at_offset_byte [OF a(2)] by simp
  moreover have "be (slice (pos + 7) (pos + 9) payload) = length name"
    using len by (intro at_offset_be2 [OF a(3)]) simp_all
  moreover have "slice (pos + 9) (pos + 9 + length name) payload = name" by (rule at_offset_slice [OF a(4)])
  moreover have "pos + 9 + length name \<le> en" using en by (simp add: tls_extension_def server_name_def)
  ultimately show ?thesis using as
    by (subst sni_extensions.simps) (simp add: Let_def add.assoc add.commute [of 7 pos] del: add_2_eq_Suc')
qed

lemma sni_walk:
  assumes "at_offset payload pos (concat (map tls_extension es) @ tls_extension (0, server_name name))"
    and "\<forall>e \<in> set es. fst e \<noteq> 0 \<and> fst e < 65536 \<and> length (snd e) < 65536"
    and "pos + length (concat (map tls_extension es) @ tls_extension (0, server_name name)) \<le> en"
    and "length name < 65000" "isascii name"
  shows "sni_extensions payload en pos = Some (lower (strip (latin1 name)))"
  using assms
proof (induction es arbitrary: pos)
  case Nil
  then show ?case by (simp add: sni_hit)
next
  case (Cons e es)
  have "sni_extensions payload en pos = sni_extensions payload en (pos + length (tls_extension e))"
    by (rule sni_skip) (use Cons.prems in \<open>auto simp: at_offset_append\<close>)
  also have "\<dots> = Some (lower (strip (latin1 name)))"
    by (rule Cons.IH) (use Cons.prems in \<open>auto simp: at_offset_append add.assoc\<close>)
  finally show ?case .
qed

definition nbns_encode :: "bytes \<Rightarrow> bytes" where
  "nbns_encode bs = concat (map (\<lambda>b. [of_nat (65 + unat b div 16), of_nat (65 + unat b mod 16)]) bs)"

lemma length_nbns_encode [simp]: "length (nbns_encode bs) = 2 * length bs"
  by (induction bs) (auto simp: nbns_encode_def)

lemma nbns_chars_encode: "nbns_chars (nbns_encode bs) = Some (map unat bs)"
  unfolding nbns_encode_def
proof (induction bs)
  case (Cons b bs)
  have "unat b div 16 < 16" using unat_byte_less [of b] by linarith
  then have u: "unat (of_nat (65 + unat b div 16) :: 8 word) = 65 + unat b div 16"
      "unat (of_nat (65 + unat b mod 16) :: 8 word) = 65 + unat b mod 16"
    by (auto intro!: unat_of_nat_byte simp del: of_nat_add)
  show ?case unfolding list.map concat.simps append_Cons append_Nil nbns_chars.simps u
    using Cons \<open>unat b div 16 < 16\<close> by simp
qed simp

lemma client_hello_walk:
  assumes hdr: "length hdr = 11" "hdr ! 0 = 0x16" "hdr ! 5 = 1" and lens: "length random = 32"
    "length sid < 256" "length suites < 65536" "length cm < 256"
    and ext: "exts = es @ (0, server_name name) # rest" "length (concat (map tls_extension exts)) < 65536"
    and es: "\<forall>e \<in> set es. fst e \<noteq> 0 \<and> fst e < 65536 \<and> length (snd e) < 65536" and name: "isascii name" "length name < 65000"
    and p: "payload = client_hello hdr random sid suites cm exts"
  shows "extract_tls_sni payload = lower (strip (latin1 name))"
proof -
  define x where "x = concat (map tls_extension exts)"
  define p1 where "p1 = 44 + length sid"
  define p2 where "p2 = p1 + 2 + length suites"
  define p3 where "p3 = p2 + 1 + length cm"
  have "at_offset payload 0 payload" by (simp add: at_offset_def)
  then have at: "at_offset payload 43 [of_nat (length sid)]" "at_offset payload p1 (to_be2 (length suites))"
    "at_offset payload p2 [of_nat (length cm)]" "at_offset payload p3 (to_be2 (length x))" "at_offset payload (p3 + 2) x"
    unfolding p client_hello_def Let_def x_def [symmetric] at_offset_append length_append
    using hdr(1) lens(1) by (simp_all add: p1_def p2_def p3_def add.assoc)
  have len: "length payload = p3 + 2 + length x"
    unfolding p client_hello_def Let_def x_def [symmetric] using hdr(1) lens(1)
    by (simp add: p1_def p2_def p3_def)
  have b: "byte_at payload 43 = Some (length sid)" "byte_at payload p2 = Some (length cm)"
    using at_offset_byte [OF at(1)] at_offset_byte [OF at(3)] lens by (simp_all add: unat_of_nat)
  have h: "byte_at payload 0 = Some 0x16" "byte_at payload 5 = Some 1"
    using hdr by (auto simp: p client_hello_def Let_def byte_at_def nth_append)
  have e: "be (slice p1 (p1 + 2) payload) = length suites" "be (slice p3 (p3 + 2) payload) = length x"
    using at_offset_be2 [OF at(2)] at_offset_be2 [OF at(4)] lens ext(2) by (simp_all add: x_def)
  have "x = (concat (map tls_extension es) @ tls_extension (0, server_name name)) @ concat (map tls_extension rest)"
    by (simp add: x_def ext(1))
  then have sub: "at_offset payload (p3 + 2) (concat (map tls_extension es) @ tls_extension (0, server_name name))"
    "p3 + 2 + length (concat (map tls_extension es) @ tls_extension (0, server_name name)) \<le> p3 + 2 + length x"
    using at(5) by (simp_all add: at_offset_append)
  have "sni_extensions payload (length payload) (p3 + 2) = Some (lower (strip (latin1 name)))"
    unfolding len by (rule sni_walk [OF sub(1) es sub(2) name(2,1)])
  then have "extract_tls_sni_body payload = Some (lower (strip (latin1 name)))"
    using b h e len unfolding extract_tls_sni_body_def
    by (simp add: Let_def p1_def p2_def p3_def add.assoc del: add_2_eq_Suc')
  then show ?thesis by (simp add: extract_tls_sni_def)
qed

section \<open>Properties\<close>

text \<open>
  C34. DNS name compression: when a message holds the labels \<open>ms\<close> with their terminator at an
  offset \<open>t\<close>, and the labels \<open>ls\<close> followed by a pointer to \<open>t\<close> at a later offset, then
  \<open>_read_dns_name\<close> returns at \<open>t\<close> the name \<open>ms\<close> and the offset after its terminator, and at the
  later offset the name \<open>ls.ms\<close> and the offset after the pointer.
\<close>

theorem dns_name_compression:
  assumes "at_offset payload t (dns_labels ms @ [0])" "at_offset payload off (dns_labels ls @ dns_pointer t)"
    and "list_all label_ok ls" "list_all label_ok ms" "length ls + length ms \<le> 128" "t < 16384" "t < off"
  shows "read_dns_name payload t = (dns_name_text (map latin1 ms), t + length (dns_labels ms) + 1)
    \<and> read_dns_name payload off = (dns_name_text (map latin1 (ls @ ms)), off + length (dns_labels ls) + 2)"
  using read_plain_name [OF assms(1) assms(4)] read_compressed_name [OF assms(2,1,3,4,5,6,7)] assms(5) by simp

theorem dns_name_compression_witness:
  "read_dns_name ([2, 105, 111, 0] @ [3, 119, 119, 119, 192, 0]) 4 = (dns_name_text [U ''www'', U ''io''], 10)"
proof -
  let ?p = "[2, 105, 111, 0] @ [3, 119, 119, 119, 192, 0] :: bytes"
  have "at_offset ?p 0 (dns_labels [B ''io''] @ [0])" "at_offset ?p 4 (dns_labels [B ''www''] @ dns_pointer 0)"
    by (simp_all add: at_offset_def dns_labels_def dns_label_def dns_pointer_def B_def)
  from dns_name_compression [OF this] show ?thesis
    by (simp add: label_ok_def B_def U_def latin1_def dns_labels_def dns_label_def)
qed

text \<open>
  A parsed DNS message is bounded whatever the bytes and the counts they claim: at most
  32 questions and 32 answers, 16-bit types and classes, 32-bit times to live, a 4-bit
  response code; and reading a name never moves before its start or past the message.
\<close>

theorem dns_message_bounds:
  "length (questions (parse_dns_message payload)) \<le> 32 \<and> length (answers (parse_dns_message payload)) \<le> 32
   \<and> rcode (parse_dns_message payload) < 16
   \<and> list_all (\<lambda>q. q_type q < 65536 \<and> q_class q < 65536) (questions (parse_dns_message payload))
   \<and> list_all (\<lambda>a. a_type a < 65536 \<and> a_ttl a < 4294967296) (answers (parse_dns_message payload))"
proof (cases "length payload < 12")
  case False
  let ?qn = "min (be (slice 4 6 payload)) 32"
  let ?an = "min (be (slice 6 8 payload)) 32"
  have q: "length (fst (read_questions payload ?qn 12)) \<le> 32"
    "list_all (\<lambda>q. q_type q < 65536 \<and> q_class q < 65536) (fst (read_questions payload ?qn 12))"
    using read_questions_shape [of 12 payload ?qn] False by auto
  have a: "length (read_answers payload ?an off) \<le> 32"
    "list_all (\<lambda>a. a_type a < 65536 \<and> a_ttl a < 4294967296) (read_answers payload ?an off)" for off
    using read_answers_shape [of payload ?an off] by auto
  have "(be (slice 2 4 payload) AND 0xF :: nat) < 16"
    using take_bit_eq_mask [of 4 "be (slice 2 4 payload)"] by (simp add: take_bit_eq_mod mask_eq_exp_minus_1)
  with q a False show ?thesis by (simp add: parse_dns_message_def Let_def split_beta)
qed (simp add: parse_dns_message_def empty_dns_message_def)

text \<open>
  From every well-formed TLS ClientHello that carries a \<open>server_name\<close> extension with an
  ASCII host name, after any number of other extensions, \<open>extract_tls_sni\<close> returns that
  name in lower case.
\<close>

theorem client_hello_sni:
  assumes "length hdr = 11" "hdr ! 0 = 0x16" "hdr ! 5 = 1" "length random = 32"
    and "length sid < 256" "length suites < 65536" "length cm < 256"
    and "exts = es @ (0, server_name name) # rest" "length (concat (map tls_extension exts)) < 65536"
    and "\<forall>e \<in> set es. fst e \<noteq> 0 \<and> fst e < 65536 \<and> length (snd e) < 65536" "isascii name" "length name < 65000"
  shows "extract_tls_sni (client_hello hdr random sid suites cm exts) = lower (strip (latin1 name))"
  using client_hello_walk [OF assms refl] .

theorem client_hello_sni_witness:
  "extract_tls_sni (client_hello [0x16, 3, 1, 0, 80, 1, 0, 0, 76, 3, 3] (replicate 32 7) [1, 2] [19, 1] [0]
      [(10, [0, 2]), (0, server_name (B ''Example.ORG'')), (43, [3])]) = U ''example.org''"
proof -
  have "extract_tls_sni (client_hello [0x16, 3, 1, 0, 80, 1, 0, 0, 76, 3, 3] (replicate 32 7) [1, 2] [19, 1] [0]
      [(10, [0, 2]), (0, server_name (B ''Example.ORG'')), (43, [3])]) = lower (strip (latin1 (B ''Example.ORG'')))"
    by (rule client_hello_sni [of _ _ _ _ _ _ "[(10, [0, 2])]" _ "[(43, [3])]"])
       (simp_all add: tls_extension_def server_name_def B_def isascii_def)
  also have "\<dots> = U ''example.org''"
    by (simp add: B_def U_def latin1_def strip_by_id is_space_def lower_def lower_cp_def)
  finally show ?thesis .
qed

text \<open>
  NetBIOS names: decoding the first-level encoding of any 16 bytes gives those bytes
  back as characters, without the trailing NULs and then the trailing white space.
\<close>

theorem nbns_name_roundtrip:
  "length bs = 16 \<Longrightarrow>
   decode_nbns_name (nbns_encode bs) = rstrip_by is_space (rstrip_by (\<lambda>c. c = 0) (map unat bs))"
  by (simp add: decode_nbns_name_def nbns_chars_encode)

theorem nbns_name_roundtrip_witness:
  "decode_nbns_name (nbns_encode [83, 82, 86, 32, 32, 32, 32, 32, 32, 32, 32, 32, 32, 32, 32, 0]) = U ''SRV''"
  using nbns_name_roundtrip [of "[83, 82, 86, 32, 32, 32, 32, 32, 32, 32, 32, 32, 32, 32, 32, 0]"]
  by (simp add: U_def rstrip_by_def is_space_def)

end
