(* ===== verification/Packets.thy ===== *)
theory Packets
  imports Wire_Formats "HOL-Library.List_Lexorder" "HOL-Library.Char_ord"
begin

text \<open>
  The packet dictionary of \<^verbatim>\<open>sniffer.py\<close> (\<open>build_base_packet\<close>) as a record: one typed field per
  key of the literal, and the map \<open>pk_extra\<close> for the keys individual parsers add. Then the
  helpers of \<^verbatim>\<open>utils.py\<close> and \<^verbatim>\<open>sniffer.py\<close> that read or finish a packet. Python compares strings
  by code point, which is the lexicographic order of \<open>nat list\<close>.
\<close>

section \<open>The packet\<close>

record packet =
  pk_session_id :: nat
  pk_interface :: ustr
  pk_eth_src :: ustr
  pk_eth_dst :: ustr
  pk_eth_type :: nat
  pk_ip_version :: nat
  pk_src_ip :: ustr
  pk_dst_ip :: ustr
  pk_proto :: ustr
  pk_transport :: ustr
  pk_src_port :: nat
  pk_dst_port :: nat
  pk_ttl :: nat
  pk_hop_limit :: nat
  pk_length :: nat
  pk_payload_len :: nat
  pk_state :: ustr
  pk_scan_state :: ustr
  pk_tcp_flags :: ustr
  pk_icmp_type :: nat
  pk_icmp_code :: nat
  pk_arp_opcode :: nat
  pk_summary :: ustr
  pk_payload_text :: ustr
  pk_payload_hex :: ustr
  pk_banner_text :: ustr
  pk_direction :: ustr
  pk_domain :: ustr
  pk_domain_source :: ustr
  pk_http_method :: ustr
  pk_http_path :: ustr
  pk_http_host :: ustr
  pk_raw_packet :: bytes
  pk_created_at :: ustr
  pk_updated_at :: ustr
  pk_flow_key :: ustr
  pk_extra :: "string \<rightharpoonup> pyval"

text \<open>
  The key \<open>flow_key\<close> is added by \<open>_finalize_packet\<close>; the empty string stands for its absence
  before that. \<open>dns\<close>, decoder and parser details live in \<open>pk_extra\<close>.
\<close>

definition build_base_packet :: "ustr \<Rightarrow> ustr \<Rightarrow> bytes \<Rightarrow> bytes \<Rightarrow> ustr \<Rightarrow> ustr \<Rightarrow> nat \<Rightarrow> packet" where
  "build_base_packet now interface data payload eth_src eth_dst eth_type = \<lparr>
     pk_session_id = 0, pk_interface = strip interface, pk_eth_src = eth_src, pk_eth_dst = eth_dst,
     pk_eth_type = eth_type, pk_ip_version = 0, pk_src_ip = [], pk_dst_ip = [],
     pk_proto = U ''unknown'', pk_transport = [], pk_src_port = 0, pk_dst_port = 0, pk_ttl = 0,
     pk_hop_limit = 0, pk_length = length data, pk_payload_len = 0, pk_state = U ''unknown'',
     pk_scan_state = U ''active'', pk_tcp_flags = [], pk_icmp_type = 0, pk_icmp_code = 0,
     pk_arp_opcode = 0, pk_summary = [], pk_payload_text = [],
     pk_payload_hex = bytes_to_hex_preview 256 payload, pk_banner_text = [],
     pk_direction = U ''unknown'', pk_domain = [], pk_domain_source = [], pk_http_method = [],
     pk_http_path = [], pk_http_host = [], pk_raw_packet = data, pk_created_at = now, pk_updated_at = now,
     pk_flow_key = [], pk_extra = Map.empty\<rparr>"

definition put_extra :: "string \<Rightarrow> pyval \<Rightarrow> packet \<Rightarrow> packet" where
  "put_extra k v p = p\<lparr>pk_extra := (pk_extra p)(k \<mapsto> v)\<rparr>"

definition text_of :: "pyval \<Rightarrow> ustr" where
  "text_of v = (case v of PStr s \<Rightarrow> s | _ \<Rightarrow> [])"

text \<open>
  \<open>packet[key] = value\<close> for a decoder field: the five keys a decoder shares with the base
  packet (always texts) and otherwise a detail key.
\<close>

definition set_key :: "string \<Rightarrow> pyval \<Rightarrow> packet \<Rightarrow> packet" where
  "set_key k v p =
     (if k = ''summary'' then p\<lparr>pk_summary := text_of v\<rparr>
      else if k = ''banner_text'' then p\<lparr>pk_banner_text := text_of v\<rparr>
      else if k = ''http_method'' then p\<lparr>pk_http_method := text_of v\<rparr>
      else if k = ''http_path'' then p\<lparr>pk_http_path := text_of v\<rparr>
      else if k = ''http_host'' then p\<lparr>pk_http_host := text_of v\<rparr>
      else put_extra k v p)"

text \<open>\<open>_apply_app_decoder\<close>: merge the non-empty fields.\<close>

definition apply_app_decoder :: "ustr \<Rightarrow> bytes \<Rightarrow> packet \<Rightarrow> packet" where
  "apply_app_decoder proto payload p =
     fold (\<lambda>(k, v) q. if v = PStr [] \<or> v = PNone then q else set_key k v q) (decode proto payload) p"

section \<open>Protocol names\<close>

definition CORE_PROTOCOLS :: "string list" where
  "CORE_PROTOCOLS = [''tcp'', ''udp'', ''sctp'', ''icmp'', ''icmpv6'', ''arp'', ''rarp'', ''ipv6'', ''igmp'', ''gre'', ''esp'',
     ''ah'', ''dhcp'', ''mdns'', ''llmnr'', ''nbns'', ''modbus'', ''dnp3'', ''snmp'', ''syslog'', ''tftp'', ''radius'',
     ''mqtt'', ''stp'', ''llc'', ''llc-snap'']"

definition RESIDUAL_PROTOCOLS :: "string list" where
  "RESIDUAL_PROTOCOLS = [''unknown'', ''unparseable'']"

definition SIGNATURE_PROTOCOLS :: "string list" where
  "SIGNATURE_PROTOCOLS = [''tls'', ''http'', ''ssh'', ''sip'', ''vnc'', ''telnet'', ''smb'', ''ssdp'', ''quic'', ''dns'']"

definition KNOWN_PROTOCOLS :: "string list" where
  "KNOWN_PROTOCOLS = CORE_PROTOCOLS
     @ sort (filter (\<lambda>n. n \<notin> set CORE_PROTOCOLS)
         (remdups (map snd TCP_PORT_PROTOCOLS @ map snd UDP_PORT_PROTOCOLS @ map snd IP_PROTOCOLS
           @ map snd ETHER_PROTOCOLS @ map snd SNAP_PROTOCOLS @ SIGNATURE_PROTOCOLS)))
     @ RESIDUAL_PROTOCOLS"

section \<open>Flow keys and endpoints\<close>

definition endpoint_text :: "ustr \<Rightarrow> nat \<Rightarrow> ustr" where
  "endpoint_text ip port = ip @ U '':'' @ dec port"

definition stable_flow_key :: "ustr \<Rightarrow> ustr \<Rightarrow> nat \<Rightarrow> ustr \<Rightarrow> nat \<Rightarrow> ustr" where
  "stable_flow_key proto src_ip src_port dst_ip dst_port =
     (let left = endpoint_text src_ip src_port; right = endpoint_text dst_ip dst_port;
          first = (if left \<le> right then left else right); second = (if left \<le> right then right else left) in
      normalize_protocol_name proto @ U ''|'' @ first @ U ''|'' @ second)"

definition or_text :: "ustr \<Rightarrow> ustr \<Rightarrow> ustr" where
  "or_text a b = (if a \<noteq> [] then a else b)"

lemma or_text_simps [simp]: "or_text [] b = b" "a \<noteq> [] \<Longrightarrow> or_text a b = a"
  by (simp_all add: or_text_def)

definition service_endpoint :: "packet \<Rightarrow> ustr \<times> nat" where
  "service_endpoint p =
     (let src = pk_src_port p; dst = pk_dst_port p;
          transport = lower (or_text (pk_transport p) (pk_proto p)) in
      if transport \<notin> {U ''tcp'', U ''udp'', U ''sctp''} \<or> src = 0 \<or> dst = 0 then ([], 0)
      else let flags = upper (pk_tcp_flags p);
               known = (if transport = U ''tcp'' then TCP_PORT_PROTOCOLS else UDP_PORT_PROTOCOLS);
               src_known = map_of known src \<noteq> None; dst_known = map_of known dst \<noteq> None;
               server_src = (if transport = U ''tcp'' \<and> contains flags (U ''SYN'') then contains flags (U ''ACK'')
                             else if src_known \<noteq> dst_known then src_known else src < dst) in
        if server_src then (pk_src_ip p, src) else (pk_dst_ip p, dst))"

section \<open>Finishing a packet\<close>

definition direction_for :: "ustr set \<Rightarrow> packet \<Rightarrow> ustr" where
  "direction_for local_ips p =
     (let src = strip (pk_src_ip p); dst = strip (pk_dst_ip p) in
      if src \<in> local_ips \<and> dst \<noteq> [] \<and> dst \<notin> local_ips then U ''outbound''
      else if dst \<in> local_ips \<and> src \<noteq> [] \<and> src \<notin> local_ips then U ''inbound''
      else if src \<in> local_ips \<and> dst \<in> local_ips then U ''local''
      else U ''unknown'')"

abbreviation arrow :: ustr where "arrow \<equiv> [32, 8594, 32]"

definition fallback_summary :: "packet \<Rightarrow> ustr" where
  "fallback_summary p =
     (let src = or_text (pk_src_ip p) (or_text (pk_eth_src p) (U ''?''));
          dst = or_text (pk_dst_ip p) (or_text (pk_eth_dst p) (U ''?''));
          ports = (if pk_src_port p \<noteq> 0 \<or> pk_dst_port p \<noteq> 0
                   then U '' '' @ dec (pk_src_port p) @ U ''->'' @ dec (pk_dst_port p) else []) in
      upper (normalize_protocol_name (pk_proto p)) @ U '' '' @ src @ ports @ arrow @ dst)"

definition packet_flow_key :: "packet \<Rightarrow> ustr" where
  "packet_flow_key p = stable_flow_key (or_text (pk_proto p) (U ''unknown''))
     (or_text (pk_src_ip p) (or_text (pk_eth_src p) (U ''unknown''))) (pk_src_port p)
     (or_text (pk_dst_ip p) (or_text (pk_eth_dst p) (U ''unknown''))) (pk_dst_port p)"

definition finalize_packet :: "ustr set \<Rightarrow> packet \<Rightarrow> packet" where
  "finalize_packet local_ips p =
     (let p1 = p\<lparr>pk_flow_key := packet_flow_key p, pk_direction := direction_for local_ips p,
                 pk_banner_text := or_text (pk_banner_text p) (pk_payload_text p),
                 pk_state := or_text (pk_state p) (U ''unknown'')\<rparr> in
      p1\<lparr>pk_summary := or_text (pk_summary p1) (fallback_summary p1)\<rparr>)"

section \<open>Lemmas\<close>

lemma set_KNOWN_PROTOCOLS: "set KNOWN_PROTOCOLS = set CORE_PROTOCOLS \<union> snd ` set TCP_PORT_PROTOCOLS \<union> snd ` set UDP_PORT_PROTOCOLS
    \<union> snd ` set IP_PROTOCOLS \<union> snd ` set ETHER_PROTOCOLS \<union> snd ` set SNAP_PROTOCOLS \<union> set SIGNATURE_PROTOCOLS \<union> set RESIDUAL_PROTOCOLS"
  unfolding KNOWN_PROTOCOLS_def set_append set_sort set_filter set_remdups set_map by blast

lemma stable_flow_key_sym: "stable_flow_key q a b c d = stable_flow_key q c d a b"
  by (auto simp: stable_flow_key_def Let_def)

lemma fallback_summary_nonempty [simp]: "fallback_summary p \<noteq> []"
  by (simp add: fallback_summary_def Let_def)

lemma finalize_summary_nonempty [simp]: "pk_summary (finalize_packet L p) \<noteq> []"
  by (auto simp: finalize_packet_def Let_def or_text_def)

lemma finalize_fields [simp]:
  "pk_proto (finalize_packet L p) = pk_proto p" "pk_transport (finalize_packet L p) = pk_transport p"
  "pk_src_port (finalize_packet L p) = pk_src_port p" "pk_dst_port (finalize_packet L p) = pk_dst_port p"
  "pk_src_ip (finalize_packet L p) = pk_src_ip p" "pk_dst_ip (finalize_packet L p) = pk_dst_ip p"
  "pk_payload_text (finalize_packet L p) = pk_payload_text p" "pk_extra (finalize_packet L p) = pk_extra p"
  "pk_raw_packet (finalize_packet L p) = pk_raw_packet p" "pk_length (finalize_packet L p) = pk_length p"
  "pk_payload_len (finalize_packet L p) = pk_payload_len p" "pk_tcp_flags (finalize_packet L p) = pk_tcp_flags p"
  "pk_ttl (finalize_packet L p) = pk_ttl p" "pk_hop_limit (finalize_packet L p) = pk_hop_limit p"
  "pk_ip_version (finalize_packet L p) = pk_ip_version p" "pk_eth_type (finalize_packet L p) = pk_eth_type p"
  by (simp_all add: finalize_packet_def Let_def)

end
