(* ===== verification/Sniffer_App.thy ===== *)
theory Sniffer_App
  imports Packets
begin

text \<open>
  The payload interpretation of \<open>Sniffer\<close> and its hand-written application parsers
  (\<^verbatim>\<open>sniffer.py\<close>): TLS flow memory, DNS, DHCP, NBNS, Modbus, DNP3, SNMP, syslog, TFTP, RADIUS
  and MQTT. The state of a parse is the packet under construction and the keys of
  \<open>Sniffer._tls_flows\<close> (the stored time stamps are never read).
\<close>

type_synonym flows = "ustr list"
type_synonym pst = "packet \<times> flows"

record sniff_config =
  cfg_text_max :: nat
  cfg_local_ips :: "ustr set"
  cfg_dashboard_port :: nat
  cfg_now :: ustr

section \<open>TLS flow memory and payload text\<close>

definition TLS_FLOW_MEMORY_CAP :: nat where "TLS_FLOW_MEMORY_CAP = 20000"

definition remember_flow :: "ustr \<Rightarrow> flows \<Rightarrow> flows" where
  "remember_flow k fl =
     (let fl' = (if length fl \<ge> TLS_FLOW_MEMORY_CAP then [] else fl) in if k \<in> set fl' then fl' else fl' @ [k])"

definition tcp_flow_key :: "packet \<Rightarrow> ustr" where
  "tcp_flow_key p = stable_flow_key (U ''tcp'') (pk_src_ip p) (pk_src_port p) (pk_dst_ip p) (pk_dst_port p)"

definition is_tls_payload :: "packet \<Rightarrow> bytes \<Rightarrow> flows \<Rightarrow> bool \<times> flows" where
  "is_tls_payload p payload fl =
     (if looks_like_tls_record payload then
        (True, if pk_proto p = U ''tcp'' then remember_flow (tcp_flow_key p) fl else fl)
      else if pk_proto p \<noteq> U ''tcp'' then (False, fl)
      else (tcp_flow_key p \<in> set fl, fl))"

definition interpret_payload :: "sniff_config \<Rightarrow> bytes \<Rightarrow> pst \<Rightarrow> ustr \<times> pst" where
  "interpret_payload cfg payload st =
     (case st of (p, fl) \<Rightarrow>
        if payload = [] then ([], p, fl)
        else case is_tls_payload p payload fl of (tls, fl') \<Rightarrow>
          if tls then ([], p, fl')
          else if \<not> is_printable_payload payload then ([], p, fl')
          else let t = bytes_to_text_preview (cfg_text_max cfg) payload in
            (t, if t \<noteq> [] then p\<lparr>pk_state := U ''open''\<rparr> else p, fl'))"

text \<open>\<open>packet["payload_text"] = self._interpret_payload(packet, payload)\<close>.\<close>

definition interpret_text :: "sniff_config \<Rightarrow> bytes \<Rightarrow> pst \<Rightarrow> pst" where
  "interpret_text cfg payload st =
     (case interpret_payload cfg payload st of (t, p, fl) \<Rightarrow> (p\<lparr>pk_payload_text := t\<rparr>, fl))"

definition upd :: "(packet \<Rightarrow> packet) \<Rightarrow> pst \<Rightarrow> pst" where
  "upd f st = (f (fst st), snd st)"

lemma upd_pair [simp]: "upd f (p, fl) = (f p, fl)"
  by (simp add: upd_def)

definition set_summary :: "ustr \<Rightarrow> packet \<Rightarrow> packet" where
  "set_summary s p = p\<lparr>pk_summary := s, pk_banner_text := s\<rparr>"

definition set_all_text :: "ustr \<Rightarrow> packet \<Rightarrow> packet" where
  "set_all_text s p = p\<lparr>pk_summary := s, pk_banner_text := s, pk_payload_text := s\<rparr>"

definition set_proto :: "string \<Rightarrow> packet \<Rightarrow> packet" where
  "set_proto s p = p\<lparr>pk_proto := U s\<rparr>"

definition classify_tcp_banner :: "sniff_config \<Rightarrow> packet \<Rightarrow> bytes \<Rightarrow> flows \<Rightarrow> ustr \<times> flows" where
  "classify_tcp_banner cfg p payload fl =
     (let sp = pk_src_port p; dp = pk_dst_port p in
      if payload = [] then ([], fl)
      else if startswith payload [0x16, 3] then (U ''TLS handshake'', fl)
      else case is_tls_payload p payload fl of (tls, fl') \<Rightarrow>
        if tls then (U ''TLS application data'', fl')
        else let t = bytes_to_text_preview (cfg_text_max cfg) payload in
          (if startswith t (U ''HTTP/1.'') then U ''HTTP response''
           else if startswith t (U ''GET '') \<or> startswith t (U ''POST '') \<or> startswith t (U ''HEAD '') then U ''HTTP request''
           else if sp = 22 \<or> dp = 22 then U ''SSH session''
           else if sp = 25 \<or> dp = 25 then U ''SMTP session''
           else if sp = 445 \<or> dp = 445 then U ''SMB session''
           else if sp = 3389 \<or> dp = 3389 then U ''RDP session''
           else t, fl'))"

definition classify_udp_banner :: "sniff_config \<Rightarrow> packet \<Rightarrow> bytes \<Rightarrow> ustr" where
  "classify_udp_banner cfg p payload =
     (let sp = pk_src_port p; dp = pk_dst_port p; t = bytes_to_text_preview (cfg_text_max cfg) payload in
      if sp = 53 \<or> dp = 53 then U ''DNS message''
      else if sp = 67 \<or> dp = 67 \<or> sp = 68 \<or> dp = 68 then U ''DHCP message''
      else if sp = 123 \<or> dp = 123 then U ''NTP message''
      else if sp = 5353 \<or> dp = 5353 then U ''mDNS message''
      else t)"

definition classify_icmp_banner :: "packet \<Rightarrow> ustr" where
  "classify_icmp_banner p =
     (if (pk_icmp_type p, pk_icmp_code p) = (8, 0) then U ''ICMP echo request''
      else if (pk_icmp_type p, pk_icmp_code p) = (0, 0) then U ''ICMP echo reply''
      else [])"

section \<open>DNS\<close>

definition qtype_text :: "nat \<Rightarrow> ustr" where
  "qtype_text t = name_or DNS_QTYPE_NAMES t (if t = 0 then [] else dec t)"

definition dns_records :: "dns_message \<Rightarrow> ustr \<Rightarrow> pyval" where
  "dns_records m rc = PDict [
     (U ''is_response'', PBool (is_response m)), (U ''rcode'', PStr rc),
     (U ''questions'', PList (map (\<lambda>q. PDict [(U ''name'', PStr (q_name q)), (U ''type'', PStr (qtype_text (q_type q)))]) (questions m))),
     (U ''answers'', PList (map (\<lambda>a. PDict [(U ''name'', PStr (a_name a)), (U ''type'', PStr (qtype_text (a_type a))),
        (U ''ttl'', N (a_ttl a)), (U ''data'', PStr (a_rdata a))]) (answers m)))]"

definition apply_dns_answer :: "dns_answer \<Rightarrow> packet \<Rightarrow> packet" where
  "apply_dns_answer a p =
     (let value = strip (a_rdata a) in
      if value = [] then p
      else let name = strip (or_text (a_name a) (pk_domain p)) in
        put_extra ''dns_answer_type'' (PStr (qtype_text (a_type a)))
          (put_extra ''dns_mapping'' (PStr (if name \<noteq> [] then name @ U '' -> '' @ value else value))
            (put_extra ''dns_answer'' (PStr value) p)))"

definition apply_dns_result :: "bytes \<Rightarrow> string \<Rightarrow> string \<Rightarrow> packet \<Rightarrow> packet" where
  "apply_dns_result payload pre source p =
     (let m = parse_dns_message payload;
          p1 = (case questions m of
                  [] \<Rightarrow> p
                | q # _ \<Rightarrow> put_extra ''dns_qtype'' (PStr (qtype_text (q_type q)))
                             (p\<lparr>pk_domain := q_name q, pk_domain_source := U source\<rparr>));
          p2 = put_extra ''dns_kind'' (S (if is_response m then ''response'' else ''query'')) p1;
          rc = name_or DNS_RCODE_NAMES (rcode m) (dec (rcode m));
          p3 = put_extra ''dns_records'' (dns_records m rc) (put_extra ''dns_rcode'' (PStr rc) p2);
          p4 = (case answers m of [] \<Rightarrow> p3 | a # _ \<Rightarrow> apply_dns_answer a p3);
          summary = dns_message_summary (U pre) m;
          p5 = set_summary summary p4 in
      if summary = [] then p4
      else if pk_payload_text p5 = [] then p5\<lparr>pk_payload_text := summary\<rparr> else p5)"

section \<open>DHCP\<close>

definition DHCP_MSG_TYPES :: "(nat \<times> string) list" where
  "DHCP_MSG_TYPES = [(1, ''DISCOVER''), (2, ''OFFER''), (3, ''REQUEST''), (4, ''DECLINE''),
     (5, ''ACK''), (6, ''NAK''), (7, ''RELEASE''), (8, ''INFORM'')]"

record dhcp_options =
  dh_msg_type :: "nat option"
  dh_requested_ip :: ustr
  dh_hostname :: ustr
  dh_vendor_class :: ustr

definition dhcp_option :: "nat \<Rightarrow> bytes \<Rightarrow> dhcp_options \<Rightarrow> dhcp_options" where
  "dhcp_option code value d =
     (if code = 53 \<and> length value = 1 then d\<lparr>dh_msg_type := Some (unat (value ! 0))\<rparr>
      else if code = 50 \<and> length value = 4 then d\<lparr>dh_requested_ip := the (ipv4_str value)\<rparr>
      else if code = 12 then d\<lparr>dh_hostname := ascii_replace value\<rparr>
      else if code = 60 then d\<lparr>dh_vendor_class := ascii_replace value\<rparr>
      else d)"

function dhcp_walk :: "bytes \<Rightarrow> nat \<Rightarrow> dhcp_options \<Rightarrow> dhcp_options" where
  "dhcp_walk payload off d =
     (if off \<ge> length payload then d
      else let code = unat (payload ! off); off1 = off + 1 in
        if code = 0xFF then d
        else if code = 0 then dhcp_walk payload off1 d
        else if off1 \<ge> length payload then d
        else let len = unat (payload ! off1); off2 = off1 + 1 in
          if off2 + len > length payload then d
          else dhcp_walk payload (off2 + len) (dhcp_option code (slice off2 (off2 + len) payload) d))"
  by pat_completeness auto

termination dhcp_walk
  by (relation "measure (\<lambda>(payload, off, d). length payload - off)") auto

declare dhcp_walk.simps [simp del]

definition put_text :: "string \<Rightarrow> ustr \<Rightarrow> packet \<Rightarrow> packet" where
  "put_text k t p = (if t = [] then p else put_extra k (PStr t) p)"

definition parse_dhcp :: "bytes \<Rightarrow> packet \<Rightarrow> packet" where
  "parse_dhcp payload p0 =
     (let p = set_proto ''dhcp'' p0 in
      if length payload < 240 \<or> slice 236 240 payload \<noteq> [0x63, 0x82, 0x53, 0x63]
      then set_summary (U ''DHCP/BOOTP packet'') p
      else let d = dhcp_walk payload 240 \<lparr>dh_msg_type = None, dh_requested_ip = [], dh_hostname = [], dh_vendor_class = []\<rparr>;
               type_name = (case dh_msg_type d of
                   None \<Rightarrow> U ''message''
                 | Some t \<Rightarrow> name_or DHCP_MSG_TYPES t (U ''type '' @ dec t));
               p1 = (if dh_msg_type d = None then p else put_extra ''dhcp_msg_type'' (PStr type_name) p);
               p2 = put_text ''dhcp_vendor_class'' (dh_vendor_class d)
                      (put_text ''dhcp_requested_ip'' (dh_requested_ip d) (put_text ''dhcp_hostname'' (dh_hostname d) p1));
               parts = [U ''DHCP '' @ type_name]
                 @ (if dh_hostname d = [] then [] else [U ''host='' @ dh_hostname d])
                 @ (if dh_requested_ip d = [] then [] else [U ''requested='' @ dh_requested_ip d])
                 @ (if dh_vendor_class d = [] then [] else [U ''vendor='' @ dh_vendor_class d]) in
        set_all_text (join (U '' '') parts) p2)"

section \<open>NBNS, Modbus, DNP3\<close>

definition parse_nbns :: "bytes \<Rightarrow> packet \<Rightarrow> packet" where
  "parse_nbns payload p0 =
     (let p = set_proto ''nbns'' p0 in
      if length payload < 12 then set_summary (U ''NBNS packet'') p
      else let response = (be (slice 2 4 payload) AND 0x8000 \<noteq> 0);
               qdcount = be (slice 4 6 payload);
               name = (if qdcount \<ge> 1 \<and> length payload \<ge> 13 \<and> unat (payload ! 12) = 32 \<and> length payload \<ge> 45
                       then decode_nbns_name (slice 13 45 payload) else []) in
        set_all_text (U ''NBNS '' @ (if response then U ''response'' else U ''query'')
          @ (if name = [] then [] else U '' for '' @ name)) p)"

definition MODBUS_FUNCTION_NAMES :: "(nat \<times> string) list" where
  "MODBUS_FUNCTION_NAMES = [(1, ''read-coils''), (2, ''read-discrete-inputs''), (3, ''read-holding-registers''),
     (4, ''read-input-registers''), (5, ''write-single-coil''), (6, ''write-single-register''),
     (7, ''read-exception-status''), (8, ''diagnostics''), (11, ''get-comm-event-counter''),
     (15, ''write-multiple-coils''), (16, ''write-multiple-registers''),
     (17, ''report-server-id''), (20, ''read-file-record''), (21, ''write-file-record''),
     (22, ''mask-write-register''), (23, ''read-write-multiple-registers''),
     (24, ''read-fifo-queue''), (43, ''encapsulated-interface-transport'')]"

definition MODBUS_WRITE_FUNCTION_CODES :: "nat list" where
  "MODBUS_WRITE_FUNCTION_CODES = [5, 6, 15, 16, 21, 22, 23]"

definition parse_modbus :: "bytes \<Rightarrow> packet \<Rightarrow> packet" where
  "parse_modbus payload p0 =
     (let p = set_proto ''modbus'' p0 in
      if length payload < 8 then set_summary (U ''Modbus packet'') p
      else let unit_id = unat (payload ! 6); function_code = unat (payload ! 7);
               base_code = function_code AND 0x7F;
               func_name = name_or MODBUS_FUNCTION_NAMES base_code (U ''fc-'' @ dec base_code);
               is_write = (base_code \<in> set MODBUS_WRITE_FUNCTION_CODES);
               p1 = put_extra ''modbus_is_write'' (PBool is_write)
                      (put_extra ''modbus_function_code'' (N base_code) (put_extra ''modbus_unit_id'' (N unit_id) p));
               summary =
                 (if function_code AND 0x80 \<noteq> 0
                  then U ''Modbus EXCEPTION '' @ func_name @ U '' unit='' @ dec unit_id @ U '' code=''
                         @ (if length payload > 8 then dec (unat (payload ! 8)) else U ''None'')
                  else U ''Modbus '' @ func_name @ U '' ('' @ (if is_write then U ''write'' else U ''read/other'')
                         @ U '') unit='' @ dec unit_id) in
        set_all_text summary p1)"

definition DNP3_START :: bytes where "DNP3_START = [0x05, 0x64]"

definition DNP3_FUNCTION_NAMES :: "(nat \<times> string) list" where
  "DNP3_FUNCTION_NAMES = [(0, ''confirm''), (1, ''read''), (2, ''write''), (3, ''select''), (4, ''operate''),
     (5, ''direct-operate''), (6, ''direct-operate-noack''), (7, ''immediate-freeze''),
     (8, ''immediate-freeze-noack''), (9, ''freeze-clear''), (10, ''freeze-clear-noack''),
     (11, ''freeze-at-time''), (12, ''freeze-at-time-noack''), (13, ''cold-restart''),
     (14, ''warm-restart''), (15, ''initialize-data''), (16, ''initialize-application''),
     (17, ''start-application''), (18, ''stop-application''), (19, ''save-configuration''),
     (20, ''enable-unsolicited''), (21, ''disable-unsolicited''), (22, ''assign-class''),
     (23, ''delay-measure''), (24, ''record-current-time''), (129, ''response''),
     (130, ''unsolicited-response'')]"

definition parse_dnp3 :: "bytes \<Rightarrow> packet \<Rightarrow> packet" where
  "parse_dnp3 payload p0 =
     (let p = set_proto ''dnp3'' p0 in
      if length payload < 10 \<or> slice 0 2 payload \<noteq> DNP3_START then set_summary (U ''DNP3 packet'') p
      else let dest = le (slice 4 6 payload); src = le (slice 6 8 payload);
               fc = (if length payload \<ge> 13 then Some (unat (payload ! 12)) else None);
               p1 = put_extra ''dnp3_function_code'' (case fc of None \<Rightarrow> PNone | Some c \<Rightarrow> N c)
                      (put_extra ''dnp3_src'' (N src) (put_extra ''dnp3_dest'' (N dest) p));
               func_name = (case fc of None \<Rightarrow> U ''unknown'' | Some c \<Rightarrow> name_or DNP3_FUNCTION_NAMES c (U ''fc-'' @ dec c)) in
        set_all_text (U ''DNP3 '' @ func_name @ U '' src='' @ dec src @ U '' dest='' @ dec dest) p1)"

section \<open>SNMP\<close>

definition read_ber_length :: "bytes \<Rightarrow> nat \<Rightarrow> nat option \<times> nat" where
  "read_ber_length data off =
     (if off \<ge> length data then (None, off)
      else let first = unat (data ! off); off1 = off + 1 in
        if first < 0x80 then (Some first, off1)
        else let n = first AND 0x7F in
          if n = 0 \<or> off1 + n > length data then (None, off1)
          else (Some (be (slice off1 (off1 + n) data)), off1 + n))"

text \<open>An optional TLV at \<open>pos\<close>: its contents when the tag matches and the length is positive
  and in range, and the position to continue from.\<close>

definition ber_value :: "nat \<Rightarrow> bytes \<Rightarrow> nat \<Rightarrow> bytes option \<times> nat" where
  "ber_value tag payload pos =
     (if pos < length payload \<and> unat (payload ! pos) = tag then
        (case read_ber_length payload (pos + 1) of (len, pos1) \<Rightarrow>
           (case len of
              Some n \<Rightarrow> if n \<noteq> 0 \<and> pos1 + n \<le> length payload then (Some (slice pos1 (pos1 + n) payload), pos1 + n) else (None, pos1)
            | None \<Rightarrow> (None, pos1)))
      else (None, pos))"

definition snmp_version_name :: "nat option \<Rightarrow> ustr" where
  "snmp_version_name v = (case v of None \<Rightarrow> U ''?'' | Some n \<Rightarrow> name_or [(0, ''v1''), (1, ''v2c'')] n (U ''v'' @ dec n))"

text \<open>Python refuses to print an integer of more than 4300 digits (\<open>ValueError\<close>, caught by the parser).\<close>

definition snmp_version_overflow :: "nat option \<Rightarrow> bool" where
  "snmp_version_overflow v \<longleftrightarrow> (case v of None \<Rightarrow> False | Some n \<Rightarrow> n \<ge> 10 ^ 4300)"

definition parse_snmp :: "bytes \<Rightarrow> packet \<Rightarrow> packet" where
  "parse_snmp payload p0 =
     (let p = set_proto ''snmp'' p0 in
      if length payload < 2 \<or> unat (payload ! 0) \<noteq> 0x30 then set_summary (U ''SNMP packet'') p
      else case read_ber_length payload 1 of (_, pos) \<Rightarrow>
        case ber_value 0x02 payload pos of (vb, pos1) \<Rightarrow>
        case ber_value 0x04 payload pos1 of (cb, pos2) \<Rightarrow>
          if snmp_version_overflow (map_option be vb) then set_summary (or_text (pk_summary p) (U ''SNMP packet'')) p
          else (let version_name = snmp_version_name (map_option be vb);
               community = (case cb of None \<Rightarrow> [] | Some bs \<Rightarrow> utf8_replace bs);
               p1 = put_extra ''snmp_community'' (PStr community) (put_extra ''snmp_version'' (PStr version_name) p) in
           set_all_text (U ''SNMP '' @ version_name
             @ (if community = [] then [] else U '' community='' @ [39] @ community @ [39])) p1))"

section \<open>Syslog, TFTP, RADIUS\<close>

definition SYSLOG_SEVERITY_NAMES :: "(nat \<times> string) list" where
  "SYSLOG_SEVERITY_NAMES = [(0, ''emergency''), (1, ''alert''), (2, ''critical''), (3, ''error''),
     (4, ''warning''), (5, ''notice''), (6, ''info''), (7, ''debug'')]"

definition syslog_priority :: "ustr \<Rightarrow> nat option \<times> ustr" where
  "syslog_priority t =
     (if \<not> startswith t (U ''<'') then (None, t)
      else case find_sub (U ''>'') t of
        None \<Rightarrow> (None, t)
      | Some en \<Rightarrow>
          if 1 \<le> en \<and> en \<le> 4 \<and> all_digits (slice 1 en t)
          then (nat_of_str (slice 1 en t), drop (en + 1) t) else (None, t))"

definition parse_syslog :: "bytes \<Rightarrow> packet \<Rightarrow> packet" where
  "parse_syslog payload p0 =
     (let p = set_proto ''syslog'' p0 in
      case syslog_priority (bytes_to_text_preview 400 payload) of (pri, rest) \<Rightarrow>
        let message = strip rest in
        case pri of
          Some n \<Rightarrow>
            (let severity = name_or SYSLOG_SEVERITY_NAMES (n mod 8) (dec (n mod 8)); facility = n div 8;
                 summary = U ''Syslog facility='' @ dec facility @ U '' severity='' @ severity
                   @ (if message = [] then [] else U '': '' @ take 120 message);
                 p1 = put_extra ''syslog_facility'' (N facility) (put_extra ''syslog_severity'' (PStr severity) p) in
             (set_summary summary p1)\<lparr>pk_payload_text := or_text message summary\<rparr>)
        | None \<Rightarrow>
            (let summary = (if message = [] then U ''Syslog message'' else U ''Syslog: '' @ take 120 message) in
             (set_summary summary p)\<lparr>pk_payload_text := or_text message summary\<rparr>))"

definition TFTP_OPCODE_NAMES :: "(nat \<times> string) list" where
  "TFTP_OPCODE_NAMES = [(1, ''RRQ''), (2, ''WRQ''), (3, ''DATA''), (4, ''ACK''), (5, ''ERROR''), (6, ''OACK'')]"

definition parse_tftp :: "bytes \<Rightarrow> packet \<Rightarrow> packet" where
  "parse_tftp payload p0 =
     (let p = set_proto ''tftp'' p0 in
      if length payload < 2 then set_summary (U ''TFTP packet'') p
      else let opcode = be (slice 0 2 payload);
               base = U ''TFTP '' @ name_or TFTP_OPCODE_NAMES opcode (U ''opcode-'' @ dec opcode) in
        if opcode \<in> {1, 2} \<and> length payload > 2 then
          (let parts = split_at 0 None (drop 2 payload);
               filename = ascii_replace (parts ! 0);
               mode = (if length parts > 1 then ascii_replace (parts ! 1) else []);
               p1 = put_text ''tftp_mode'' mode (put_text ''tftp_filename'' filename p);
               summary = (if mode = [] then base
                          else base @ U '' file='' @ [39] @ filename @ [39] @ U '' mode='' @ mode) in
           set_all_text summary p1)
        else set_all_text base p)"

definition RADIUS_CODE_NAMES :: "(nat \<times> string) list" where
  "RADIUS_CODE_NAMES = [(1, ''Access-Request''), (2, ''Access-Accept''), (3, ''Access-Reject''),
     (4, ''Accounting-Request''), (5, ''Accounting-Response''), (11, ''Access-Challenge''),
     (12, ''Status-Server''), (13, ''Status-Client'')]"

function radius_walk :: "bytes \<Rightarrow> nat \<Rightarrow> ustr \<times> ustr \<Rightarrow> ustr \<times> ustr" where
  "radius_walk payload off acc =
     (if off + 2 \<le> length payload then
        (let attr_type = unat (payload ! off); attr_len = unat (payload ! (off + 1)) in
         if attr_len < 2 \<or> off + attr_len > length payload then acc
         else let value = slice (off + 2) (off + attr_len) payload;
                  acc' = (if attr_type = 1 then (utf8_replace value, snd acc)
                          else if attr_type = 4 \<and> length value = 4 then (fst acc, the (ipv4_str value))
                          else acc) in
           radius_walk payload (off + attr_len) acc')
      else acc)"
  by pat_completeness auto

termination radius_walk
  by (relation "measure (\<lambda>(payload, off, acc). length payload - off)") auto

declare radius_walk.simps [simp del]

definition parse_radius :: "bytes \<Rightarrow> packet \<Rightarrow> packet" where
  "parse_radius payload p0 =
     (let p = set_proto ''radius'' p0 in
      if length payload < 20 then set_summary (U ''RADIUS packet'') p
      else let code_name = name_or RADIUS_CODE_NAMES (unat (payload ! 0)) (U ''code-'' @ dec (unat (payload ! 0))) in
        case radius_walk payload 20 ([], []) of (username, nas_ip) \<Rightarrow>
          set_all_text (U ''RADIUS '' @ code_name
            @ (if username = [] then [] else U '' user='' @ [39] @ username @ [39])
            @ (if nas_ip = [] then [] else U '' nas='' @ nas_ip))
            (put_text ''radius_nas_ip'' nas_ip (put_text ''radius_username'' username p)))"

section \<open>MQTT\<close>

definition MQTT_PACKET_TYPE_NAMES :: "(nat \<times> string) list" where
  "MQTT_PACKET_TYPE_NAMES = [(1, ''CONNECT''), (2, ''CONNACK''), (3, ''PUBLISH''), (4, ''PUBACK''), (5, ''PUBREC''),
     (6, ''PUBREL''), (7, ''PUBCOMP''), (8, ''SUBSCRIBE''), (9, ''SUBACK''), (10, ''UNSUBSCRIBE''),
     (11, ''UNSUBACK''), (12, ''PINGREQ''), (13, ''PINGRESP''), (14, ''DISCONNECT'')]"

text \<open>The loop of \<open>_read_mqtt_remaining_length\<close>; \<open>n\<close> counts the bytes it may still read.\<close>

fun mqtt_varint :: "nat \<Rightarrow> nat \<Rightarrow> nat \<Rightarrow> bytes \<Rightarrow> nat \<Rightarrow> nat option \<times> nat" where
  "mqtt_varint 0 mult value payload off = (None, off)"
| "mqtt_varint (Suc n) mult value payload off =
     (if off < length payload then
        (let b = unat (payload ! off); value' = value + (b AND 0x7F) * mult in
         if b AND 0x80 = 0 then (Some value', off + 1)
         else mqtt_varint n (mult * 128) value' payload (off + 1))
      else (None, off))"

definition read_mqtt_remaining_length :: "bytes \<Rightarrow> nat \<Rightarrow> nat option \<times> nat" where
  "read_mqtt_remaining_length payload off = mqtt_varint 4 1 0 payload off"

definition read_mqtt_string :: "bytes \<Rightarrow> nat \<Rightarrow> ustr \<times> nat" where
  "read_mqtt_string payload off =
     (if off + 2 > length payload then ([], off)
      else let len = be (slice off (off + 2) payload); off1 = off + 2 in
        if len = 0 \<or> off1 + len > length payload then ([], off1)
        else (utf8_replace (slice off1 (off1 + len) payload), off1 + len))"

text \<open>The CONNECT fields: client id, user name, whether a password is present.\<close>

definition mqtt_connect :: "bytes \<Rightarrow> ustr \<times> ustr \<times> bool" where
  "mqtt_connect payload =
     (let off = snd (read_mqtt_remaining_length payload 1);
          off = snd (read_mqtt_string payload off) + 1;
          flags = (if off < length payload then unat (payload ! off) else 0);
          off = off + 1 + 2 in
      case read_mqtt_string payload off of (client_id, off) \<Rightarrow>
        let off = (if flags AND 0x04 \<noteq> 0 then snd (read_mqtt_string payload (snd (read_mqtt_string payload off))) else off);
            username = (if flags AND 0x80 \<noteq> 0 then fst (read_mqtt_string payload off) else []) in
        (client_id, username, flags AND 0x40 \<noteq> 0))"

definition parse_mqtt :: "bytes \<Rightarrow> packet \<Rightarrow> packet" where
  "parse_mqtt payload p0 =
     (let p = set_proto ''mqtt'' p0 in
      case byte_at payload 0 of
        None \<Rightarrow> set_summary (or_text (pk_summary p) (U ''MQTT packet'')) p
      | Some b0 \<Rightarrow>
          let packet_type = b0 div 16 AND 0x0F;
              base = U ''MQTT '' @ name_or MQTT_PACKET_TYPE_NAMES packet_type (U ''type-'' @ dec packet_type) in
          if packet_type = 1 \<and> length payload > 1 then
            (case mqtt_connect payload of (client_id, username, password) \<Rightarrow>
               set_all_text (base
                 @ (if client_id = [] then [] else U '' client='' @ [39] @ client_id @ [39])
                 @ (if username = [] then [] else U '' user='' @ [39] @ username @ [39])
                 @ (if password then U '' password=<present>'' else []))
                 (put_text ''mqtt_username'' username (put_text ''mqtt_client_id'' client_id p)))
          else set_all_text base p)"

end
