(* ===== verification/Sniffer_Parse.thy ===== *)
theory Sniffer_Parse
  imports Sniffer_App
begin

text \<open>
  The frame parser of \<open>Sniffer\<close> (\<^verbatim>\<open>sniffer.py\<close>): link, network and transport layers down to the
  application parsers. A parser returns \<open>None\<close> exactly where Python would raise (an index past
  the end of a byte string, an address from the wrong number of bytes); \<open>parse_packet\<close>
  itself returns \<open>Some None\<close> where the code returns \<open>None\<close>.
\<close>

section \<open>Constants\<close>

definition ETHERTYPE_VLAN :: "nat list" where "ETHERTYPE_VLAN = [0x8100, 0x88A8, 0x9100]"
definition ETHERTYPE_IPV4 :: nat where "ETHERTYPE_IPV4 = 0x0800"
definition ETHERTYPE_IPV6 :: nat where "ETHERTYPE_IPV6 = 0x86DD"
definition ETHERTYPE_ARP :: nat where "ETHERTYPE_ARP = 0x0806"
definition STP_MULTICAST_MAC :: ustr where "STP_MULTICAST_MAC = U ''01:80:c2:00:00:00''"
definition LLC_STP_HEADER :: bytes where "LLC_STP_HEADER = [0x42, 0x42, 0x03]"
definition ETHERNET_MAX_PAYLOAD_LENGTH :: nat where "ETHERNET_MAX_PAYLOAD_LENGTH = 1500"

definition LLC_SAP_NAMES :: "(nat \<times> string) list" where
  "LLC_SAP_NAMES = [(0x00, ''null''), (0x02, ''llc-sublayer-mgmt''), (0x06, ''ip''), (0x0E, ''proway-nm''),
     (0x42, ''stp''), (0x4E, ''mms''), (0x7E, ''x25''), (0x80, ''xns''), (0x86, ''nestar''), (0x8E, ''proway''),
     (0x98, ''arp''), (0xAA, ''snap''), (0xBC, ''vines''), (0xE0, ''ipx''), (0xF0, ''netbios''),
     (0xF4, ''lan-mgmt''), (0xFE, ''osi''), (0xFF, ''ipx-raw'')]"

definition LLC_SNAP_SAP :: nat where "LLC_SNAP_SAP = 0xAA"
definition LLC_SNAP_CONTROL :: nat where "LLC_SNAP_CONTROL = 0x03"
definition IP_PROTO_TCP :: nat where "IP_PROTO_TCP = 6"
definition IP_PROTO_UDP :: nat where "IP_PROTO_UDP = 17"
definition IP_PROTO_SCTP :: nat where "IP_PROTO_SCTP = 132"
definition IP_PROTO_ICMP :: nat where "IP_PROTO_ICMP = 1"
definition IP_PROTO_ICMPV6 :: nat where "IP_PROTO_ICMPV6 = 58"
definition IP_PROTO_IGMP :: nat where "IP_PROTO_IGMP = 2"
definition IP_PROTO_GRE :: nat where "IP_PROTO_GRE = 47"
definition IP_PROTO_IPV6_FRAGMENT :: nat where "IP_PROTO_IPV6_FRAGMENT = 44"
definition IP_PROTO_IPV6_ESP :: nat where "IP_PROTO_IPV6_ESP = 50"
definition IP_PROTO_IPV6_AH :: nat where "IP_PROTO_IPV6_AH = 51"

text \<open>Hop-by-hop, routing, destination, mobility, HIP and Shim6 extension headers.\<close>

definition IPV6_EXTENSIONS :: "nat list" where "IPV6_EXTENSIONS = [0, 43, 60, 135, 139, 140]"

lemmas parse_consts = ETHERTYPE_VLAN_def ETHERTYPE_IPV4_def ETHERTYPE_IPV6_def ETHERTYPE_ARP_def
  ETHERNET_MAX_PAYLOAD_LENGTH_def LLC_SNAP_SAP_def LLC_SNAP_CONTROL_def
  IP_PROTO_TCP_def IP_PROTO_UDP_def IP_PROTO_SCTP_def IP_PROTO_ICMP_def IP_PROTO_ICMPV6_def
  IP_PROTO_IGMP_def IP_PROTO_GRE_def IP_PROTO_IPV6_FRAGMENT_def IP_PROTO_IPV6_ESP_def IP_PROTO_IPV6_AH_def
  IPV6_EXTENSIONS_def

section \<open>Raw IP detection\<close>

fun sum16 :: "bytes \<Rightarrow> nat" where
  "sum16 (a # b # rest) = unat a * 256 + unat b + sum16 rest"
| "sum16 [a] = unat a"
| "sum16 [] = 0"

text \<open>The end-around-carry loop \<open>while total > 0xFFFF\<close>.\<close>

function fold16 :: "nat \<Rightarrow> nat" where
  "fold16 tot = (if tot > 0xFFFF then fold16 (tot mod 65536 + tot div 65536) else tot)"
  by pat_completeness auto

lemma fold16_decreases: "tot mod 65536 + tot div 65536 < tot" if "tot > 65535" for tot :: nat
proof -
  have "tot div 65536 * 65536 + tot mod 65536 = tot" by (rule div_mult_mod_eq)
  moreover have "tot div 65536 \<ge> 1" using that by (simp add: div_greater_zero_iff Suc_le_eq)
  ultimately show ?thesis by linarith
qed

termination fold16
  by (relation "measure id") (use fold16_decreases in auto)

declare fold16.simps [simp del]

definition ipv4_checksum_is_valid :: "bytes \<Rightarrow> bool" where
  "ipv4_checksum_is_valid header \<longleftrightarrow> length header \<ge> 20 \<and> even (length header) \<and> fold16 (sum16 header) = 0xFFFF"

definition looks_like_raw_ipv4 :: "bytes \<Rightarrow> bool" where
  "looks_like_raw_ipv4 data \<longleftrightarrow>
     (if length data < 20 \<or> unat (data ! 0) div 16 \<noteq> 4 then False
      else let header_length = (unat (data ! 0) AND 0x0F) * 4; total_length = be (slice 2 4 data) in
        if header_length < 20 \<or> header_length > length data then False
        else if total_length \<noteq> 0 \<and> total_length < header_length then False
        else if ipv4_str (slice 12 16 data) = None \<or> ipv4_str (slice 16 20 data) = None then False
        else ipv4_checksum_is_valid (take header_length data))"

definition looks_like_raw_ipv6 :: "bytes \<Rightarrow> bool" where
  "looks_like_raw_ipv6 data \<longleftrightarrow>
     (if length data < 40 \<or> unat (data ! 0) div 16 \<noteq> 6 then False
      else ipv6_str (slice 8 24 data) \<noteq> None \<and> ipv6_str (slice 24 40 data) \<noteq> None)"

section \<open>Transport layer\<close>

definition TCP_FLAG_NAMES :: "(nat \<times> string) list" where
  "TCP_FLAG_NAMES = [(0x01, ''FIN''), (0x02, ''SYN''), (0x04, ''RST''), (0x08, ''PSH''), (0x10, ''ACK''),
     (0x20, ''URG''), (0x40, ''ECE''), (0x80, ''CWR'')]"

definition tcp_flag_text :: "nat \<Rightarrow> ustr" where
  "tcp_flag_text flags_byte =
     (let flags = map (\<lambda>(m, n). U n) (filter (\<lambda>(m, n). flags_byte AND m \<noteq> 0) TCP_FLAG_NAMES) in
      if flags = [] then U ''NONE'' else join (U '','') flags)"

definition tcp_state :: "nat \<Rightarrow> ustr" where
  "tcp_state flags_byte =
     (if flags_byte AND 0x04 \<noteq> 0 then U ''closed''
      else if flags_byte AND 0x12 = 0x12 then U ''open''
      else if flags_byte AND 0x02 \<noteq> 0 then U ''filtered''
      else U ''unknown'')"

definition truncated :: "sniff_config \<Rightarrow> string \<Rightarrow> bytes \<Rightarrow> pst \<Rightarrow> pst" where
  "truncated cfg summary body st =
     (case interpret_text cfg body (upd (\<lambda>p. p\<lparr>pk_summary := U summary\<rparr>) st) of
        (p, fl) \<Rightarrow> (p\<lparr>pk_banner_text := pk_payload_text p\<rparr>, fl))"

definition fix_hop_limit :: "nat \<Rightarrow> packet \<Rightarrow> packet" where
  "fix_hop_limit ip_version p =
     (if ip_version = 6 \<and> pk_hop_limit p = 0 then p\<lparr>pk_hop_limit := 64\<rparr> else p)"

definition endpoints_summary :: "string \<Rightarrow> packet \<Rightarrow> ustr" where
  "endpoints_summary label p = U label @ U '' '' @ endpoint_text (pk_src_ip p) (pk_src_port p) @ arrow
     @ endpoint_text (pk_dst_ip p) (pk_dst_port p)"

definition banner_and_summary :: "string \<Rightarrow> ustr \<Rightarrow> packet \<Rightarrow> packet" where
  "banner_and_summary label banner p =
     p\<lparr>pk_banner_text := banner, pk_summary := or_text banner (endpoints_summary label p)\<rparr>"

definition on_port :: "nat \<Rightarrow> packet \<Rightarrow> bool" where
  "on_port n p \<longleftrightarrow> pk_src_port p = n \<or> pk_dst_port p = n"

definition tcp_dns_payload :: "bytes \<Rightarrow> bytes" where
  "tcp_dns_payload payload =
     (let prefix_len = be (slice 0 2 payload) in
      if prefix_len \<noteq> 0 \<and> prefix_len \<le> length payload - 2 then slice 2 (2 + prefix_len) payload else drop 2 payload)"

definition apply_http_request :: "packet \<Rightarrow> packet" where
  "apply_http_request p =
     (case extract_http_request (pk_payload_text p) of (meth, path, host) \<Rightarrow>
        if meth = [] then p
        else let p1 = p\<lparr>pk_http_method := meth, pk_http_path := path, pk_http_host := host\<rparr> in
          if host = [] then p1 else p1\<lparr>pk_domain := host, pk_domain_source := U ''http_host''\<rparr>)"

definition apply_sni :: "bytes \<Rightarrow> packet \<Rightarrow> packet" where
  "apply_sni payload p =
     (if slice 0 1 payload = [0x16] then
        (let p1 = p\<lparr>pk_banner_text := or_text (pk_banner_text p) (U ''TLS handshake'')\<rparr>;
             sni = extract_tls_sni payload in
         if sni = [] then p1 else p1\<lparr>pk_domain := sni, pk_domain_source := U ''tls_sni''\<rparr>)
      else p)"

text \<open>The generic end of \<open>_parse_tcp\<close>, for segments no dedicated parser claimed.\<close>

definition tcp_finish :: "nat \<Rightarrow> bytes \<Rightarrow> ustr \<Rightarrow> packet \<Rightarrow> packet" where
  "tcp_finish ip_version payload banner p =
     (let p3 = apply_sni payload (fix_hop_limit ip_version (banner_and_summary ''TCP'' banner p));
          app = classify_tcp (pk_src_port p3) (pk_dst_port p3) payload;
          p4 = (if app = [] then p3 else apply_app_decoder (U app) payload (p3\<lparr>pk_proto := U app\<rparr>)) in
      apply_http_request p4)"

definition tcp_generic :: "sniff_config \<Rightarrow> nat \<Rightarrow> bytes \<Rightarrow> pst \<Rightarrow> pst" where
  "tcp_generic cfg ip_version payload st =
     (case interpret_text cfg payload st of (p, fl) \<Rightarrow>
        case (if pk_payload_text p \<noteq> [] then (pk_payload_text p, fl) else classify_tcp_banner cfg p payload fl) of
          (banner, fl') \<Rightarrow> (tcp_finish ip_version payload banner p, fl'))"

definition tcp_payload :: "nat \<Rightarrow> bytes \<Rightarrow> bytes" where
  "tcp_payload data_offset body =
     (if data_offset \<noteq> 0 \<and> length body \<ge> data_offset then drop data_offset body else drop 20 body)"

definition tcp_header :: "nat \<Rightarrow> bytes \<Rightarrow> bytes \<Rightarrow> packet \<Rightarrow> packet" where
  "tcp_header flags_byte payload body p = p\<lparr>pk_src_port := be (slice 0 2 body), pk_dst_port := be (slice 2 4 body),
     pk_tcp_flags := tcp_flag_text flags_byte, pk_payload_len := length payload,
     pk_payload_hex := bytes_to_hex_preview 256 payload, pk_state := tcp_state flags_byte\<rparr>"

definition looks_like_dns :: "bytes \<Rightarrow> bool" where
  "looks_like_dns payload \<longleftrightarrow> questions (parse_dns_message payload) \<noteq> [] \<or> answers (parse_dns_message payload) \<noteq> []"

definition tcp_dispatch :: "sniff_config \<Rightarrow> nat \<Rightarrow> bytes \<Rightarrow> pst \<Rightarrow> pst" where
  "tcp_dispatch cfg ip_version payload st =
     (case st of (p, fl) \<Rightarrow>
        if on_port 53 p \<and> length payload > 2 \<and> looks_like_dns (tcp_dns_payload payload) then
          (fix_hop_limit ip_version (apply_dns_result (tcp_dns_payload payload) ''DNS'' ''dns'' (set_proto ''dns'' p)), fl)
        else if on_port 502 p \<and> length payload \<ge> 8 then (fix_hop_limit ip_version (parse_modbus payload p), fl)
        else if on_port 20000 p \<and> slice 0 2 payload = DNP3_START then (fix_hop_limit ip_version (parse_dnp3 payload p), fl)
        else if on_port 1883 p \<and> payload \<noteq> [] then (fix_hop_limit ip_version (parse_mqtt payload p), fl)
        else tcp_generic cfg ip_version payload (p, fl))"

definition parse_tcp :: "sniff_config \<Rightarrow> nat \<Rightarrow> bytes \<Rightarrow> pst \<Rightarrow> pst option" where
  "parse_tcp cfg ip_version body st =
     (let st0 = upd (\<lambda>p. p\<lparr>pk_proto := U ''tcp'', pk_transport := U ''tcp''\<rparr>) st in
      if length body < 20 then Some (truncated cfg ''TCP packet'' body st0)
      else do {
        b12 \<leftarrow> byte_at body 12;
        flags_byte \<leftarrow> byte_at body 13;
        let payload = tcp_payload ((b12 div 16) * 4) body;
        Some (tcp_dispatch cfg ip_version payload (upd (tcp_header flags_byte payload body) st0))
      })"

definition udp_dispatch :: "bytes \<Rightarrow> packet \<Rightarrow> packet" where
  "udp_dispatch payload p =
     (if on_port 53 p then apply_dns_result payload ''DNS'' ''dns'' (set_proto ''dns'' p)
      else if on_port 67 p \<or> on_port 68 p then parse_dhcp payload p
      else if on_port 5353 p then apply_dns_result payload ''mDNS'' ''mdns'' (set_proto ''mdns'' p)
      else if on_port 5355 p then apply_dns_result payload ''LLMNR'' ''llmnr'' (set_proto ''llmnr'' p)
      else if on_port 137 p then parse_nbns payload p
      else if on_port 161 p \<or> on_port 162 p then parse_snmp payload p
      else if on_port 514 p then parse_syslog payload p
      else if on_port 69 p then parse_tftp payload p
      else if on_port 1812 p \<or> on_port 1813 p then parse_radius payload p
      else if on_port 20000 p \<and> slice 0 2 payload = DNP3_START then parse_dnp3 payload p
      else let app = classify_udp (pk_src_port p) (pk_dst_port p) payload in
        if app = [] then p else apply_app_decoder (U app) payload (p\<lparr>pk_proto := U app\<rparr>))"

definition parse_udp :: "sniff_config \<Rightarrow> nat \<Rightarrow> bytes \<Rightarrow> pst \<Rightarrow> pst" where
  "parse_udp cfg ip_version body st =
     (let st0 = upd (\<lambda>p. p\<lparr>pk_proto := U ''udp'', pk_transport := U ''udp''\<rparr>) st in
      if length body < 8 then truncated cfg ''UDP packet'' body st0
      else let len = be (slice 4 6 body);
               payload = (if 8 \<le> len \<and> len \<le> length body then slice 8 len body else drop 8 body);
               st1 = upd (\<lambda>p. p\<lparr>pk_src_port := be (slice 0 2 body), pk_dst_port := be (slice 2 4 body),
                       pk_payload_len := length payload, pk_payload_hex := bytes_to_hex_preview 256 payload\<rparr>) st0;
               st2 = upd (\<lambda>p. if payload \<noteq> [] \<and> fst (service_endpoint p) = pk_src_ip p then p\<lparr>pk_state := U ''open''\<rparr> else p) st1 in
        case interpret_text cfg payload st2 of (p, fl) \<Rightarrow>
          (udp_dispatch payload (fix_hop_limit ip_version
             (banner_and_summary ''UDP'' (or_text (pk_payload_text p) (classify_udp_banner cfg p payload)) p)), fl))"

definition parse_sctp :: "sniff_config \<Rightarrow> nat \<Rightarrow> bytes \<Rightarrow> pst \<Rightarrow> pst" where
  "parse_sctp cfg ip_version body st =
     (if length body < 12
      then truncated cfg ''SCTP packet'' body (upd (\<lambda>p. p\<lparr>pk_proto := U ''sctp'', pk_transport := U ''sctp''\<rparr>) st)
      else case interpret_text cfg (drop 12 body)
             (upd (\<lambda>p. p\<lparr>pk_proto := U ''sctp'', pk_src_port := be (slice 0 2 body), pk_dst_port := be (slice 2 4 body)\<rparr>) st) of
        (p, fl) \<Rightarrow> (fix_hop_limit ip_version (banner_and_summary ''SCTP'' (pk_payload_text p) p), fl))"

definition parse_icmp :: "sniff_config \<Rightarrow> bool \<Rightarrow> bytes \<Rightarrow> pst \<Rightarrow> pst option" where
  "parse_icmp cfg ipv6 body st =
     (let st0 = upd (set_proto (if ipv6 then ''icmpv6'' else ''icmp'')) st in
      if length body < 4 then Some (truncated cfg ''ICMP packet'' body st0)
      else do {
        t \<leftarrow> byte_at body 0;
        c \<leftarrow> byte_at body 1;
        let (p, fl) = interpret_text cfg (drop 4 body) (upd (\<lambda>p. p\<lparr>pk_icmp_type := t, pk_icmp_code := c\<rparr>) st0);
        let p1 = p\<lparr>pk_banner_text := or_text (pk_payload_text p) (classify_icmp_banner p)\<rparr>;
        Some (p1\<lparr>pk_summary := or_text (pk_banner_text p1)
          (upper (pk_proto p1) @ U '' type '' @ dec (pk_icmp_type p1) @ U '' code '' @ dec (pk_icmp_code p1))\<rparr>, fl)
      })"

definition IGMP_TYPE_NAMES :: "(nat \<times> string) list" where
  "IGMP_TYPE_NAMES = [(0x11, ''membership query''), (0x12, ''v1 membership report''), (0x16, ''v2 membership report''),
     (0x17, ''leave group''), (0x22, ''v3 membership report'')]"

definition parse_igmp :: "sniff_config \<Rightarrow> bytes \<Rightarrow> pst \<Rightarrow> pst option" where
  "parse_igmp cfg body st =
     (let st0 = upd (set_proto ''igmp'') st in
      if length body < 8 then Some (interpret_text cfg body (upd (set_summary (U ''IGMP packet'')) st0))
      else do {
        msg_type \<leftarrow> byte_at body 0;
        let type_name = name_or IGMP_TYPE_NAMES msg_type (U ''type 0x'' @ hexw 2 msg_type);
        let group = catch (ipv4_str (slice 4 8 body)) [];
        let st1 = (if group \<noteq> [] \<and> group \<noteq> U ''0.0.0.0'' then upd (put_extra ''igmp_group'' (PStr group)) st0 else st0);
        Some (upd (set_all_text (U ''IGMP '' @ type_name
          @ (if group \<noteq> [] \<and> group \<noteq> U ''0.0.0.0'' then U '' group='' @ group else []))) st1)
      })"

definition parse_gre :: "bytes \<Rightarrow> packet \<Rightarrow> packet" where
  "parse_gre body p0 =
     (let p = set_proto ''gre'' p0 in
      if length body < 4 then set_summary (U ''GRE packet'') p
      else let flags_version = be (slice 0 2 body);
               proto_type = be (slice 2 4 body);
               off = (if flags_version AND 0x8000 \<noteq> 0 \<and> length body \<ge> 8 then 8 else 4);
               key = (if flags_version AND 0x2000 \<noteq> 0 \<and> length body \<ge> off + 4 then Some (be (slice off (off + 4) body)) else None) in
        set_all_text (U ''GRE tunnel inner-proto 0x'' @ hexw 4 proto_type
          @ (case key of None \<Rightarrow> [] | Some k \<Rightarrow> U '' key=0x'' @ hexw 8 k)) p)"

definition parse_esp :: "bytes \<Rightarrow> packet \<Rightarrow> packet" where
  "parse_esp body p0 =
     (let p = set_proto ''esp'' p0 in
      if length body < 8 then set_summary (U ''ESP packet'') p
      else set_summary (U ''ESP SPI=0x'' @ hexw 8 (be (slice 0 4 body)) @ U '' seq='' @ dec (be (slice 4 8 body))
             @ U '' (encrypted payload)'') p)"

definition ah_header_length :: "nat \<Rightarrow> nat" where
  "ah_header_length length_field = (length_field + 2) * 4"

definition parse_ah :: "sniff_config \<Rightarrow> nat \<Rightarrow> bytes \<Rightarrow> pst \<Rightarrow> pst option" where
  "parse_ah cfg ip_version body st =
     (if length body < 12 then Some (upd (\<lambda>p. set_summary (U ''AH packet'') (set_proto ''ah'' p)) st)
      else do {
        next_header \<leftarrow> byte_at body 0;
        b1 \<leftarrow> byte_at body 1;
        let header_length = ah_header_length b1;
        let spi = be (slice 4 8 body);
        let seq = be (slice 8 12 body);
        let inner = (if 0 < header_length \<and> header_length \<le> length body then drop header_length body else []);
        let icmp_proto = (if ip_version = 6 then IP_PROTO_ICMPV6 else IP_PROTO_ICMP);
        st1 \<leftarrow> (if next_header = IP_PROTO_TCP then parse_tcp cfg ip_version inner st
               else if next_header = IP_PROTO_UDP then Some (parse_udp cfg ip_version inner st)
               else if next_header = icmp_proto then parse_icmp cfg (ip_version = 6) inner st
               else Some (upd (\<lambda>p. set_summary (U ''AH protocol '' @ dec next_header) (set_proto ''ah'' p)) st));
        Some (upd (\<lambda>p. set_summary (U ''AH SPI=0x'' @ hexw 8 spi @ U '' seq='' @ dec seq @ U '' | '' @ pk_summary p) p) st1)
      })"

section \<open>Network layer\<close>

definition fallback_if_empty :: "packet \<Rightarrow> packet" where
  "fallback_if_empty p = (if pk_summary p = [] then p\<lparr>pk_summary := fallback_summary p\<rparr> else p)"

definition text_and_banner :: "sniff_config \<Rightarrow> bytes \<Rightarrow> pst \<Rightarrow> pst" where
  "text_and_banner cfg body st =
     (case interpret_text cfg body st of (p, fl) \<Rightarrow> (p\<lparr>pk_banner_text := pk_payload_text p\<rparr>, fl))"

definition named_protocol :: "nat option \<Rightarrow> string" where
  "named_protocol n = (case n of None \<Rightarrow> [] | Some k \<Rightarrow> (case map_of IP_PROTOCOLS k of None \<Rightarrow> [] | Some s \<Rightarrow> s))"

definition parse_ipv4 :: "sniff_config \<Rightarrow> bytes \<Rightarrow> pst \<Rightarrow> pst option" where
  "parse_ipv4 cfg payload st =
     (if length payload < 20 then Some (truncated cfg ''IPv4 packet'' payload st)
      else do {
        version_ihl \<leftarrow> byte_at payload 0;
        ttl \<leftarrow> byte_at payload 8;
        proto \<leftarrow> byte_at payload 9;
        src \<leftarrow> ipv4_str (slice 12 16 payload);
        dst \<leftarrow> ipv4_str (slice 16 20 payload);
        let ihl = (version_ihl AND 0x0F) * 4;
        let total_length = be (slice 2 4 payload);
        let body = (if total_length > ihl then slice ihl total_length payload else drop ihl payload);
        let st1 = upd (\<lambda>p. p\<lparr>pk_ip_version := 4, pk_ttl := ttl, pk_src_ip := src, pk_dst_ip := dst\<rparr>) st;
        st2 \<leftarrow> (if proto = IP_PROTO_TCP then parse_tcp cfg 4 body st1
               else if proto = IP_PROTO_UDP then Some (parse_udp cfg 4 body st1)
               else if proto = IP_PROTO_SCTP then Some (parse_sctp cfg 4 body st1)
               else if proto = IP_PROTO_ICMP then parse_icmp cfg False body st1
               else if proto = IP_PROTO_IGMP then parse_igmp cfg body st1
               else if proto = IP_PROTO_GRE then Some (upd (parse_gre body) st1)
               else if proto = IP_PROTO_IPV6_ESP then Some (upd (parse_esp body) st1)
               else if proto = IP_PROTO_IPV6_AH then parse_ah cfg 4 body st1
               else let named = named_protocol (Some proto);
                        label = (if named = [] then U ''IPv4 protocol '' @ dec proto else upper (U named)) in
                 Some (text_and_banner cfg body (upd (\<lambda>p. p\<lparr>pk_proto := (if named = [] then U ''unknown'' else U named),
                   pk_summary := label @ U '' '' @ pk_src_ip p @ arrow @ pk_dst_ip p\<rparr>) st1)));
        Some (upd fallback_if_empty st2)
      })"

text \<open>
  The loop of \<open>_unwrap_ipv6_transport\<close>: next header and offset. Every turn moves the offset
  forward by at least 8 bytes and stays inside the payload.
\<close>

function unwrap_ipv6 :: "bytes \<Rightarrow> nat \<Rightarrow> nat \<Rightarrow> (nat option \<times> bytes \<times> ustr) option" where
  "unwrap_ipv6 payload next_header off =
     (if next_header \<in> set IPV6_EXTENSIONS then
        (if length payload < off + 2 then Some (None, drop off payload, U ''truncated IPv6 extension'')
         else case byte_at payload (off + 1) of
           None \<Rightarrow> None
         | Some l \<Rightarrow>
             (let header_length = (l + 1) * 8 in
              if length payload < off + header_length then Some (None, drop off payload, U ''truncated IPv6 extension'')
              else case byte_at payload off of
                None \<Rightarrow> None
              | Some nh \<Rightarrow> unwrap_ipv6 payload nh (off + header_length)))
      else if next_header = IP_PROTO_IPV6_FRAGMENT then
        (if length payload < off + 8 then Some (None, drop off payload, U ''truncated IPv6 fragment'')
         else case byte_at payload off of
           None \<Rightarrow> None
         | Some nh \<Rightarrow>
             if (be (slice (off + 2) (off + 4) payload) div 8) AND 0x1FFF \<noteq> 0
             then Some (None, drop (off + 8) payload, U ''non-initial IPv6 fragment'')
             else unwrap_ipv6 payload nh (off + 8))
      else if next_header = IP_PROTO_IPV6_AH then Some (Some IP_PROTO_IPV6_AH, drop off payload, U ''AH'')
      else if next_header = IP_PROTO_IPV6_ESP then Some (Some IP_PROTO_IPV6_ESP, drop off payload, U ''ESP'')
      else Some (Some next_header, drop off payload, U ''protocol '' @ dec next_header))"
  by pat_completeness auto

termination unwrap_ipv6
  by (relation "measure (\<lambda>(payload, nh, off). Suc (length payload) - off)") auto

declare unwrap_ipv6.simps [simp del]

definition unwrap_ipv6_transport :: "bytes \<Rightarrow> (nat option \<times> bytes \<times> ustr) option" where
  "unwrap_ipv6_transport payload = do { nh \<leftarrow> byte_at payload 6; unwrap_ipv6 payload nh 40 }"

definition parse_ipv6 :: "sniff_config \<Rightarrow> bytes \<Rightarrow> pst \<Rightarrow> pst option" where
  "parse_ipv6 cfg payload st =
     (if length payload < 40 then Some (truncated cfg ''IPv6 packet'' payload st)
      else do {
        hop \<leftarrow> byte_at payload 7;
        src \<leftarrow> ipv6_str (slice 8 24 payload);
        dst \<leftarrow> ipv6_str (slice 24 40 payload);
        (next_header, body, detail) \<leftarrow> unwrap_ipv6_transport payload;
        let st1 = upd (\<lambda>p. p\<lparr>pk_ip_version := 6, pk_hop_limit := hop, pk_src_ip := src, pk_dst_ip := dst\<rparr>) st;
        st2 \<leftarrow> (if next_header = Some IP_PROTO_TCP then parse_tcp cfg 6 body st1
               else if next_header = Some IP_PROTO_UDP then Some (parse_udp cfg 6 body st1)
               else if next_header = Some IP_PROTO_SCTP then Some (parse_sctp cfg 6 body st1)
               else if next_header = Some IP_PROTO_ICMPV6 then parse_icmp cfg True body st1
               else if next_header = Some IP_PROTO_IPV6_ESP then Some (upd (parse_esp body) st1)
               else if next_header = Some IP_PROTO_IPV6_AH then parse_ah cfg 6 body st1
               else let named = named_protocol next_header in
                 Some (text_and_banner cfg body (upd (\<lambda>p. p\<lparr>pk_proto := (if named = [] then U ''unknown'' else U named),
                   pk_summary := U ''IPv6 '' @ (if named = [] then detail else upper (U named)) @ U '' '' @ pk_src_ip p @ arrow @ pk_dst_ip p\<rparr>) st1)));
        Some (upd fallback_if_empty st2)
      })"

section \<open>Link layer\<close>

definition ARP_OPERATIONS :: "(nat \<times> string) list" where
  "ARP_OPERATIONS = [(1, ''request''), (2, ''reply''), (3, ''RARP request''), (4, ''RARP reply''),
     (8, ''InARP request''), (9, ''InARP reply'')]"

definition ARP_HW_TYPES :: "(nat \<times> string) list" where
  "ARP_HW_TYPES = [(1, ''Ethernet''), (6, ''IEEE 802''), (15, ''Frame Relay''), (16, ''ATM''), (17, ''HDLC'')]"

definition parse_arp :: "sniff_config \<Rightarrow> bytes \<Rightarrow> pst \<Rightarrow> pst option" where
  "parse_arp cfg payload st =
     (let st0 = upd (set_proto ''arp'') st in
      if length payload < 28 then Some (truncated cfg ''ARP packet'' payload st0)
      else do {
        src \<leftarrow> ipv4_str (slice 14 18 payload);
        dst \<leftarrow> ipv4_str (slice 24 28 payload);
        let opcode = be (slice 6 8 payload);
        let sender_mac = format_mac (slice 8 14 payload);
        let target_mac = format_mac (slice 18 24 payload);
        let operation = name_or ARP_OPERATIONS opcode (U ''opcode '' @ dec opcode);
        let hw = be (slice 0 2 payload);
        let st1 = upd (\<lambda>p. put_extra ''arp_hardware_type'' (PStr (name_or ARP_HW_TYPES hw (dec hw)))
              (put_extra ''arp_target_mac'' (PStr target_mac) (put_extra ''arp_sender_mac'' (PStr sender_mac)
              (put_extra ''arp_operation'' (PStr operation)
              (p\<lparr>pk_arp_opcode := opcode, pk_src_ip := src, pk_dst_ip := dst, pk_src_port := 0, pk_dst_port := 0\<rparr>))))) st0;
        let st2 = upd (\<lambda>p. let eth_src = lower (pk_eth_src p) in
              if eth_src \<noteq> [] \<and> sender_mac \<noteq> [] \<and> lower sender_mac \<noteq> eth_src
              then put_extra ''arp_mac_mismatch'' (PStr (eth_src @ U '' announces '' @ sender_mac)) p else p) st1;
        let st3 = upd (\<lambda>p. p\<lparr>pk_summary := U ''ARP '' @ operation @ U '' '' @ pk_src_ip p @ U '' ('' @ sender_mac @ U '') -> '' @ pk_dst_ip p\<rparr>) st2;
        let (p, fl) = interpret_text cfg payload st3;
        Some (p\<lparr>pk_banner_text := or_text (pk_payload_text p) (pk_summary p)\<rparr>, fl)
      })"

definition is_stp_bpdu :: "packet \<Rightarrow> bytes \<Rightarrow> bool" where
  "is_stp_bpdu p payload \<longleftrightarrow> lower (pk_eth_dst p) = STP_MULTICAST_MAC \<and> length payload \<ge> 3 \<and> take 3 payload = LLC_STP_HEADER"

definition parse_stp :: "sniff_config \<Rightarrow> bytes \<Rightarrow> pst \<Rightarrow> pst" where
  "parse_stp cfg payload st =
     (case interpret_text cfg payload (upd (\<lambda>p. (set_proto ''stp'' p)\<lparr>pk_summary := U ''STP BPDU''\<rparr>) st) of
        (p, fl) \<Rightarrow> (p\<lparr>pk_banner_text := or_text (pk_payload_text p) (pk_summary p)\<rparr>, fl))"

definition hex_colon :: "bytes \<Rightarrow> ustr" where
  "hex_colon bs = join (U '':'') (map (\<lambda>b. hexw 2 (unat b)) bs)"

definition frame_summary :: "string \<Rightarrow> bytes \<Rightarrow> packet \<Rightarrow> packet" where
  "frame_summary named body p = p\<lparr>pk_proto := U named,
     pk_summary := upper (U named) @ U '' frame from '' @ pk_eth_src p @ U '' ('' @ dec (length body) @ U '' bytes)''\<rparr>"

definition parse_snap :: "sniff_config \<Rightarrow> bytes \<Rightarrow> pst \<Rightarrow> pst option" where
  "parse_snap cfg payload st =
     (let oui = slice 3 6 payload; snap_type = be (slice 6 8 payload); body = drop 8 payload;
          st1 = upd (\<lambda>p. (put_extra ''llc_snap_ethertype'' (N snap_type) (put_extra ''llc_snap_oui'' (PStr (hex_colon oui)) p))
                  \<lparr>pk_eth_type := snap_type\<rparr>) st in
      if snap_type = ETHERTYPE_IPV4 then parse_ipv4 cfg body st1
      else if snap_type = ETHERTYPE_IPV6 then parse_ipv6 cfg body st1
      else if snap_type = ETHERTYPE_ARP then parse_arp cfg body st1
      else case map_of SNAP_PROTOCOLS (oui, snap_type) of
        Some named \<Rightarrow> Some (text_and_banner cfg body (upd (\<lambda>p. apply_app_decoder (U named) body (frame_summary named body p)) st1))
      | None \<Rightarrow> Some (text_and_banner cfg body (upd (\<lambda>p. p\<lparr>pk_proto := U ''llc-snap'',
          pk_summary := U ''IEEE 802.3 SNAP OUI '' @ hex_colon oui @ U '' EtherType 0x'' @ hexw 4 snap_type
            @ U '' payload '' @ dec (length body) @ U '' bytes''\<rparr>) st1)))"

definition parse_llc :: "sniff_config \<Rightarrow> bytes \<Rightarrow> nat \<Rightarrow> pst \<Rightarrow> pst option" where
  "parse_llc cfg payload declared_length st =
     (let st0 = upd (put_extra ''llc_length'' (N declared_length)) st in
      if length payload < 3 then
        Some (text_and_banner cfg payload (upd (\<lambda>p. (set_proto ''llc'' p)
          \<lparr>pk_summary := U ''IEEE 802.3 LLC (truncated, '' @ dec (length payload) @ U '' bytes)''\<rparr>) st0))
      else do {
        dsap \<leftarrow> byte_at payload 0;
        ssap \<leftarrow> byte_at payload 1;
        control \<leftarrow> byte_at payload 2;
        let st1 = upd (\<lambda>p. put_extra ''llc_control'' (N control) (put_extra ''llc_ssap'' (N ssap) (put_extra ''llc_dsap'' (N dsap) p))) st0;
        if dsap = LLC_SNAP_SAP \<and> ssap = LLC_SNAP_SAP \<and> control = LLC_SNAP_CONTROL \<and> length payload \<ge> 8
        then parse_snap cfg payload st1
        else let dsap_name = map_of LLC_SAP_NAMES (dsap AND 0xFE);
                 label = (case dsap_name of Some n \<Rightarrow> U n | None \<Rightarrow> U ''0x'' @ hexw 2 dsap);
                 st2 = upd (\<lambda>p. p\<lparr>pk_proto := (case dsap_name of Some n \<Rightarrow> U ''llc-'' @ U n | None \<Rightarrow> U ''llc''),
                   pk_summary := U ''IEEE 802.3 LLC '' @ label @ U '' DSAP 0x'' @ hexw 2 dsap @ U '' SSAP 0x'' @ hexw 2 ssap
                     @ U '' control 0x'' @ hexw 2 control @ U '' payload '' @ dec (length payload - 3) @ U '' bytes''\<rparr>) st1 in
          case interpret_text cfg (drop 3 payload) st2 of (p, fl) \<Rightarrow> Some (p\<lparr>pk_banner_text := pk_summary p\<rparr>, fl)
      })"

text \<open>VLAN tags: the EtherType after all tags, and the offset of the payload.\<close>

function skip_vlan :: "bytes \<Rightarrow> nat \<Rightarrow> nat \<Rightarrow> nat \<times> nat" where
  "skip_vlan data eth_type off =
     (if eth_type \<in> set ETHERTYPE_VLAN \<and> length data \<ge> off + 4
      then skip_vlan data (be (slice (off + 2) (off + 4) data)) (off + 4)
      else (eth_type, off))"
  by pat_completeness auto

termination skip_vlan
  by (relation "measure (\<lambda>(data, t, off). length data - off)") auto

declare skip_vlan.simps [simp del]

definition parse_ethernet :: "sniff_config \<Rightarrow> nat \<Rightarrow> bytes \<Rightarrow> pst \<Rightarrow> pst option" where
  "parse_ethernet cfg eth_type payload st =
     (if eth_type = ETHERTYPE_IPV4 then parse_ipv4 cfg payload st
      else if eth_type = ETHERTYPE_IPV6 then parse_ipv6 cfg payload st
      else if eth_type = ETHERTYPE_ARP then parse_arp cfg payload st
      else if is_stp_bpdu (fst st) payload then Some (parse_stp cfg payload st)
      else if eth_type \<le> ETHERNET_MAX_PAYLOAD_LENGTH then parse_llc cfg payload eth_type st
      else (case map_of ETHER_PROTOCOLS eth_type of
          Some named \<Rightarrow> Some (text_and_banner cfg payload (upd (\<lambda>p. apply_app_decoder (U named) payload (frame_summary named payload p)) st))
        | None \<Rightarrow> Some (text_and_banner cfg payload (upd (\<lambda>p. p\<lparr>pk_summary :=
            U ''EtherType 0x'' @ hexw 4 eth_type @ U '' payload '' @ dec (length payload) @ U '' bytes''\<rparr>) st))))"

definition finalize_st :: "sniff_config \<Rightarrow> pst \<Rightarrow> packet option \<times> flows" where
  "finalize_st cfg st = (Some (finalize_packet (cfg_local_ips cfg) (fst st)), snd st)"

definition parse_packet :: "sniff_config \<Rightarrow> bytes \<Rightarrow> ustr \<Rightarrow> flows \<Rightarrow> (packet option \<times> flows) option" where
  "parse_packet cfg data interface fl =
     (if data = [] then Some (None, fl)
      else if looks_like_raw_ipv4 data then
        map_option (finalize_st cfg) (parse_ipv4 cfg data (build_base_packet (cfg_now cfg) interface data data [] [] ETHERTYPE_IPV4, fl))
      else if looks_like_raw_ipv6 data then
        map_option (finalize_st cfg) (parse_ipv6 cfg data (build_base_packet (cfg_now cfg) interface data data [] [] ETHERTYPE_IPV6, fl))
      else if length data < 14 then Some (None, fl)
      else case skip_vlan data (be (slice 12 14 data)) 14 of (eth_type, off) \<Rightarrow>
        let payload = drop off data in
        map_option (finalize_st cfg) (parse_ethernet cfg eth_type payload
          (build_base_packet (cfg_now cfg) interface data payload (format_mac (slice 6 12 data)) (format_mac (slice 0 6 data)) eth_type, fl)))"

section \<open>The dashboard's own traffic\<close>

definition frame_ip_payload :: "bytes \<Rightarrow> bytes option" where
  "frame_ip_payload data =
     (if looks_like_raw_ipv4 data \<or> looks_like_raw_ipv6 data then Some data
      else if length data < 14 then None
      else case skip_vlan data (be (slice 12 14 data)) 14 of (eth_type, off) \<Rightarrow>
        if eth_type = ETHERTYPE_IPV4 \<or> eth_type = ETHERTYPE_IPV6 then Some (drop off data) else None)"

definition segment_on_port :: "nat \<Rightarrow> nat option \<Rightarrow> bytes \<Rightarrow> bool" where
  "segment_on_port port proto body \<longleftrightarrow> proto \<in> {Some IP_PROTO_TCP, Some IP_PROTO_UDP} \<and> length body \<ge> 4
     \<and> (be (slice 0 2 body) = port \<or> be (slice 2 4 body) = port)"

definition is_own_dashboard_frame :: "nat \<Rightarrow> bytes \<Rightarrow> bool option" where
  "is_own_dashboard_frame port data =
     (case frame_ip_payload data of
        None \<Rightarrow> Some False
      | Some payload \<Rightarrow>
          if length payload \<ge> 20 \<and> unat (payload ! 0) div 16 = 4 then
            (let off = (unat (payload ! 0) AND 15) * 4 in
             if off < 20 \<or> be (slice 6 8 payload) AND 0x1FFF \<noteq> 0 then Some False
             else do { proto \<leftarrow> byte_at payload 9; Some (segment_on_port port (Some proto) (drop off payload)) })
          else if length payload \<ge> 40 \<and> unat (payload ! 0) div 16 = 6 then
            do { (proto, body, _) \<leftarrow> unwrap_ipv6_transport payload; Some (segment_on_port port proto body) }
          else Some False)"

definition is_own_dashboard_traffic :: "nat \<Rightarrow> packet \<Rightarrow> bool" where
  "is_own_dashboard_traffic port p \<longleftrightarrow> lower (pk_transport p) \<in> {U ''tcp'', U ''udp''}
     \<and> (pk_src_port p = port \<or> pk_dst_port p = port)"

text \<open>\<open>_build_unparseable_packet\<close>, without the per-interface counter it bumps.\<close>

definition build_unparseable_packet :: "sniff_config \<Rightarrow> ustr \<Rightarrow> bytes \<Rightarrow> ustr \<Rightarrow> packet" where
  "build_unparseable_packet cfg interface data reason =
     (let summary = U ''Unparseable frame ('' @ dec (length data) @ U ''B): '' @ reason in
      finalize_packet (cfg_local_ips cfg)
        ((put_extra ''parse_error'' (PStr reason) (build_base_packet (cfg_now cfg) interface data data [] [] 0))
           \<lparr>pk_proto := U ''unparseable'', pk_summary := summary, pk_banner_text := summary\<rparr>))"

end
