(* ===== verification/Parser_Safety.thy ===== *)
theory Parser_Safety
  imports Sniffer_Parse
begin

text \<open>
  Safety of the frame parser: no frame makes it raise, the fields of a parsed packet keep the
  ranges of the wire format, and the Internet checksum is the one of RFC 1071.
\<close>

section \<open>No read is out of bounds\<close>

text \<open>
  Introduction rules for ``does not raise'', one per way the parsers are put together. What is
  left of a proof are the reads, each under the guards that precede it.
\<close>

named_theorems parser_total

lemma total_Some [parser_total]: "Some x \<noteq> None"
  by simp

lemma total_if [parser_total]: "(P \<Longrightarrow> a \<noteq> None) \<Longrightarrow> (\<not> P \<Longrightarrow> b \<noteq> None) \<Longrightarrow> (if P then a else b) \<noteq> None"
  by simp

lemma total_bind [parser_total]: "m \<noteq> None \<Longrightarrow> (\<And>x. m = Some x \<Longrightarrow> f x \<noteq> None) \<Longrightarrow> Option.bind m f \<noteq> None"
  by (cases m) auto

lemma total_Let [parser_total]: "f x \<noteq> None \<Longrightarrow> Let x f \<noteq> None"
  by simp

lemma total_prod [parser_total]: "(\<And>a b. x = (a, b) \<Longrightarrow> f a b \<noteq> None) \<Longrightarrow> case_prod f x \<noteq> None"
  by (cases x) auto

lemma total_option [parser_total]:
  "(x = None \<Longrightarrow> a \<noteq> None) \<Longrightarrow> (\<And>y. x = Some y \<Longrightarrow> f y \<noteq> None) \<Longrightarrow> case_option a f x \<noteq> None"
  by (cases x) auto

lemma total_map [parser_total]: "m \<noteq> None \<Longrightarrow> map_option f m \<noteq> None"
  by simp

lemma total_byte_at: "i < length p \<Longrightarrow> byte_at p i \<noteq> None"
  by simp

lemma total_ipv4: "length raw = 4 \<Longrightarrow> ipv4_str raw \<noteq> None"
  by (simp add: ipv4_str_def)

lemma total_ipv6: "length raw = 16 \<Longrightarrow> ipv6_str raw \<noteq> None"
  by (simp add: ipv6_str_def)

lemmas total_reads = total_byte_at total_ipv4 total_ipv6

lemma parse_tcp_total [parser_total]: "parse_tcp cfg v body st \<noteq> None"
  unfolding parse_tcp_def by (intro parser_total total_reads) auto

lemma parse_icmp_total [parser_total]: "parse_icmp cfg v6 body st \<noteq> None"
  unfolding parse_icmp_def by (intro parser_total total_reads) auto

lemma parse_igmp_total [parser_total]: "parse_igmp cfg body st \<noteq> None"
  unfolding parse_igmp_def by (intro parser_total total_reads) auto

lemma parse_ah_total [parser_total]: "parse_ah cfg v body st \<noteq> None"
  unfolding parse_ah_def by (intro parser_total total_reads) auto

lemma parse_arp_total [parser_total]: "parse_arp cfg payload st \<noteq> None"
  unfolding parse_arp_def by (intro parser_total total_reads) auto

lemma parse_ipv4_total [parser_total]: "parse_ipv4 cfg payload st \<noteq> None"
  unfolding parse_ipv4_def by (intro parser_total total_reads) auto

lemma unwrap_ipv6_total [parser_total]: "unwrap_ipv6 payload nh off \<noteq> None"
proof (induction payload nh off rule: unwrap_ipv6.induct)
  case (1 payload nh off)
  show ?case
    by (subst unwrap_ipv6.simps, intro total_if total_option total_Let total_Some total_reads)
       (use 1 in \<open>auto simp: byte_at_def split: if_splits\<close>)
qed

lemma unwrap_ipv6_transport_total: "length payload \<ge> 40 \<Longrightarrow> unwrap_ipv6_transport payload \<noteq> None"
  unfolding unwrap_ipv6_transport_def by (intro parser_total total_reads) auto

lemma parse_ipv6_total [parser_total]: "parse_ipv6 cfg payload st \<noteq> None"
  unfolding parse_ipv6_def by (intro parser_total total_reads unwrap_ipv6_transport_total) auto

lemma parse_snap_total [parser_total]: "parse_snap cfg payload st \<noteq> None"
  unfolding parse_snap_def by (intro parser_total)

lemma parse_llc_total [parser_total]: "parse_llc cfg payload n st \<noteq> None"
  unfolding parse_llc_def by (intro parser_total total_reads) auto

lemma parse_ethernet_total [parser_total]: "parse_ethernet cfg t payload st \<noteq> None"
  unfolding parse_ethernet_def by (intro parser_total)

lemma parse_packet_total: "parse_packet cfg data interface fl \<noteq> None"
  unfolding parse_packet_def by (intro parser_total)

lemma is_own_dashboard_frame_total: "is_own_dashboard_frame port data \<noteq> None"
  unfolding is_own_dashboard_frame_def
  by (intro parser_total total_reads unwrap_ipv6_transport_total) auto

section \<open>Which fields a parser touches\<close>

text \<open>The fields that carry wire-format numbers, addresses and the captured bytes.\<close>

definition core :: "packet \<Rightarrow> nat \<times> nat \<times> nat \<times> nat \<times> nat \<times> nat \<times> nat \<times> nat \<times> nat \<times> nat \<times> nat \<times> ustr \<times> bytes" where
  "core p = (pk_eth_type p, pk_ip_version p, pk_src_port p, pk_dst_port p, pk_ttl p, pk_hop_limit p, pk_length p,
     pk_payload_len p, pk_icmp_type p, pk_icmp_code p, pk_arp_opcode p, pk_transport p, pk_raw_packet p)"

named_theorems keeps

lemma core_setters [keeps]:
  "core (set_summary s p) = core p" "core (set_all_text s p) = core p" "core (set_proto n p) = core p"
  "core (put_extra k v p) = core p" "core (put_text k t p) = core p" "core (set_key k v p) = core p"
  "core (p\<lparr>pk_summary := s\<rparr>) = core p" "core (p\<lparr>pk_banner_text := s\<rparr>) = core p" "core (p\<lparr>pk_payload_text := s\<rparr>) = core p"
  "core (p\<lparr>pk_proto := s\<rparr>) = core p" "core (p\<lparr>pk_state := s\<rparr>) = core p"
  "core (p\<lparr>pk_domain := s\<rparr>) = core p" "core (p\<lparr>pk_domain_source := s\<rparr>) = core p" "core (p\<lparr>pk_http_method := s\<rparr>) = core p"
  "core (p\<lparr>pk_http_path := s\<rparr>) = core p" "core (p\<lparr>pk_http_host := s\<rparr>) = core p" "core (p\<lparr>pk_tcp_flags := s\<rparr>) = core p"
  "core (p\<lparr>pk_payload_hex := s\<rparr>) = core p" "core (p\<lparr>pk_src_ip := s\<rparr>) = core p" "core (p\<lparr>pk_dst_ip := s\<rparr>) = core p"
  by (simp_all add: core_def set_summary_def set_all_text_def set_proto_def put_extra_def put_text_def set_key_def)

lemma proto_setters [keeps]:
  "pk_proto (set_summary s p) = pk_proto p" "pk_proto (set_all_text s p) = pk_proto p" "pk_proto (set_proto n p) = U n"
  "pk_proto (put_extra k v p) = pk_proto p" "pk_proto (put_text k t p) = pk_proto p" "pk_proto (set_key k v p) = pk_proto p"
  by (simp_all add: set_summary_def set_all_text_def set_proto_def put_extra_def put_text_def set_key_def)

lemma apply_app_decoder_keeps [keeps]:
  "core (apply_app_decoder q payload p) = core p" "pk_proto (apply_app_decoder q payload p) = pk_proto p"
proof -
  have "core (fold (\<lambda>(k, v) q. if v = PStr [] \<or> v = PNone then q else set_key k v q) fs p) = core p
    \<and> pk_proto (fold (\<lambda>(k, v) q. if v = PStr [] \<or> v = PNone then q else set_key k v q) fs p) = pk_proto p" for fs
    by (induction fs arbitrary: p) (auto simp: keeps)
  then show "core (apply_app_decoder q payload p) = core p" "pk_proto (apply_app_decoder q payload p) = pk_proto p"
    by (simp_all add: apply_app_decoder_def)
qed

lemma dns_keeps [keeps]:
  "core (apply_dns_answer a p) = core p" "pk_proto (apply_dns_answer a p) = pk_proto p"
  "core (apply_dns_result b s t p) = core p" "pk_proto (apply_dns_result b s t p) = pk_proto p"
proof -
  show *: "core (apply_dns_answer a p) = core p" "pk_proto (apply_dns_answer a p) = pk_proto p" for a p
    by (simp_all add: apply_dns_answer_def Let_def keeps)
  show "core (apply_dns_result b s t p) = core p" "pk_proto (apply_dns_result b s t p) = pk_proto p"
    by (simp_all add: apply_dns_result_def Let_def keeps * split: list.split)
qed

lemma app_parsers_keep [keeps]:
  "core (parse_dhcp b p) = core p" "pk_proto (parse_dhcp b p) = U ''dhcp''"
  "core (parse_nbns b p) = core p" "pk_proto (parse_nbns b p) = U ''nbns''"
  "core (parse_modbus b p) = core p" "pk_proto (parse_modbus b p) = U ''modbus''"
  "core (parse_dnp3 b p) = core p" "pk_proto (parse_dnp3 b p) = U ''dnp3''"
  "core (parse_snmp b p) = core p" "pk_proto (parse_snmp b p) = U ''snmp''"
  "core (parse_syslog b p) = core p" "pk_proto (parse_syslog b p) = U ''syslog''"
  "core (parse_tftp b p) = core p" "pk_proto (parse_tftp b p) = U ''tftp''"
  "core (parse_radius b p) = core p" "pk_proto (parse_radius b p) = U ''radius''"
  "core (parse_mqtt b p) = core p" "pk_proto (parse_mqtt b p) = U ''mqtt''"
  "core (parse_gre b p) = core p" "pk_proto (parse_gre b p) = U ''gre''"
  "core (parse_esp b p) = core p" "pk_proto (parse_esp b p) = U ''esp''"
  by (simp_all add: parse_dhcp_def parse_nbns_def parse_modbus_def parse_dnp3_def parse_snmp_def parse_syslog_def
      parse_tftp_def parse_radius_def parse_mqtt_def parse_gre_def parse_esp_def Let_def keeps split_beta split: option.split)

lemma interpret_keeps [keeps]:
  "core (fst (interpret_text cfg b st)) = core (fst st)" "pk_proto (fst (interpret_text cfg b st)) = pk_proto (fst st)"
  by (auto simp: interpret_text_def interpret_payload_def Let_def keeps split_beta)

lemma finish_keeps [keeps]:
  "core (apply_http_request p) = core p" "pk_proto (apply_http_request p) = pk_proto p"
  "core (apply_sni b p) = core p" "pk_proto (apply_sni b p) = pk_proto p"
  "core (fallback_if_empty p) = core p" "pk_proto (fallback_if_empty p) = pk_proto p"
  "core (banner_and_summary l bn p) = core p" "pk_proto (banner_and_summary l bn p) = pk_proto p"
  "pk_proto (fix_hop_limit v p) = pk_proto p"
  by (auto simp: banner_and_summary_def apply_http_request_def apply_sni_def fallback_if_empty_def fix_hop_limit_def Let_def keeps split_beta)

section \<open>The packet invariant\<close>

definition wf_core :: "bytes \<Rightarrow> packet \<Rightarrow> bool" where
  "wf_core data p \<longleftrightarrow> pk_eth_type p < 65536 \<and> pk_ip_version p \<in> {0, 4, 6}
     \<and> pk_src_port p < 65536 \<and> pk_dst_port p < 65536 \<and> pk_ttl p < 256 \<and> pk_hop_limit p < 256
     \<and> pk_icmp_type p < 256 \<and> pk_icmp_code p < 256 \<and> pk_arp_opcode p < 65536
     \<and> pk_length p = length data \<and> pk_payload_len p \<le> length data \<and> pk_raw_packet p = data"

definition llc_names :: "ustr set" where
  "llc_names = (\<lambda>n. U (''llc-'' @ n)) ` snd ` set LLC_SAP_NAMES"

definition parser_proto :: "ustr \<Rightarrow> bool" where
  "parser_proto s \<longleftrightarrow> s \<in> U ` set KNOWN_PROTOCOLS \<or> s \<in> llc_names"

definition good :: "bytes \<Rightarrow> pst \<Rightarrow> bool" where
  "good data st \<longleftrightarrow> wf_core data (fst st) \<and> parser_proto (pk_proto (fst st))"

lemma wf_core_cong: "core q = core p \<Longrightarrow> wf_core data q \<longleftrightarrow> wf_core data p"
  by (simp add: core_def wf_core_def)

lemma good_keep: "core q = core p \<Longrightarrow> wf_core data p \<Longrightarrow> parser_proto (pk_proto q) \<Longrightarrow> good data (q, fl)"
  using wf_core_cong [of q p data] by (simp add: good_def)

lemma core_protos:
  "parser_proto (U ''tcp'')" "parser_proto (U ''udp'')" "parser_proto (U ''sctp'')" "parser_proto (U ''icmp'')"
  "parser_proto (U ''icmpv6'')" "parser_proto (U ''arp'')" "parser_proto (U ''igmp'')" "parser_proto (U ''gre'')"
  "parser_proto (U ''esp'')" "parser_proto (U ''ah'')" "parser_proto (U ''dhcp'')" "parser_proto (U ''mdns'')"
  "parser_proto (U ''llmnr'')" "parser_proto (U ''nbns'')" "parser_proto (U ''modbus'')" "parser_proto (U ''dnp3'')"
  "parser_proto (U ''snmp'')" "parser_proto (U ''syslog'')" "parser_proto (U ''tftp'')" "parser_proto (U ''radius'')"
  "parser_proto (U ''mqtt'')" "parser_proto (U ''stp'')" "parser_proto (U ''llc'')" "parser_proto (U ''llc-snap'')"
  "parser_proto (U ''unknown'')" "parser_proto (U ''dns'')"
  by (simp_all add: parser_proto_def set_KNOWN_PROTOCOLS CORE_PROTOCOLS_def RESIDUAL_PROTOCOLS_def SIGNATURE_PROTOCOLS_def)

lemma table_proto:
  "n \<in> snd ` set TCP_PORT_PROTOCOLS \<union> snd ` set UDP_PORT_PROTOCOLS \<union> snd ` set IP_PROTOCOLS
     \<union> snd ` set ETHER_PROTOCOLS \<union> snd ` set SNAP_PROTOCOLS \<union> set SIGNATURE_PROTOCOLS \<Longrightarrow> parser_proto (U n)"
  unfolding parser_proto_def set_KNOWN_PROTOCOLS by blast

lemma classified_proto:
  "classify_tcp a b payload \<noteq> [] \<Longrightarrow> parser_proto (U (classify_tcp a b payload))"
  "classify_udp a b payload \<noteq> [] \<Longrightarrow> parser_proto (U (classify_udp a b payload))"
  using classify_tcp_range [of a b payload] classify_udp_range [of a b payload]
  by (auto intro!: table_proto simp: SIGNATURE_PROTOCOLS_def)

lemma lookup_proto:
  "map_of ETHER_PROTOCOLS k = Some n \<Longrightarrow> parser_proto (U n)" "map_of SNAP_PROTOCOLS x = Some n \<Longrightarrow> parser_proto (U n)"
  "map_of IP_PROTOCOLS k = Some n \<Longrightarrow> parser_proto (U n)"
proof -
  have *: "map_of t k = Some n \<Longrightarrow> n \<in> snd ` set t" for t :: "('k \<times> string) list" and k n
    by (metis image_eqI map_of_SomeD snd_conv)
  show "map_of ETHER_PROTOCOLS k = Some n \<Longrightarrow> parser_proto (U n)" "map_of IP_PROTOCOLS k = Some n \<Longrightarrow> parser_proto (U n)"
    using * [of ETHER_PROTOCOLS k n] * [of IP_PROTOCOLS k n] by (auto intro: table_proto)
  show "map_of SNAP_PROTOCOLS x = Some n \<Longrightarrow> parser_proto (U n)"
    by (rule table_proto) (metis UnI1 UnI2 image_eqI map_of_SomeD snd_conv)
qed

lemma llc_proto: "map_of LLC_SAP_NAMES k = Some n \<Longrightarrow> parser_proto (U ''llc-'' @ U n)"
  by (force simp: parser_proto_def llc_names_def U_append [symmetric] dest: map_of_SomeD)

lemma fix_hop_limit_wf: "wf_core data p \<Longrightarrow> wf_core data (fix_hop_limit v p)"
  by (simp add: fix_hop_limit_def wf_core_def)

lemma wf_core_updates:
  "wf_core data (p\<lparr>pk_src_port := a, pk_dst_port := b\<rparr>) \<longleftrightarrow> wf_core data (p\<lparr>pk_src_port := 0, pk_dst_port := 0\<rparr>) \<and> a < 65536 \<and> b < 65536"
  by (auto simp: wf_core_def)

lemma truncated_good: "wf_core data (fst st) \<Longrightarrow> parser_proto (pk_proto (fst st)) \<Longrightarrow> good data (truncated cfg s body st)"
  unfolding truncated_def split_beta
  by (rule good_keep [where p = "fst st"]) (simp_all add: keeps upd_def)

lemma text_and_banner_good: "wf_core data (fst st) \<Longrightarrow> parser_proto (pk_proto (fst st)) \<Longrightarrow> good data (text_and_banner cfg body st)"
  unfolding text_and_banner_def split_beta
  by (rule good_keep [where p = "fst st"]) (simp_all add: keeps)

lemma be2 [simp]: "be (slice 0 2 b) < 65536" "be (slice 2 4 b) < 65536" "be (slice 6 8 b) < 65536" "be (slice 12 14 b) < 65536"
  by (rule be_length2_less; simp)+

lemma tcp_finish_good:
  assumes "wf_core data p" "parser_proto (pk_proto p)"
  shows "good data (tcp_finish v payload banner p, fl)"
proof -
  define p2 where "p2 = banner_and_summary ''TCP'' banner p"
  define p3 where "p3 = apply_sni payload (fix_hop_limit v p2)"
  have "wf_core data p2" using assms(1) wf_core_cong [of p2 p data] by (simp add: p2_def keeps)
  then have w3: "wf_core data p3"
    using fix_hop_limit_wf wf_core_cong [of p3 "fix_hop_limit v p2" data] by (simp add: p3_def keeps)
  have q3: "pk_proto p3 = pk_proto p" by (simp add: p3_def p2_def keeps)
  show ?thesis unfolding tcp_finish_def p2_def [symmetric] p3_def [symmetric] Let_def
    by (rule good_keep [OF _ w3]) (use assms(2) q3 classified_proto(1) in \<open>auto simp: keeps\<close>)
qed

lemma interpret_good:
  assumes "wf_core data (fst st)" "parser_proto (pk_proto (fst st))" "interpret_text cfg body st = (p, fl)"
  shows "wf_core data p" "parser_proto (pk_proto p)"
  using wf_core_cong [of p "fst st" data] interpret_keeps [of cfg body st] assms by simp_all

lemma tcp_generic_good:
  assumes "wf_core data (fst st)" "parser_proto (pk_proto (fst st))"
  shows "good data (tcp_generic cfg v payload st)"
proof -
  obtain p fl where i: "interpret_text cfg payload st = (p, fl)" by (cases "interpret_text cfg payload st")
  from tcp_finish_good [OF interpret_good [OF assms i]] show ?thesis
    by (simp add: tcp_generic_def i split_beta)
qed

lemma udp_dispatch_good:
  assumes "wf_core data p" "parser_proto (pk_proto p)"
  shows "good data (udp_dispatch payload p, fl)"
  by (rule good_keep [OF _ assms(1)])
     (auto simp: udp_dispatch_def Let_def keeps core_protos assms(2) classified_proto(2))

lemma tcp_dispatch_good:
  assumes "wf_core data p" "parser_proto (pk_proto p)"
  shows "good data (tcp_dispatch cfg v payload (p, fl))"
proof -
  have hop: "core a = core p \<Longrightarrow> parser_proto (pk_proto a) \<Longrightarrow> good data (fix_hop_limit v a, fl)" for a
    using assms(1) fix_hop_limit_wf wf_core_cong [of a p data] by (simp add: good_def keeps)
  show ?thesis
    unfolding tcp_dispatch_def prod.case
    by (auto intro!: hop tcp_generic_good simp: assms keeps core_protos)
qed

lemma parse_tcp_good:
  assumes wf: "wf_core data (fst st)" and len: "length body \<le> length data" and r: "parse_tcp cfg v body st = Some st'"
  shows "good data st'"
proof -
  obtain p fl where st: "st = (p, fl)" by (cases st)
  define q where "q = p\<lparr>pk_proto := U ''tcp'', pk_transport := U ''tcp''\<rparr>"
  have wq: "wf_core data q" "parser_proto (pk_proto q)" using wf by (simp_all add: q_def st wf_core_def core_protos)
  show ?thesis
  proof (cases "length body < 20")
    case True
    then show ?thesis using r wq by (auto simp: parse_tcp_def st q_def [symmetric] intro!: truncated_good)
  next
    case False
    have "length (tcp_payload n body) \<le> length data" for n using len by (auto simp: tcp_payload_def)
    then have "wf_core data (tcp_header f (tcp_payload n body) body q)" for f n
      using wq(1) by (simp add: tcp_header_def wf_core_def)
    moreover have "pk_proto (tcp_header f pl body q) = pk_proto q" for f pl by (simp add: tcp_header_def)
    ultimately show ?thesis using False r wq(2)
      by (auto simp: parse_tcp_def st q_def [symmetric] Let_def intro!: tcp_dispatch_good)
  qed
qed

lemma wf_core_keep: "core q = core p \<Longrightarrow> wf_core data p \<Longrightarrow> wf_core data q"
  by (simp add: wf_core_cong [of q p])

lemma parse_udp_good:
  assumes wf: "wf_core data (fst st)" and len: "length body \<le> length data"
  shows "good data (parse_udp cfg v body st)"
proof -
  obtain p fl where st: "st = (p, fl)" by (cases st)
  define q where "q = p\<lparr>pk_proto := U ''udp'', pk_transport := U ''udp''\<rparr>"
  have wq: "wf_core data q" "parser_proto (pk_proto q)" using wf by (simp_all add: q_def st wf_core_def core_protos)
  show ?thesis
  proof (cases "length body < 8")
    case True
    then show ?thesis using wq by (auto simp: parse_udp_def st q_def [symmetric] intro!: truncated_good)
  next
    case False
    define payload where "payload = (if 8 \<le> be (slice 4 6 body) \<and> be (slice 4 6 body) \<le> length body then slice 8 (be (slice 4 6 body)) body else drop 8 body)"
    define r where "r = q\<lparr>pk_src_port := be (slice 0 2 body), pk_dst_port := be (slice 2 4 body),
      pk_payload_len := length payload, pk_payload_hex := bytes_to_hex_preview 256 payload\<rparr>"
    define t where "t = (if payload \<noteq> [] \<and> fst (service_endpoint r) = pk_src_ip r then r\<lparr>pk_state := U ''open''\<rparr> else r)"
    have "length payload \<le> length data" using len by (auto simp: payload_def)
    then have "wf_core data r" using wq(1) by (simp add: r_def wf_core_def)
    then have wt: "wf_core data (fst (t, fl))" by (auto simp: t_def intro: wf_core_keep simp: keeps)
    have pt: "parser_proto (pk_proto (fst (t, fl)))" using wq(2) by (simp add: t_def r_def)
    obtain u fl' where i: "interpret_text cfg payload (t, fl) = (u, fl')" by (cases "interpret_text cfg payload (t, fl)")
    note iu = interpret_good [OF wt pt i]
    have "parse_udp cfg v body st = (udp_dispatch payload (fix_hop_limit v
       (banner_and_summary ''UDP'' (or_text (pk_payload_text u) (classify_udp_banner cfg u payload)) u)), fl')"
      using False by (simp add: parse_udp_def st q_def [symmetric] payload_def [symmetric] Let_def r_def [symmetric] t_def [symmetric] i)
    moreover have "wf_core data (fix_hop_limit v (banner_and_summary ''UDP'' b u))" for b
      by (rule fix_hop_limit_wf) (rule wf_core_keep [OF _ iu(1)], simp add: keeps)
    ultimately show ?thesis using udp_dispatch_good iu(2) by (simp add: keeps)
  qed
qed

lemma parse_sctp_good:
  assumes wf: "wf_core data (fst st)"
  shows "good data (parse_sctp cfg v body st)"
proof -
  obtain p fl where st: "st = (p, fl)" by (cases st)
  show ?thesis
  proof (cases "length body < 12")
    case True
    have "wf_core data (p\<lparr>pk_proto := U ''sctp'', pk_transport := U ''sctp''\<rparr>)" using wf by (simp add: st wf_core_def)
    then show ?thesis using True by (auto simp: parse_sctp_def st core_protos intro!: truncated_good)
  next
    case False
    define q where "q = p\<lparr>pk_proto := U ''sctp'', pk_src_port := be (slice 0 2 body), pk_dst_port := be (slice 2 4 body)\<rparr>"
    have wq: "wf_core data (fst (q, fl))" "parser_proto (pk_proto (fst (q, fl)))"
      using wf by (simp_all add: q_def st wf_core_def core_protos)
    obtain u fl' where i: "interpret_text cfg (drop 12 body) (q, fl) = (u, fl')"
      by (cases "interpret_text cfg (drop 12 body) (q, fl)")
    note iu = interpret_good [OF wq i]
    have "wf_core data (fix_hop_limit v (banner_and_summary ''SCTP'' b u))" for b
      by (rule fix_hop_limit_wf) (rule wf_core_keep [OF _ iu(1)], simp add: keeps)
    then show ?thesis using False iu(2) by (simp add: parse_sctp_def st q_def [symmetric] i good_def keeps)
  qed
qed

lemma parse_icmp_good:
  assumes wf: "wf_core data (fst st)" and r: "parse_icmp cfg v6 body st = Some st'"
  shows "good data st'"
proof -
  obtain p fl where st: "st = (p, fl)" by (cases st)
  define q where "q = set_proto (if v6 then ''icmpv6'' else ''icmp'') p"
  have wq: "wf_core data q" "parser_proto (pk_proto q)"
    using wf wf_core_keep [of q p data] by (auto simp: q_def st keeps core_protos)
  show ?thesis
  proof (cases "length body < 4")
    case True
    then show ?thesis using r wq by (auto simp: parse_icmp_def st q_def [symmetric] intro!: truncated_good)
  next
    case False
    define t where "t = q\<lparr>pk_icmp_type := unat (body ! 0), pk_icmp_code := unat (body ! 1)\<rparr>"
    have wt: "wf_core data (fst (t, fl))" "parser_proto (pk_proto (fst (t, fl)))"
      using wq by (simp_all add: t_def wf_core_def)
    obtain u fl' where i: "interpret_text cfg (drop 4 body) (t, fl) = (u, fl')"
      by (cases "interpret_text cfg (drop 4 body) (t, fl)")
    note iu = interpret_good [OF wt i]
    have b: "byte_at body 0 = Some (unat (body ! 0))" "byte_at body 1 = Some (unat (body ! 1))"
      using False by (auto simp: byte_at_def)
    have "st' = (u\<lparr>pk_banner_text := or_text (pk_payload_text u) (classify_icmp_banner u),
        pk_summary := or_text (or_text (pk_payload_text u) (classify_icmp_banner u))
          (upper (pk_proto u) @ U '' type '' @ dec (pk_icmp_type u) @ U '' code '' @ dec (pk_icmp_code u))\<rparr>, fl')"
      using r False i by (simp add: parse_icmp_def st q_def [symmetric] b t_def)
    then show ?thesis using iu by (simp add: good_def wf_core_def)
  qed
qed

lemma parse_igmp_good:
  assumes wf: "wf_core data (fst st)" and r: "parse_igmp cfg body st = Some st'"
  shows "good data st'"
proof -
  obtain p fl where st: "st = (p, fl)" by (cases st)
  have *: "core (fst st') = core p \<and> pk_proto (fst st') = U ''igmp''"
    using r by (auto simp: parse_igmp_def st byte_at_def Let_def keeps split: if_splits)
  then have "wf_core data (fst st')" using wf wf_core_keep by (auto simp: st)
  then show ?thesis using * by (simp add: good_def core_protos)
qed

section \<open>The parsers above the transport layer\<close>

text \<open>
  A small calculus: \<open>good_res\<close> says that what a parser returns is good, and the rules below follow
  the shape of the monadic code.
\<close>

definition good_res :: "bytes \<Rightarrow> pst option \<Rightarrow> bool" where
  "good_res data r \<longleftrightarrow> (\<forall>st. r = Some st \<longrightarrow> good data st)"

lemma good_if: "(c \<Longrightarrow> good_res data a) \<Longrightarrow> (\<not> c \<Longrightarrow> good_res data b) \<Longrightarrow> good_res data (if c then a else b)"
  by simp

lemma good_let: "(\<And>x. x = a \<Longrightarrow> good_res data (f x)) \<Longrightarrow> good_res data (Let a f)"
  by simp

lemma good_bind: "(\<And>x. m = Some x \<Longrightarrow> good_res data (f x)) \<Longrightarrow> good_res data (m \<bind> f)"
  by (auto simp: good_res_def bind_eq_Some_conv)

lemma good_bind3: "(\<And>a b c. m = Some (a, b, c) \<Longrightarrow> good_res data (f a b c)) \<Longrightarrow> good_res data (m \<bind> (\<lambda>(a, b, c). f a b c))"
  by (auto simp: good_res_def bind_eq_Some_conv)

lemma good_then: "good_res data m \<Longrightarrow> (\<And>st. good data st \<Longrightarrow> good_res data (f st)) \<Longrightarrow> good_res data (m \<bind> f)"
  by (auto simp: good_res_def bind_eq_Some_conv)

lemma good_Some: "good data st \<Longrightarrow> good_res data (Some st)"
  by (simp add: good_res_def)

lemma good_upd: "good data st \<Longrightarrow> (\<And>p. core (f p) = core p \<and> pk_proto (f p) = pk_proto p) \<Longrightarrow> good data (upd f st)"
  using wf_core_keep by (auto simp: good_def upd_def)

lemma good_upd_proto: "wf_core data (fst st) \<Longrightarrow> (\<And>p. core (f p) = core p \<and> parser_proto (pk_proto (f p))) \<Longrightarrow> good data (upd f st)"
  using wf_core_keep by (auto simp: good_def upd_def)

lemma upd_upd: "upd f (upd g st) = upd (\<lambda>p. f (g p)) st"
  by (simp add: upd_def split: prod.splits)

lemma good_summary: "good data st \<Longrightarrow> good_res data (Some (upd (\<lambda>p. set_summary (f p) p) st))"
  by (intro good_Some good_upd) (simp_all add: keeps)

lemma good_interp:
  assumes "good data st" "\<And>p fl. good data (p, fl) \<Longrightarrow> good_res data (f p fl)"
  shows "good_res data (case interpret_text cfg b st of (p, fl) \<Rightarrow> f p fl)" "good_res data (let (p, fl) = interpret_text cfg b st in f p fl)"
  using assms interpret_good [of data st cfg b] by (auto simp: good_def split: prod.splits)

lemma good_banner: "good data (p, fl) \<Longrightarrow> good_res data (Some (p\<lparr>pk_banner_text := x\<rparr>, fl))"
  by (simp add: good_res_def good_def wf_core_def)

lemma transport_good:
  assumes "wf_core data (fst st)" "length body \<le> length data"
  shows "good_res data (parse_tcp cfg v body st)" "good_res data (Some (parse_udp cfg v body st))"
    "good_res data (Some (parse_sctp cfg v body st))" "good_res data (parse_icmp cfg v6 body st)"
    "good_res data (parse_igmp cfg body st)" "good_res data (Some (upd (parse_gre body) st))"
    "good_res data (Some (upd (parse_esp body) st))"
  using assms parse_tcp_good parse_udp_good parse_sctp_good parse_icmp_good parse_igmp_good
  by (auto simp: good_res_def keeps core_protos intro!: good_upd_proto)

lemma parse_ah_good:
  assumes wf: "wf_core data (fst st)" and len: "length body \<le> length data"
  shows "good_res data (parse_ah cfg v body st)"
  unfolding parse_ah_def
  by (intro good_if good_let good_then good_bind transport_good good_summary)
     (use len in \<open>auto intro!: good_Some good_upd_proto wf simp: keeps core_protos\<close>)

lemma unwrap_ipv6_length: "unwrap_ipv6 payload nh off = Some (k, body, d) \<Longrightarrow> length body \<le> length payload"
proof (induction payload nh off rule: unwrap_ipv6.induct)
  case (1 payload nh off)
  from "1.prems" show ?case
    by (subst (asm) unwrap_ipv6.simps) (auto simp: Let_def split: if_splits option.splits intro: "1.IH")
qed

lemma named_protocol_proto: "named_protocol k \<noteq> [] \<Longrightarrow> parser_proto (U (named_protocol k))"
  by (auto simp: named_protocol_def split: option.splits intro: lookup_proto)

lemma fallback_good: "good data st \<Longrightarrow> good_res data (Some (upd fallback_if_empty st))"
  by (intro good_Some good_upd) (simp_all add: keeps)

lemma parse_ipv4_good:
  assumes wf: "wf_core data (fst st)" "parser_proto (pk_proto (fst st))" and len: "length payload \<le> length data"
  shows "good_res data (parse_ipv4 cfg payload st)"
proof (cases "length payload < 20")
  case True
  then show ?thesis using wf by (simp add: parse_ipv4_def good_Some truncated_good)
next
  case False
  have w: "wf_core data (fst (upd (\<lambda>p. p\<lparr>pk_ip_version := 4, pk_ttl := ttl, pk_src_ip := a, pk_dst_ip := b\<rparr>) st))"
    if "byte_at payload 8 = Some ttl" for ttl a b
    using wf that unsigned_less [of "payload ! 8"] by (auto simp: upd_def wf_core_def byte_at_def split: if_splits)
  have l: "length (if c then slice i j payload else drop i payload) \<le> length data" for c i j
    using len by auto
  show ?thesis
    unfolding parse_ipv4_def using False
    by (simp only: if_False) (intro good_if good_let good_then good_bind transport_good parse_ah_good fallback_good;
      use w l wf named_protocol_proto in \<open>auto intro!: good_Some text_and_banner_good simp: upd_def core_protos wf_core_def\<close>)
qed

lemma parse_ipv6_good:
  assumes wf: "wf_core data (fst st)" "parser_proto (pk_proto (fst st))" and len: "length payload \<le> length data"
  shows "good_res data (parse_ipv6 cfg payload st)"
proof (cases "length payload < 40")
  case True
  then show ?thesis using wf by (simp add: parse_ipv6_def good_Some truncated_good)
next
  case False
  have w: "wf_core data (fst (upd (\<lambda>p. p\<lparr>pk_ip_version := 6, pk_hop_limit := hop, pk_src_ip := a, pk_dst_ip := b\<rparr>) st))"
    if "byte_at payload 7 = Some hop" for hop a b
    using wf that unsigned_less [of "payload ! 7"] by (auto simp: upd_def wf_core_def byte_at_def split: if_splits)
  have l: "length body \<le> length data" if "unwrap_ipv6_transport payload = Some (nh, body, d)" for nh body d
    using that by (auto simp: unwrap_ipv6_transport_def bind_eq_Some_conv intro: order_trans [OF unwrap_ipv6_length len])
  show ?thesis
    unfolding parse_ipv6_def using False
    by (simp only: if_False) (intro good_if good_let good_then good_bind3 good_bind transport_good parse_ah_good fallback_good;
      use w l wf named_protocol_proto in \<open>auto intro!: good_Some text_and_banner_good simp: upd_def core_protos wf_core_def\<close>)
qed

lemma parse_arp_good:
  assumes wf: "wf_core data (fst st)"
  shows "good_res data (parse_arp cfg payload st)"
proof -
  obtain p fl where st: "st = (p, fl)" by (cases st)
  have "good data (upd (set_proto ''arp'') st)"
    using wf wf_core_keep by (auto simp: good_def upd_def keeps st core_protos)
  then show ?thesis
    unfolding parse_arp_def
    by (intro good_interp good_let good_if good_bind good_banner)
       (auto intro!: good_Some truncated_good simp: wf_core_def st good_def put_extra_def Let_def)
qed

lemma parse_stp_good: "wf_core data (fst st) \<Longrightarrow> good_res data (Some (parse_stp cfg payload st))"
  unfolding parse_stp_def prod.case_distrib [of Some]
  by (intro good_interp good_banner good_upd_proto) (auto simp: keeps core_protos)

lemma good_option:
  "(\<And>n. x = Some n \<Longrightarrow> good_res data (f n)) \<Longrightarrow> (x = None \<Longrightarrow> good_res data a) \<Longrightarrow> good_res data (case x of None \<Rightarrow> a | Some n \<Rightarrow> f n)"
  by (cases x) auto

lemma good_text:
  assumes "wf_core data (fst st)" "\<And>p. core (f p) = core p \<and> parser_proto (pk_proto (f p))"
  shows "good_res data (Some (text_and_banner cfg body (upd f st)))"
  using good_upd_proto [OF assms] by (auto simp: good_def intro!: good_Some text_and_banner_good)

lemma frame_summary_keeps [keeps]: "core (frame_summary n b p) = core p" "pk_proto (frame_summary n b p) = U n"
  by (simp_all add: frame_summary_def core_def)

lemma parse_snap_good:
  assumes wf: "wf_core data (fst st)" "parser_proto (pk_proto (fst st))" and len: "length payload \<le> length data"
  shows "good_res data (parse_snap cfg payload st)"
proof -
  have w: "wf_core data (fst (upd (\<lambda>p. (put_extra a b (put_extra c d p))\<lparr>pk_eth_type := be (slice 6 8 payload)\<rparr>) st))"
    "parser_proto (pk_proto (fst (upd (\<lambda>p. (put_extra a b (put_extra c d p))\<lparr>pk_eth_type := be (slice 6 8 payload)\<rparr>) st)))"
    for a b c d using wf by (auto simp: wf_core_def upd_def put_extra_def split: prod.splits)
  show ?thesis
    unfolding parse_snap_def Let_def
    by (intro good_if good_option good_text parse_ipv4_good parse_ipv6_good parse_arp_good w)
       (use len in \<open>auto simp: keeps core_protos intro: lookup_proto\<close>)
qed

lemma parse_llc_good:
  assumes wf: "wf_core data (fst st)" "parser_proto (pk_proto (fst st))" and len: "length payload \<le> length data"
  shows "good_res data (parse_llc cfg payload n st)"
proof -
  have w: "wf_core data (fst (upd f st))" "parser_proto (pk_proto (fst (upd f st)))"
    if "\<And>p. core (f p) = core p \<and> pk_proto (f p) = pk_proto p" for f
    using good_upd [OF _ that] wf by (auto simp: good_def)
  have n: "parser_proto (case x of None \<Rightarrow> U ''llc'' | Some n \<Rightarrow> U ''llc-'' @ U n)" if "x = map_of LLC_SAP_NAMES k" for x k
    using that llc_proto by (auto simp: core_protos split: option.split)
  show ?thesis
    unfolding parse_llc_def Let_def upd_upd
    by (intro good_interp good_if good_bind good_text good_banner parse_snap_good good_upd_proto)
       (use wf len n in \<open>auto simp: keeps core_protos intro!: w\<close>)
qed

lemma parse_ethernet_good:
  assumes wf: "wf_core data (fst st)" "parser_proto (pk_proto (fst st))" and len: "length payload \<le> length data"
  shows "good_res data (parse_ethernet cfg t payload st)"
proof -
  have plain: "good_res data (Some (text_and_banner cfg payload (upd (\<lambda>p. p\<lparr>pk_summary := s\<rparr>) st)))" for s
    using wf by (intro good_Some text_and_banner_good) (simp_all add: upd_def wf_core_def)
  show ?thesis
    unfolding parse_ethernet_def
    by (intro good_if good_option plain good_text parse_ipv4_good parse_ipv6_good parse_arp_good parse_stp_good parse_llc_good)
       (use wf len in \<open>auto simp: keeps intro: lookup_proto\<close>)
qed

lemma build_base_good: "t < 65536 \<Longrightarrow> good data (build_base_packet now i data payload a b t, fl)"
  by (simp add: good_def build_base_packet_def wf_core_def core_protos)

lemma skip_vlan_type: "t < 65536 \<Longrightarrow> fst (skip_vlan data t off) < 65536"
proof (induction data t off rule: skip_vlan.induct)
  case (1 data t off)
  have "be (slice (off + 2) (off + 4) data) < 65536" by (rule be_length2_less) simp
  with 1 show ?case by (subst skip_vlan.simps) auto
qed

lemma finalize_wf: "wf_core data p \<Longrightarrow> wf_core data (finalize_packet L p)"
  by (simp add: finalize_packet_def wf_core_def Let_def)

lemma parse_packet_good:
  assumes "parse_packet cfg data interface fl = Some (Some p, fl')"
  shows "wf_core data p \<and> parser_proto (pk_proto p) \<and> pk_summary p \<noteq> []"
proof -
  have fin: "wf_core data p \<and> parser_proto (pk_proto p) \<and> pk_summary p \<noteq> []"
    if "good_res data r" "map_option (finalize_st cfg) r = Some (Some p, fl')" for r
    using that by (auto simp: good_res_def good_def finalize_st_def intro: finalize_wf)
  have e: "ETHERTYPE_IPV4 < 65536" "ETHERTYPE_IPV6 < 65536" by (simp_all add: ETHERTYPE_IPV4_def ETHERTYPE_IPV6_def)
  note g = build_base_good [unfolded good_def]
  have v4: "good_res data (parse_ipv4 cfg data (build_base_packet n i data data a b ETHERTYPE_IPV4, fl))"
    and v6: "good_res data (parse_ipv6 cfg data (build_base_packet n i data data a b ETHERTYPE_IPV6, fl))"
    and eth: "good_res data (parse_ethernet cfg (fst (skip_vlan data (be (slice 12 14 data)) 14)) (drop k data)
      (build_base_packet n i data (drop k data) a b (fst (skip_vlan data (be (slice 12 14 data)) 14)), fl))" for n i a b k
    using g e by (auto intro!: parse_ipv4_good parse_ipv6_good parse_ethernet_good simp: skip_vlan_type)
  show ?thesis using assms unfolding parse_packet_def Let_def split_beta
    by (simp only: split: if_splits) (auto dest!: fin [OF v4] fin [OF v6] fin [OF eth] simp del: map_option_eq_Some)
qed

end
