(* ===== verification/Parser_Properties.thy ===== *)
theory Parser_Properties
  imports Parser_Safety
begin

text \<open>
  What the frame parser promises to its callers: totality and field ranges for every frame, the
  Internet checksum, the memory of encrypted flows, the identity of flows, the extension-header
  walk, and the agreement of the two filters that keep the dashboard's own traffic out.
\<close>

section \<open>Every frame is handled\<close>

text \<open>C2. The capture loop hands every captured byte string to \<open>parse_packet\<close>. It never raises. It
  returns nothing, leaving the flow memory alone, only for an empty frame or one that is neither
  raw IP nor as long as an Ethernet header. Otherwise the packet it builds carries the
  frame unchanged, has ports, types and lengths in the range of their wire fields (the payload
  never longer than the frame), a protocol name of the catalogue or an LLC service name, a
  non-empty summary and one of the four directions.\<close>

theorem parse_packet_safe:
  "case parse_packet cfg data interface fl of
     None \<Rightarrow> False
   | Some (None, fl') \<Rightarrow> fl' = fl \<and> (data = [] \<or> length data < 14 \<and> \<not> looks_like_raw_ipv4 data \<and> \<not> looks_like_raw_ipv6 data)
   | Some (Some p, fl') \<Rightarrow> wf_core data p \<and> parser_proto (pk_proto p) \<and> pk_summary p \<noteq> []
       \<and> pk_direction p \<in> {U ''outbound'', U ''inbound'', U ''local'', U ''unknown''}"
proof (cases "parse_packet cfg data interface fl")
  case None
  then show ?thesis using parse_packet_total by simp
next
  case (Some r)
  have fin: "\<exists>p'. p = finalize_packet (cfg_local_ips cfg) p'" if "r = (Some p, fl')" for p fl'
    using Some that unfolding parse_packet_def Let_def split_beta
    by (auto simp: finalize_st_def split: if_splits)
  have dir: "pk_direction (finalize_packet L q) \<in> {U ''outbound'', U ''inbound'', U ''local'', U ''unknown''}" for L q
    by (simp add: finalize_packet_def direction_for_def Let_def)
  show ?thesis
  proof (cases "fst r")
    case None
    then show ?thesis using Some unfolding parse_packet_def Let_def split_beta
      by (auto simp: finalize_st_def split: if_splits)
  next
    case p: (Some p)
    then obtain fl' where r: "r = (Some p, fl')" by (cases r) auto
    have "wf_core data p \<and> parser_proto (pk_proto p) \<and> pk_summary p \<noteq> []"
      by (rule parse_packet_good) (use Some r in simp)
    then show ?thesis using Some fin [OF r] dir by (auto simp: r)
  qed
qed

section \<open>The Internet checksum\<close>

lemma fold16_zero: "fold16 n = 0 \<longleftrightarrow> n = 0"
proof (induction n rule: fold16.induct)
  case (1 n)
  show ?case
  proof (cases "n > 0xFFFF")
    case True
    have "n mod 65536 + n div 65536 = 0 \<longleftrightarrow> n = 0" using div_mult_mod_eq [of n 65536] by (auto simp del: div_mult_mod_eq)
    then show ?thesis using True 1 by (simp add: fold16.simps [of n])
  qed (simp add: fold16.simps)
qed

lemma fold16_bound: "fold16 n \<le> 65535"
  by (induction n rule: fold16.induct) (subst fold16.simps, auto)

lemma fold16_mod: "fold16 n mod 65535 = n mod 65535"
proof (induction n rule: fold16.induct)
  case (1 n)
  have "n = 65535 * (n div 65536) + (n mod 65536 + n div 65536)" using div_mult_mod_eq [of n 65536] by linarith
  then have "(n mod 65536 + n div 65536) mod 65535 = n mod 65535" by (metis mod_mult_self4)
  then show ?case using 1 by (subst fold16.simps) auto
qed

text \<open>A header passes the checksum test of \<open>_ipv4_checksum_is_valid\<close> exactly when it has an even number
  of at least 20 bytes and its 16-bit words sum to a non-zero multiple of \<open>0xFFFF\<close>: the
  end-around-carry loop terminates and computes the ones' complement sum of RFC 1071 for
  every header length.\<close>

theorem ipv4_checksum_ones_complement:
  "ipv4_checksum_is_valid header \<longleftrightarrow>
     length header \<ge> 20 \<and> even (length header) \<and> sum16 header \<noteq> 0 \<and> 65535 dvd sum16 header"
proof -
  have "fold16 n = 65535 \<longleftrightarrow> n \<noteq> 0 \<and> 65535 dvd n" for n
  proof -
    have "fold16 n = 65535 \<longleftrightarrow> fold16 n \<noteq> 0 \<and> fold16 n mod 65535 = 0"
      using fold16_bound [of n] by (cases "fold16 n < 65535") auto
    then show ?thesis by (simp add: fold16_zero fold16_mod dvd_eq_mod_eq_0)
  qed
  then show ?thesis by (auto simp: ipv4_checksum_is_valid_def)
qed

section \<open>Flow identity\<close>

lemma split_once: "c \<notin> set a \<Longrightarrow> c \<notin> set a' \<Longrightarrow> a @ c # b = a' @ c # b' \<longleftrightarrow> a = a' \<and> b = b'"
proof -
  have "takeWhile (\<lambda>x. x \<noteq> c) (a @ c # b) = a" if "c \<notin> set a" for a b :: "'a list"
    using that by (subst takeWhile_append2) auto
  then show "c \<notin> set a \<Longrightarrow> c \<notin> set a' \<Longrightarrow> a @ c # b = a' @ c # b' \<longleftrightarrow> a = a' \<and> b = b'"
    by (metis same_append_eq list.inject)
qed

lemma endpoint_text_inj: "endpoint_text a m = endpoint_text b n \<longleftrightarrow> a = b \<and> m = n"
proof -
  have d: "58 \<notin> set (rev (dec k))" for k using dec_digits [of k] by (auto simp: is_digit_def)
  have "endpoint_text a m = endpoint_text b n \<longleftrightarrow> rev (dec m) @ 58 # rev a = rev (dec n) @ 58 # rev b"
    by (subst rev_is_rev_conv [symmetric]) (simp add: endpoint_text_def U_def)
  also have "\<dots> \<longleftrightarrow> a = b \<and> m = n" using split_once [OF d d] by auto
  finally show ?thesis .
qed

lemma dec_no_bar: "124 \<notin> set (dec k)"
  using dec_digits [of k] by (auto simp: is_digit_def)

text \<open>Flow keys identify conversations. For addresses without a bar character the keys of two packets
  are equal exactly when the normalised protocol names are equal and the unordered
  pairs of (address, port) end points are equal: both directions of a conversation share one
  key and different conversations never do.\<close>

theorem flow_key_identity:
  assumes "124 \<notin> set (normalize_protocol_name q)" "124 \<notin> set (normalize_protocol_name q')"
    "124 \<notin> set a" "124 \<notin> set b" "124 \<notin> set a'" "124 \<notin> set b'"
  shows "stable_flow_key q a m b n = stable_flow_key q' a' m' b' n' \<longleftrightarrow>
    normalize_protocol_name q = normalize_protocol_name q' \<and> {(a, m), (b, n)} = {(a', m'), (b', n')}"
proof -
  have nb: "124 \<notin> set (endpoint_text x k)" if "124 \<notin> set x" for x k
    using that dec_no_bar by (auto simp: endpoint_text_def U_def)
  define e where "e = endpoint_text"
  have key: "stable_flow_key q a m b n = stable_flow_key q' a' m' b' n' \<longleftrightarrow> normalize_protocol_name q = normalize_protocol_name q'
    \<and> min (e a m) (e b n) = min (e a' m') (e b' n') \<and> max (e a m) (e b n) = max (e a' m') (e b' n')"
    using assms nb by (auto simp: stable_flow_key_def Let_def U_def split_once e_def min_def max_def)
  also have "\<dots> \<longleftrightarrow> normalize_protocol_name q = normalize_protocol_name q' \<and> {e a m, e b n} = {e a' m', e b' n'}"
    by (auto simp: min_def max_def doubleton_eq_iff split: if_splits)
  also have "\<dots> \<longleftrightarrow> normalize_protocol_name q = normalize_protocol_name q' \<and> {(a, m), (b, n)} = {(a', m'), (b', n')}"
    by (simp add: doubleton_eq_iff e_def endpoint_text_inj)
  finally show ?thesis .
qed

theorem flow_key_identity_witness:
  "stable_flow_key (U ''tcp'') (U ''10.0.0.1'') 443 (U ''10.0.0.2'') 5000
     = stable_flow_key (U ''tcp'') (U ''10.0.0.2'') 5000 (U ''10.0.0.1'') 443
   \<and> stable_flow_key (U ''tcp'') (U ''10.0.0.1'') 443 (U ''10.0.0.2'') 5000
     \<noteq> stable_flow_key (U ''tcp'') (U ''10.0.0.1'') 5000 (U ''10.0.0.2'') 443"
proof -
  have n: "normalize_protocol_name (U ''tcp'') = U ''tcp''" by code_simp
  have s: "124 \<notin> set (U ''tcp'')" "124 \<notin> set (U ''10.0.0.1'')" "124 \<notin> set (U ''10.0.0.2'')" by code_simp+
  show ?thesis
    using flow_key_identity [of "U ''tcp''" "U ''tcp''" "U ''10.0.0.1''" "U ''10.0.0.2''" "U ''10.0.0.2''" "U ''10.0.0.1''" 443 5000 5000 443]
      flow_key_identity [of "U ''tcp''" "U ''tcp''" "U ''10.0.0.1''" "U ''10.0.0.2''" "U ''10.0.0.1''" "U ''10.0.0.2''" 443 5000 5000 443]
    by (simp add: n s doubleton_eq_iff)
qed

section \<open>Encrypted flows\<close>

lemma interpret_flows:
  assumes "interpret_payload cfg payload (p, fl) = (t, p', fl')"
  shows "length fl' \<le> max (length fl + 1) 1" "length fl \<le> TLS_FLOW_MEMORY_CAP \<Longrightarrow> length fl' \<le> TLS_FLOW_MEMORY_CAP"
    "length fl < TLS_FLOW_MEMORY_CAP \<Longrightarrow> set fl \<subseteq> set fl'"
  using assms
  by (auto simp: interpret_payload_def is_tls_payload_def remember_flow_def TLS_FLOW_MEMORY_CAP_def Let_def split: if_splits prod.splits)

text \<open>The flow memory after interpreting a sequence of payloads.\<close>

fun flows_after :: "sniff_config \<Rightarrow> (packet \<times> bytes) list \<Rightarrow> flows \<Rightarrow> flows" where
  "flows_after cfg [] fl = fl"
| "flows_after cfg ((p, payload) # rest) fl = flows_after cfg rest (snd (snd (interpret_payload cfg payload (p, fl))))"

lemma flows_after_keeps: "length fl + length ps \<le> TLS_FLOW_MEMORY_CAP \<Longrightarrow> set fl \<subseteq> set (flows_after cfg ps fl)"
proof (induction ps arbitrary: fl)
  case (Cons x ps)
  obtain p payload where x: "x = (p, payload)" by (cases x)
  obtain t p' fl' where i: "interpret_payload cfg payload (p, fl) = (t, p', fl')" by (cases "interpret_payload cfg payload (p, fl)")
  have "length fl' + length ps \<le> TLS_FLOW_MEMORY_CAP" using interpret_flows(1) [OF i] Cons.prems by simp
  then have "set fl' \<subseteq> set (flows_after cfg ps fl')" by (rule Cons.IH)
  then show ?case using interpret_flows(3) [OF i] Cons.prems by (auto simp: x i)
qed simp

lemma flows_after_bounded: "length fl \<le> TLS_FLOW_MEMORY_CAP \<Longrightarrow> length (flows_after cfg ps fl) \<le> TLS_FLOW_MEMORY_CAP"
proof (induction ps arbitrary: fl)
  case (Cons x ps)
  obtain p payload where x: "x = (p, payload)" by (cases x)
  obtain t p' fl' where i: "interpret_payload cfg payload (p, fl) = (t, p', fl')" by (cases "interpret_payload cfg payload (p, fl)")
  show ?case using Cons.IH [OF interpret_flows(2) [OF i Cons.prems]] by (simp add: x i)
qed simp

text \<open>Once a TLS record has been seen on a TCP flow, no payload of that flow is shown as text, in either
  direction and whatever its bytes look like, for as long as the flow is remembered: a
  record on \<open>p\<close> followed by any payloads of any flows, within the capacity of the flow memory,
  makes every later segment between the same end points opaque. The memory itself never
  exceeds its capacity.\<close>

theorem tls_flow_opaque:
  assumes rec: "looks_like_tls_record record" "record \<noteq> []" "pk_proto p = U ''tcp''"
    and step: "interpret_payload cfg record (p, fl) = (t, p', fl')"
    and cap: "length fl \<le> TLS_FLOW_MEMORY_CAP" "length fl' + length later \<le> TLS_FLOW_MEMORY_CAP"
    and q: "pk_proto q = U ''tcp''"
      "(pk_src_ip q, pk_src_port q, pk_dst_ip q, pk_dst_port q) \<in>
         {(pk_src_ip p, pk_src_port p, pk_dst_ip p, pk_dst_port p), (pk_dst_ip p, pk_dst_port p, pk_src_ip p, pk_src_port p)}"
  shows "t = [] \<and> fst (interpret_payload cfg payload (q, flows_after cfg later fl')) = []
    \<and> length (flows_after cfg later fl') \<le> TLS_FLOW_MEMORY_CAP"
proof -
  have key: "tcp_flow_key q = tcp_flow_key p"
    using q(2) by (auto simp: tcp_flow_key_def stable_flow_key_sym)
  have "t = []" "tcp_flow_key p \<in> set fl'"
    using step rec by (auto simp: interpret_payload_def is_tls_payload_def remember_flow_def Let_def split: if_splits)
  moreover from this have "tcp_flow_key q \<in> set (flows_after cfg later fl')"
    using flows_after_keeps [OF cap(2)] key by auto
  then have "fst (interpret_payload cfg payload (q, flows_after cfg later fl')) = []"
    using q(1) by (auto simp: interpret_payload_def is_tls_payload_def Let_def)
  moreover have "length (flows_after cfg later fl') \<le> TLS_FLOW_MEMORY_CAP"
    using flows_after_bounded interpret_flows(2) [OF step cap(1)] by blast
  ultimately show ?thesis by blast
qed

definition demo_cfg :: sniff_config where
  "demo_cfg = \<lparr>cfg_text_max = 80, cfg_local_ips = {}, cfg_dashboard_port = 8765, cfg_now = []\<rparr>"

definition demo_packet :: packet where
  "demo_packet = (build_base_packet [] [] [] [] [] [] 0x800)\<lparr>pk_proto := U ''tcp'', pk_src_ip := U ''10.0.0.1'',
     pk_src_port := 443, pk_dst_ip := U ''10.0.0.2'', pk_dst_port := 5000\<rparr>"

theorem tls_flow_opaque_witness:
  "fst (interpret_payload demo_cfg [71, 69, 84, 32] (demo_packet, flows_after demo_cfg [] [tcp_flow_key demo_packet])) = []"
proof -
  have p: "pk_proto demo_packet = U ''tcp''" by (simp add: demo_packet_def build_base_packet_def)
  have l: "looks_like_tls_record [0x17, 3, 3, 0, 1, 9]" by code_simp
  have i: "interpret_payload demo_cfg [0x17, 3, 3, 0, 1, 9] (demo_packet, []) = ([], demo_packet, [tcp_flow_key demo_packet])"
    using l p by (simp add: interpret_payload_def is_tls_payload_def remember_flow_def TLS_FLOW_MEMORY_CAP_def)
  show ?thesis
    using tls_flow_opaque [OF l _ p i, of "[]" demo_packet "[71, 69, 84, 32]"] p by (simp add: TLS_FLOW_MEMORY_CAP_def)
qed

section \<open>IPv6 extension headers\<close>

lemma unwrap_ipv6_transport_header:
  "unwrap_ipv6 payload nh off = Some (k, body, d) \<Longrightarrow>
     suffix body payload \<and> length body \<le> length payload - off \<and> (\<forall>n. k = Some n \<longrightarrow> n \<notin> set IPV6_EXTENSIONS \<and> n \<noteq> IP_PROTO_IPV6_FRAGMENT)"
proof (induction payload nh off rule: unwrap_ipv6.induct)
  case (1 payload nh off)
  note [simp] = suffix_drop
  have ah: "IP_PROTO_IPV6_AH \<notin> set IPV6_EXTENSIONS" "IP_PROTO_IPV6_AH \<noteq> IP_PROTO_IPV6_FRAGMENT"
    "IP_PROTO_IPV6_ESP \<notin> set IPV6_EXTENSIONS" "IP_PROTO_IPV6_ESP \<noteq> IP_PROTO_IPV6_FRAGMENT" by (simp_all add: parse_consts)
  note eq = "1.prems" [unfolded unwrap_ipv6.simps [of payload nh off]]
  show ?case
  proof (cases "nh \<in> set IPV6_EXTENSIONS")
    case True
    show ?thesis
    proof (cases "length payload < off + 2 \<or> length payload < off + (unat (payload ! (off + 1)) + 1) * 8")
      case True
      then show ?thesis using eq \<open>nh \<in> _\<close> by (auto simp: Let_def split: if_splits option.splits)
    next
      case False
      then have "unwrap_ipv6 payload (unat (payload ! off)) (off + (unat (payload ! (off + 1)) + 1) * 8) = Some (k, body, d)"
        using eq \<open>nh \<in> _\<close> by (simp add: Let_def)
      from "1.IH"(1) [OF True _ _ refl _ _ this] False show ?thesis by auto
    qed
  next
    case False
    show ?thesis
    proof (cases "nh = IP_PROTO_IPV6_FRAGMENT \<and> \<not> length payload < off + 8 \<and> be (slice (off + 2) (off + 4) payload) div 8 AND 0x1FFF = 0")
      case True
      then have "unwrap_ipv6 payload (unat (payload ! off)) (off + 8) = Some (k, body, d)" using eq False by simp
      from "1.IH"(2) [OF False _ _ _ _ this] True show ?thesis by auto
    next
      case other: False
      then show ?thesis using eq False by (auto simp: ah split: if_splits option.splits)
    qed
  qed
qed



section \<open>MQTT lengths\<close>

text \<open>The variable byte integer of the MQTT standard.\<close>

fun mqtt_encode :: "nat \<Rightarrow> bytes" where
  "mqtt_encode n = (if n < 128 then [of_nat n] else of_nat (128 + n mod 128) # mqtt_encode (n div 128))"

declare mqtt_encode.simps [simp del]

lemma and_0x80: "n AND 0x80 = 0 \<longleftrightarrow> even (n div 128)" for n :: nat
  using and_exp_eq_0_iff_not_bit [of n 7] by (simp add: bit_iff_odd)

lemma and_0x7F: "n AND 0x7F = n mod 128" for n :: nat
proof -
  have "mask 7 = (127 :: nat)" by (simp add: mask_eq_exp_minus_1)
  then show ?thesis using take_bit_eq_mask [of 7 n] by (simp add: take_bit_eq_mod)
qed

lemma mqtt_varint_encode:
  "n < 128 ^ Suc k \<Longrightarrow> mqtt_varint (Suc k) mult v (pre @ mqtt_encode n @ rest) (length pre)
     = (Some (v + n * mult), length pre + length (mqtt_encode n))"
proof (induction k arbitrary: n mult v pre)
  case 0
  then show ?case by (simp add: mqtt_encode.simps [of n] nth_append unat_of_nat_byte and_0x80 and_0x7F)
next
  case (Suc k)
  show ?case
  proof (cases "n < 128")
    case True
    then show ?thesis by (simp add: mqtt_encode.simps [of n] nth_append unat_of_nat_byte and_0x80 and_0x7F)
  next
    case False
    define b where "b = (of_nat (128 + n mod 128) :: 8 word)"
    have b: "unat b = 128 + n mod 128" unfolding b_def by (rule unat_of_nat_byte) simp
    have e: "mqtt_encode n = b # mqtt_encode (n div 128)" using False by (simp add: mqtt_encode.simps [of n] b_def)
    have "n div 128 < 128 ^ Suc k" using Suc.prems by (simp add: div_less_iff_less_mult mult.commute)
    from Suc.IH [OF this, of "mult * 128" "v + (n mod 128) * mult" "pre @ [b]"]
    have "mqtt_varint (Suc k) (mult * 128) (v + (n mod 128) * mult) (pre @ mqtt_encode n @ rest) (length pre + 1)
      = (Some (v + (n mod 128) * mult + n div 128 * (mult * 128)), length pre + length (mqtt_encode n))" by (simp add: e)
    moreover have "v + (n mod 128) * mult + n div 128 * (mult * 128) = v + n * mult"
      by (metis add.assoc add.commute add_mult_distrib div_mult_mod_eq mult.assoc mult.commute)
    ultimately show ?thesis by (subst mqtt_varint.simps) (simp add: e nth_append b and_0x80 and_0x7F Let_def del: mqtt_varint.simps)
  qed
qed

text \<open>MQTT remaining lengths round-trip: decoding the standard's encoding of any length below
  \<open>128 ^ 4\<close>, at any offset and whatever follows, returns that length and the offset after it.\<close>

theorem mqtt_length_roundtrip:
  assumes "n < 128 ^ 4"
  shows "read_mqtt_remaining_length (pre @ mqtt_encode n @ rest) (length pre) = (Some n, length pre + length (mqtt_encode n))"
  unfolding read_mqtt_remaining_length_def
  using mqtt_varint_encode [of n 3 1 0 pre rest] assms by (simp del: mqtt_varint.simps)

theorem mqtt_length_roundtrip_witness:
  "read_mqtt_remaining_length ([0x10] @ mqtt_encode 321 @ [7]) (length [0x10 :: 8 word]) = (Some 321, 1 + length (mqtt_encode 321))"
  using mqtt_length_roundtrip [of 321 "[0x10]" "[7]"] by simp

section \<open>The dashboard's own traffic\<close>

definition endp :: "packet \<Rightarrow> ustr \<times> nat \<times> nat" where
  "endp p = (pk_transport p, pk_src_port p, pk_dst_port p)"

lemma endp_core: "core q = core p \<Longrightarrow> endp q = endp p"
  by (simp add: core_def endp_def)

lemma endp_hop [simp]: "endp (fix_hop_limit v p) = endp p"
  by (simp add: fix_hop_limit_def endp_def)

lemma endp_tcp_finish [simp]: "endp (tcp_finish v payload banner p) = endp p"
proof -
  have "endp (tcp_finish v payload banner p) = endp (fix_hop_limit v (banner_and_summary ''TCP'' banner p))"
    by (rule endp_core) (simp add: tcp_finish_def Let_def keeps)
  also have "\<dots> = endp p" by (simp, rule endp_core, simp add: keeps)
  finally show ?thesis .
qed

lemma endp_interpret [simp]: "endp (fst (interpret_text cfg payload st)) = endp (fst st)"
  by (rule endp_core) (simp add: keeps)

lemma endp_tcp_generic [simp]: "endp (fst (tcp_generic cfg v payload st)) = endp (fst st)"
  using endp_interpret [of cfg payload st] by (simp add: tcp_generic_def split_beta)

lemma endp_tcp_dispatch [simp]: "endp (fst (tcp_dispatch cfg v payload (p, fl))) = endp p"
  unfolding tcp_dispatch_def prod.case by (auto intro!: endp_core simp: keeps)

lemma endp_parse_tcp:
  assumes "parse_tcp cfg v body st = Some st'" "20 \<le> length body"
  shows "endp (fst st') = (U ''tcp'', be (slice 0 2 body), be (slice 2 4 body))"
  using assms by (auto simp: parse_tcp_def upd_def Let_def tcp_header_def) (simp add: endp_def)

lemma endp_parse_udp:
  assumes "8 \<le> length body"
  shows "endp (fst (parse_udp cfg v body st)) = (U ''udp'', be (slice 0 2 body), be (slice 2 4 body))"
proof -
  have d: "endp (udp_dispatch payload p) = endp p" for payload p
    by (rule endp_core) (simp add: udp_dispatch_def Let_def keeps)
  have b: "endp (banner_and_summary l bn p) = endp p" for l bn p by (rule endp_core) (simp add: keeps)
  show ?thesis using assms by (simp add: parse_udp_def split_beta Let_def upd_def d b) (simp add: endp_def)
qed

text \<open>A complete, unfragmented IPv4 packet with a TCP or UDP header, inside its declared length.\<close>

definition complete_segment :: "bytes \<Rightarrow> bool" where
  "complete_segment payload \<longleftrightarrow> length payload \<ge> 20 \<and> unat (payload ! 0) div 16 = 4
     \<and> (unat (payload ! 0) AND 15) * 4 \<ge> 20 \<and> be (slice 6 8 payload) AND 0x1FFF = 0
     \<and> (unat (payload ! 0) AND 15) * 4 + (if unat (payload ! 9) = IP_PROTO_TCP then 20 else 8) \<le> be (slice 2 4 payload)
     \<and> be (slice 2 4 payload) \<le> length payload
     \<and> unat (payload ! 9) \<in> {IP_PROTO_TCP, IP_PROTO_UDP}"

definition ipv4_of_frame :: "bytes \<Rightarrow> bytes option" where
  "ipv4_of_frame data =
     (if looks_like_raw_ipv4 data then Some data
      else if looks_like_raw_ipv6 data \<or> length data < 14 then None
      else case skip_vlan data (be (slice 12 14 data)) 14 of (t, off) \<Rightarrow> if t = ETHERTYPE_IPV4 then Some (drop off data) else None)"

lemma slice_slice: "b \<le> n - m \<Longrightarrow> slice a b (slice m n p) = slice a b (drop m p)"
  by (simp add: slice_def min_def drop_take)

lemma endp_parse_ipv4:
  assumes c: "complete_segment payload" and r: "parse_ipv4 cfg payload st = Some st'"
  shows "endp (fst st') = (if unat (payload ! 9) = IP_PROTO_TCP then U ''tcp'' else U ''udp'',
    be (slice 0 2 (drop ((unat (payload ! 0) AND 15) * 4) payload)), be (slice 2 4 (drop ((unat (payload ! 0) AND 15) * 4) payload)))"
proof -
  define ihl where "ihl = (unat (payload ! 0) AND 15) * 4"
  define body where "body = slice ihl (be (slice 2 4 payload)) payload"
  have len: "\<not> length payload < 20" and tl: "be (slice 2 4 payload) > ihl"
    using c by (auto simp: complete_segment_def ihl_def split: if_splits)
  have lb: "length body = be (slice 2 4 payload) - ihl" using c by (auto simp: body_def complete_segment_def min_def)
  have sl: "slice a b body = slice a b (drop ihl payload)" if "b \<le> 4" for a b
    unfolding body_def by (rule slice_slice) (use c that in \<open>auto simp: complete_segment_def ihl_def split: if_splits\<close>)
  have f: "endp (fst (upd fallback_if_empty s)) = endp (fst s)" for s by (rule endp_core) (simp add: upd_def keeps)
  have b: "byte_at payload 0 = Some (unat (payload ! 0))" "byte_at payload 9 = Some (unat (payload ! 9))"
    using len by (auto intro: byte_at_Some)
  obtain s1 s2 where s2: "st' = upd fallback_if_empty s2"
    "(if unat (payload ! 9) = IP_PROTO_TCP then parse_tcp cfg 4 body s1 else Some (parse_udp cfg 4 body s1)) = Some s2"
  proof (cases "unat (payload ! 9) = IP_PROTO_TCP")
    case True
    then show ?thesis using r len tl that unfolding parse_ipv4_def ihl_def body_def
      by (auto simp: bind_eq_Some_conv Let_def b upd_def)
  next
    case False
    then have "unat (payload ! 9) = IP_PROTO_UDP" using c by (simp add: complete_segment_def)
    with False show ?thesis using r len tl that unfolding parse_ipv4_def ihl_def body_def
      by (auto simp: bind_eq_Some_conv Let_def b upd_def)
  qed
  have "endp (fst s2) = (if unat (payload ! 9) = IP_PROTO_TCP then U ''tcp'' else U ''udp'', be (slice 0 2 body), be (slice 2 4 body))"
    using s2(2) endp_parse_tcp [of cfg 4 body s1 s2] endp_parse_udp [of body cfg 4 s1] lb c
    by (auto simp: complete_segment_def ihl_def split: if_splits)
  then show ?thesis by (simp add: s2(1) f sl ihl_def)
qed

lemma own_frame_complete:
  assumes "complete_segment payload" "ipv4_of_frame data = Some payload"
  shows "is_own_dashboard_frame port data = Some (port \<in> {be (slice 0 2 (drop ((unat (payload ! 0) AND 15) * 4) payload)),
     be (slice 2 4 (drop ((unat (payload ! 0) AND 15) * 4) payload))})"
proof -
  have pl: "frame_ip_payload data = Some payload"
    using assms(2) by (auto simp: frame_ip_payload_def ipv4_of_frame_def split: if_splits prod.splits)
  have "4 \<le> length (drop ((unat (payload ! 0) AND 15) * 4) payload)"
    using assms(1) by (auto simp: complete_segment_def split: if_splits)
  then show ?thesis using assms(1) pl by (auto simp: is_own_dashboard_frame_def segment_on_port_def complete_segment_def Let_def)
qed

text \<open>The filter on raw frames (\<open>_is_own_dashboard_frame\<close>, run before parsing) and the filter on parsed packets
  (\<open>_is_own_dashboard_traffic\<close>) agree on every complete, unfragmented IPv4 segment,
  whether it arrives raw, in Ethernet or behind VLAN tags: the early filter drops a frame
  exactly when parsing it would give a packet to or from the dashboard port.\<close>

theorem dashboard_filters_agree:
  assumes "ipv4_of_frame data = Some payload" "complete_segment payload"
    "parse_packet cfg data interface fl = Some (Some p, fl')"
  shows "is_own_dashboard_frame port data = Some (is_own_dashboard_traffic port p)"
proof -
  obtain st st' where r: "parse_ipv4 cfg payload st = Some st'" "p = finalize_packet (cfg_local_ips cfg) (fst st')"
    using assms(1,3) by (auto simp: parse_packet_def ipv4_of_frame_def parse_ethernet_def finalize_st_def Let_def split: if_splits prod.splits)
  have l: "lower (U ''tcp'') = U ''tcp''" "lower (U ''udp'') = U ''udp''" by code_simp+
  have "endp p = endp (fst st')" by (simp add: r(2) endp_def)
  then show ?thesis using endp_parse_ipv4 [OF assms(2) r(1)] own_frame_complete [OF assms(2,1), of port]
    by (auto simp: is_own_dashboard_traffic_def endp_def l)
qed

definition demo_frame :: bytes where
  "demo_frame = [69, 0, 0, 28, 0, 0, 0, 0, 64, 17, 102, 207, 10, 0, 0, 1, 10, 0, 0, 2, 19, 136, 34, 61, 0, 8, 0, 0]"

theorem dashboard_filters_agree_witness:
  "\<exists>p fl'. parse_packet demo_cfg demo_frame [] [] = Some (Some p, fl')
     \<and> is_own_dashboard_frame 8765 demo_frame = Some (is_own_dashboard_traffic 8765 p)"
proof -
  have raw: "looks_like_raw_ipv4 demo_frame" "demo_frame \<noteq> []"
    by (simp_all add: looks_like_raw_ipv4_def demo_frame_def slice_def be_def ipv4_str_def ipv4_checksum_is_valid_def fold16.simps Let_def)
  have c: "complete_segment demo_frame"
    by (simp add: complete_segment_def demo_frame_def slice_def be_def IP_PROTO_TCP_def IP_PROTO_UDP_def)
  obtain r where r: "parse_packet demo_cfg demo_frame [] [] = Some r" using parse_packet_total by fastforce
  then obtain p fl' where "r = (Some p, fl')"
    using raw by (auto simp: parse_packet_def finalize_st_def)
  then show ?thesis
    using dashboard_filters_agree [of demo_frame demo_frame demo_cfg "[]" "[]" p fl' 8765] raw c r by (simp add: ipv4_of_frame_def)
qed

end
