(* ===== verification/Rulesets.thy ===== *)
theory Rulesets
  imports Packets "HOL-Library.Product_Lexorder"
begin

text \<open>
  The rule language of \<^verbatim>\<open>rulesets.py\<close>: normalisation of rules received as JSON, and the decision
  whether a rule matches a packet. The regular-expression engine is the third-party package
  \<open>regex\<close>; it is the parameter \<open>rx\<close>, with \<open>rx pattern subject\<close> true when the pattern compiles
  and a search succeeds within the time limit (\<open>regex_search\<close> turns every failure into ``no
  match''). \<open>fmt\<close> is \<open>str()\<close> of floats, bytes and containers.
\<close>

section \<open>Criteria and rules\<close>

record criteria =
  m_protocols :: "ustr list"
  m_exclude_protocols :: "ustr list"
  m_ip_versions :: "int list"
  m_exclude_ip_versions :: "int list"
  m_eth_types :: "int list"
  m_exclude_eth_types :: "int list"
  m_ports :: "int list"
  m_exclude_ports :: "int list"
  m_src_ports :: "int list"
  m_exclude_src_ports :: "int list"
  m_dst_ports :: "int list"
  m_exclude_dst_ports :: "int list"
  m_port_regex :: "ustr list"
  m_exclude_port_regex :: "ustr list"
  m_ips :: "ustr list"
  m_exclude_ips :: "ustr list"
  m_ip_regex :: "ustr list"
  m_exclude_ip_regex :: "ustr list"
  m_protocol_regex :: "ustr list"
  m_exclude_protocol_regex :: "ustr list"
  m_payload_contains :: "ustr list"
  m_exclude_payload_contains :: "ustr list"
  m_payload_prefix_hex :: "ustr list"
  m_exclude_payload_prefix_hex :: "ustr list"
  m_payload_regex :: "ustr list"
  m_payload_regex_exclude :: "ustr list"
  m_request_only :: bool
  m_tcp_flags :: "ustr list"
  m_tcp_flags_any :: "ustr list"
  m_tcp_flags_all :: "ustr list"
  m_icmp_types :: "int list"
  m_icmp_codes :: "int list"
  m_arp_opcodes :: "int list"
  m_min_length :: int
  m_max_length :: int
  m_min_payload_text_length :: int
  m_count_threshold :: int
  m_window_seconds :: int
  m_group_by :: ustr

text \<open>A match object: its own criteria and the nested \<open>all\<close>, \<open>any\<close> and \<open>none\<close> conditions.\<close>

datatype match = Match (crit: criteria) (m_all: "match list") (m_any: "match list") (m_none: "match list")

record rule_action =
  a_tag :: ustr
  a_label :: ustr
  a_severity :: ustr

record rule =
  r_id :: ustr
  r_name :: ustr
  r_description :: ustr
  r_enabled :: bool
  r_priority :: int
  r_match :: match
  r_action :: rule_action
  r_source :: ustr

section \<open>TCP flag spellings\<close>

definition TCP_FLAG_ALIASES :: "(ustr \<times> ustr) list" where
  "TCP_FLAG_ALIASES = [
     (U ''F'', U ''FIN''), (U ''FIN'', U ''FIN''), (U ''S'', U ''SYN''), (U ''SYN'', U ''SYN''),
     (U ''R'', U ''RST''), (U ''RST'', U ''RST''), (U ''P'', U ''PSH''), (U ''PSH'', U ''PSH''),
     (U ''A'', U ''ACK''), (U ''ACK'', U ''ACK''), (U ''U'', U ''URG''), (U ''URG'', U ''URG''),
     (U ''E'', U ''ECE''), (U ''ECE'', U ''ECE''), (U ''C'', U ''CWR''), (U ''CWR'', U ''CWR'')]"

definition TCP_FLAGS_NONE :: ustr where "TCP_FLAGS_NONE = U ''NONE''"

definition FLAG_SEPARATORS :: "nat list" where "FLAG_SEPARATORS = [44, 43, 124, 47, 32]"

text \<open>The flags of one separated part: a known name, or a run of single letters.\<close>

definition part_flags :: "ustr \<Rightarrow> ustr set" where
  "part_flags part = (case map_of TCP_FLAG_ALIASES part of
       Some name \<Rightarrow> {name}
     | None \<Rightarrow> if list_all (\<lambda>c. map_of TCP_FLAG_ALIASES [c] \<noteq> None) part
               then set (map (\<lambda>c. the (map_of TCP_FLAG_ALIASES [c])) part) else {})"

definition parse_tcp_flags :: "ustr \<Rightarrow> ustr set" where
  "parse_tcp_flags value =
     (let t = upper (strip value) in
      if t = [] \<or> t = TCP_FLAGS_NONE then {}
      else let parts = filter (\<lambda>x. x \<noteq> []) (split_at 44 None (map (\<lambda>c. if c \<in> set FLAG_SEPARATORS then 44 else c) t)) in
        \<Union> (part_flags ` set parts))"

definition parse_tcp_flags_list :: "ustr list \<Rightarrow> ustr set" where
  "parse_tcp_flags_list xs = \<Union> (parse_tcp_flags ` set xs)"

definition tcp_flag_spec :: "ustr \<Rightarrow> ustr" where
  "tcp_flag_spec value =
     (let flags = parse_tcp_flags value in
      if flags = {} then TCP_FLAGS_NONE else join (U '','') (sorted_list_of_set flags))"

section \<open>What a rule looks at\<close>

definition limit_regex_subject :: "nat \<Rightarrow> ustr \<Rightarrow> ustr" where
  "limit_regex_subject lmt v = take (max 1 lmt) v"

definition build_packet_text :: "nat \<Rightarrow> packet \<Rightarrow> ustr" where
  "build_packet_text lmt p = limit_regex_subject lmt (lower (join (U '' '')
     (filter (\<lambda>v. v \<noteq> []) [pk_summary p, pk_payload_text p, pk_domain p, pk_http_host p, pk_http_path p, pk_http_method p])))"

definition HTTP_SERVER_PORTS :: "nat list" where
  "HTTP_SERVER_PORTS = [80, 8000, 8008, 8080, 8081, 8888]"

definition is_http_response_packet :: "packet \<Rightarrow> bool" where
  "is_http_response_packet p \<longleftrightarrow>
     upper (take 5 (lstrip_by is_space (pk_payload_text p))) = U ''HTTP/''
     \<or> (pk_src_port p \<in> set HTTP_SERVER_PORTS \<and> pk_dst_port p \<notin> set HTTP_SERVER_PORTS)"

text \<open>The engine on a bounded subject, and the two ways the rules use it.\<close>

type_synonym regex_engine = "ustr \<Rightarrow> ustr \<Rightarrow> bool"

definition regex_search :: "regex_engine \<Rightarrow> nat \<Rightarrow> ustr \<Rightarrow> ustr \<Rightarrow> bool" where
  "regex_search rx lmt pattern value = rx pattern (limit_regex_subject lmt value)"

definition nonblank :: "ustr list \<Rightarrow> ustr list" where
  "nonblank xs = filter (\<lambda>x. x \<noteq> []) (map strip xs)"

definition regex_matches_any :: "regex_engine \<Rightarrow> nat \<Rightarrow> ustr list \<Rightarrow> ustr list \<Rightarrow> bool" where
  "regex_matches_any rx lmt patterns values \<longleftrightarrow>
     (\<exists>pattern \<in> set (nonblank patterns). \<exists>v \<in> set values. v \<noteq> [] \<and> regex_search rx lmt pattern v)"

definition transport_of :: "packet \<Rightarrow> ustr" where
  "transport_of p = lower (strip (pk_transport p))"

definition proto_of :: "packet \<Rightarrow> ustr" where
  "proto_of p = normalize_protocol_name (pk_proto p)"

definition ip_text :: "ustr \<Rightarrow> ustr" where
  "ip_text s = lower (strip s)"

text \<open>Cleaned lists: \<open>[safe_int(item, 0) for item in ... if safe_int(item, 0)]\<close> and the like.\<close>

definition nonzero :: "int list \<Rightarrow> int list" where
  "nonzero xs = filter (\<lambda>n. n \<noteq> 0) xs"

definition nonneg :: "int list \<Rightarrow> int list" where
  "nonneg xs = filter (\<lambda>n. n \<ge> 0) xs"

definition protocol_names :: "ustr list \<Rightarrow> ustr list" where
  "protocol_names xs = map normalize_protocol_name (filter (\<lambda>x. strip x \<noteq> []) xs)"

definition needle_list :: "ustr list \<Rightarrow> ustr list" where
  "needle_list xs = map lower (filter (\<lambda>x. strip x \<noteq> []) xs)"

definition prefix_list :: "ustr list \<Rightarrow> ustr list" where
  "prefix_list xs = map (\<lambda>x. replace_sub (U ''0x'') [] (lower x)) (filter (\<lambda>x. strip x \<noteq> []) xs)"

definition address_list :: "ustr list \<Rightarrow> ustr list" where
  "address_list xs = map lower (nonblank xs)"

definition flag_specs :: "criteria \<Rightarrow> ustr list" where
  "flag_specs c = filter (\<lambda>x. strip x \<noteq> []) (m_tcp_flags c)"

section \<open>Matching\<close>

text \<open>The groups of checks of \<open>rule_matches_packet\<close>, in the order the code has them.\<close>

definition protocol_ok :: "packet \<Rightarrow> criteria \<Rightarrow> bool" where
  "protocol_ok p c \<longleftrightarrow>
     (let proto = proto_of p; transport = transport_of p;
          protocols = protocol_names (m_protocols c); excluded = protocol_names (m_exclude_protocols c) in
      \<not> (excluded \<noteq> [] \<and> (proto \<in> set excluded \<or> transport \<noteq> [] \<and> transport \<in> set excluded))
      \<and> \<not> (protocols \<noteq> [] \<and> proto \<notin> set protocols \<and> (transport = [] \<or> transport \<notin> set protocols)))"

definition in_list :: "int \<Rightarrow> int list \<Rightarrow> bool" where
  "in_list n xs \<longleftrightarrow> nonzero xs = [] \<or> n \<in> set (nonzero xs)"

definition header_ok :: "packet \<Rightarrow> criteria \<Rightarrow> bool" where
  "header_ok p c \<longleftrightarrow>
     (let ipv = int (pk_ip_version p); eth = int (pk_eth_type p); sp = int (pk_src_port p); dp = int (pk_dst_port p) in
      in_list ipv (m_ip_versions c) \<and> ipv \<notin> set (nonzero (m_exclude_ip_versions c))
      \<and> in_list eth (m_eth_types c) \<and> eth \<notin> set (nonzero (m_exclude_eth_types c))
      \<and> (in_list sp (m_ports c) \<or> in_list dp (m_ports c))
      \<and> \<not> (sp \<in> set (nonzero (m_exclude_ports c)) \<or> dp \<in> set (nonzero (m_exclude_ports c)))
      \<and> in_list sp (m_src_ports c) \<and> sp \<notin> set (nonzero (m_exclude_src_ports c))
      \<and> in_list dp (m_dst_ports c) \<and> dp \<notin> set (nonzero (m_exclude_dst_ports c)))"

text \<open>A positive list of patterns: empty, or one of them is found in one of the values.\<close>

definition regex_ok :: "regex_engine \<Rightarrow> nat \<Rightarrow> ustr list \<Rightarrow> ustr list \<Rightarrow> bool" where
  "regex_ok rx lmt patterns values \<longleftrightarrow>
     nonblank patterns = [] \<or> (\<exists>pattern \<in> set (nonblank patterns). \<exists>v \<in> set values. regex_search rx lmt pattern v)"

definition address_ok :: "regex_engine \<Rightarrow> nat \<Rightarrow> packet \<Rightarrow> criteria \<Rightarrow> bool" where
  "address_ok rx lmt p c \<longleftrightarrow>
     (let ports = [dec (pk_src_port p), dec (pk_dst_port p)]; src = ip_text (pk_src_ip p); dst = ip_text (pk_dst_ip p);
          ips = address_list (m_ips c); excluded = address_list (m_exclude_ips c) in
      regex_ok rx lmt (m_port_regex c) ports \<and> \<not> regex_matches_any rx lmt (m_exclude_port_regex c) ports
      \<and> (ips = [] \<or> src \<in> set ips \<or> dst \<in> set ips)
      \<and> \<not> (src \<in> set excluded \<or> dst \<in> set excluded)
      \<and> regex_ok rx lmt (m_ip_regex c) [src, dst] \<and> \<not> regex_matches_any rx lmt (m_exclude_ip_regex c) [src, dst])"

definition protocol_regex_ok :: "regex_engine \<Rightarrow> nat \<Rightarrow> packet \<Rightarrow> criteria \<Rightarrow> bool" where
  "protocol_regex_ok rx lmt p c \<longleftrightarrow>
     (let proto = proto_of p; transport = transport_of p in
      regex_ok rx lmt (m_protocol_regex c) (proto # (if transport = [] then [] else [transport]))
      \<and> \<not> regex_matches_any rx lmt (m_exclude_protocol_regex c) [proto, transport])"

definition flags_ok :: "packet \<Rightarrow> criteria \<Rightarrow> bool" where
  "flags_ok p c \<longleftrightarrow>
     (let flags_any = parse_tcp_flags_list (m_tcp_flags_any c); flags_all = parse_tcp_flags_list (m_tcp_flags_all c) in
      if flag_specs c \<noteq> [] \<or> flags_any \<noteq> {} \<or> flags_all \<noteq> {} then
        proto_of p = U ''tcp'' \<and> strip (pk_tcp_flags p) \<noteq> []
        \<and> (let packet_flags = parse_tcp_flags (strip (pk_tcp_flags p)) in
           (flag_specs c = [] \<or> (\<exists>spec \<in> set (flag_specs c). packet_flags = parse_tcp_flags spec))
           \<and> (flags_any = {} \<or> packet_flags \<inter> flags_any \<noteq> {})
           \<and> flags_all \<subseteq> packet_flags)
      else True)"

definition icmp_arp_ok :: "packet \<Rightarrow> criteria \<Rightarrow> bool" where
  "icmp_arp_ok p c \<longleftrightarrow>
     (let icmp = proto_of p \<in> {U ''icmp'', U ''icmpv6''} in
      (nonneg (m_icmp_types c) = [] \<or> icmp \<and> int (pk_icmp_type p) \<in> set (nonneg (m_icmp_types c)))
      \<and> (nonneg (m_icmp_codes c) = [] \<or> icmp \<and> int (pk_icmp_code p) \<in> set (nonneg (m_icmp_codes c)))
      \<and> in_list (int (pk_arp_opcode p)) (m_arp_opcodes c))"

text \<open>Is there any criterion at all, or a length bound, or a pure counting condition?\<close>

definition has_criteria :: "match \<Rightarrow> bool" where
  "has_criteria m \<longleftrightarrow>
     (let c = crit m in
      protocol_names (m_protocols c) \<noteq> [] \<or> nonzero (m_ip_versions c) \<noteq> [] \<or> nonzero (m_eth_types c) \<noteq> []
      \<or> nonzero (m_ports c) \<noteq> [] \<or> nonzero (m_src_ports c) \<noteq> [] \<or> nonzero (m_dst_ports c) \<noteq> []
      \<or> nonblank (m_port_regex c) \<noteq> [] \<or> nonblank (m_ips c) \<noteq> [] \<or> nonblank (m_ip_regex c) \<noteq> []
      \<or> nonblank (m_protocol_regex c) \<noteq> [] \<or> needle_list (m_payload_contains c) \<noteq> []
      \<or> prefix_list (m_payload_prefix_hex c) \<noteq> [] \<or> nonblank (m_payload_regex c) \<noteq> []
      \<or> flag_specs c \<noteq> [] \<or> parse_tcp_flags_list (m_tcp_flags_any c) \<noteq> {} \<or> parse_tcp_flags_list (m_tcp_flags_all c) \<noteq> {}
      \<or> nonneg (m_icmp_types c) \<noteq> [] \<or> nonneg (m_icmp_codes c) \<noteq> [] \<or> nonzero (m_arp_opcodes c) \<noteq> []
      \<or> m_all m \<noteq> [] \<or> m_any m \<noteq> []
      \<or> m_min_length c \<noteq> 0 \<or> m_max_length c \<noteq> 0 \<or> m_min_payload_text_length c \<noteq> 0
      \<or> m_count_threshold c \<noteq> 0 \<and> m_window_seconds c \<noteq> 0)"

definition needs_text :: "criteria \<Rightarrow> bool" where
  "needs_text c \<longleftrightarrow> needle_list (m_payload_contains c) \<noteq> [] \<or> needle_list (m_exclude_payload_contains c) \<noteq> []
     \<or> nonblank (m_payload_regex c) \<noteq> [] \<or> nonblank (m_payload_regex_exclude c) \<noteq> []"

definition content_ok :: "regex_engine \<Rightarrow> nat \<Rightarrow> ustr option \<Rightarrow> packet \<Rightarrow> criteria \<Rightarrow> bool" where
  "content_ok rx lmt packet_text p c \<longleftrightarrow>
     (let t = (case packet_text of None \<Rightarrow> [] | Some t \<Rightarrow> t); hex = lower (pk_payload_hex p);
          needles = needle_list (m_payload_contains c); prefixes = prefix_list (m_payload_prefix_hex c) in
      (needles = [] \<or> (\<exists>n \<in> set needles. contains t n))
      \<and> \<not> (\<exists>n \<in> set (needle_list (m_exclude_payload_contains c)). contains t n)
      \<and> (prefixes = [] \<or> (\<exists>x \<in> set prefixes. startswith hex x))
      \<and> \<not> (\<exists>x \<in> set (prefix_list (m_exclude_payload_prefix_hex c)). startswith hex x)
      \<and> regex_ok rx lmt (m_payload_regex c) [t]
      \<and> \<not> (\<exists>pattern \<in> set (nonblank (m_payload_regex_exclude c)). regex_search rx lmt pattern t))"

definition length_ok :: "packet \<Rightarrow> criteria \<Rightarrow> bool" where
  "length_ok p c \<longleftrightarrow>
     \<not> (m_min_length c \<noteq> 0 \<and> int (pk_length p) < m_min_length c)
     \<and> \<not> (m_max_length c \<noteq> 0 \<and> int (pk_length p) > m_max_length c)
     \<and> \<not> (m_min_payload_text_length c \<noteq> 0 \<and> int (length (pk_payload_text p)) < m_min_payload_text_length c)"

text \<open>The text a match inspects is built once, when a criterion first needs it, and shared with
  the nested conditions.\<close>

definition shared_text :: "nat \<Rightarrow> packet \<Rightarrow> criteria \<Rightarrow> ustr option \<Rightarrow> ustr option" where
  "shared_text lmt p c packet_text =
     (if needs_text c \<and> packet_text = None then Some (build_packet_text lmt p) else packet_text)"

fun match_packet :: "regex_engine \<Rightarrow> nat \<Rightarrow> packet \<Rightarrow> ustr option \<Rightarrow> match \<Rightarrow> bool" where
  "match_packet rx lmt p packet_text (Match c alls anys nones) \<longleftrightarrow>
     \<not> (m_request_only c \<and> is_http_response_packet p)
     \<and> protocol_ok p c \<and> header_ok p c \<and> address_ok rx lmt p c \<and> protocol_regex_ok rx lmt p c
     \<and> flags_ok p c \<and> icmp_arp_ok p c \<and> has_criteria (Match c alls anys nones)
     \<and> (let t = shared_text lmt p c packet_text in
        content_ok rx lmt t p c \<and> length_ok p c
        \<and> (\<forall>m \<in> set alls. match_packet rx lmt p t m)
        \<and> (anys = [] \<or> (\<exists>m \<in> set anys. match_packet rx lmt p t m))
        \<and> \<not> (\<exists>m \<in> set nones. match_packet rx lmt p t m))"

definition rule_matches_packet :: "regex_engine \<Rightarrow> nat \<Rightarrow> 'a rule_scheme \<Rightarrow> packet \<Rightarrow> ustr option \<Rightarrow> bool" where
  "rule_matches_packet rx lmt r p packet_text \<longleftrightarrow> r_enabled r \<and> match_packet rx lmt p packet_text (r_match r)"

record rule_hit =
  h_rule_id :: ustr
  h_rule_name :: ustr
  h_tag :: ustr
  h_label :: ustr
  h_severity :: ustr

definition rule_order :: "rule \<Rightarrow> int \<times> ustr" where
  "rule_order r = (r_priority r, r_name r)"

definition hit_of :: "'a rule_scheme \<Rightarrow> rule_hit" where
  "hit_of r = \<lparr>h_rule_id = r_id r, h_rule_name = r_name r, h_tag = or_text (a_tag (r_action r)) (r_id r),
     h_label = or_text (a_label (r_action r)) (r_name r), h_severity = or_text (a_severity (r_action r)) (U ''info'')\<rparr>"

definition classify_packet :: "regex_engine \<Rightarrow> nat \<Rightarrow> packet \<Rightarrow> rule list \<Rightarrow> rule_hit list" where
  "classify_packet rx lmt p rulesets =
     (let packet_text = build_packet_text lmt p in
      map hit_of (filter (\<lambda>r. rule_matches_packet rx lmt r p (Some packet_text)) (sort_key rule_order rulesets)))"

section \<open>Sharing the packet text\<close>

lemma content_ok_no_text: "\<not> needs_text c \<Longrightarrow> content_ok rx lmt t p c = content_ok rx lmt t' p c"
  by (auto simp: needs_text_def content_ok_def Let_def needle_list_def regex_ok_def)

lemma shared_text_cases:
  "t \<in> {None, Some (build_packet_text lmt p)} \<Longrightarrow> shared_text lmt p c t \<in> {None, Some (build_packet_text lmt p)}"
  by (auto simp: shared_text_def)

lemma content_ok_shared:
  assumes "t \<in> {None, Some (build_packet_text lmt p)}"
  shows "content_ok rx lmt (shared_text lmt p c t) p c = content_ok rx lmt (Some (build_packet_text lmt p)) p c"
  using assms content_ok_no_text [of c rx lmt t p "Some (build_packet_text lmt p)"] by (auto simp: shared_text_def)

lemma match_packet_text:
  "t \<in> {None, Some (build_packet_text lmt p)} \<Longrightarrow>
     match_packet rx lmt p t m = match_packet rx lmt p (Some (build_packet_text lmt p)) m"
proof (induction m arbitrary: t)
  case (Match c alls anys nones)
  let ?T = "Some (build_packet_text lmt p)"
  let ?s = "shared_text lmt p c t" and ?r = "shared_text lmt p c ?T"
  have s: "?s \<in> {None, ?T}" and r: "?r = ?T" using shared_text_cases [OF Match.prems] by (simp_all add: shared_text_def)
  have sub: "match_packet rx lmt p ?s m = match_packet rx lmt p ?T m" if "m \<in> set alls \<union> set anys \<union> set nones" for m
    using that Match.IH s by blast
  have "(\<forall>m \<in> set alls. match_packet rx lmt p ?s m) = (\<forall>m \<in> set alls. match_packet rx lmt p ?T m)"
    "(\<exists>m \<in> set anys. match_packet rx lmt p ?s m) = (\<exists>m \<in> set anys. match_packet rx lmt p ?T m)"
    "(\<exists>m \<in> set nones. match_packet rx lmt p ?s m) = (\<exists>m \<in> set nones. match_packet rx lmt p ?T m)"
    using sub by blast+
  then show ?case
    unfolding match_packet.simps Let_def r by (simp only: content_ok_shared [OF Match.prems])
qed

section \<open>Properties\<close>

text \<open>C8. Classification is exact. \<open>classify_packet\<close> builds the packet text once and hands it to every rule
  and every nested condition; its result is nevertheless what evaluating each rule on its own
  gives: one hit per enabled rule that matches the packet, no other, ordered by priority and
  then name, rules that tie keeping their given order.\<close>

theorem classify_packet_exact:
  "classify_packet rx lmt p rulesets =
     map hit_of (sort_key rule_order (filter (\<lambda>r. rule_matches_packet rx lmt r p None) rulesets))"
proof -
  have "rule_matches_packet rx lmt r p (Some (build_packet_text lmt p)) = rule_matches_packet rx lmt r p None" for r :: rule
    using match_packet_text [of None lmt p rx "r_match r"] by (simp add: rule_matches_packet_def)
  then show ?thesis by (simp add: classify_packet_def Let_def filter_sort)
qed

text \<open>The match object with no criterion of its own.\<close>

definition empty_criteria :: criteria where
  "empty_criteria = \<lparr>m_protocols = [], m_exclude_protocols = [], m_ip_versions = [], m_exclude_ip_versions = [],
     m_eth_types = [], m_exclude_eth_types = [], m_ports = [], m_exclude_ports = [], m_src_ports = [], m_exclude_src_ports = [],
     m_dst_ports = [], m_exclude_dst_ports = [], m_port_regex = [], m_exclude_port_regex = [], m_ips = [], m_exclude_ips = [],
     m_ip_regex = [], m_exclude_ip_regex = [], m_protocol_regex = [], m_exclude_protocol_regex = [],
     m_payload_contains = [], m_exclude_payload_contains = [], m_payload_prefix_hex = [], m_exclude_payload_prefix_hex = [],
     m_payload_regex = [], m_payload_regex_exclude = [], m_request_only = False, m_tcp_flags = [], m_tcp_flags_any = [],
     m_tcp_flags_all = [], m_icmp_types = [], m_icmp_codes = [], m_arp_opcodes = [], m_min_length = 0, m_max_length = 0,
     m_min_payload_text_length = 0, m_count_threshold = 0, m_window_seconds = 0, m_group_by = U ''src_ip''\<rparr>"

lemmas check_defs = protocol_ok_def header_ok_def address_ok_def protocol_regex_ok_def flags_ok_def icmp_arp_ok_def
  content_ok_def length_ok_def regex_ok_def regex_matches_any_def in_list_def

lemma empty_criteria_fields [simp]:
  "m_protocols empty_criteria = []" "m_exclude_protocols empty_criteria = []" "m_ip_versions empty_criteria = []"
  "m_exclude_ip_versions empty_criteria = []" "m_eth_types empty_criteria = []" "m_exclude_eth_types empty_criteria = []"
  "m_ports empty_criteria = []" "m_exclude_ports empty_criteria = []" "m_src_ports empty_criteria = []"
  "m_exclude_src_ports empty_criteria = []" "m_dst_ports empty_criteria = []" "m_exclude_dst_ports empty_criteria = []"
  "m_port_regex empty_criteria = []" "m_exclude_port_regex empty_criteria = []" "m_ips empty_criteria = []"
  "m_exclude_ips empty_criteria = []" "m_ip_regex empty_criteria = []" "m_exclude_ip_regex empty_criteria = []"
  "m_protocol_regex empty_criteria = []" "m_exclude_protocol_regex empty_criteria = []" "m_payload_contains empty_criteria = []"
  "m_exclude_payload_contains empty_criteria = []" "m_payload_prefix_hex empty_criteria = []" "m_exclude_payload_prefix_hex empty_criteria = []"
  "m_payload_regex empty_criteria = []" "m_payload_regex_exclude empty_criteria = []" "m_tcp_flags empty_criteria = []"
  "m_tcp_flags_any empty_criteria = []" "m_tcp_flags_all empty_criteria = []" "m_icmp_types empty_criteria = []"
  "m_icmp_codes empty_criteria = []" "m_arp_opcodes empty_criteria = []"
  "m_request_only empty_criteria = False" "m_min_length empty_criteria = 0" "m_max_length empty_criteria = 0"
  "m_min_payload_text_length empty_criteria = 0" "m_count_threshold empty_criteria = 0" "m_window_seconds empty_criteria = 0"
  by (simp_all add: empty_criteria_def)

lemma cleaned_Nil [simp]:
  "protocol_names [] = []" "nonzero [] = []" "nonneg [] = []" "nonblank [] = []" "address_list [] = []"
  "needle_list [] = []" "prefix_list [] = []" "parse_tcp_flags_list [] = {}"
  by (simp_all add: protocol_names_def nonzero_def nonneg_def nonblank_def address_list_def needle_list_def prefix_list_def
      parse_tcp_flags_list_def)

lemma empty_criteria_ok:
  "protocol_ok p empty_criteria" "header_ok p empty_criteria" "address_ok rx lmt p empty_criteria"
  "protocol_regex_ok rx lmt p empty_criteria" "flags_ok p empty_criteria" "icmp_arp_ok p empty_criteria"
  "content_ok rx lmt t p empty_criteria" "length_ok p empty_criteria" "\<not> m_request_only empty_criteria"
  "has_criteria (Match empty_criteria alls anys nones) \<longleftrightarrow> alls \<noteq> [] \<or> anys \<noteq> []"
  by (simp_all add: check_defs flag_specs_def has_criteria_def) blast

text \<open>Nested conditions are Boolean connectives: a match that has only conditions holds exactly when it has an
  \<open>all\<close> or an \<open>any\<close> condition, every \<open>all\<close> condition holds, one of the \<open>any\<close> conditions holds if
  there are some, and no \<open>none\<close> condition holds. In particular a rule made only of \<open>none\<close>
  conditions never fires.\<close>

theorem conditions_boolean:
  "match_packet rx lmt p None (Match empty_criteria alls anys nones) \<longleftrightarrow>
     (alls \<noteq> [] \<or> anys \<noteq> []) \<and> (\<forall>m \<in> set alls. match_packet rx lmt p None m)
     \<and> (anys = [] \<or> (\<exists>m \<in> set anys. match_packet rx lmt p None m)) \<and> \<not> (\<exists>m \<in> set nones. match_packet rx lmt p None m)"
proof -
  have "shared_text lmt p empty_criteria None = None"
    by (simp add: shared_text_def needs_text_def)
  then show ?thesis by (simp add: empty_criteria_ok Let_def)
qed

theorem conditions_boolean_witness:
  "\<not> match_packet (\<lambda>_ _. False) 100 (build_base_packet [] [] [] [] [] [] 0) None
     (Match empty_criteria [] [] [Match empty_criteria [] [] []])"
  using conditions_boolean [of "\<lambda>_ _. False" 100 "build_base_packet [] [] [] [] [] [] 0" "[]" "[]" "[Match empty_criteria [] [] []]"]
  by simp

text \<open>Widening a match: positive lists grow (an absent criterion stays absent), exclusions shrink.\<close>

definition grows :: "'a list \<Rightarrow> 'a list \<Rightarrow> bool" where
  "grows xs ys \<longleftrightarrow> (xs = [] \<longleftrightarrow> ys = []) \<and> set xs \<subseteq> set ys"

definition widens :: "criteria \<Rightarrow> criteria \<Rightarrow> bool" where
  "widens c d \<longleftrightarrow>
     grows (protocol_names (m_protocols c)) (protocol_names (m_protocols d))
     \<and> grows (nonzero (m_ip_versions c)) (nonzero (m_ip_versions d)) \<and> grows (nonzero (m_eth_types c)) (nonzero (m_eth_types d))
     \<and> grows (nonzero (m_ports c)) (nonzero (m_ports d)) \<and> grows (nonzero (m_src_ports c)) (nonzero (m_src_ports d))
     \<and> grows (nonzero (m_dst_ports c)) (nonzero (m_dst_ports d)) \<and> grows (nonblank (m_port_regex c)) (nonblank (m_port_regex d))
     \<and> grows (nonblank (m_ips c)) (nonblank (m_ips d)) \<and> grows (nonblank (m_ip_regex c)) (nonblank (m_ip_regex d))
     \<and> grows (nonblank (m_protocol_regex c)) (nonblank (m_protocol_regex d))
     \<and> grows (needle_list (m_payload_contains c)) (needle_list (m_payload_contains d))
     \<and> grows (prefix_list (m_payload_prefix_hex c)) (prefix_list (m_payload_prefix_hex d))
     \<and> grows (nonblank (m_payload_regex c)) (nonblank (m_payload_regex d))
     \<and> grows (nonneg (m_icmp_types c)) (nonneg (m_icmp_types d)) \<and> grows (nonneg (m_icmp_codes c)) (nonneg (m_icmp_codes d))
     \<and> grows (nonzero (m_arp_opcodes c)) (nonzero (m_arp_opcodes d)) \<and> grows (flag_specs c) (flag_specs d)
     \<and> m_tcp_flags_any d = m_tcp_flags_any c \<and> m_tcp_flags_all d = m_tcp_flags_all c
     \<and> (m_request_only d \<longrightarrow> m_request_only c)
     \<and> set (protocol_names (m_exclude_protocols d)) \<subseteq> set (protocol_names (m_exclude_protocols c))
     \<and> set (nonzero (m_exclude_ip_versions d)) \<subseteq> set (nonzero (m_exclude_ip_versions c))
     \<and> set (nonzero (m_exclude_eth_types d)) \<subseteq> set (nonzero (m_exclude_eth_types c))
     \<and> set (nonzero (m_exclude_ports d)) \<subseteq> set (nonzero (m_exclude_ports c))
     \<and> set (nonzero (m_exclude_src_ports d)) \<subseteq> set (nonzero (m_exclude_src_ports c))
     \<and> set (nonzero (m_exclude_dst_ports d)) \<subseteq> set (nonzero (m_exclude_dst_ports c))
     \<and> set (nonblank (m_exclude_port_regex d)) \<subseteq> set (nonblank (m_exclude_port_regex c))
     \<and> set (nonblank (m_exclude_ips d)) \<subseteq> set (nonblank (m_exclude_ips c))
     \<and> set (nonblank (m_exclude_ip_regex d)) \<subseteq> set (nonblank (m_exclude_ip_regex c))
     \<and> set (nonblank (m_exclude_protocol_regex d)) \<subseteq> set (nonblank (m_exclude_protocol_regex c))
     \<and> set (needle_list (m_exclude_payload_contains d)) \<subseteq> set (needle_list (m_exclude_payload_contains c))
     \<and> set (prefix_list (m_exclude_payload_prefix_hex d)) \<subseteq> set (prefix_list (m_exclude_payload_prefix_hex c))
     \<and> set (nonblank (m_payload_regex_exclude d)) \<subseteq> set (nonblank (m_payload_regex_exclude c))
     \<and> m_min_length d = m_min_length c \<and> m_max_length d = m_max_length c
     \<and> m_min_payload_text_length d = m_min_payload_text_length c
     \<and> m_count_threshold d = m_count_threshold c \<and> m_window_seconds d = m_window_seconds c"

lemma widensD:
  assumes "widens c d"
  shows "grows (protocol_names (m_protocols c)) (protocol_names (m_protocols d))"
    "grows (nonzero (m_ip_versions c)) (nonzero (m_ip_versions d))"
    "grows (nonzero (m_eth_types c)) (nonzero (m_eth_types d))"
    "grows (nonzero (m_ports c)) (nonzero (m_ports d))"
    "grows (nonzero (m_src_ports c)) (nonzero (m_src_ports d))"
    "grows (nonzero (m_dst_ports c)) (nonzero (m_dst_ports d))"
    "grows (nonblank (m_port_regex c)) (nonblank (m_port_regex d))"
    "grows (nonblank (m_ips c)) (nonblank (m_ips d))"
    "grows (nonblank (m_ip_regex c)) (nonblank (m_ip_regex d))"
    "grows (nonblank (m_protocol_regex c)) (nonblank (m_protocol_regex d))"
    "grows (needle_list (m_payload_contains c)) (needle_list (m_payload_contains d))"
    "grows (prefix_list (m_payload_prefix_hex c)) (prefix_list (m_payload_prefix_hex d))"
    "grows (nonblank (m_payload_regex c)) (nonblank (m_payload_regex d))"
    "grows (nonneg (m_icmp_types c)) (nonneg (m_icmp_types d))"
    "grows (nonneg (m_icmp_codes c)) (nonneg (m_icmp_codes d))"
    "grows (nonzero (m_arp_opcodes c)) (nonzero (m_arp_opcodes d))"
    "grows (flag_specs c) (flag_specs d)"
    "m_tcp_flags_any d = m_tcp_flags_any c"
    "m_tcp_flags_all d = m_tcp_flags_all c"
    "(m_request_only d \<longrightarrow> m_request_only c)"
    "set (protocol_names (m_exclude_protocols d)) \<subseteq> set (protocol_names (m_exclude_protocols c))"
    "set (nonzero (m_exclude_ip_versions d)) \<subseteq> set (nonzero (m_exclude_ip_versions c))"
    "set (nonzero (m_exclude_eth_types d)) \<subseteq> set (nonzero (m_exclude_eth_types c))"
    "set (nonzero (m_exclude_ports d)) \<subseteq> set (nonzero (m_exclude_ports c))"
    "set (nonzero (m_exclude_src_ports d)) \<subseteq> set (nonzero (m_exclude_src_ports c))"
    "set (nonzero (m_exclude_dst_ports d)) \<subseteq> set (nonzero (m_exclude_dst_ports c))"
    "set (nonblank (m_exclude_port_regex d)) \<subseteq> set (nonblank (m_exclude_port_regex c))"
    "set (nonblank (m_exclude_ips d)) \<subseteq> set (nonblank (m_exclude_ips c))"
    "set (nonblank (m_exclude_ip_regex d)) \<subseteq> set (nonblank (m_exclude_ip_regex c))"
    "set (nonblank (m_exclude_protocol_regex d)) \<subseteq> set (nonblank (m_exclude_protocol_regex c))"
    "set (needle_list (m_exclude_payload_contains d)) \<subseteq> set (needle_list (m_exclude_payload_contains c))"
    "set (prefix_list (m_exclude_payload_prefix_hex d)) \<subseteq> set (prefix_list (m_exclude_payload_prefix_hex c))"
    "set (nonblank (m_payload_regex_exclude d)) \<subseteq> set (nonblank (m_payload_regex_exclude c))"
    "m_min_length d = m_min_length c"
    "m_max_length d = m_max_length c"
    "m_min_payload_text_length d = m_min_payload_text_length c"
    "m_count_threshold d = m_count_threshold c"
    "m_window_seconds d = m_window_seconds c"
  by (insert assms, unfold widens_def, (elim conjE, assumption)+)

lemma grows_in_list: "grows (nonzero xs) (nonzero ys) \<Longrightarrow> in_list n xs \<Longrightarrow> in_list n ys"
  by (auto simp: grows_def in_list_def)

lemma grows_regex: "grows (nonblank xs) (nonblank ys) \<Longrightarrow> regex_ok rx lmt xs vs \<Longrightarrow> regex_ok rx lmt ys vs"
  by (auto simp: grows_def regex_ok_def)

lemma shrink_regex: "set (nonblank ys) \<subseteq> set (nonblank xs) \<Longrightarrow> \<not> regex_matches_any rx lmt xs vs \<Longrightarrow> \<not> regex_matches_any rx lmt ys vs"
  by (auto simp: regex_matches_any_def)

lemma widens_protocol: "widens c d \<Longrightarrow> protocol_ok p c \<Longrightarrow> protocol_ok p d"
  using widensD(1, 21) [of c d] unfolding grows_def protocol_ok_def Let_def by auto

lemma widens_header: "widens c d \<Longrightarrow> header_ok p c \<Longrightarrow> header_ok p d"
  using widensD(2, 3, 4, 5, 6, 22, 23, 24, 25, 26) [of c d]
  unfolding header_ok_def Let_def by (auto intro: grows_in_list)

lemma widens_address: "widens c d \<Longrightarrow> address_ok rx lmt p c \<Longrightarrow> address_ok rx lmt p d"
proof -
  assume w: "widens c d" and a: "address_ok rx lmt p c"
  have "grows (address_list (m_ips c)) (address_list (m_ips d))"
    "set (address_list (m_exclude_ips d)) \<subseteq> set (address_list (m_exclude_ips c))"
    using widensD(8, 28) [OF w] by (auto simp: grows_def address_list_def)
  moreover note widensD(7, 9) [OF w, THEN grows_regex] widensD(27, 29) [OF w, THEN shrink_regex]
  ultimately show "address_ok rx lmt p d" using a
    unfolding address_ok_def Let_def grows_def by auto
qed

lemma widens_protocol_regex: "widens c d \<Longrightarrow> protocol_regex_ok rx lmt p c \<Longrightarrow> protocol_regex_ok rx lmt p d"
  using widensD(10, 30) [of c d] unfolding protocol_regex_ok_def Let_def
  by (auto intro: grows_regex dest: shrink_regex)

lemma widens_flags: "widens c d \<Longrightarrow> flags_ok p c \<Longrightarrow> flags_ok p d"
  using widensD(17, 18, 19) [of c d]
  unfolding flags_ok_def grows_def Let_def by (auto split: if_splits)

lemma widens_icmp_arp: "widens c d \<Longrightarrow> icmp_arp_ok p c \<Longrightarrow> icmp_arp_ok p d"
  using widensD(14, 15, 16) [of c d]
  unfolding icmp_arp_ok_def grows_def Let_def in_list_def by auto

lemma grows_ex: "xs = [] \<or> (\<exists>x \<in> set xs. P x) \<Longrightarrow> grows xs ys \<Longrightarrow> ys = [] \<or> (\<exists>x \<in> set ys. P x)"
  by (auto simp: grows_def)

lemma shrink_ex: "\<not> (\<exists>x \<in> set xs. P x) \<Longrightarrow> set ys \<subseteq> set xs \<Longrightarrow> \<not> (\<exists>x \<in> set ys. P x)"
  by blast

lemma widens_content:
  assumes w: "widens c d" and a: "content_ok rx lmt t p c"
  shows "content_ok rx lmt t p d"
  unfolding content_ok_def Let_def
  by (intro conjI; insert a [unfolded content_ok_def Let_def]; elim conjE;
      (erule grows_ex [OF _ widensD(11) [OF w]] | erule grows_ex [OF _ widensD(12) [OF w]]
       | erule grows_regex [OF widensD(13) [OF w]] | erule shrink_ex [OF _ widensD(31) [OF w]]
       | erule shrink_ex [OF _ widensD(32) [OF w]] | erule shrink_ex [OF _ widensD(33) [OF w]]))

lemma widens_length: "widens c d \<Longrightarrow> length_ok p c \<Longrightarrow> length_ok p d"
  using widensD(34, 35, 36) [of c d] by (simp add: length_ok_def)

lemma grows_Nil: "grows xs ys \<Longrightarrow> ys = [] \<longleftrightarrow> xs = []"
  by (auto simp: grows_def)

lemma widens_has_criteria:
  assumes "widens c d" "has_criteria (Match c alls anys nones)" "grows anys anys'"
  shows "has_criteria (Match d alls anys' nones')"
  using assms(2) unfolding has_criteria_def match.sel Let_def
  by (simp only: widensD(1-16) [OF assms(1), THEN grows_Nil] widensD(17) [OF assms(1), THEN grows_Nil]
      widensD(18, 19, 34, 35, 36, 37, 38) [OF assms(1)]
      grows_Nil [OF assms(3)])

text \<open>Rules widen and narrow the way an operator expects: adding values to a criterion that a rule already
  uses, removing exclusions, adding \<open>any\<close> alternatives or removing \<open>none\<close> conditions never makes
  a rule lose a packet it matched.\<close>

theorem widening_keeps_matches:
  assumes w: "widens c d" and g: "grows anys anys'" and n: "set nones' \<subseteq> set nones"
    and m: "match_packet rx lmt p None (Match c alls anys nones)"
  shows "match_packet rx lmt p None (Match d alls anys' nones')"
proof -
  let ?T = "Some (build_packet_text lmt p)"
  have t: "match_packet rx lmt p None m = match_packet rx lmt p ?T m" for m by (rule match_packet_text) simp
  have s: "shared_text lmt p e ?T = ?T" for e by (simp add: shared_text_def)
  note m' = m [unfolded t, unfolded match_packet.simps Let_def s]
  have q: "\<not> (m_request_only d \<and> is_http_response_packet p)"
    using m' widensD(20) [OF w] by blast
  have a: "anys' = [] \<or> (\<exists>m \<in> set anys'. match_packet rx lmt p ?T m)"
    using m' g unfolding grows_def by blast
  have "match_packet rx lmt p ?T (Match d alls anys' nones')"
    unfolding match_packet.simps Let_def s
    by (intro conjI q a widens_protocol [OF w] widens_header [OF w] widens_address [OF w] widens_protocol_regex [OF w]
          widens_flags [OF w] widens_icmp_arp [OF w] widens_content [OF w] widens_length [OF w] widens_has_criteria [OF w _ g];
        insert m'; elim conjE; (assumption | erule shrink_ex [OF _ n]))
  then show ?thesis by (simp only: t)
qed

definition demo_criteria :: "int list \<Rightarrow> criteria" where
  "demo_criteria ports = empty_criteria\<lparr>m_ports := ports\<rparr>"

theorem widening_keeps_matches_witness:
  "match_packet (\<lambda>_ _. False) 100 ((build_base_packet [] [] [] [] [] [] 0)\<lparr>pk_dst_port := 80\<rparr>) None
     (Match (demo_criteria [80, 443]) [] [] [])"
proof -
  let ?p = "(build_base_packet [] [] [] [] [] [] 0)\<lparr>pk_dst_port := 80\<rparr>"
  have m: "match_packet (\<lambda>_ _. False) 100 ?p None (Match (demo_criteria [80]) [] [] [])"
    by (simp add: demo_criteria_def check_defs flag_specs_def has_criteria_def nonzero_def shared_text_def Let_def build_base_packet_def)
  have w: "widens (demo_criteria [80]) (demo_criteria [80, 443])"
    by (simp add: widens_def grows_def demo_criteria_def nonzero_def flag_specs_def)
  show ?thesis
    by (rule widening_keeps_matches [OF w _ _ m]) (simp_all add: grows_def)
qed

end
