(* ===== verification/Rule_Normalize.thy ===== *)
theory Rule_Normalize
  imports Rulesets Sniffer_Parse
begin

text \<open>
  Normalisation of rules received as JSON (\<open>normalize_ruleset\<close>, \<open>normalize_match\<close> and
  \<open>normalize_action\<close> of \<^verbatim>\<open>rulesets.py\<close>), and the spellings of TCP flags shared by the parser
  and the rules. A dictionary is an association list with distinct keys.
\<close>

section \<open>Reading a JSON object\<close>

type_synonym pydict = "(ustr \<times> pyval) list"

definition dict_of :: "pyval \<Rightarrow> pydict" where
  "dict_of v = (case v of PDict d \<Rightarrow> d | _ \<Rightarrow> [])"

definition is_dict :: "pyval \<Rightarrow> bool" where
  "is_dict v = (case v of PDict d \<Rightarrow> True | _ \<Rightarrow> False)"

definition get_or :: "pydict \<Rightarrow> string \<Rightarrow> pyval \<Rightarrow> pyval" where
  "get_or d key v = (case map_of d (U key) of None \<Rightarrow> v | Some w \<Rightarrow> w)"

definition py_str :: "(pyval \<Rightarrow> ustr) \<Rightarrow> pyval \<Rightarrow> ustr" where
  "py_str fmt v = (case v of
       PStr s \<Rightarrow> s | PInt n \<Rightarrow> dec_int n | PBool b \<Rightarrow> U (if b then ''True'' else ''False'') | PNone \<Rightarrow> U ''None'' | _ \<Rightarrow> fmt v)"

text \<open>\<open>str(value or "")\<close>.\<close>

definition str_or_empty :: "(pyval \<Rightarrow> ustr) \<Rightarrow> pyval \<Rightarrow> ustr" where
  "str_or_empty fmt v = (if truthy v then py_str fmt v else [])"

text \<open>Set membership in Python: numbers compare across types; lists and dictionaries cannot be
  hashed, which raises \<open>TypeError\<close>.\<close>

definition hash_key :: "pyval \<Rightarrow> pyval" where
  "hash_key v = (case v of PBool b \<Rightarrow> PFloat (Fin (if b then 1 else 0)) | PInt n \<Rightarrow> PFloat (Fin (of_int n)) | _ \<Rightarrow> v)"

definition hashable :: "pyval \<Rightarrow> bool" where
  "hashable v = (case v of PList _ \<Rightarrow> False | PDict _ \<Rightarrow> False | _ \<Rightarrow> True)"

fun unique_values :: "pyval list \<Rightarrow> pyval list \<Rightarrow> pyval list" where
  "unique_values seen [] = []"
| "unique_values seen (v # vs) =
     (if hash_key v \<in> set seen then unique_values seen vs else v # unique_values (hash_key v # seen) vs)"

section \<open>The closures of \<open>normalize_match\<close>\<close>

definition raw_items :: "pydict \<Rightarrow> string \<Rightarrow> pyval list" where
  "raw_items d key = (case get_or d key (PList []) of
       PList xs \<Rightarrow> xs | PNone \<Rightarrow> [] | PStr s \<Rightarrow> (if s = [] then [] else [PStr s]) | v \<Rightarrow> [v])"

definition blank_item :: "pyval \<Rightarrow> bool" where
  "blank_item v = (case v of PNone \<Rightarrow> True | PStr s \<Rightarrow> strip s = [] | _ \<Rightarrow> False)"

definition protocol_key :: "string \<Rightarrow> bool" where
  "protocol_key key \<longleftrightarrow> key = ''protocols'' \<or> key = ''exclude_protocols''"

definition cleaned_items :: "(pyval \<Rightarrow> ustr) \<Rightarrow> pydict \<Rightarrow> string \<Rightarrow> pyval list" where
  "cleaned_items fmt d key =
     map (\<lambda>v. if protocol_key key then PStr (normalize_protocol_name (str_or_empty fmt v)) else v)
       (filter (\<lambda>v. \<not> blank_item v) (raw_items d key))"

definition list_error :: "(pyval \<Rightarrow> ustr) \<Rightarrow> pydict \<Rightarrow> string \<Rightarrow> pyexc option" where
  "list_error fmt d key = (if list_all hashable (cleaned_items fmt d key) then None else Some TypeError)"

definition list_items :: "(pyval \<Rightarrow> ustr) \<Rightarrow> pydict \<Rightarrow> string \<Rightarrow> pyval list" where
  "list_items fmt d key = unique_values [] (cleaned_items fmt d key)"

definition int_items :: "pydict \<Rightarrow> string \<Rightarrow> int list" where
  "int_items d key = unique_ordered (List.map_filter (\<lambda>v. case py_int v of Inl _ \<Rightarrow> None | Inr n \<Rightarrow> Some n)
     (case get_or d key (PList []) of PList xs \<Rightarrow> xs | v \<Rightarrow> [v]))"

text \<open>\<open>[str(item).strip() for item in _list(key) if str(item).strip()]\<close> and its variants.\<close>

definition text_items :: "(pyval \<Rightarrow> ustr) \<Rightarrow> pydict \<Rightarrow> string \<Rightarrow> ustr list" where
  "text_items fmt d key = nonblank (map (py_str fmt) (list_items fmt d key))"

definition raw_text_items :: "(pyval \<Rightarrow> ustr) \<Rightarrow> pydict \<Rightarrow> string \<Rightarrow> ustr list" where
  "raw_text_items fmt d key = filter (\<lambda>s. strip s \<noteq> []) (map (py_str fmt) (list_items fmt d key))"

definition hex_items :: "(pyval \<Rightarrow> ustr) \<Rightarrow> pydict \<Rightarrow> string \<Rightarrow> ustr list" where
  "hex_items fmt d key = map (\<lambda>s. replace_sub (U ''0x'') [] (lower s)) (text_items fmt d key)"

definition flag_items :: "(pyval \<Rightarrow> ustr) \<Rightarrow> pydict \<Rightarrow> string \<Rightarrow> ustr list" where
  "flag_items fmt d key = sorted_list_of_set (parse_tcp_flags_list (map (py_str fmt) (list_items fmt d key)))"

definition GROUP_BY_CHOICES :: "ustr list" where
  "GROUP_BY_CHOICES = [U ''src_ip'', U ''dst_ip'', U ''src_ip+dst_port'', U ''dst_ip+dst_port'', U ''src_ip+dst_ip'']"

definition group_by_spec :: "(pyval \<Rightarrow> ustr) \<Rightarrow> pyval \<Rightarrow> ustr" where
  "group_by_spec fmt v = (let t = lower (strip (str_or_empty fmt v)) in if t \<in> set GROUP_BY_CHOICES then t else U ''src_ip'')"

definition int_field :: "pydict \<Rightarrow> string \<Rightarrow> int" where
  "int_field d key = safe_int (get_or d key (PInt 0)) 0"

definition request_only_flag :: "pydict \<Rightarrow> pyexc + bool" where
  "request_only_flag d = (case map_of d (U ''request_only'') of None \<Rightarrow> Inr False | Some v \<Rightarrow> coerce_bool v)"

text \<open>The exceptions of the dictionary display, in evaluation order.\<close>

definition LIST_KEYS_BEFORE :: "string list" where
  "LIST_KEYS_BEFORE = [''protocols'', ''exclude_protocols'', ''port_regex'', ''exclude_port_regex'', ''ips'', ''exclude_ips'',
     ''ip_regex'', ''exclude_ip_regex'', ''protocol_regex'', ''exclude_protocol_regex'', ''payload_contains'',
     ''exclude_payload_contains'', ''payload_prefix_hex'', ''exclude_payload_prefix_hex'', ''payload_regex'', ''payload_regex_exclude'']"

definition LIST_KEYS_AFTER :: "string list" where
  "LIST_KEYS_AFTER = [''tcp_flags'', ''tcp_flags_any'', ''tcp_flags_all'']"

definition first_error :: "pyexc option list \<Rightarrow> pyexc option" where
  "first_error xs = (case filter (\<lambda>x. x \<noteq> None) xs of [] \<Rightarrow> None | x # _ \<Rightarrow> x)"

definition criteria_error :: "(pyval \<Rightarrow> ustr) \<Rightarrow> pydict \<Rightarrow> pyexc option" where
  "criteria_error fmt d = first_error (map (list_error fmt d) LIST_KEYS_BEFORE
     @ [case request_only_flag d of Inl e \<Rightarrow> Some e | Inr _ \<Rightarrow> None] @ map (list_error fmt d) LIST_KEYS_AFTER)"

definition criteria_of :: "(pyval \<Rightarrow> ustr) \<Rightarrow> pydict \<Rightarrow> criteria" where
  "criteria_of fmt d = \<lparr>
     m_protocols = map (py_str fmt) (list_items fmt d ''protocols''),
     m_exclude_protocols = map (py_str fmt) (list_items fmt d ''exclude_protocols''),
     m_ip_versions = int_items d ''ip_versions'', m_exclude_ip_versions = int_items d ''exclude_ip_versions'',
     m_eth_types = int_items d ''eth_types'', m_exclude_eth_types = int_items d ''exclude_eth_types'',
     m_ports = int_items d ''ports'', m_exclude_ports = int_items d ''exclude_ports'',
     m_src_ports = int_items d ''src_ports'', m_exclude_src_ports = int_items d ''exclude_src_ports'',
     m_dst_ports = int_items d ''dst_ports'', m_exclude_dst_ports = int_items d ''exclude_dst_ports'',
     m_port_regex = text_items fmt d ''port_regex'', m_exclude_port_regex = text_items fmt d ''exclude_port_regex'',
     m_ips = map lower (text_items fmt d ''ips''), m_exclude_ips = map lower (text_items fmt d ''exclude_ips''),
     m_ip_regex = text_items fmt d ''ip_regex'', m_exclude_ip_regex = text_items fmt d ''exclude_ip_regex'',
     m_protocol_regex = text_items fmt d ''protocol_regex'', m_exclude_protocol_regex = text_items fmt d ''exclude_protocol_regex'',
     m_payload_contains = raw_text_items fmt d ''payload_contains'',
     m_exclude_payload_contains = raw_text_items fmt d ''exclude_payload_contains'',
     m_payload_prefix_hex = hex_items fmt d ''payload_prefix_hex'',
     m_exclude_payload_prefix_hex = hex_items fmt d ''exclude_payload_prefix_hex'',
     m_payload_regex = text_items fmt d ''payload_regex'', m_payload_regex_exclude = text_items fmt d ''payload_regex_exclude'',
     m_request_only = (case request_only_flag d of Inl _ \<Rightarrow> False | Inr b \<Rightarrow> b),
     m_tcp_flags = map (\<lambda>v. tcp_flag_spec (py_str fmt v)) (list_items fmt d ''tcp_flags''),
     m_tcp_flags_any = flag_items fmt d ''tcp_flags_any'', m_tcp_flags_all = flag_items fmt d ''tcp_flags_all'',
     m_icmp_types = int_items d ''icmp_types'', m_icmp_codes = int_items d ''icmp_codes'', m_arp_opcodes = int_items d ''arp_opcodes'',
     m_min_length = int_field d ''min_length'', m_max_length = int_field d ''max_length'',
     m_min_payload_text_length = int_field d ''min_payload_text_length'',
     m_count_threshold = max 0 (int_field d ''count_threshold''), m_window_seconds = max 0 (int_field d ''window_seconds''),
     m_group_by = group_by_spec fmt (get_or d ''group_by'' PNone)\<rparr>"

section \<open>Nested conditions and whole rules\<close>

definition condition_items :: "pydict \<Rightarrow> string \<Rightarrow> pyval list" where
  "condition_items d key =
     (let raw0 = get_or d key (PList []);
          raw = (if \<not> truthy raw0 \<and> is_dict (get_or d ''conditions'' PNone)
                 then get_or (dict_of (get_or d ''conditions'' PNone)) key (PList []) else raw0) in
      case raw of PDict x \<Rightarrow> [PDict x] | PList xs \<Rightarrow> filter is_dict xs | _ \<Rightarrow> [])"

fun collect :: "(pyexc + 'a) list \<Rightarrow> pyexc + 'a list" where
  "collect [] = Inr []"
| "collect (Inl e # xs) = Inl e"
| "collect (Inr x # xs) = (case collect xs of Inl e \<Rightarrow> Inl e | Inr ys \<Rightarrow> Inr (x # ys))"

text \<open>\<open>k\<close> is the number of levels of conditions still allowed, \<open>4 - _depth\<close>.\<close>

fun normalize_at :: "(pyval \<Rightarrow> ustr) \<Rightarrow> nat \<Rightarrow> pyval \<Rightarrow> pyexc + match" where
  "normalize_at fmt k v =
     (let d = dict_of v;
          conds = (\<lambda>key. case k of 0 \<Rightarrow> Inr [] | Suc j \<Rightarrow> collect (map (normalize_at fmt j) (condition_items d key))) in
      case criteria_error fmt d of
        Some e \<Rightarrow> Inl e
      | None \<Rightarrow> (case conds ''all'' of Inl e \<Rightarrow> Inl e | Inr alls \<Rightarrow>
          (case conds ''any'' of Inl e \<Rightarrow> Inl e | Inr anys \<Rightarrow>
          (case conds ''none'' of Inl e \<Rightarrow> Inl e | Inr nones \<Rightarrow> Inr (Match (criteria_of fmt d) alls anys nones)))))"

declare normalize_at.simps [simp del]

definition normalize_match :: "(pyval \<Rightarrow> ustr) \<Rightarrow> pyval \<Rightarrow> pyexc + match" where
  "normalize_match fmt v = normalize_at fmt 4 v"

definition normalize_action :: "(pyval \<Rightarrow> ustr) \<Rightarrow> pyval \<Rightarrow> rule_action" where
  "normalize_action fmt v =
     (let d = dict_of v; sev = get_or d ''severity'' PNone in
      \<lparr>a_tag = strip (str_or_empty fmt (get_or d ''tag'' PNone)), a_label = strip (str_or_empty fmt (get_or d ''label'' PNone)),
       a_severity = or_text (lower (strip (if truthy sev then py_str fmt sev else U ''info''))) (U ''info'')\<rparr>)"

definition first_truthy :: "pyval list \<Rightarrow> pyval" where
  "first_truthy vs = (case filter truthy vs of [] \<Rightarrow> PNone | v # _ \<Rightarrow> v)"

definition normalize_ruleset :: "(pyval \<Rightarrow> ustr) \<Rightarrow> bool \<Rightarrow> pyval \<Rightarrow> pyexc + rule" where
  "normalize_ruleset fmt allow_source item =
     (let d = dict_of item;
          rule_id = or_text (strip (str_or_empty fmt (first_truthy [get_or d ''id'' PNone, get_or d ''slug'' PNone, get_or d ''name'' PNone])))
                      (U ''custom-rule'');
          nm = get_or d ''name'' PNone;
          name = or_text (strip (if truthy nm then py_str fmt nm else rule_id)) rule_id in
      case (case map_of d (U ''enabled'') of None \<Rightarrow> Inr True | Some v \<Rightarrow> coerce_bool v) of
        Inl e \<Rightarrow> Inl e
      | Inr enabled \<Rightarrow>
          (case normalize_match fmt (get_or d ''match'' PNone) of
             Inl e \<Rightarrow> Inl e
           | Inr m \<Rightarrow> Inr \<lparr>r_id = rule_id, r_name = name, r_description = strip (str_or_empty fmt (get_or d ''description'' PNone)),
               r_enabled = enabled, r_priority = safe_int (get_or d ''priority'' (PInt 100)) 100, r_match = m,
               r_action = normalize_action fmt (get_or d ''action'' PNone),
               r_source = (if allow_source then or_text (strip (let s = get_or d ''source'' PNone in if truthy s then py_str fmt s else U ''custom'')) (U ''custom'') else [])\<rparr>))"

section \<open>Normalised rules are clean\<close>

lemma strip_strip [simp]: "strip (strip s) = strip s"
proof (cases "strip s = []")
  case False
  have "\<not> is_space (last (strip s))" "\<not> is_space (hd (strip s))"
  proof -
    let ?l = "dropWhile is_space s"
    have r: "rev (strip s) = dropWhile is_space (rev ?l)" by (simp add: strip_by_def rstrip_by_def lstrip_by_def)
    then show "\<not> is_space (last (strip s))" using False hd_dropWhile [of is_space "rev ?l"] by (metis hd_rev rev_is_Nil_conv)
    have "?l \<noteq> []"
    proof
      assume "?l = []"
      with r have "rev (strip s) = []" by (simp only: rev.simps dropWhile.simps)
      with False show False by simp
    qed
    moreover have "prefix (strip s) ?l" using rstrip_by_prefix [of is_space ?l] by (simp add: strip_by_def lstrip_by_def)
    ultimately show "\<not> is_space (hd (strip s))" using False hd_dropWhile [of is_space s] by (auto simp: prefix_def hd_append)
  qed
  then show ?thesis using strip_by_id False by blast
qed simp

lemma is_space_lower [simp]: "is_space (lower_cp c) = is_space c"
  by (auto simp: is_space_def lower_cp_def)

lemma dropWhile_lower: "dropWhile is_space (map lower_cp s) = map lower_cp (dropWhile is_space s)"
  by (induction s) auto

lemma strip_lower [simp]: "strip (lower s) = lower (strip s)"
  by (simp add: strip_by_def rstrip_by_def lstrip_by_def lower_def dropWhile_lower rev_map)

lemma nonblank_nonblank [simp]: "nonblank (nonblank xs) = nonblank xs"
  by (induction xs) (auto simp: nonblank_def)

lemma nonblank_lower: "nonblank (map lower xs) = map lower (nonblank xs)"
proof -
  have "lower x = [] \<longleftrightarrow> x = []" for x by (simp add: lower_def)
  then show ?thesis by (induction xs) (auto simp: nonblank_def)
qed

lemma protocol_name_fixed [simp]:
  "normalize_protocol_name (normalize_protocol_name s) = normalize_protocol_name s" "strip (normalize_protocol_name s) \<noteq> []"
proof -
  have u: "strip (U ''unknown'') = U ''unknown''" "lower (U ''unknown'') = U ''unknown''" by code_simp+
  show "normalize_protocol_name (normalize_protocol_name s) = normalize_protocol_name s" "strip (normalize_protocol_name s) \<noteq> []"
    using u by (auto simp: normalize_protocol_name_def Let_def)
qed

lemma unique_values_subset: "set (unique_values seen vs) \<subseteq> set vs"
  by (induction seen vs rule: unique_values.induct) auto

lemma protocol_items:
  assumes "protocol_key key"
  shows "protocol_names (map (py_str fmt) (list_items fmt d key)) = map (py_str fmt) (list_items fmt d key)"
proof -
  have "\<exists>t. v = PStr (normalize_protocol_name t)" if "v \<in> set (list_items fmt d key)" for v
    using that unique_values_subset [of "[]" "cleaned_items fmt d key"] assms
    by (auto simp: list_items_def cleaned_items_def)
  then have "normalize_protocol_name (py_str fmt v) = py_str fmt v \<and> strip (py_str fmt v) \<noteq> []" if "v \<in> set (list_items fmt d key)" for v
    using that by (fastforce simp: py_str_def)
  then show ?thesis unfolding protocol_names_def by (subst filter_True) (auto simp: map_idI)
qed

text \<open>The invariant of stored criteria: the cleaning that matching repeats on every packet changes
  nothing, counts are not negative and the grouping is one of the five choices.\<close>

definition clean_criteria :: "criteria \<Rightarrow> bool" where
  "clean_criteria c \<longleftrightarrow>
     protocol_names (m_protocols c) = m_protocols c \<and> protocol_names (m_exclude_protocols c) = m_exclude_protocols c
     \<and> (\<forall>xs \<in> {m_port_regex c, m_exclude_port_regex c, m_ips c, m_exclude_ips c, m_ip_regex c, m_exclude_ip_regex c,
          m_protocol_regex c, m_exclude_protocol_regex c, m_payload_regex c, m_payload_regex_exclude c}. nonblank xs = xs)
     \<and> map lower (m_ips c) = m_ips c \<and> map lower (m_exclude_ips c) = m_exclude_ips c
     \<and> (\<forall>xs \<in> {m_ip_versions c, m_exclude_ip_versions c, m_eth_types c, m_exclude_eth_types c, m_ports c, m_exclude_ports c,
          m_src_ports c, m_exclude_src_ports c, m_dst_ports c, m_exclude_dst_ports c, m_icmp_types c, m_icmp_codes c, m_arp_opcodes c}.
          distinct xs)
     \<and> 0 \<le> m_count_threshold c \<and> 0 \<le> m_window_seconds c \<and> m_group_by c \<in> set GROUP_BY_CHOICES"

fun deep :: "(criteria \<Rightarrow> bool) \<Rightarrow> nat \<Rightarrow> match \<Rightarrow> bool" where
  "deep P k (Match c alls anys nones) \<longleftrightarrow>
     P c \<and> (\<forall>m \<in> set alls \<union> set anys \<union> set nones. 0 < k \<and> deep P (k - 1) m)"

lemma nonblank_text_items [simp]: "nonblank (text_items fmt d key) = text_items fmt d key"
  by (simp add: text_items_def)

lemma nonblank_lower_text [simp]: "nonblank (map lower (text_items fmt d key)) = map lower (text_items fmt d key)"
  by (simp add: nonblank_lower)

lemma distinct_int_items [simp]: "distinct (int_items d key)"
  by (simp add: int_items_def unique_ordered_def)

lemma group_by_choice: "group_by_spec fmt v \<in> set GROUP_BY_CHOICES"
  by (simp add: group_by_spec_def Let_def GROUP_BY_CHOICES_def)

lemma criteria_of_clean: "clean_criteria (criteria_of fmt d)"
  unfolding clean_criteria_def criteria_of_def
  by (simp add: protocol_items protocol_key_def group_by_choice lower_idem comp_def)

lemma collect_Inr: "collect xs = Inr ys \<Longrightarrow> y \<in> set ys \<Longrightarrow> Inr y \<in> set xs"
  by (induction xs arbitrary: ys rule: collect.induct) (auto split: sum.splits)

lemma collect_Inl: "collect xs = Inl e \<Longrightarrow> Inl e \<in> set xs"
  by (induction xs rule: collect.induct) (auto split: sum.splits)

lemma criteria_error_kind: "criteria_error fmt d = Some e \<Longrightarrow> e \<in> {TypeError, ValueError}"
proof -
  assume a: "criteria_error fmt d = Some e"
  have f: "first_error xs = Some e \<Longrightarrow> Some e \<in> set xs" for xs
  proof -
    assume a: "first_error xs = Some e"
    then obtain ys where "filter (\<lambda>x. x \<noteq> None) xs = Some e # ys" by (auto simp: first_error_def split: list.splits)
    then have "Some e \<in> set (filter (\<lambda>x. x \<noteq> None) xs)" by simp
    then show "Some e \<in> set xs" by simp
  qed
  have "Some e \<in> set (map (list_error fmt d) LIST_KEYS_BEFORE @ [case request_only_flag d of Inl e \<Rightarrow> Some e | Inr _ \<Rightarrow> None]
      @ map (list_error fmt d) LIST_KEYS_AFTER)"
    using a by (intro f) (simp add: criteria_error_def)
  then show ?thesis
    by (auto simp: list_error_def request_only_flag_def split: if_splits sum.splits option.splits dest!: coerce_bool_total)
qed

lemma normalize_at_clean:
  "case normalize_at fmt k v of Inl e \<Rightarrow> e \<in> {TypeError, ValueError} | Inr m \<Rightarrow> deep clean_criteria k m"
proof (induction k arbitrary: v)
  case 0
  show ?case
    using criteria_error_kind [of fmt "dict_of v"] criteria_of_clean
    by (subst normalize_at.simps) (auto simp: Let_def split: option.split)
next
  case (Suc k)
  let ?conds = "\<lambda>key. collect (map (normalize_at fmt k) (condition_items (dict_of v) key))"
  have err: "e \<in> {TypeError, ValueError}" if "?conds key = Inl e" for key e
    using collect_Inl [OF that] Suc.IH by (force split: sum.splits)
  have ok: "deep clean_criteria k m" if "?conds key = Inr ms" "m \<in> set ms" for key ms m
    using collect_Inr [OF that] Suc.IH by (force split: sum.splits)
  show ?case
    using criteria_error_kind [of fmt "dict_of v"] criteria_of_clean err ok
    by (subst normalize_at.simps) (auto simp: Let_def split: option.split sum.split)
qed

text \<open>C29. Rules received from clients are cleaned once and for all. \<open>normalize_match\<close> raises only \<open>TypeError\<close> or
  \<open>ValueError\<close>, terminates on arbitrarily nested input with at most four levels of conditions,
  and every criteria object it returns, at every level, satisfies the stored-criteria
  invariant: protocol names, addresses and patterns are trimmed, non-empty and lower-case
  where matching compares lower-case text, number lists have no duplicates, and the counting
  condition is non-negative with a known grouping.\<close>

theorem normalize_match_clean:
  "case normalize_match fmt v of Inl e \<Rightarrow> e \<in> {TypeError, ValueError} | Inr m \<Rightarrow> deep clean_criteria 4 m"
  unfolding normalize_match_def by (rule normalize_at_clean)

section \<open>TCP flags\<close>

lemma split_from_sep: "c \<notin> set x \<Longrightarrow> split_from c None acc (x @ c # ys) = (acc @ x) # split_from c None [] ys"
  by (induction x arbitrary: acc) auto

lemma split_from_last: "c \<notin> set x \<Longrightarrow> split_from c None acc x = [acc @ x]"
  by (induction x arbitrary: acc) auto

lemma split_at_join: "parts \<noteq> [] \<Longrightarrow> \<forall>x \<in> set parts. c \<notin> set x \<Longrightarrow> split_at c None (join [c] parts) = parts"
proof (induction "[c]" parts rule: join.induct)
  case (3 x y ys)
  then show ?case by (simp add: split_at_def split_from_sep)
qed (simp_all add: split_at_def split_from_last)

definition FLAG_NAMES :: "ustr list" where
  "FLAG_NAMES = [U ''FIN'', U ''SYN'', U ''RST'', U ''PSH'', U ''ACK'', U ''URG'', U ''ECE'', U ''CWR'']"

lemma flag_names:
  assumes "x \<in> set FLAG_NAMES"
  shows "length x = 3" "\<forall>c \<in> set x. 65 \<le> c \<and> c \<le> 90" "x \<noteq> U ''NON''" "part_flags x = {x}"
proof -
  have "list_all (\<lambda>x. length x = 3 \<and> list_all (\<lambda>c. 65 \<le> c \<and> c \<le> 90) x \<and> x \<noteq> U ''NON'' \<and> part_flags x = {x}) FLAG_NAMES"
    by code_simp
  then have "length x = 3 \<and> list_all (\<lambda>c. 65 \<le> c \<and> c \<le> 90) x \<and> x \<noteq> U ''NON'' \<and> part_flags x = {x}"
    using assms unfolding list_all_iff by blast
  then show "length x = 3" "\<forall>c \<in> set x. 65 \<le> c \<and> c \<le> 90" "x \<noteq> U ''NON''" "part_flags x = {x}"
    by (simp_all add: list_all_iff)
qed

lemma join_chars: "set (join sep parts) \<subseteq> set sep \<union> (\<Union>x \<in> set parts. set x)"
  by (induction sep parts rule: join.induct) auto

lemma take_join: "parts \<noteq> [] \<Longrightarrow> take (length (hd parts)) (join sep parts) = hd parts"
  by (induction sep parts rule: join.induct) auto

lemma parse_joined_flags:
  assumes "set parts \<subseteq> set FLAG_NAMES" "parts \<noteq> []"
  shows "parse_tcp_flags (join (U '','') parts) = set parts"
proof -
  define t where "t = join (U '','') parts"
  have nm: "x \<in> set parts \<Longrightarrow> x \<in> set FLAG_NAMES" for x using assms(1) by blast
  have comma: "U '','' = [44]" by (simp add: U_def)
  have ch: "\<forall>c \<in> set t. c = 44 \<or> 65 \<le> c \<and> c \<le> 90"
    using join_chars [of "U '',''" parts] nm flag_names(2) by (fastforce simp: t_def comma)
  have l3: "length (hd parts) = 3" by (rule flag_names) (simp add: nm assms(2))
  have t3: "take 3 t = hd parts" using take_join [of parts "U '',''"] l3 assms(2) by (simp add: t_def)
  have "t \<noteq> []" using t3 l3 by auto
  moreover have "t \<noteq> TCP_FLAGS_NONE"
  proof
    assume "t = TCP_FLAGS_NONE"
    then have "hd parts = U ''NON''" using t3 by (simp add: TCP_FLAGS_NONE_def U_def)
    then show False using flag_names(3) [OF nm, of "hd parts"] assms(2) by simp
  qed
  moreover have "strip t = t"
    by (rule strip_by_all_not) (use ch in \<open>auto simp: is_space_def\<close>)
  moreover have "upper t = t" using ch by (auto simp: upper_def intro!: map_idI)
  moreover have "map (\<lambda>c. if c \<in> set FLAG_SEPARATORS then 44 else c) t = t"
    using ch by (auto simp: FLAG_SEPARATORS_def intro!: map_idI)
  moreover have "filter (\<lambda>x. x \<noteq> []) (split_at 44 None t) = parts"
  proof -
    have "split_at 44 None t = parts"
      unfolding t_def comma using assms(2) nm flag_names(2) by (intro split_at_join) fastforce+
    moreover have "[] \<notin> set parts" using nm [of "[]"] flag_names(1) [of "[]"] by auto
    ultimately show ?thesis by (auto intro!: filter_True)
  qed
  ultimately have "parse_tcp_flags t = \<Union> (part_flags ` set parts)" by (simp add: parse_tcp_flags_def)
  also have "\<dots> = set parts" using nm flag_names(4) by auto
  finally show ?thesis by (simp add: t_def)
qed

lemma parse_tcp_flags_names: "parse_tcp_flags v \<subseteq> set FLAG_NAMES"
proof -
  have a: "map_of TCP_FLAG_ALIASES k = Some n \<Longrightarrow> n \<in> set FLAG_NAMES" for k n
    by (auto simp: TCP_FLAG_ALIASES_def FLAG_NAMES_def split: if_splits)
  have "part_flags x \<subseteq> set FLAG_NAMES" for x
    using a by (auto simp: part_flags_def list_all_iff split: option.splits)
  then show ?thesis by (auto simp: parse_tcp_flags_def Let_def)
qed

text \<open>The parser and the rules agree on TCP flags. For every flags byte, reading back the text the parser
  stores in the packet gives exactly the flags whose bits are set (\<open>NONE\<close> meaning no flag), and
  storing any flag criterion in its normalised spelling keeps its meaning.\<close>

theorem tcp_flags_roundtrip:
  "parse_tcp_flags (tcp_flag_text b) = {U n | m n. (m, n) \<in> set TCP_FLAG_NAMES \<and> b AND m \<noteq> 0}
   \<and> parse_tcp_flags (tcp_flag_spec v) = parse_tcp_flags v"
proof
  have none: "parse_tcp_flags (U ''NONE'') = {}" by code_simp
  let ?fs = "map (\<lambda>(m, n). U n) (filter (\<lambda>(m, n). b AND m \<noteq> 0) TCP_FLAG_NAMES)"
  have s: "set ?fs = {U n | m n. (m, n) \<in> set TCP_FLAG_NAMES \<and> b AND m \<noteq> 0}" by force
  have "set ?fs \<subseteq> set FLAG_NAMES" by (auto simp: TCP_FLAG_NAMES_def FLAG_NAMES_def)
  then have "parse_tcp_flags (tcp_flag_text b) = set ?fs"
    using none parse_joined_flags [of ?fs] unfolding tcp_flag_text_def Let_def by (cases "?fs = []") (simp_all only: if_True if_False set_simps simp_thms)
  with s show "parse_tcp_flags (tcp_flag_text b) = {U n | m n. (m, n) \<in> set TCP_FLAG_NAMES \<and> b AND m \<noteq> 0}" by simp
  have f: "finite (parse_tcp_flags v)" using parse_tcp_flags_names finite_subset by blast
  then show "parse_tcp_flags (tcp_flag_spec v) = parse_tcp_flags v"
    using parse_joined_flags [of "sorted_list_of_set (parse_tcp_flags v)"] none parse_tcp_flags_names [of v]
    by (auto simp: tcp_flag_spec_def Let_def TCP_FLAGS_NONE_def)
qed

end
