(* ===== verification/Pattern_Automaton.thy ===== *)
theory Pattern_Automaton
  imports Prelude
begin

text \<open>
  The multi-pattern matcher of \<^verbatim>\<open>ahocorasick.py\<close>, with its nodes in an explicit store: a node
  is an index into the heap (the root is 0), \<open>children\<close> is the insertion-ordered dictionary
  of the source, and the failure and output fields are updated in place. The two loops that
  follow failure links and the breadth-first traversal are \<open>partial_function\<close>s, so that
  their termination is a theorem.
\<close>

section \<open>The program\<close>

record ac_node =
  children :: "(nat \<times> nat) list"
  fail :: nat
  outp :: "ustr set"

type_synonym ac_heap = "ac_node list"

definition new_node :: "nat \<Rightarrow> ac_node" where
  "new_node self = \<lparr>children = [], fail = self, outp = {}\<rparr>"

definition child :: "ac_heap \<Rightarrow> nat \<Rightarrow> nat \<Rightarrow> nat option" where
  "child h n c = map_of (children (h ! n)) c"

fun insert_from :: "ac_heap \<Rightarrow> nat \<Rightarrow> ustr \<Rightarrow> ustr \<Rightarrow> ac_heap" where
  "insert_from h n pat [] = h[n := (h ! n)\<lparr>outp := outp (h ! n) \<union> {pat}\<rparr>]"
| "insert_from h n pat (c # cs) =
     (case child h n c of
        Some k \<Rightarrow> insert_from h k pat cs
      | None \<Rightarrow> (let k = length h;
                     h' = h[n := (h ! n)\<lparr>children := children (h ! n) @ [(c, k)]\<rparr>] @ [new_node k]
                 in insert_from h' k pat cs))"

definition insert_pattern :: "ustr \<Rightarrow> ac_heap \<Rightarrow> ac_heap" where
  "insert_pattern pat h = insert_from h 0 pat pat"

partial_function (option) follow_fail :: "ac_heap \<Rightarrow> nat \<Rightarrow> nat \<Rightarrow> nat option" where
  "follow_fail h c n =
     (if n \<noteq> 0 \<and> child h n c = None then follow_fail h c (fail (h ! n)) else Some n)"

definition goto_child :: "ac_heap \<Rightarrow> nat \<Rightarrow> nat \<Rightarrow> nat" where
  "goto_child h c n = (case child h n c of None \<Rightarrow> 0 | Some k \<Rightarrow> k)"

fun link_children :: "ac_heap \<Rightarrow> nat \<Rightarrow> (nat \<times> nat) list \<Rightarrow> nat list \<Rightarrow> (ac_heap \<times> nat list) option" where
  "link_children h cur [] q = Some (h, q)"
| "link_children h cur ((c, k) # rest) q =
     (case follow_fail h c (fail (h ! cur)) of
        None \<Rightarrow> None
      | Some f \<Rightarrow>
          (let g = goto_child h c f;
               h' = h[k := (h ! k)\<lparr>fail := g, outp := outp (h ! k) \<union> outp (h ! g)\<rparr>]
           in link_children h' cur rest (q @ [k])))"

partial_function (option) link_queue :: "ac_heap \<Rightarrow> nat list \<Rightarrow> ac_heap option" where
  "link_queue h q =
     (case q of
        [] \<Rightarrow> Some h
      | cur # rest \<Rightarrow>
          Option.bind (link_children h cur (children (h ! cur)) rest) (\<lambda>(h', q'). link_queue h' q'))"

definition build_fail_links :: "ac_heap \<Rightarrow> ac_heap option" where
  "build_fail_links h =
     (let tops = map snd (children (h ! 0)) in
      link_queue (fold (\<lambda>k h. h[k := (h ! k)\<lparr>fail := 0\<rparr>]) tops h) tops)"

record aho_corasick =
  nodes :: ac_heap
  pattern_count :: nat

text \<open>
  \<open>AhoCorasick(patterns)\<close>: the set of the non-empty patterns, in whatever order the set
  yields them (here the order of the argument), inserted one by one and then linked.
\<close>

definition build_automaton :: "ustr list \<Rightarrow> aho_corasick option" where
  "build_automaton patterns =
     (let distinct_pats = remdups (filter (\<lambda>p. p \<noteq> []) patterns) in
      map_option (\<lambda>h. \<lparr>nodes = h, pattern_count = length distinct_pats\<rparr>)
        (build_fail_links (fold insert_pattern distinct_pats [new_node 0])))"

definition next_state :: "ac_heap \<Rightarrow> nat \<Rightarrow> nat \<Rightarrow> nat option" where
  "next_state h n c = map_option (goto_child h c) (follow_fail h c n)"

fun search_from :: "ac_heap \<Rightarrow> nat \<Rightarrow> ustr set \<Rightarrow> ustr \<Rightarrow> ustr set option" where
  "search_from h n matches [] = Some matches"
| "search_from h n matches (c # cs) =
     (case next_state h n c of None \<Rightarrow> None
      | Some m \<Rightarrow> search_from h m (if outp (h ! m) \<noteq> {} then matches \<union> outp (h ! m) else matches) cs)"

definition search :: "aho_corasick \<Rightarrow> ustr \<Rightarrow> ustr set option" where
  "search a t = (if pattern_count a = 0 \<or> t = [] then Some {} else search_from (nodes a) 0 {} t)"

fun contains_from :: "ac_heap \<Rightarrow> nat \<Rightarrow> ustr \<Rightarrow> bool option" where
  "contains_from h n [] = Some False"
| "contains_from h n (c # cs) =
     (case next_state h n c of None \<Rightarrow> None
      | Some m \<Rightarrow> if outp (h ! m) \<noteq> {} then Some True else contains_from h m cs)"

definition contains_any :: "aho_corasick \<Rightarrow> ustr \<Rightarrow> bool option" where
  "contains_any a t = (if pattern_count a = 0 \<or> t = [] then Some False else contains_from (nodes a) 0 t)"

section \<open>Words and suffixes\<close>

text \<open>\<open>longest S w u\<close>: \<open>u\<close> is the longest suffix of \<open>w\<close> in \<open>S\<close>.\<close>

definition longest :: "ustr set \<Rightarrow> ustr \<Rightarrow> ustr \<Rightarrow> bool" where
  "longest S w u \<longleftrightarrow> u \<in> S \<and> suffix u w \<and> (\<forall>v \<in> S. suffix v w \<longrightarrow> suffix v u)"

definition longest_proper :: "ustr set \<Rightarrow> ustr \<Rightarrow> ustr \<Rightarrow> bool" where
  "longest_proper S w u \<longleftrightarrow> u \<in> S \<and> strict_suffix u w \<and> (\<forall>v \<in> S. strict_suffix v w \<longrightarrow> suffix v u)"

definition prefix_closed :: "ustr set \<Rightarrow> bool" where
  "prefix_closed S \<longleftrightarrow> (\<forall>w c. w @ [c] \<in> S \<longrightarrow> w \<in> S)"

lemma prefix_closed_append: "prefix_closed S \<Longrightarrow> w @ us \<in> S \<Longrightarrow> w \<in> S"
proof (induction us rule: rev_induct)
  case (snoc x us)
  then have "(w @ us) @ [x] \<in> S" by simp
  with snoc show ?case unfolding prefix_closed_def by blast
qed simp

lemma strict_suffix_snoc [simp]: "strict_suffix (v @ [c]) (w @ [d]) \<longleftrightarrow> c = d \<and> strict_suffix v w"
  by (auto simp: strict_suffix_def)

lemma strict_suffix_snoc_cases:
  "strict_suffix v (w @ [c]) \<Longrightarrow> (v = [] \<Longrightarrow> P) \<Longrightarrow> (\<And>u. v = u @ [c] \<Longrightarrow> strict_suffix u w \<Longrightarrow> P) \<Longrightarrow> P"
  by (cases v rule: rev_cases) auto

lemma suffix_snoc_cases:
  "suffix v (w @ [c]) \<Longrightarrow> (v = [] \<Longrightarrow> P) \<Longrightarrow> (\<And>u. v = u @ [c] \<Longrightarrow> suffix u w \<Longrightarrow> P) \<Longrightarrow> P"
  by (cases v rule: rev_cases) auto

section \<open>The trie in the heap\<close>

text \<open>
  \<open>spells h ws\<close>: the \<open>i\<close>-th node of the heap spells the word \<open>ws ! i\<close>, and the children of a
  node are exactly the one-letter extensions of its word.
\<close>

definition spells :: "ac_heap \<Rightarrow> ustr list \<Rightarrow> bool" where
  "spells h ws \<longleftrightarrow> length ws = length h \<and> ws \<noteq> [] \<and> ws ! 0 = [] \<and> distinct ws
     \<and> prefix_closed (set ws)
     \<and> (\<forall>i < length h. distinct (map fst (children (h ! i)))
          \<and> (\<forall>c k. child h i c = Some k \<longleftrightarrow> k < length h \<and> ws ! k = ws ! i @ [c]))"

definition owns :: "ac_heap \<Rightarrow> ustr list \<Rightarrow> ustr set \<Rightarrow> bool" where
  "owns h ws pats \<longleftrightarrow> (\<forall>i < length h. outp (h ! i) = {p \<in> pats. p = ws ! i})"

lemma spells_index: "spells h ws \<Longrightarrow> w \<in> set ws \<longleftrightarrow> (\<exists>i < length h. ws ! i = w)"
  by (auto simp: spells_def in_set_conv_nth)

lemma spells_inj: "spells h ws \<Longrightarrow> i < length h \<Longrightarrow> j < length h \<Longrightarrow> ws ! i = ws ! j \<Longrightarrow> i = j"
  by (auto simp: spells_def nth_eq_iff_index_eq)

lemma spells_child:
  "spells h ws \<Longrightarrow> i < length h \<Longrightarrow> child h i c = Some k \<longleftrightarrow> k < length h \<and> ws ! k = ws ! i @ [c]"
  by (simp add: spells_def)

lemma spells_child_None:
  "spells h ws \<Longrightarrow> i < length h \<Longrightarrow> child h i c = None \<longleftrightarrow> ws ! i @ [c] \<notin> set ws"
  using spells_child [of h ws i c] spells_index [of h ws "ws ! i @ [c]"]
  by (cases "child h i c") auto

lemma spells_root: "spells h ws \<Longrightarrow> i < length h \<Longrightarrow> ws ! i = [] \<longleftrightarrow> i = 0"
proof -
  assume sp: "spells h ws" and i: "i < length h"
  then have "0 < length h" "ws ! 0 = []" by (auto simp: spells_def)
  with spells_inj [OF sp i] show ?thesis by auto
qed

lemma spells_Nil_in: "spells h ws \<Longrightarrow> [] \<in> set ws"
  by (auto simp: spells_def in_set_conv_nth intro!: exI [of _ 0])

lemma spells_new: "spells [new_node 0] [[]]" "owns [new_node 0] [[]] {}"
  by (auto simp: spells_def owns_def new_node_def child_def prefix_closed_def)

lemma spells_grow:
  assumes sp: "spells h ws" and n: "n < length h" and no: "child h n c = None"
  shows "spells (h[n := (h ! n)\<lparr>children := children (h ! n) @ [(c, length h)]\<rparr>] @ [new_node (length h)])
           (ws @ [ws ! n @ [c]])" (is "spells ?h ?ws")
proof -
  have fresh: "ws ! n @ [c] \<notin> set ws" using spells_child_None [OF sp n] no by simp
  have len: "length ws = length h" using sp by (simp add: spells_def)
  have d: "distinct (map fst (children (?h ! i)))" if "i < length ?h" for i
    using that sp n no
    by (auto simp: nth_append nth_list_update new_node_def spells_def child_def map_of_eq_None_iff)
  have c: "child ?h i d = Some k \<longleftrightarrow> k < length ?h \<and> ?ws ! k = ?ws ! i @ [d]" if i: "i < length ?h" for i d k
  proof (cases "i = length h")
    case True
    have "ws ! n @ [c, d] \<notin> set ws"
      using sp fresh unfolding spells_def prefix_closed_def by (metis append.assoc append_Cons append_Nil)
    then have "\<nexists>k. k < length h \<and> ws ! k = ws ! n @ [c, d]" using len by (metis nth_mem)
    then show ?thesis using True len by (auto simp: nth_append child_def new_node_def less_Suc_eq)
  next
    case False
    then have il: "i < length h" using i by simp
    have old: "child h i d = Some k \<longleftrightarrow> k < length h \<and> ws ! k = ws ! i @ [d]" by (rule spells_child [OF sp il])
    show ?thesis
    proof (cases "i = n \<and> d = c")
      case True
      then have "child ?h i d = Some (length h)"
        using n no by (simp add: child_def nth_append map_add_def)
      moreover have "k < length h \<Longrightarrow> ws ! k \<noteq> ws ! n @ [c]" using fresh len by (metis nth_mem)
      ultimately show ?thesis using True len n by (auto simp: nth_append less_Suc_eq)
    next
      case ne: False
      then have "child ?h i d = child h i d"
        using il n by (cases "i = n") (auto simp: child_def nth_append map_add_def split: option.splits)
      moreover have "ws ! n @ [c] \<noteq> ws ! i @ [d]" using ne spells_inj [OF sp n il] by auto
      ultimately show ?thesis using old il len by (auto simp: nth_append less_Suc_eq)
    qed
  qed
  have "prefix_closed (set ?ws)"
    using sp n len unfolding spells_def prefix_closed_def by (auto intro: nth_mem)
  then show ?thesis
    using sp fresh d c len unfolding spells_def by (auto simp: nth_append)
qed

lemma owns_grow:
  assumes "spells h ws" "owns h ws pats" "n < length h" "ws ! n @ [c] \<notin> pats"
  shows "owns (h[n := (h ! n)\<lparr>children := children (h ! n) @ [(c, length h)]\<rparr>] @ [new_node (length h)])
           (ws @ [ws ! n @ [c]]) pats"
  using assms unfolding owns_def spells_def
  by (auto simp: nth_append nth_list_update new_node_def less_Suc_eq)

lemma spells_output: "spells (h[n := (h ! n)\<lparr>outp := X\<rparr>]) ws \<longleftrightarrow> spells h ws"
proof (cases "n < length h")
  case True
  then have "child (h[n := (h ! n)\<lparr>outp := X\<rparr>]) i c = child h i c"
    and "children (h[n := (h ! n)\<lparr>outp := X\<rparr>] ! i) = children (h ! i)" for i c
    by (cases "i = n"; simp add: child_def nth_list_update)+
  then show ?thesis by (simp add: spells_def)
qed (simp add: list_update_beyond)

lemma insert_from_spells:
  "spells h ws \<Longrightarrow> owns h ws pats \<Longrightarrow> pats \<subseteq> set ws \<Longrightarrow> n < length h \<Longrightarrow> ws ! n @ cs = pat \<Longrightarrow>
   \<exists>ws'. spells (insert_from h n pat cs) ws' \<and> owns (insert_from h n pat cs) ws' (insert pat pats)
     \<and> insert pat pats \<subseteq> set ws'"
proof (induction h n pat cs arbitrary: ws rule: insert_from.induct)
  case (1 h n pat)
  have "outp (h[n := (h ! n)\<lparr>outp := outp (h ! n) \<union> {pat}\<rparr>] ! i) = {p \<in> insert pat pats. p = ws ! i}"
    if i: "i < length h" for i
  proof (cases "i = n")
    case True
    with 1 show ?thesis by (auto simp: owns_def)
  next
    case False
    with spells_inj [OF 1(1) 1(4) i] 1(5) have "ws ! i \<noteq> pat" by auto
    with False 1(2) i show ?thesis by (auto simp: owns_def)
  qed
  then have "owns (h[n := (h ! n)\<lparr>outp := outp (h ! n) \<union> {pat}\<rparr>]) ws (insert pat pats)"
    by (simp add: owns_def)
  moreover have "pat \<in> set ws" using 1(1,4,5) by (auto simp: spells_def)
  ultimately show ?case using 1(1,3) by (auto simp: spells_output intro!: exI [of _ ws])
next
  case (2 h n pat c cs)
  show ?case
  proof (cases "child h n c")
    case (Some k)
    then have "k < length h" "ws ! k = ws ! n @ [c]" using spells_child [OF 2(3) 2(6)] by auto
    moreover from this(2) 2(7) have "ws ! k @ cs = pat" by simp
    ultimately show ?thesis using 2(2) [OF Some 2(3-5)] Some by simp
  next
    case None
    let ?h = "h[n := (h ! n)\<lparr>children := children (h ! n) @ [(c, length h)]\<rparr>] @ [new_node (length h)]"
    let ?ws = "ws @ [ws ! n @ [c]]"
    have len: "length ws = length h" using 2(3) by (simp add: spells_def)
    have "ws ! n @ [c] \<notin> pats" using spells_child_None [OF 2(3) 2(6)] None 2(5) by auto
    then have "owns ?h ?ws pats" by (rule owns_grow [OF 2(3,4,6)])
    moreover have "spells ?h ?ws" using spells_grow [OF 2(3) 2(6) None] .
    moreover have "pats \<subseteq> set ?ws" "length h < length ?h" "?ws ! length h @ cs = pat"
      using 2(5,7) len by (auto simp: nth_append)
    ultimately show ?thesis
      using 2(1) [OF None refl refl, of ?ws] None by (simp add: Let_def)
  qed
qed

lemma insert_patterns_spells:
  "spells h ws \<Longrightarrow> owns h ws pats \<Longrightarrow> pats \<subseteq> set ws \<Longrightarrow>
   \<exists>ws'. spells (fold insert_pattern ps h) ws' \<and> owns (fold insert_pattern ps h) ws' (set ps \<union> pats)
     \<and> set ps \<union> pats \<subseteq> set ws'"
proof (induction ps arbitrary: h ws pats)
  case (Cons p ps)
  have "0 < length h" "ws ! 0 = []" using Cons.prems(1) by (auto simp: spells_def)
  then obtain ws1 where "spells (insert_pattern p h) ws1" "owns (insert_pattern p h) ws1 (insert p pats)"
      "insert p pats \<subseteq> set ws1"
    using insert_from_spells [OF Cons.prems, of 0 p p] by (auto simp: insert_pattern_def)
  from Cons.IH [OF this] show ?case by simp
qed auto

section \<open>Failure links\<close>

definition fail_ok :: "ac_heap \<Rightarrow> ustr list \<Rightarrow> nat \<Rightarrow> bool" where
  "fail_ok h ws i \<longleftrightarrow> fail (h ! i) < length h \<and> longest_proper (set ws) (ws ! i) (ws ! fail (h ! i))"

definition linked :: "ac_heap \<Rightarrow> ustr list \<Rightarrow> ustr set \<Rightarrow> nat \<Rightarrow> bool" where
  "linked h ws pats i \<longleftrightarrow> fail_ok h ws i \<and> outp (h ! i) = {p \<in> pats. suffix p (ws ! i)}"

text \<open>Following failure links ends, at the longest suffix that can be extended by the letter.\<close>

lemma follow_fail_ok:
  assumes sp: "spells h ws" and n: "n < length h"
    and ok: "\<forall>j < length h. j \<noteq> 0 \<longrightarrow> length (ws ! j) \<le> length (ws ! n) \<longrightarrow> fail_ok h ws j"
  shows "\<exists>f. follow_fail h c n = Some f \<and> f < length h \<and> suffix (ws ! f) (ws ! n)
    \<and> (f = 0 \<or> ws ! f @ [c] \<in> set ws)
    \<and> (\<forall>v \<in> set ws. suffix v (ws ! n) \<longrightarrow> v @ [c] \<in> set ws \<longrightarrow> suffix v (ws ! f))"
  using n ok
proof (induction "length (ws ! n)" arbitrary: n rule: less_induct)
  case less
  show ?case
  proof (cases "n \<noteq> 0 \<and> child h n c = None")
    case False
    then have "follow_fail h c n = Some n" by (subst follow_fail.simps) auto
    moreover have "n = 0 \<or> ws ! n @ [c] \<in> set ws"
      using False spells_child_None [OF sp less.prems(1)] by auto
    ultimately show ?thesis using less.prems(1) by auto
  next
    case True
    let ?m = "fail (h ! n)"
    from True less.prems have fo: "fail_ok h ws n" by simp
    then have m: "?m < length h" and lp: "longest_proper (set ws) (ws ! n) (ws ! ?m)"
      by (auto simp: fail_ok_def)
    have shorter: "length (ws ! ?m) < length (ws ! n)"
      using lp by (simp add: longest_proper_def suffix_length_less)
    have "\<forall>j < length h. j \<noteq> 0 \<longrightarrow> length (ws ! j) \<le> length (ws ! ?m) \<longrightarrow> fail_ok h ws j"
      using less.prems(2) shorter by auto
    from less.hyps [OF shorter m this] obtain f where f: "follow_fail h c ?m = Some f" "f < length h"
      "suffix (ws ! f) (ws ! ?m)" "f = 0 \<or> ws ! f @ [c] \<in> set ws"
      "\<forall>v \<in> set ws. suffix v (ws ! ?m) \<longrightarrow> v @ [c] \<in> set ws \<longrightarrow> suffix v (ws ! f)" by blast
    have "follow_fail h c n = Some f" using True f(1) by (subst follow_fail.simps) simp
    moreover have "suffix (ws ! f) (ws ! n)"
      using f(3) lp by (meson longest_proper_def suffix_order.dual_order.trans suffix_order.less_imp_le)
    moreover have "suffix v (ws ! f)" if v: "v \<in> set ws" "suffix v (ws ! n)" "v @ [c] \<in> set ws" for v
    proof -
      have "v \<noteq> ws ! n" using True spells_child_None [OF sp less.prems(1)] v(3) by auto
      then have "strict_suffix v (ws ! n)" using v(2) by (simp add: strict_suffix_def)
      then have "suffix v (ws ! ?m)" using lp v(1) by (simp add: longest_proper_def)
      then show ?thesis using f(5) v by simp
    qed
    ultimately show ?thesis using f(2,4) by blast
  qed
qed

lemma goto_child_longest:
  assumes sp: "spells h ws" and f: "f < length h" "f = 0 \<or> ws ! f @ [c] \<in> set ws" "suffix (ws ! f) u"
    and max: "\<forall>v \<in> set ws. suffix v u \<longrightarrow> v @ [c] \<in> set ws \<longrightarrow> suffix v (ws ! f)"
  shows "goto_child h c f < length h \<and> longest (set ws) (u @ [c]) (ws ! goto_child h c f)"
proof -
  have pc: "v @ [c] \<in> set ws \<Longrightarrow> v \<in> set ws" for v using sp by (auto simp: spells_def prefix_closed_def)
  show ?thesis
  proof (cases "child h f c")
    case (Some k)
    then have k: "k < length h" "ws ! k = ws ! f @ [c]" using spells_child [OF sp f(1)] by auto
    have "suffix v (ws ! k)" if "v \<in> set ws" "suffix v (u @ [c])" for v
      using that(2) by (rule suffix_snoc_cases) (use that max pc k in auto)
    then show ?thesis using k f sp Some
      by (auto simp: goto_child_def longest_def spells_index)
  next
    case None
    then have no: "ws ! f @ [c] \<notin> set ws" using spells_child_None [OF sp f(1)] by simp
    then have "f = 0" using f(2) by simp
    then have f0: "ws ! f = []" using spells_root [OF sp f(1)] by simp
    have "v = []" if v: "v \<in> set ws" "suffix v (u @ [c])" for v
      using v(2)
    proof (rule suffix_snoc_cases)
      fix w assume w: "v = w @ [c]" "suffix w u"
      then have "suffix w (ws ! f)" using max pc v(1) by simp
      then have "w = []" using f0 by simp
      then show ?thesis using no f0 w v(1) by simp
    qed
    moreover have "0 < length h" "ws ! 0 = []" using sp by (auto simp: spells_def)
    ultimately show ?thesis using None spells_Nil_in [OF sp] by (auto simp: goto_child_def longest_def)
  qed
qed

lemma step_longest:
  assumes sp: "spells h ws" and n: "n < length h"
    and ok: "\<forall>j < length h. j \<noteq> 0 \<longrightarrow> length (ws ! j) \<le> length (ws ! n) \<longrightarrow> fail_ok h ws j"
  obtains f where "follow_fail h c n = Some f" "goto_child h c f < length h"
    "longest (set ws) (ws ! n @ [c]) (ws ! goto_child h c f)"
proof -
  obtain f where "follow_fail h c n = Some f" "f < length h" "suffix (ws ! f) (ws ! n)"
    "f = 0 \<or> ws ! f @ [c] \<in> set ws"
    "\<forall>v \<in> set ws. suffix v (ws ! n) \<longrightarrow> v @ [c] \<in> set ws \<longrightarrow> suffix v (ws ! f)"
    using follow_fail_ok [OF assms] by blast
  with goto_child_longest [OF sp] that show thesis by blast
qed

section \<open>Breadth-first linking\<close>

definition outs_between :: "ac_heap \<Rightarrow> ustr list \<Rightarrow> ustr set \<Rightarrow> bool" where
  "outs_between h ws pats \<longleftrightarrow> (\<forall>i < length h. {p \<in> pats. p = ws ! i} \<subseteq> outp (h ! i)
      \<and> outp (h ! i) \<subseteq> {p \<in> pats. suffix p (ws ! i)})"

lemma spells_link: "spells (h[k := (h ! k)\<lparr>fail := g, outp := X\<rparr>]) ws \<longleftrightarrow> spells h ws"
proof (cases "k < length h")
  case True
  then have "child (h[k := (h ! k)\<lparr>fail := g, outp := X\<rparr>]) i c = child h i c"
    and "children (h[k := (h ! k)\<lparr>fail := g, outp := X\<rparr>] ! i) = children (h ! i)" for i c
    by (cases "i = k"; simp add: child_def nth_list_update)+
  then show ?thesis by (simp add: spells_def)
qed (simp add: list_update_beyond)

lemma children_link: "children (h[k := (h ! k)\<lparr>fail := g, outp := X\<rparr>] ! i) = children (h ! i)"
  by (cases "k < length h"; cases "i = k") (simp_all add: list_update_beyond)

text \<open>One child: its failure link is the longest proper suffix, its output becomes complete.\<close>

lemma link_one:
  assumes sp: "spells h ws" and cur: "cur < length h" "cur \<noteq> 0"
    and below: "\<forall>j < length h. j \<noteq> 0 \<longrightarrow> length (ws ! j) \<le> length (ws ! cur) \<longrightarrow> linked h ws pats j"
    and ch: "child h cur c = Some k" and ob: "outs_between h ws pats" and ne: "[] \<notin> pats" "pats \<subseteq> set ws"
  obtains f where "follow_fail h c (fail (h ! cur)) = Some f"
    "linked (h[k := (h ! k)\<lparr>fail := goto_child h c f, outp := outp (h ! k) \<union> outp (h ! goto_child h c f)\<rparr>]) ws pats k"
proof -
  have k: "k < length h" "ws ! k = ws ! cur @ [c]" using spells_child [OF sp cur(1)] ch by auto
  let ?m = "fail (h ! cur)"
  have "linked h ws pats cur" using below cur by simp
  then have m: "?m < length h" and lp: "longest_proper (set ws) (ws ! cur) (ws ! ?m)"
    by (auto simp: linked_def fail_ok_def)
  have shorter: "length (ws ! ?m) < length (ws ! cur)"
    using lp by (simp add: longest_proper_def suffix_length_less)
  have "\<forall>j < length h. j \<noteq> 0 \<longrightarrow> length (ws ! j) \<le> length (ws ! ?m) \<longrightarrow> fail_ok h ws j"
    using below shorter by (auto simp: linked_def)
  from step_longest [OF sp m this] obtain f where f: "follow_fail h c ?m = Some f"
    "goto_child h c f < length h" "longest (set ws) (ws ! ?m @ [c]) (ws ! goto_child h c f)" .
  let ?g = "goto_child h c f"
  have lk: "longest_proper (set ws) (ws ! k) (ws ! ?g)"
  proof -
    have "strict_suffix (ws ! ?g) (ws ! k)"
    proof -
      have "strict_suffix (ws ! ?m @ [c]) (ws ! k)" using lp k(2) by (simp add: longest_proper_def)
      with f(3) show ?thesis by (metis longest_def suffix_order.le_less_trans)
    qed
    moreover have "suffix v (ws ! ?g)" if v: "v \<in> set ws" "strict_suffix v (ws ! k)" for v
      using v(2) unfolding k(2)
    proof (rule strict_suffix_snoc_cases)
      fix u assume u: "v = u @ [c]" "strict_suffix u (ws ! cur)"
      then have "u \<in> set ws" using v(1) sp by (auto simp: spells_def prefix_closed_def)
      then have "suffix u (ws ! ?m)" using lp u by (simp add: longest_proper_def)
      then show ?thesis using f(3) u v(1) by (simp add: longest_def)
    qed simp
    ultimately show ?thesis using f(3) by (simp add: longest_proper_def longest_def)
  qed
  have gk: "?g \<noteq> k" using lk by (auto simp: longest_proper_def strict_suffix_def)
  have "outp (h ! ?g) = {p \<in> pats. suffix p (ws ! ?g)}"
  proof (cases "?g = 0")
    case True
    moreover have "ws ! 0 = []" "0 < length h" using sp by (auto simp: spells_def)
    ultimately show ?thesis using ob ne by (auto simp: outs_between_def)
  next
    case False
    have "length (ws ! ?g) \<le> length (ws ! cur)"
      using lk k(2) suffix_length_less [of "ws ! ?g" "ws ! k"] by (simp add: longest_proper_def)
    then show ?thesis using below False f(2) by (simp add: linked_def)
  qed
  moreover have "suffix p (ws ! k) \<longleftrightarrow> p = ws ! k \<or> suffix p (ws ! ?g)" if "p \<in> pats" for p
    using lk that ne(2) unfolding longest_proper_def
    by (auto simp: strict_suffix_def intro: suffix_order.order_trans)
  ultimately have "outp (h ! k) \<union> outp (h ! ?g) = {p \<in> pats. suffix p (ws ! k)}"
    using ob k(1) by (auto simp: outs_between_def)
  with lk f(2) k(1) have "linked (h[k := (h ! k)\<lparr>fail := ?g, outp := outp (h ! k) \<union> outp (h ! ?g)\<rparr>]) ws pats k"
    by (simp add: linked_def fail_ok_def)
  with f(1) that show thesis by blast
qed

lemma linked_other: "i \<noteq> k \<Longrightarrow> linked (h[k := n]) ws pats i \<longleftrightarrow> linked h ws pats i"
  by (simp add: linked_def fail_ok_def)

lemma outs_between_link:
  assumes "outs_between h ws pats" "k < length h" "linked (h[k := n]) ws pats k" "outp (h ! k) \<subseteq> outp n"
  shows "outs_between (h[k := n]) ws pats"
  using assms unfolding outs_between_def linked_def by (auto simp: nth_list_update)

definition same_shape :: "ac_heap \<Rightarrow> ac_heap \<Rightarrow> bool" where
  "same_shape h h' \<longleftrightarrow> length h' = length h \<and> (\<forall>i. children (h' ! i) = children (h ! i))"

lemma spells_same_shape: "same_shape h h' \<Longrightarrow> spells h' ws \<longleftrightarrow> spells h ws"
  by (simp add: same_shape_def spells_def child_def)

lemma link_children_ok:
  assumes "spells h ws" "cur < length h" "cur \<noteq> 0" "[] \<notin> pats" "pats \<subseteq> set ws"
    and "\<forall>j < length h. j \<noteq> 0 \<longrightarrow> length (ws ! j) \<le> length (ws ! cur) \<longrightarrow> linked h ws pats j"
    and "\<forall>(c, k) \<in> set rest. child h cur c = Some k" "outs_between h ws pats"
  shows "\<exists>h'. link_children h cur rest q = Some (h', q @ map snd rest) \<and> same_shape h h'
     \<and> outs_between h' ws pats
     \<and> (\<forall>i < length h. linked h ws pats i \<or> i \<in> snd ` set rest \<longrightarrow> linked h' ws pats i)"
  using assms
proof (induction rest arbitrary: h q)
  case Nil
  then show ?case by (simp add: same_shape_def)
next
  case (Cons ck rest)
  obtain c k where ck: "ck = (c, k)" by (cases ck)
  have ch: "child h cur c = Some k" using Cons.prems(7) ck by auto
  then have k: "k < length h" "ws ! k = ws ! cur @ [c]" using spells_child [OF Cons.prems(1,2)] by auto
  obtain f where f: "follow_fail h c (fail (h ! cur)) = Some f"
    and lk: "linked (h[k := (h ! k)\<lparr>fail := goto_child h c f, outp := outp (h ! k) \<union> outp (h ! goto_child h c f)\<rparr>]) ws pats k"
    using link_one [OF Cons.prems(1,2,3,6) ch Cons.prems(8,4,5)] .
  define h1 where "h1 = h[k := (h ! k)\<lparr>fail := goto_child h c f, outp := outp (h ! k) \<union> outp (h ! goto_child h c f)\<rparr>]"
  have sh: "same_shape h h1" by (simp add: same_shape_def h1_def children_link)
  have ob: "outs_between h1 ws pats"
    unfolding h1_def by (rule outs_between_link [OF Cons.prems(8) k(1) lk]) simp
  have lk_all: "linked h ws pats i \<Longrightarrow> linked h1 ws pats i" for i
    using lk linked_other by (cases "i = k") (auto simp: h1_def)
  have chs: "\<forall>(c, k) \<in> set rest. child h1 cur c = Some k"
    using Cons.prems(7) sh by (auto simp: child_def same_shape_def)
  have len1: "length h1 = length h" using sh by (simp add: same_shape_def)
  from Cons.IH [of h1 "q @ [k]"] Cons.prems(2-6) lk_all chs ob len1 spells_same_shape [OF sh] Cons.prems(1)
  obtain h' where h': "link_children h1 cur rest (q @ [k]) = Some (h', (q @ [k]) @ map snd rest)"
    "same_shape h1 h'" "outs_between h' ws pats"
    "\<forall>i < length h. linked h1 ws pats i \<or> i \<in> snd ` set rest \<longrightarrow> linked h' ws pats i" by auto
  have "link_children h cur (ck # rest) q = Some (h', q @ map snd (ck # rest))"
    using f h'(1) by (simp add: ck Let_def h1_def)
  moreover have "same_shape h h'" using sh h'(2) by (simp add: same_shape_def)
  moreover have "\<forall>i < length h. linked h ws pats i \<or> i \<in> snd ` set (ck # rest) \<longrightarrow> linked h' ws pats i"
    using h'(4) lk_all lk by (auto simp: ck h1_def)
  ultimately show ?case using h'(3) by blast
qed

text \<open>The queue is ordered by depth and every node not yet linked is below a queued one.\<close>

definition queue_inv :: "ac_heap \<Rightarrow> ustr list \<Rightarrow> ustr set \<Rightarrow> nat list \<Rightarrow> bool" where
  "queue_inv h ws pats q \<longleftrightarrow> spells h ws \<and> [] \<notin> pats \<and> pats \<subseteq> set ws \<and> outs_between h ws pats
     \<and> (\<forall>i \<in> set q. i < length h \<and> i \<noteq> 0 \<and> linked h ws pats i)
     \<and> sorted (map (\<lambda>i. length (ws ! i)) q)
     \<and> (\<forall>i \<in> set q. length (ws ! i) \<le> Suc (length (ws ! hd q)))
     \<and> (\<forall>k < length h. k \<noteq> 0 \<longrightarrow> linked h ws pats k \<or> (\<exists>a \<in> set q. strict_prefix (ws ! a) (ws ! k)))"

definition subtree :: "ustr list \<Rightarrow> nat \<Rightarrow> nat set" where
  "subtree ws i = {k. k < length ws \<and> prefix (ws ! i) (ws ! k)}"

definition queue_weight :: "ustr list \<Rightarrow> nat list \<Rightarrow> nat" where
  "queue_weight ws q = sum_list (map (\<lambda>i. card (subtree ws i)) q)"

lemma children_words:
  assumes "spells h ws" "cur < length h"
  shows "(c, k) \<in> set (children (h ! cur)) \<longleftrightarrow> child h cur c = Some k"
  using assms by (auto simp: child_def spells_def)

lemma subtree_children:
  assumes sp: "spells h ws" and cur: "cur < length h"
  shows "queue_weight ws (map snd (children (h ! cur))) < card (subtree ws cur)"
proof -
  let ?ks = "map snd (children (h ! cur))"
  have len: "length ws = length h" using sp by (simp add: spells_def)
  have word: "\<exists>c. ws ! k = ws ! cur @ [c] \<and> child h cur c = Some k" "k < length ws" if "k \<in> set ?ks" for k
    using that children_words [OF sp cur] spells_child [OF sp cur] len by auto
  have "inj_on snd (set (children (h ! cur)))"
  proof (rule inj_onI)
    fix x y assume "x \<in> set (children (h ! cur))" "y \<in> set (children (h ! cur))" "snd x = snd y"
    then have "ws ! cur @ [fst x] = ws ! cur @ [fst y]"
      using children_words [OF sp cur] spells_child [OF sp cur] by (metis prod.collapse)
    then show "x = y" using \<open>snd x = snd y\<close> by (simp add: prod_eq_iff)
  qed
  moreover have "distinct (children (h ! cur))"
    using sp cur by (auto simp: spells_def distinct_map)
  ultimately have dist: "distinct ?ks" by (simp add: distinct_map)
  have disj: "subtree ws k \<inter> subtree ws l = {}" if kl: "k \<in> set ?ks" "l \<in> set ?ks" "k \<noteq> l" for k l
  proof -
    obtain c d where cd: "ws ! k = ws ! cur @ [c]" "ws ! l = ws ! cur @ [d]"
      "child h cur c = Some k" "child h cur d = Some l"
      using word(1) [OF kl(1)] word(1) [OF kl(2)] by blast
    then have "c \<noteq> d" using kl(3) by auto
    then show ?thesis using cd by (auto simp: subtree_def prefix_def)
  qed
  have "queue_weight ws ?ks = (\<Sum>k \<in> set ?ks. card (subtree ws k))"
    unfolding queue_weight_def sum.distinct_set_conv_list [OF dist] ..
  also have "\<dots> = card (\<Union>k \<in> set ?ks. subtree ws k)"
    by (rule card_UN_disjoint [symmetric]) (use disj in \<open>auto simp: subtree_def\<close>)
  also have "\<dots> < card (subtree ws cur)"
  proof (rule psubset_card_mono)
    show "finite (subtree ws cur)" by (simp add: subtree_def)
    have "cur \<in> subtree ws cur" using cur len by (simp add: subtree_def)
    moreover have "cur \<notin> subtree ws k" if "k \<in> set ?ks" for k
      using word(1) [OF that] by (auto simp: subtree_def prefix_def)
    moreover have "subtree ws k \<subseteq> subtree ws cur" if "k \<in> set ?ks" for k
      using word(1) [OF that] by (auto simp: subtree_def prefix_def)
    ultimately show "(\<Union>k \<in> set ?ks. subtree ws k) \<subset> subtree ws cur" by blast
  qed
  finally show ?thesis .
qed

lemma queue_weight_simps [simp]:
  "queue_weight ws [] = 0" "queue_weight ws (i # q) = card (subtree ws i) + queue_weight ws q"
  "queue_weight ws (q @ r) = queue_weight ws q + queue_weight ws r"
  by (simp_all add: queue_weight_def)

lemma queue_head_below:
  assumes "queue_inv h ws pats (cur # rest)"
  shows "\<forall>j < length h. j \<noteq> 0 \<longrightarrow> length (ws ! j) \<le> length (ws ! cur) \<longrightarrow> linked h ws pats j"
proof (intro allI impI)
  fix j assume j: "j < length h" "j \<noteq> 0" "length (ws ! j) \<le> length (ws ! cur)"
  have "\<not> strict_prefix (ws ! a) (ws ! j)" if "a \<in> set (cur # rest)" for a
  proof
    assume "strict_prefix (ws ! a) (ws ! j)"
    then have "length (ws ! a) < length (ws ! j)" by (rule prefix_length_less)
    moreover have "length (ws ! cur) \<le> length (ws ! a)"
      using assms that by (auto simp: queue_inv_def)
    ultimately show False using j(3) by simp
  qed
  then show "linked h ws pats j" using assms j by (auto simp: queue_inv_def)
qed

lemma strict_prefix_step:
  assumes "spells h ws" "cur < length h" "k < length h" "strict_prefix (ws ! cur) (ws ! k)"
  obtains j where "j \<in> snd ` set (children (h ! cur))" "prefix (ws ! j) (ws ! k)"
proof -
  obtain c us where w: "ws ! k = ws ! cur @ c # us"
    using assms(4) by (auto simp: strict_prefix_def prefix_def neq_Nil_conv)
  have pc: "prefix_closed (set ws)" using assms(1) by (simp add: spells_def)
  have "ws ! k \<in> set ws" using assms(1,3) by (simp add: spells_def)
  with w have "ws ! cur @ [c] \<in> set ws"
    using prefix_closed_append [OF pc, of "ws ! cur @ [c]" us] by simp
  then obtain j where "j < length h" "ws ! j = ws ! cur @ [c]"
    using spells_index [OF assms(1)] by auto
  then have "(c, j) \<in> set (children (h ! cur))"
    using children_words [OF assms(1,2)] spells_child [OF assms(1,2)] by simp
  then show thesis using that [of j] w \<open>ws ! j = _\<close> by (force simp: prefix_def)
qed

lemma queue_step:
  assumes inv: "queue_inv h ws pats (cur # rest)"
  obtains h' where "link_children h cur (children (h ! cur)) rest = Some (h', rest @ map snd (children (h ! cur)))"
    "queue_inv h' ws pats (rest @ map snd (children (h ! cur)))" "length h' = length h"
proof -
  let ?ks = "map snd (children (h ! cur))"
  have sp: "spells h ws" and cur: "cur < length h" "cur \<noteq> 0" using inv by (auto simp: queue_inv_def)
  have chs: "\<forall>(c, k) \<in> set (children (h ! cur)). child h cur c = Some k"
    using children_words [OF sp cur(1)] by auto
  obtain h' where h': "link_children h cur (children (h ! cur)) rest = Some (h', rest @ ?ks)"
    "same_shape h h'" "outs_between h' ws pats"
    "\<forall>i < length h. linked h ws pats i \<or> i \<in> snd ` set (children (h ! cur)) \<longrightarrow> linked h' ws pats i"
    using link_children_ok [OF sp cur _ _ queue_head_below [OF inv] chs, of rest] inv
    by (auto simp: queue_inv_def)
  have len: "length h' = length h" using h'(2) by (simp add: same_shape_def)
  have kids: "k < length h \<and> k \<noteq> 0 \<and> length (ws ! k) = Suc (length (ws ! cur))" if kk: "k \<in> set ?ks" for k
  proof -
    obtain c where "k < length h" "ws ! k = ws ! cur @ [c]"
      using kk chs spells_child [OF sp cur(1)] by auto
    then show ?thesis using spells_root [OF sp, of k] by auto
  qed
  have old: "length (ws ! cur) \<le> length (ws ! i)" "length (ws ! i) \<le> Suc (length (ws ! cur))" if "i \<in> set rest" for i
    using inv that by (auto simp: queue_inv_def)
  have "map (\<lambda>i. length (ws ! i)) ?ks = map (\<lambda>_. Suc (length (ws ! cur))) ?ks"
    by (rule map_cong) (use kids in auto)
  then have eqk: "map (\<lambda>i. length (ws ! i)) ?ks = replicate (length ?ks) (Suc (length (ws ! cur)))"
    by (simp add: map_replicate_const)
  have "sorted (map (\<lambda>i. length (ws ! i)) rest)" using inv by (simp add: queue_inv_def)
  then have "sorted (map (\<lambda>i. length (ws ! i)) (rest @ ?ks))"
    unfolding map_append eqk using old(2) by (auto simp: sorted_append)
  moreover have "length (ws ! i) \<le> Suc (length (ws ! hd (rest @ ?ks)))" if ii: "i \<in> set (rest @ ?ks)" for i
  proof -
    have near: "length (ws ! cur) \<le> length (ws ! j)" "length (ws ! j) \<le> Suc (length (ws ! cur))"
      if "j \<in> set (rest @ ?ks)" for j
      using that old [of j] kids [of j] unfolding set_append by (metis Un_iff le_refl le_SucI)+
    have "hd (rest @ ?ks) \<in> set (rest @ ?ks)" by (rule hd_in_set) (use ii in \<open>cases rest; simp; fastforce\<close>)
    from near(1) [OF this] near(2) [OF ii] show ?thesis by simp
  qed
  moreover have "linked h' ws pats k \<or> (\<exists>a \<in> set (rest @ ?ks). strict_prefix (ws ! a) (ws ! k))"
    if k: "k < length h" "k \<noteq> 0" for k
  proof -
    consider "linked h ws pats k" | a where "a \<in> set rest" "strict_prefix (ws ! a) (ws ! k)"
      | "strict_prefix (ws ! cur) (ws ! k)" using inv k by (auto simp: queue_inv_def)
    then show ?thesis
    proof cases
      case 3
      then obtain j where j: "j \<in> snd ` set (children (h ! cur))" "prefix (ws ! j) (ws ! k)"
        using strict_prefix_step [OF sp cur(1) k(1)] by blast
      show ?thesis
      proof (cases "ws ! j = ws ! k")
        case True
        then have "j = k" using spells_inj [OF sp _ k(1)] kids j(1) by auto
        then show ?thesis using h'(4) j(1) k(1) by auto
      next
        case False
        then show ?thesis using j by (auto simp: strict_prefix_def)
      qed
    qed (use h'(4) k in auto)
  qed
  moreover have "i < length h \<and> i \<noteq> 0 \<and> linked h' ws pats i" if "i \<in> set (rest @ ?ks)" for i
    using that kids h'(4) inv by (auto simp: queue_inv_def)
  ultimately have "queue_inv h' ws pats (rest @ ?ks)"
    using inv h'(3) len spells_same_shape [OF h'(2)] by (auto simp: queue_inv_def)
  with h'(1) len that show thesis by blast
qed

lemma link_queue_ok:
  "queue_inv h ws pats q \<Longrightarrow> \<exists>h'. link_queue h q = Some h' \<and> queue_inv h' ws pats [] \<and> length h' = length h"
proof (induction "queue_weight ws q" arbitrary: h q rule: less_induct)
  case less
  show ?case
  proof (cases q)
    case Nil
    then show ?thesis using less.prems by (subst link_queue.simps) simp
  next
    case (Cons cur rest)
    from less.prems have inv: "queue_inv h ws pats (cur # rest)" by (simp add: Cons)
    then obtain h1 where h1: "link_children h cur (children (h ! cur)) rest = Some (h1, rest @ map snd (children (h ! cur)))"
      "queue_inv h1 ws pats (rest @ map snd (children (h ! cur)))" "length h1 = length h"
      by (rule queue_step)
    have "queue_weight ws (rest @ map snd (children (h ! cur))) < queue_weight ws q"
      using subtree_children [of h ws cur] inv by (auto simp: Cons queue_inv_def)
    from less.hyps [OF this h1(2)] h1 show ?thesis by (subst link_queue.simps) (auto simp: Cons)
  qed
qed

section \<open>Construction\<close>

lemma fold_fail_root:
  "\<forall>k \<in> set ks. k < length h \<Longrightarrow> h' = fold (\<lambda>k h. h[k := (h ! k)\<lparr>fail := 0\<rparr>]) ks h \<Longrightarrow>
   same_shape h h' \<and> (\<forall>i < length h. outp (h' ! i) = outp (h ! i)
     \<and> fail (h' ! i) = (if i \<in> set ks then 0 else fail (h ! i)))"
proof (induction ks arbitrary: h)
  case (Cons k ks)
  let ?h = "h[k := (h ! k)\<lparr>fail := 0\<rparr>]"
  have k: "k < length h" using Cons.prems(1) by simp
  have one: "same_shape h ?h" "\<forall>i < length h. outp (?h ! i) = outp (h ! i)"
    "\<forall>i < length h. fail (?h ! i) = (if i = k then 0 else fail (h ! i))"
    using k by (auto simp: same_shape_def nth_list_update)
  have "same_shape ?h h' \<and> (\<forall>i < length ?h. outp (h' ! i) = outp (?h ! i)
     \<and> fail (h' ! i) = (if i \<in> set ks then 0 else fail (?h ! i)))"
    by (rule Cons.IH) (use Cons.prems in auto)
  with one show ?case by (auto simp: same_shape_def)
qed (simp add: same_shape_def)

lemma build_fail_links_ok:
  assumes sp: "spells h ws" and ow: "owns h ws pats" and ne: "[] \<notin> pats" "pats \<subseteq> set ws"
  shows "\<exists>h'. build_fail_links h = Some h' \<and> queue_inv h' ws pats []"
proof -
  let ?tops = "map snd (children (h ! 0))"
  define h1 where "h1 = fold (\<lambda>k h. h[k := (h ! k)\<lparr>fail := 0\<rparr>]) ?tops h"
  have root: "0 < length h" "ws ! 0 = []" using sp by (auto simp: spells_def)
  have tops: "k < length h" "\<exists>c. ws ! k = [c]" if "k \<in> set ?tops" for k
    using that children_words [OF sp root(1)] spells_child [OF sp root(1)] root(2) by auto
  have f: "same_shape h h1" "\<forall>i < length h. outp (h1 ! i) = outp (h ! i)"
    "\<forall>i < length h. fail (h1 ! i) = (if i \<in> set ?tops then 0 else fail (h ! i))"
    using fold_fail_root [of ?tops h h1] tops(1) h1_def by auto
  have len: "length h1 = length h" using f(1) by (simp add: same_shape_def)
  have ob: "outs_between h1 ws pats" using ow f(2) len by (auto simp: outs_between_def owns_def)
  have lk: "linked h1 ws pats k" if k: "k \<in> set ?tops" for k
  proof -
    obtain c where c: "ws ! k = [c]" using tops(2) [OF k] by blast
    have "suffix p [c] \<longleftrightarrow> p = [c]" if "p \<in> pats" for p
      using that ne(1) by (cases p rule: rev_cases) (auto simp: suffix_def)
    then show ?thesis using f k tops(1) [OF k] c root len spells_Nil_in [OF sp] ow
      by (auto simp: linked_def fail_ok_def longest_proper_def strict_suffix_def owns_def suffix_Cons)
  qed
  have below: "linked h1 ws pats k \<or> (\<exists>a \<in> set ?tops. strict_prefix (ws ! a) (ws ! k))"
    if k: "k < length h" "k \<noteq> 0" for k
  proof -
    have "ws ! k \<noteq> []" using spells_root [OF sp k(1)] k(2) by simp
    then have "strict_prefix (ws ! 0) (ws ! k)" using root(2) by (simp add: strict_prefix_def)
    then obtain j where j: "j \<in> snd ` set (children (h ! 0))" "prefix (ws ! j) (ws ! k)"
      using strict_prefix_step [OF sp root(1) k(1)] by blast
    then show ?thesis
    proof (cases "ws ! j = ws ! k")
      case True
      then have "j = k" using spells_inj [OF sp _ k(1)] tops(1) j(1) by simp
      then show ?thesis using lk j(1) by simp
    qed (use j in \<open>auto simp: strict_prefix_def\<close>)
  qed
  have one: "length (ws ! k) = 1 \<and> k \<noteq> 0" if "k \<in> set ?tops" for k
    using tops(2) [OF that] root(2) by (cases "k = 0") auto
  have "map (\<lambda>i. length (ws ! i)) ?tops = map (\<lambda>_. 1) ?tops"
    by (rule map_cong) (use one in auto)
  then have "sorted (map (\<lambda>i. length (ws ! i)) ?tops)" by (simp add: map_replicate_const)
  then have "queue_inv h1 ws pats ?tops"
    using spells_same_shape [OF f(1)] sp ne ob lk below one tops(1) len
    unfolding queue_inv_def by (auto simp del: set_map map_map)
  from link_queue_ok [OF this] show ?thesis by (auto simp: build_fail_links_def Let_def h1_def)
qed

section \<open>Searching\<close>

lemma queue_inv_NilD:
  assumes "queue_inv h ws pats []" "i < length h"
  shows "outp (h ! i) = {p \<in> pats. suffix p (ws ! i)}" "i \<noteq> 0 \<Longrightarrow> fail_ok h ws i"
proof -
  show "i \<noteq> 0 \<Longrightarrow> fail_ok h ws i" using assms by (auto simp: queue_inv_def linked_def)
  show "outp (h ! i) = {p \<in> pats. suffix p (ws ! i)}"
  proof (cases "i = 0")
    case True
    moreover have "ws ! 0 = []" using assms(1) by (auto simp: queue_inv_def spells_def)
    ultimately show ?thesis using assms by (auto simp: queue_inv_def outs_between_def)
  qed (use assms in \<open>auto simp: queue_inv_def linked_def\<close>)
qed

lemma longest_step:
  assumes "longest S r u" "longest S (u @ [c]) v" "prefix_closed S"
  shows "longest S (r @ [c]) v"
proof -
  have "suffix (u @ [c]) (r @ [c])" using assms(1) by (simp add: longest_def)
  then have "suffix v (r @ [c])" using assms(2) by (auto simp: longest_def intro: suffix_order.order_trans)
  moreover have "suffix w v" if w: "w \<in> S" "suffix w (r @ [c])" for w
    using w(2)
  proof (rule suffix_snoc_cases)
    fix x assume x: "w = x @ [c]" "suffix x r"
    then have "x \<in> S" using w(1) assms(3) by (auto simp: prefix_closed_def)
    then have "suffix x u" using assms(1) x(2) by (simp add: longest_def)
    then show ?thesis using assms(2) w(1) x(1) by (simp add: longest_def)
  qed simp
  ultimately show ?thesis using assms(2) by (simp add: longest_def)
qed

lemma next_state_ok:
  assumes inv: "queue_inv h ws pats []" and n: "n < length h" and lg: "longest (set ws) r (ws ! n)"
  obtains m where "next_state h n c = Some m" "m < length h" "longest (set ws) (r @ [c]) (ws ! m)"
    "outp (h ! m) = {p \<in> pats. suffix p (r @ [c])}"
proof -
  have sp: "spells h ws" and sub: "pats \<subseteq> set ws" using inv by (auto simp: queue_inv_def)
  obtain f where f: "follow_fail h c n = Some f" "goto_child h c f < length h"
    "longest (set ws) (ws ! n @ [c]) (ws ! goto_child h c f)"
    by (rule step_longest [OF sp n]) (use queue_inv_NilD(2) [OF inv] in auto)
  have l: "longest (set ws) (r @ [c]) (ws ! goto_child h c f)"
    by (rule longest_step [OF lg f(3)]) (use sp in \<open>simp add: spells_def\<close>)
  have "outp (h ! goto_child h c f) = {p \<in> pats. suffix p (r @ [c])}"
    using l sub unfolding queue_inv_NilD(1) [OF inv f(2)] longest_def
    by (auto intro: suffix_order.order_trans)
  with that f l show thesis by (auto simp: next_state_def)
qed

definition ending_in :: "ustr set \<Rightarrow> ustr \<Rightarrow> ustr \<Rightarrow> ustr set" where
  "ending_in pats r cs = {p \<in> pats. \<exists>u. u \<noteq> [] \<and> prefix u cs \<and> suffix p (r @ u)}"

lemma ending_in_Nil [simp]: "ending_in pats r [] = {}"
  by (simp add: ending_in_def)

lemma ending_in_Cons: "ending_in pats r (c # cs) = {p \<in> pats. suffix p (r @ [c])} \<union> ending_in pats (r @ [c]) cs"
proof -
  have "(\<exists>u. u \<noteq> [] \<and> prefix u (c # cs) \<and> suffix p (r @ u))
    \<longleftrightarrow> suffix p (r @ [c]) \<or> (\<exists>u. u \<noteq> [] \<and> prefix u cs \<and> suffix p ((r @ [c]) @ u))" for p
  proof
    assume "\<exists>u. u \<noteq> [] \<and> prefix u (c # cs) \<and> suffix p (r @ u)"
    then obtain u where "prefix (c # u) (c # cs)" "suffix p (r @ c # u)"
      by (metis list.exhaust prefix_Cons)
    then show "suffix p (r @ [c]) \<or> (\<exists>u. u \<noteq> [] \<and> prefix u cs \<and> suffix p ((r @ [c]) @ u))"
      by (cases "u = []") auto
  next
    assume "suffix p (r @ [c]) \<or> (\<exists>u. u \<noteq> [] \<and> prefix u cs \<and> suffix p ((r @ [c]) @ u))"
    then show "\<exists>u. u \<noteq> [] \<and> prefix u (c # cs) \<and> suffix p (r @ u)"
    proof
      assume "suffix p (r @ [c])"
      then show ?thesis by (intro exI [of _ "[c]"]) simp
    next
      assume "\<exists>u. u \<noteq> [] \<and> prefix u cs \<and> suffix p ((r @ [c]) @ u)"
      then obtain u where "prefix u cs" "suffix p (r @ c # u)" by auto
      then show ?thesis by (intro exI [of _ "c # u"]) simp
    qed
  qed
  then show ?thesis by (auto simp: ending_in_def)
qed

lemma search_from_ok:
  "queue_inv h ws pats [] \<Longrightarrow> n < length h \<Longrightarrow> longest (set ws) r (ws ! n) \<Longrightarrow>
   search_from h n acc cs = Some (acc \<union> ending_in pats r cs)"
proof (induction cs arbitrary: n r acc)
  case (Cons c cs)
  obtain m where m: "next_state h n c = Some m" "m < length h" "longest (set ws) (r @ [c]) (ws ! m)"
    "outp (h ! m) = {p \<in> pats. suffix p (r @ [c])}"
    using next_state_ok [OF Cons.prems] .
  from Cons.IH [OF Cons.prems(1) m(2,3)] m(1,4) show ?case by (auto simp: ending_in_Cons)
qed simp

lemma contains_from_ok:
  "queue_inv h ws pats [] \<Longrightarrow> n < length h \<Longrightarrow> longest (set ws) r (ws ! n) \<Longrightarrow>
   contains_from h n cs = Some (ending_in pats r cs \<noteq> {})"
proof (induction cs arbitrary: n r)
  case (Cons c cs)
  obtain m where m: "next_state h n c = Some m" "m < length h" "longest (set ws) (r @ [c]) (ws ! m)"
    "outp (h ! m) = {p \<in> pats. suffix p (r @ [c])}"
    using next_state_ok [OF Cons.prems] .
  from Cons.IH [OF Cons.prems(1) m(2,3)] m(1,4) show ?case by (auto simp: ending_in_Cons)
qed simp

lemma ending_in_sublist: "[] \<notin> pats \<Longrightarrow> ending_in pats [] t = {p \<in> pats. sublist p t}"
  by (auto simp: ending_in_def sublist_def prefix_def suffix_def) (metis append.assoc append_is_Nil_conv)+

lemma build_automaton_ok:
  assumes "pats = {p \<in> set ps. p \<noteq> []}"
  obtains a ws where "build_automaton ps = Some a" "queue_inv (nodes a) ws pats []"
    "pattern_count a = card pats"
proof -
  let ?d = "remdups (filter (\<lambda>p. p \<noteq> []) ps)"
  have d: "set ?d = pats" using assms by auto
  obtain ws where ws: "spells (fold insert_pattern ?d [new_node 0]) ws"
    "owns (fold insert_pattern ?d [new_node 0]) ws (set ?d \<union> {})" "set ?d \<union> {} \<subseteq> set ws"
    using insert_patterns_spells [OF spells_new, of ?d] by auto
  obtain h where h: "build_fail_links (fold insert_pattern ?d [new_node 0]) = Some h" "queue_inv h ws pats []"
    using build_fail_links_ok [of _ ws pats] ws d assms by auto
  have "length ?d = card pats" using d by (metis distinct_card distinct_remdups)
  then show thesis using that h by (simp add: build_automaton_def Let_def)
qed

lemma automaton_correct:
  obtains a where "build_automaton ps = Some a"
    "\<And>t. search a t = Some {p \<in> set ps. p \<noteq> [] \<and> sublist p t}"
    "\<And>t. contains_any a t = Some ({p \<in> set ps. p \<noteq> [] \<and> sublist p t} \<noteq> {})"
proof -
  define pats where "pats = {p \<in> set ps. p \<noteq> []}"
  obtain a ws where a: "build_automaton ps = Some a" "queue_inv (nodes a) ws pats []" "pattern_count a = card pats"
    using build_automaton_ok [OF pats_def] .
  have ne: "[] \<notin> pats" and eq: "{p \<in> pats. sublist p t} = {p \<in> set ps. p \<noteq> [] \<and> sublist p t}" for t
    by (auto simp: pats_def)
  have root: "0 < length (nodes a)" "longest (set ws) [] (ws ! 0)"
    using a(2) spells_Nil_in by (auto simp: queue_inv_def spells_def longest_def)
  have empty: "pattern_count a = 0 \<or> t = [] \<Longrightarrow> {p \<in> pats. sublist p t} = {}" for t
    using a(3) ne by (auto simp: pats_def)
  note s = search_from_ok [OF a(2) root] contains_from_ok [OF a(2) root]
  show thesis
  proof (rule that [OF a(1)])
    fix t
    show "search a t = Some {p \<in> set ps. p \<noteq> [] \<and> sublist p t}"
      using s empty [of t] by (auto simp: search_def ending_in_sublist [OF ne] simp flip: eq)
    show "contains_any a t = Some ({p \<in> set ps. p \<noteq> [] \<and> sublist p t} \<noteq> {})"
      using s empty [of t] by (auto simp: contains_any_def ending_in_sublist [OF ne] simp flip: eq)
  qed
qed

section \<open>The matcher as an interface\<close>

text \<open>What the monitor index relies on: the matcher can always be built and reports exactly the
  non-empty patterns that occur in a text.\<close>

locale pattern_matcher =
  fixes build :: "ustr list \<Rightarrow> 'm option" and find :: "'m \<Rightarrow> ustr \<Rightarrow> ustr set option"
  assumes build_total: "build ps \<noteq> None"
    and find_spec: "build ps = Some m \<Longrightarrow> find m t = Some {p \<in> set ps. p \<noteq> [] \<and> sublist p t}"
begin

lemma find_hit: "build ps = Some m \<Longrightarrow> p \<in> set ps \<Longrightarrow> p \<noteq> [] \<Longrightarrow> sublist p t \<Longrightarrow> p \<in> the (find m t)"
  by (simp add: find_spec)

lemma find_miss: "build ps = Some m \<Longrightarrow> \<not> sublist p t \<Longrightarrow> p \<notin> the (find m t)"
  by (simp add: find_spec)

lemma find_mono: "build ps = Some m \<Longrightarrow> sublist s t \<Longrightarrow> the (find m s) \<subseteq> the (find m t)"
  by (auto simp: find_spec intro: sublist_order.order_trans)

end

interpretation aho: pattern_matcher build_automaton search
proof
  show "build_automaton ps \<noteq> None" for ps
    by (rule automaton_correct [of ps]) simp
  show "search m t = Some {p \<in> set ps. p \<noteq> [] \<and> sublist p t}"
    if "build_automaton ps = Some m" for ps m t
    by (rule automaton_correct [of ps]) (use that in auto)
qed

section \<open>Properties\<close>

text \<open>
  C1. The matcher is correct: building it from any list of patterns terminates, and for every
  text \<open>search\<close> terminates and returns exactly the distinct non-empty patterns that occur
  somewhere in the text, and \<open>contains_any\<close> says whether there is one.
\<close>

theorem aho_corasick_correct:
  "\<exists>a. build_automaton ps = Some a
     \<and> (\<forall>t. search a t = Some {p \<in> set ps. p \<noteq> [] \<and> sublist p t}
          \<and> contains_any a t = Some (\<exists>p \<in> set ps. p \<noteq> [] \<and> sublist p t))"
  by (rule automaton_correct [of ps]) auto

end
