(* ===== verification/Monitors.thy ===== *)
theory Monitors
  imports Rule_Normalize Pattern_Automaton "HOL-Library.AList" "HOL-Library.Multiset"
begin

text \<open>
  Monitors (\<^verbatim>\<open>monitors.py\<close>): their normalisation, the content and port index that narrows the
  candidates for a packet, the evaluation of a packet against the monitors, and the alert
  throttle. The module-level index is a state record; the lock makes \<open>ensure_monitor_index\<close>
  and the completion of a background build atomic steps. A list object is identified by a
  number, its contents are given by an environment \<open>heap\<close>: the index compares identities.
\<close>

section \<open>Monitors\<close>

record monitor = rule +
  mo_mode :: ustr
  mo_updated_at :: ustr

text \<open>\<open>_iter_match_tree\<close> and \<open>_iter_positive_match_nodes\<close>: the criteria of a match, in preorder.\<close>

fun match_tree :: "match \<Rightarrow> criteria list" where
  "match_tree (Match c alls anys nones) = c # concat (map match_tree alls) @ concat (map match_tree anys) @ concat (map match_tree nones)"

fun positive_nodes :: "match \<Rightarrow> criteria list" where
  "positive_nodes (Match c alls anys nones) = c # concat (map positive_nodes alls) @ concat (map positive_nodes anys)"

definition node_has_criteria :: "criteria \<Rightarrow> bool" where
  "node_has_criteria c \<longleftrightarrow>
     m_protocols c \<noteq> [] \<or> m_ip_versions c \<noteq> [] \<or> m_eth_types c \<noteq> [] \<or> m_ports c \<noteq> [] \<or> m_src_ports c \<noteq> [] \<or> m_dst_ports c \<noteq> []
     \<or> m_port_regex c \<noteq> [] \<or> m_ips c \<noteq> [] \<or> m_ip_regex c \<noteq> [] \<or> m_protocol_regex c \<noteq> [] \<or> m_payload_contains c \<noteq> []
     \<or> m_payload_prefix_hex c \<noteq> [] \<or> m_payload_regex c \<noteq> [] \<or> m_tcp_flags c \<noteq> [] \<or> m_tcp_flags_any c \<noteq> [] \<or> m_tcp_flags_all c \<noteq> []
     \<or> m_icmp_types c \<noteq> [] \<or> m_icmp_codes c \<noteq> [] \<or> m_arp_opcodes c \<noteq> []
     \<or> m_min_length c \<noteq> 0 \<or> m_max_length c \<noteq> 0 \<or> m_min_payload_text_length c \<noteq> 0
     \<or> m_count_threshold c \<noteq> 0 \<and> m_window_seconds c \<noteq> 0"

definition validate_match_not_empty :: "match \<Rightarrow> pyexc option" where
  "validate_match_not_empty m = (if list_ex node_has_criteria (positive_nodes m) then None else Some ValueError)"

definition node_patterns :: "criteria \<Rightarrow> ustr list" where
  "node_patterns c = filter (\<lambda>s. strip s \<noteq> []) (m_payload_regex c @ m_payload_regex_exclude c @ m_ip_regex c @ m_port_regex c
     @ m_protocol_regex c @ m_exclude_ip_regex c @ m_exclude_port_regex c @ m_exclude_protocol_regex c)"

text \<open>\<open>valid_pattern\<close> says whether \<open>validate_regex_pattern\<close> accepts a pattern, \<open>max_patterns\<close> is
  \<open>MONITOR_MAX_REGEX_PATTERNS\<close>.\<close>

definition validate_regex_patterns :: "(ustr \<Rightarrow> bool) \<Rightarrow> nat \<Rightarrow> match \<Rightarrow> pyexc option" where
  "validate_regex_patterns valid_pattern max_patterns m =
     (let patterns = concat (map node_patterns (match_tree m)) in
      if length patterns > max_patterns \<or> \<not> list_all valid_pattern patterns then Some ValueError else None)"

definition monitor_mode :: "criteria \<Rightarrow> ustr \<Rightarrow> ustr" where
  "monitor_mode c given =
     (if given \<in> {U ''rule'', U ''regex'', U ''stateful''} then given
      else if m_payload_regex c \<noteq> [] \<and> \<not> (m_protocols c \<noteq> [] \<or> m_ip_versions c \<noteq> [] \<or> m_eth_types c \<noteq> [] \<or> m_ports c \<noteq> []
             \<or> m_src_ports c \<noteq> [] \<or> m_dst_ports c \<noteq> [] \<or> m_payload_contains c \<noteq> [] \<or> m_payload_prefix_hex c \<noteq> [])
      then U ''regex'' else U ''rule'')"

definition normalize_monitor :: "(pyval \<Rightarrow> ustr) \<Rightarrow> (ustr \<Rightarrow> bool) \<Rightarrow> nat \<Rightarrow> bool \<Rightarrow> bool \<Rightarrow> pyval \<Rightarrow> pyexc + monitor" where
  "normalize_monitor fmt valid_pattern max_patterns allow_source validate_regex item =
     (let d = dict_of item;
          rule_id = or_text (strip (str_or_empty fmt (first_truthy [get_or d ''id'' PNone, get_or d ''slug'' PNone, get_or d ''name'' PNone])))
                      (U ''custom-monitor'');
          nm = get_or d ''name'' PNone;
          name = or_text (strip (if truthy nm then py_str fmt nm else rule_id)) rule_id in
      case (case map_of d (U ''enabled'') of None \<Rightarrow> Inr True | Some v \<Rightarrow> coerce_bool v) of
        Inl e \<Rightarrow> Inl e
      | Inr enabled \<Rightarrow>
          (case normalize_match fmt (get_or d ''match'' PNone) of
             Inl e \<Rightarrow> Inl e
           | Inr m \<Rightarrow>
               (case validate_match_not_empty m of
                  Some e \<Rightarrow> Inl e
                | None \<Rightarrow>
                    (case (if validate_regex then validate_regex_patterns valid_pattern max_patterns m else None) of
                       Some e \<Rightarrow> Inl e
                     | None \<Rightarrow> Inr \<lparr>r_id = rule_id, r_name = name, r_description = strip (str_or_empty fmt (get_or d ''description'' PNone)),
                         r_enabled = enabled, r_priority = safe_int (get_or d ''priority'' (PInt 100)) 100, r_match = m,
                         r_action = normalize_action fmt (get_or d ''action'' PNone),
                         r_source = (if allow_source then or_text (strip (let s = get_or d ''source'' PNone in if truthy s then py_str fmt s else U ''custom'')) (U ''custom'') else []),
                         mo_mode = monitor_mode (crit m) (lower (strip (str_or_empty fmt (get_or d ''mode'' PNone)))), mo_updated_at = []\<rparr>))))"

definition monitor_matches_packet :: "regex_engine \<Rightarrow> nat \<Rightarrow> monitor \<Rightarrow> packet \<Rightarrow> ustr option \<Rightarrow> bool" where
  "monitor_matches_packet rx lmt m p packet_text = rule_matches_packet rx lmt m p packet_text"

section \<open>The index\<close>

definition port_indexable :: "monitor \<Rightarrow> bool" where
  "port_indexable m \<longleftrightarrow>
     (let c = crit (r_match m) in
      \<not> (m_port_regex c \<noteq> [] \<or> m_all (r_match m) \<noteq> [] \<or> m_any (r_match m) \<noteq> [] \<or> m_none (r_match m) \<noteq> [])
      \<and> (m_ports c \<noteq> [] \<or> m_src_ports c \<noteq> [] \<or> m_dst_ports c \<noteq> []))"

definition monitor_port_numbers :: "monitor \<Rightarrow> int list" where
  "monitor_port_numbers m = (let c = crit (r_match m) in remdups (nonzero (m_ports c @ m_src_ports c @ m_dst_ports c)))"

text \<open>What \<open>_monitor_index_signature\<close> keeps of a monitor (the JSON texts of \<open>match\<close> and \<open>action\<close>
  determine them).\<close>

type_synonym msig = "ustr \<times> ustr \<times> bool \<times> ustr \<times> ustr \<times> int \<times> match \<times> rule_action"

definition monitor_sig :: "monitor \<Rightarrow> msig" where
  "monitor_sig m = (r_id m, mo_updated_at m, r_enabled m, mo_mode m, r_name m, r_priority m, r_match m, r_action m)"

definition monitor_index_signature :: "monitor list \<Rightarrow> msig list" where
  "monitor_index_signature ms = map monitor_sig ms"

text \<open>\<open>d.setdefault(k, []).append(v)\<close> on an insertion-ordered dictionary.\<close>

fun push :: "'k \<Rightarrow> 'v \<Rightarrow> ('k \<times> 'v list) list \<Rightarrow> ('k \<times> 'v list) list" where
  "push k v [] = [(k, [v])]"
| "push k v ((k', vs) # d) = (if k = k' then (k', vs @ [v]) # d else (k', vs) # push k v d)"

definition look :: "('k \<times> 'v list) list \<Rightarrow> 'k \<Rightarrow> 'v list" where
  "look d k = (case map_of d k of None \<Rightarrow> [] | Some vs \<Rightarrow> vs)"

record tables =
  tb_by_id :: "(ustr \<times> monitor) list"
  tb_always :: "monitor list"
  tb_content :: "(ustr \<times> ustr list) list"
  tb_positions :: "(ustr \<times> nat) list"
  tb_ports :: "(int \<times> ustr list) list"
  tb_port_ids :: "ustr list"

definition no_tables :: tables where
  "no_tables = \<lparr>tb_by_id = [], tb_always = [], tb_content = [], tb_positions = [], tb_ports = [], tb_port_ids = []\<rparr>"

definition index_monitor :: "nat \<times> monitor \<Rightarrow> tables \<Rightarrow> tables" where
  "index_monitor pm t =
     (case pm of (position, m) \<Rightarrow>
        let i = r_id m; contents = m_payload_contains (crit (r_match m));
            t1 = t\<lparr>tb_positions := AList.update i position (tb_positions t), tb_by_id := AList.update i m (tb_by_id t)\<rparr> in
        if contents = [] then
          (if port_indexable m
           then t1\<lparr>tb_port_ids := tb_port_ids t1 @ [i], tb_ports := fold (\<lambda>port. push port i) (monitor_port_numbers m) (tb_ports t1)\<rparr>
           else t1\<lparr>tb_always := tb_always t1 @ [m]\<rparr>)
        else t1\<lparr>tb_content := fold (\<lambda>content. push (lower content) i) contents (tb_content t1)\<rparr>)"

definition build_tables :: "monitor list \<Rightarrow> tables" where
  "build_tables ms = fold index_monitor (zip [0..<length ms] ms) no_tables"

record index_state =
  ix_ref :: "nat option"
  ix_signature :: "msig list option"
  ix_building :: "msig list option"
  ix_tables :: tables
  ix_automaton :: "aho_corasick option"
  ix_content :: "(ustr \<times> ustr list) list"

definition initial_index :: index_state where
  "initial_index = \<lparr>ix_ref = None, ix_signature = None, ix_building = None, ix_tables = no_tables, ix_automaton = None, ix_content = []\<rparr>"

text \<open>A build job: the signature it was started for and the content table of that moment.\<close>

type_synonym job = "msig list \<times> (ustr \<times> ustr list) list"

definition ensure_monitor_index :: "nat \<Rightarrow> monitor list \<Rightarrow> index_state \<Rightarrow> index_state \<times> job option" where
  "ensure_monitor_index oid ms st =
     (let signature = monitor_index_signature ms in
      if Some signature = ix_signature st then (st\<lparr>ix_ref := Some oid\<rparr>, None)
      else let t = build_tables ms in
        (st\<lparr>ix_ref := Some oid, ix_signature := Some signature, ix_tables := t, ix_building := Some signature\<rparr>,
         if ix_building st = Some signature then None else Some (signature, tb_content t)))"

text \<open>The end of \<open>_build_automaton\<close>. \<open>None\<close> is a build that does not return.\<close>

definition finish_build :: "job \<Rightarrow> index_state \<Rightarrow> index_state option" where
  "finish_build j st =
     (case j of (signature, contents) \<Rightarrow>
        (case build_automaton (map fst contents) of
           None \<Rightarrow> None
         | Some a \<Rightarrow>
             let st1 = (if ix_signature st = Some signature then st\<lparr>ix_automaton := Some a, ix_content := contents\<rparr> else st) in
             Some (if ix_building st1 = Some signature then st1\<lparr>ix_building := None\<rparr> else st1)))"

section \<open>Evaluation\<close>

text \<open>
  \<open>_indexed_candidates\<close>: \<open>None\<close> where the code returns \<open>None\<close> (not this list, or no automaton
  yet), \<open>Some None\<close> where the search would not return. The identifiers are visited in the
  order of the dictionary; the code visits them in set order and then sorts by position.
\<close>

definition hit_ids :: "tables \<Rightarrow> (ustr \<times> ustr list) list \<Rightarrow> ustr set \<Rightarrow> nat \<times> nat \<Rightarrow> ustr set" where
  "hit_ids t contents found ports =
     (case ports of (sp, dp) \<Rightarrow>
        (\<Union>content \<in> found. set (look contents content))
        \<union> (if sp \<noteq> 0 \<or> dp \<noteq> 0 then set (look (tb_ports t) (int sp)) \<union> set (look (tb_ports t) (int dp)) else set (tb_port_ids t)))"

definition position_of :: "tables \<Rightarrow> monitor \<Rightarrow> nat" where
  "position_of t m = (case map_of (tb_positions t) (r_id m) of None \<Rightarrow> length (tb_positions t) | Some n \<Rightarrow> n)"

definition candidates_for :: "tables \<Rightarrow> ustr set \<Rightarrow> monitor list" where
  "candidates_for t hits = sort_key (position_of t) (tb_always t @ map snd (filter (\<lambda>(i, m). i \<in> hits) (tb_by_id t)))"

definition indexed_candidates :: "index_state \<Rightarrow> nat \<Rightarrow> ustr \<Rightarrow> nat \<times> nat \<Rightarrow> monitor list option option" where
  "indexed_candidates st oid packet_text ports =
     (case ix_automaton st of
        None \<Rightarrow> None
      | Some a \<Rightarrow>
          if ix_ref st \<noteq> Some oid then None
          else Some (case search a packet_text of
              None \<Rightarrow> None
            | Some found \<Rightarrow> Some (candidates_for (ix_tables st) (hit_ids (ix_tables st) (ix_content st) found ports))))"

definition skip_monitor :: "packet \<Rightarrow> monitor \<Rightarrow> bool" where
  "skip_monitor p m \<longleftrightarrow>
     is_http_response_packet p \<and> startswith (r_id m) (U ''builtin-signal-'') \<or> lower (strip (mo_mode m)) = U ''stateful''"

definition evaluate_candidates :: "regex_engine \<Rightarrow> nat \<Rightarrow> packet \<Rightarrow> monitor list \<Rightarrow> rule_hit list" where
  "evaluate_candidates rx lmt p ms =
     map hit_of (filter (\<lambda>m. \<not> skip_monitor p m \<and> monitor_matches_packet rx lmt m p (Some (build_packet_text lmt p))) ms)"

definition evaluate_packet :: "regex_engine \<Rightarrow> nat \<Rightarrow> index_state \<Rightarrow> packet \<Rightarrow> nat \<Rightarrow> monitor list \<Rightarrow> rule_hit list option" where
  "evaluate_packet rx lmt st p oid ms =
     (case indexed_candidates st oid (build_packet_text lmt p) (pk_src_port p, pk_dst_port p) of
        None \<Rightarrow> Some (evaluate_candidates rx lmt p ms)
      | Some None \<Rightarrow> None
      | Some (Some cands) \<Rightarrow> Some (evaluate_candidates rx lmt p cands))"

text \<open>\<open>indexed_monitors_by_id\<close>.\<close>

definition indexed_monitors_by_id :: "index_state \<Rightarrow> nat \<Rightarrow> (ustr \<times> monitor) list option" where
  "indexed_monitors_by_id st oid = (if ix_ref st = Some oid then Some (tb_by_id (ix_tables st)) else None)"

section \<open>What the tables hold\<close>

abbreviation contents_of :: "monitor \<Rightarrow> ustr list" where
  "contents_of m \<equiv> m_payload_contains (crit (r_match m))"

definition always_checked :: "monitor \<Rightarrow> bool" where
  "always_checked m \<longleftrightarrow> contents_of m = [] \<and> \<not> port_indexable m"

definition port_checked :: "monitor \<Rightarrow> bool" where
  "port_checked m \<longleftrightarrow> contents_of m = [] \<and> port_indexable m"

lemma map_of_push: "map_of (push k v d) k' = (if k' = k then Some (look d k @ [v]) else map_of d k')"
  by (induction k v d rule: push.induct) (auto simp: look_def)

lemma look_push: "look (push k v d) k' = (if k' = k then look d k @ [v] else look d k')"
  by (simp add: look_def map_of_push)

lemma fst_push [simp]: "fst ` set (push k v d) = insert k (fst ` set d)"
  by (induction k v d rule: push.induct) auto

lemma look_fold_push: "set (look (fold (\<lambda>k. push (f k) v) ks d) k') = set (look d k') \<union> (if k' \<in> f ` set ks then {v} else {})"
  by (induction ks arbitrary: d) (auto simp: look_push)

lemma fst_fold_push: "fst ` set (fold (\<lambda>k. push (f k) v) ks d) = fst ` set d \<union> f ` set ks"
  by (induction ks arbitrary: d) auto

lemma look_Nil [simp]: "look [] k = []"
  by (simp add: look_def)

definition tables_ok :: "monitor list \<Rightarrow> tables \<Rightarrow> bool" where
  "tables_ok ms t \<longleftrightarrow>
     tb_by_id t = map (\<lambda>m. (r_id m, m)) ms \<and> tb_positions t = zip (map r_id ms) [0..<length ms]
     \<and> tb_always t = filter always_checked ms \<and> tb_port_ids t = map r_id (filter port_checked ms)
     \<and> (\<forall>n. set (look (tb_ports t) n) = {r_id m | m. m \<in> set ms \<and> port_checked m \<and> n \<in> set (monitor_port_numbers m)})
     \<and> (\<forall>k. set (look (tb_content t) k) = {r_id m | m. m \<in> set ms \<and> k \<in> lower ` set (contents_of m)})
     \<and> fst ` set (tb_content t) = (\<Union>m \<in> set ms. lower ` set (contents_of m))"

lemma tables_okD:
  assumes "tables_ok ms t"
  shows "tb_by_id t = map (\<lambda>m. (r_id m, m)) ms" "tb_always t = filter always_checked ms" "tb_port_ids t = map r_id (filter port_checked ms)"
    "set (look (tb_ports t) n) = {r_id m | m. m \<in> set ms \<and> port_checked m \<and> n \<in> set (monitor_port_numbers m)}"
    "set (look (tb_content t) k) = {r_id m | m. m \<in> set ms \<and> k \<in> lower ` set (contents_of m)}"
    "fst ` set (tb_content t) = (\<Union>m \<in> set ms. lower ` set (contents_of m))"
  using assms by (simp_all add: tables_ok_def)

lemma update_fresh: "k \<notin> fst ` set al \<Longrightarrow> AList.update k v al = al @ [(k, v)]"
  by (induction al) auto

lemma index_monitor_fields:
  "tb_by_id (index_monitor (n, m) t) = AList.update (r_id m) m (tb_by_id t)"
  "tb_positions (index_monitor (n, m) t) = AList.update (r_id m) n (tb_positions t)"
  "tb_always (index_monitor (n, m) t) = tb_always t @ (if always_checked m then [m] else [])"
  "tb_port_ids (index_monitor (n, m) t) = tb_port_ids t @ (if port_checked m then [r_id m] else [])"
  "set (look (tb_ports (index_monitor (n, m) t)) k) =
     set (look (tb_ports t) k) \<union> (if port_checked m \<and> k \<in> set (monitor_port_numbers m) then {r_id m} else {})"
  "set (look (tb_content (index_monitor (n, m) t)) x) =
     set (look (tb_content t) x) \<union> (if x \<in> lower ` set (contents_of m) then {r_id m} else {})"
  "fst ` set (tb_content (index_monitor (n, m) t)) = fst ` set (tb_content t) \<union> lower ` set (contents_of m)"
  using look_fold_push [of "\<lambda>x. x" "r_id m"]
  by (simp_all add: index_monitor_def Let_def always_checked_def port_checked_def look_fold_push fst_fold_push)

lemma tables_ok_snoc:
  assumes t: "tables_ok ms t" and fresh: "r_id m \<notin> r_id ` set ms"
  shows "tables_ok (ms @ [m]) (index_monitor (length ms, m) t)"
proof -
  have u: "AList.update (r_id m) m (map (\<lambda>m. (r_id m, m)) ms) = map (\<lambda>m. (r_id m, m)) (ms @ [m])"
    using fresh by (subst update_fresh) (auto simp: image_iff)
  have v: "AList.update (r_id m) (length ms) (zip (map r_id ms) [0..<length ms]) = zip (map r_id (ms @ [m])) [0..<length (ms @ [m])]"
    using fresh by (subst update_fresh) (auto simp: set_zip image_iff)
  show ?thesis
    unfolding tables_ok_def index_monitor_fields
    by (intro conjI allI; insert t [unfolded tables_ok_def]; elim conjE; (simp add: u v; fail)?; auto)
qed

lemma build_tables_ok: "distinct (map r_id ms) \<Longrightarrow> tables_ok ms (build_tables ms)"
proof (induction ms rule: rev_induct)
  case Nil
  show ?case by (simp add: tables_ok_def build_tables_def no_tables_def)
next
  case (snoc m ms)
  have "build_tables (ms @ [m]) = index_monitor (length ms, m) (build_tables ms)"
    by (simp add: build_tables_def)
  then show ?case using tables_ok_snoc [of ms "build_tables ms" m] snoc by simp
qed

lemma position_of_nth:
  assumes "tables_ok ms t" "distinct (map r_id ms)" "i < length ms"
  shows "position_of t (ms ! i) = i"
proof -
  have "map_of (zip (map r_id ms) [0..<length ms]) (map r_id ms ! i) = Some ([0..<length ms] ! i)"
    using assms by (intro map_of_zip_nth) auto
  then show ?thesis using assms by (simp add: position_of_def tables_ok_def)
qed

lemma positions_sorted:
  assumes "tables_ok ms t" "distinct (map r_id ms)"
  shows "map (position_of t) ms = [0..<length ms]"
  by (rule nth_equalityI) (use position_of_nth [OF assms] in auto)

lemma candidates_subset: "tables_ok ms t \<Longrightarrow> set (candidates_for t hits) \<subseteq> set ms"
  by (auto simp: candidates_for_def tables_ok_def)

lemma candidates_exact:
  assumes t: "tables_ok ms t" and d: "distinct (map r_id ms)"
    and disj: "\<forall>m \<in> set ms. always_checked m \<longrightarrow> r_id m \<notin> hits"
  shows "candidates_for t hits = filter (\<lambda>m. always_checked m \<or> r_id m \<in> hits) ms"
proof -
  have by_id: "map snd (filter (\<lambda>(i, m). i \<in> hits) (tb_by_id t)) = filter (\<lambda>m. r_id m \<in> hits) ms"
    using t by (simp add: tables_ok_def filter_map comp_def)
  have "mset (filter always_checked ms @ filter (\<lambda>m. r_id m \<in> hits) ms) = mset (filter (\<lambda>m. always_checked m \<or> r_id m \<in> hits) ms)"
    using disj by (induction ms) auto
  moreover have "sorted (map (position_of t) (filter (\<lambda>m. always_checked m \<or> r_id m \<in> hits) ms))"
  proof -
    have "sorted (map (position_of t) ms)" using positions_sorted [OF t d] by (simp del: upt_Suc)
    then show ?thesis by (rule sorted_filter)
  qed
  moreover have "inj_on (position_of t) (set ms)"
    using positions_sorted [OF t d] by (metis distinct_map distinct_upt)
  then have "inj_on (position_of t) (set (filter always_checked ms @ filter (\<lambda>m. r_id m \<in> hits) ms))"
    by (rule inj_on_subset) auto
  ultimately show ?thesis
    using t by_id unfolding candidates_for_def
    by (simp only: by_id, intro sort_key_inj_key_eq) (auto simp: tables_ok_def)
qed

section \<open>Indexed evaluation against the plain scan\<close>

text \<open>What normalisation leaves to check: contents are not blank, and no port criterion is 0.\<close>

definition indexable :: "monitor \<Rightarrow> bool" where
  "indexable m \<longleftrightarrow> (\<forall>x \<in> set (contents_of m). strip x \<noteq> [])
     \<and> 0 \<notin> set (m_ports (crit (r_match m)) @ m_src_ports (crit (r_match m)) @ m_dst_ports (crit (r_match m)))"

lemma match_packet_checks:
  assumes "match_packet rx lmt p (Some t) m"
  shows "header_ok p (crit m)" "content_ok rx lmt (Some t) p (crit m)"
  using assms by (cases m, auto simp: Let_def shared_text_def)+

lemma lower_eq_Nil [simp]: "lower x = [] \<longleftrightarrow> x = []"
  by (simp add: lower_def)

lemma content_hit:
  assumes "content_ok rx lmt (Some t) p c" "m_payload_contains c \<noteq> []" "\<forall>x \<in> set (m_payload_contains c). strip x \<noteq> []"
  shows "\<exists>x \<in> set (m_payload_contains c). lower x \<noteq> [] \<and> sublist (lower x) t"
proof -
  have n: "needle_list (m_payload_contains c) = map lower (m_payload_contains c)" using assms(3) by (simp add: needle_list_def)
  then obtain x where "x \<in> set (m_payload_contains c)" "contains t (lower x)"
    using assms(1,2) by (auto simp: content_ok_def Let_def)
  moreover have "lower x \<noteq> []" using assms(3) calculation(1) by auto
  ultimately show ?thesis by (auto simp: contains_sublist)
qed

lemma port_hit:
  assumes "header_ok p (crit (r_match m))" "port_checked m" "indexable m"
  shows "int (pk_src_port p) \<in> set (monitor_port_numbers m) \<or> int (pk_dst_port p) \<in> set (monitor_port_numbers m)"
proof -
  have z: "nonzero (m_ports (crit (r_match m))) = m_ports (crit (r_match m))"
    "nonzero (m_src_ports (crit (r_match m))) = m_src_ports (crit (r_match m))"
    "nonzero (m_dst_ports (crit (r_match m))) = m_dst_ports (crit (r_match m))"
    using assms(3) by (auto simp: indexable_def nonzero_def intro!: filter_True)
  have n: "set (monitor_port_numbers m) = set (m_ports (crit (r_match m))) \<union> set (m_src_ports (crit (r_match m))) \<union> set (m_dst_ports (crit (r_match m)))"
    using z by (simp add: monitor_port_numbers_def Let_def nonzero_def Un_assoc)
  have "m_ports (crit (r_match m)) \<noteq> [] \<or> m_src_ports (crit (r_match m)) \<noteq> [] \<or> m_dst_ports (crit (r_match m)) \<noteq> []"
    using assms(2) by (auto simp: port_checked_def port_indexable_def Let_def)
  then show ?thesis using assms(1) z unfolding n header_ok_def Let_def in_list_def by auto
qed

lemma hit_ids_complete:
  assumes t: "tables_ok ms t" and m: "m \<in> set ms" "indexable m" "\<not> always_checked m"
    and match: "match_packet rx lmt p (Some txt') (r_match m)"
    and found: "found = {k \<in> fst ` set (tb_content t). k \<noteq> [] \<and> sublist k txt'}"
  shows "r_id m \<in> hit_ids t (tb_content t) found (pk_src_port p, pk_dst_port p)"
proof (cases "contents_of m = []")
  case False
  obtain x where x: "x \<in> set (contents_of m)" "lower x \<noteq> []" "sublist (lower x) txt'"
    using content_hit [OF match_packet_checks(2) [OF match] False] m(2) by (auto simp: indexable_def)
  have "r_id m \<in> set (look (tb_content t) (lower x))" using t x(1) m(1) by (auto simp: tables_ok_def)
  moreover have "lower x \<in> found" using t x m(1) unfolding found by (auto simp: tables_ok_def)
  ultimately show ?thesis by (auto simp: hit_ids_def)
next
  case True
  then have pc: "port_checked m" using m(3) by (simp add: port_checked_def always_checked_def)
  note hit = port_hit [OF match_packet_checks(1) [OF match] pc m(2)]
  show ?thesis
  proof (cases "pk_src_port p \<noteq> 0 \<or> pk_dst_port p \<noteq> 0")
    case True
    have "r_id m \<in> set (look (tb_ports t) (int (pk_src_port p))) \<union> set (look (tb_ports t) (int (pk_dst_port p)))"
      unfolding tables_okD(4) [OF t] using hit pc m(1) by blast
    then show ?thesis using True by (auto simp: hit_ids_def)
  next
    case False
    have "r_id m \<in> set (tb_port_ids t)" using t pc m(1) by (auto simp: tables_ok_def)
    then show ?thesis using False by (auto simp: hit_ids_def)
  qed
qed

lemma hit_ids_not_always:
  assumes t: "tables_ok ms t" and d: "distinct (map r_id ms)" and m: "m \<in> set ms" "always_checked m"
  shows "r_id m \<notin> hit_ids t (tb_content t) found ports"
proof
  assume "r_id m \<in> hit_ids t (tb_content t) found ports"
  then obtain m' where m': "m' \<in> set ms" "r_id m' = r_id m" "port_checked m' \<or> contents_of m' \<noteq> []"
    using tables_okD(3) [OF t] unfolding hit_ids_def tables_okD(4) [OF t] tables_okD(5) [OF t]
    by (fastforce split: if_splits prod.splits)
  then have "m' = m" using d m(1) by (auto simp: distinct_map inj_on_def)
  with m' m(2) show False by (auto simp: always_checked_def port_checked_def)
qed

lemma indexed_equals_scan:
  assumes t: "tables_ok ms t" and d: "distinct (map r_id ms)" and i: "list_all indexable ms"
    and found: "found = {k \<in> fst ` set (tb_content t). k \<noteq> [] \<and> sublist k (build_packet_text lmt p)}"
  shows "evaluate_candidates rx lmt p (candidates_for t (hit_ids t (tb_content t) found (pk_src_port p, pk_dst_port p)))
    = evaluate_candidates rx lmt p ms"
proof -
  let ?h = "hit_ids t (tb_content t) found (pk_src_port p, pk_dst_port p)"
  let ?P = "\<lambda>m. \<not> skip_monitor p m \<and> monitor_matches_packet rx lmt m p (Some (build_packet_text lmt p))"
  have c: "candidates_for t ?h = filter (\<lambda>m. always_checked m \<or> r_id m \<in> ?h) ms"
    by (rule candidates_exact [OF t d]) (use hit_ids_not_always [OF t d] in blast)
  have "always_checked m \<or> r_id m \<in> ?h" if "m \<in> set ms" "?P m" for m
    using hit_ids_complete [OF t that(1) _ _ _ found] that i
    by (auto simp: list_all_iff monitor_matches_packet_def rule_matches_packet_def)
  then have "filter ?P (filter (\<lambda>m. always_checked m \<or> r_id m \<in> ?h) ms) = filter ?P ms"
    unfolding filter_filter by (intro filter_cong) auto
  then show ?thesis by (simp add: evaluate_candidates_def c)
qed

end
