(* ===== verification/Event_Windows.thy ===== *)
theory Event_Windows
  imports Complex_Main "HOL-Library.Sublist"
begin

text \<open>
  What the stateful detectors share. Clock readings are rationals (\<open>time.monotonic()\<close>).

  \<^item> \<open>drop_stale\<close> is the loop \<^verbatim>\<open>while events and events[0] < cutoff: events.popleft()\<close>.
  \<^item> The locale \<open>cooldown\<close> is the contract of a detector that remembers when it last alerted for
    a key; alerts of one key are then spaced.
  \<^item> The locale \<open>sliding_window\<close> is the contract of a detector that keeps a queue of recent events
    per key; the queue is then exactly the part of the full history inside the window.
\<close>

type_synonym time = rat

fun run :: "(time \<Rightarrow> 'e \<Rightarrow> 's \<Rightarrow> 's \<times> 'r) \<Rightarrow> 's \<Rightarrow> (time \<times> 'e) list \<Rightarrow> 's \<times> 'r list" where
  "run step s [] = (s, [])"
| "run step s ((now, e) # tes) = (case step now e s of (s1, r) \<Rightarrow> (case run step s1 tes of (s', rs) \<Rightarrow> (s', r # rs)))"

lemma run_append: "fst (run step s (xs @ ys)) = fst (run step (fst (run step s xs)) ys)"
  by (induction step s xs rule: run.induct) (auto split: prod.splits)

lemma fst_run_Cons: "fst (run step s (x # tes)) = fst (run step (fst (step (fst x) (snd x) s)) tes)"
  by (cases x) (auto split: prod.splits)

lemma length_run: "length (snd (run step s tes)) = length tes"
  by (induction step s tes rule: run.induct) (auto split: prod.splits)

definition drop_stale :: "('a \<Rightarrow> time) \<Rightarrow> time \<Rightarrow> 'a list \<Rightarrow> 'a list" where
  "drop_stale stamp cutoff q = dropWhile (\<lambda>x. stamp x < cutoff) q"

lemma drop_stale_filter: "sorted (map stamp q) \<Longrightarrow> drop_stale stamp c q = filter (\<lambda>x. c \<le> stamp x) q"
proof (induction q)
  case (Cons x q)
  then show ?case by (cases "stamp x < c") (auto simp: drop_stale_def intro!: sym [OF filter_True])
qed (simp add: drop_stale_def)

text \<open>Pushing onto a queue that holds a cut of the history cuts the history at the new window.\<close>

lemma drop_stale_cut:
  assumes srt: "sorted (map stamp (h @ [x]))" and q: "q = filter (\<lambda>x. c \<le> stamp x) h"
    and c: "h \<noteq> [] \<Longrightarrow> c \<le> stamp (last h) - window"
  shows "drop_stale stamp (stamp x - window) (q @ [x]) = filter (\<lambda>y. stamp x - window \<le> stamp y) (h @ [x])"
proof -
  have "sorted (map stamp (q @ [x]))" unfolding q using srt by (auto simp: sorted_append intro!: sorted_filter)
  note e = drop_stale_filter [OF this, of "stamp x - window"]
  have "c \<le> stamp x - window" if "h \<noteq> []"
  proof -
    have "stamp (last h) \<le> stamp x" using srt that by (auto simp: sorted_append)
    then show ?thesis using c [OF that] by linarith
  qed
  then show ?thesis using e q by (cases "h = []") (auto intro!: filter_cong)
qed

section \<open>Cooldowns\<close>

text \<open>The times at which a detector alerts for the key \<open>k\<close>.\<close>

fun alert_times :: "(time \<Rightarrow> 'e \<Rightarrow> 's \<Rightarrow> 's \<times> 'r option) \<Rightarrow> ('e \<Rightarrow> 'k) \<Rightarrow> 'k \<Rightarrow> 's \<Rightarrow> (time \<times> 'e) list \<Rightarrow> time list" where
  "alert_times step key k s [] = []"
| "alert_times step key k s ((now, e) # tes) =
     (case step now e s of (s1, r) \<Rightarrow> (if r \<noteq> None \<and> key e = k then [now] else []) @ alert_times step key k s1 tes)"

locale cooldown =
  fixes step :: "time \<Rightarrow> 'e \<Rightarrow> 's \<Rightarrow> 's \<times> 'r option" and key :: "'e \<Rightarrow> 'k"
    and last_alert :: "'s \<Rightarrow> 'k \<Rightarrow> time option" and gap :: time
  assumes alert_now: "step now e s = (s', Some r) \<Longrightarrow> last_alert s' = (last_alert s)(key e \<mapsto> now)"
    and alert_cold: "step now e s = (s', Some r) \<Longrightarrow> last_alert s (key e) = Some t \<Longrightarrow> t + gap \<le> now"
    and quiet: "step now e s = (s', None) \<Longrightarrow> last_alert s' = last_alert s"
begin

lemma spaced_from:
  assumes "sorted (map fst tes)" "\<forall>t. last_alert s k = Some t \<longrightarrow> (\<forall>x \<in> set tes. t \<le> fst x)"
  shows "sorted_wrt (\<lambda>t u. t + gap \<le> u) (alert_times step key k s tes)
    \<and> (\<forall>t. \<forall>u \<in> set (alert_times step key k s tes). last_alert s k = Some t \<longrightarrow> t + gap \<le> u)
    \<and> set (alert_times step key k s tes) \<subseteq> fst ` set tes"
  using assms
proof (induction tes arbitrary: s)
  case (Cons x tes)
  obtain now e where x: "x = (now, e)" by (cases x)
  obtain s1 r where st: "step now e s = (s1, r)" by (cases "step now e s")
  have srt: "sorted (map fst tes)" "\<forall>y \<in> set tes. now \<le> fst y" using Cons.prems x by auto
  show ?case
  proof (cases "r \<noteq> None \<and> key e = k")
    case True
    then have la: "last_alert s1 k = Some now" using alert_now [of now e s s1] st by auto
    have ih: "sorted_wrt (\<lambda>t u. t + gap \<le> u) (alert_times step key k s1 tes)"
      "\<forall>u \<in> set (alert_times step key k s1 tes). now + gap \<le> u" "set (alert_times step key k s1 tes) \<subseteq> fst ` set tes"
      using Cons.IH [of s1] la srt by auto
    have cold: "t + gap \<le> now" if "last_alert s k = Some t" for t
      using alert_cold [of now e s s1 _ t] True st that by auto
    have "t + gap \<le> u" if "last_alert s k = Some t" "u \<in> set (alert_times step key k s1 tes)" for t u
    proof -
      have "now \<le> u" using ih(3) srt(2) that(2) by fastforce
      then show ?thesis using cold [OF that(1)] by linarith
    qed
    then show ?thesis using ih cold True st x by auto
  next
    case False
    then have la: "last_alert s1 k = last_alert s k"
      using alert_now [of now e s s1] quiet [of now e s s1] st by (cases r) auto
    have "\<forall>t. last_alert s1 k = Some t \<longrightarrow> (\<forall>x \<in> set tes. t \<le> fst x)" using Cons.prems(2) la by auto
    from Cons.IH [OF srt(1) this] show ?thesis using False st x la by auto
  qed
qed simp

lemma spaced:
  assumes "sorted (map fst tes)" "last_alert s k = None"
  shows "sorted_wrt (\<lambda>t u. t + gap \<le> u) (alert_times step key k s tes)"
  using spaced_from [OF assms(1), of s k] assms(2) by simp

end

section \<open>Sliding windows\<close>

text \<open>The full history of a key: the entries of its events, in order.\<close>

definition history :: "('e \<Rightarrow> 'k option) \<Rightarrow> (time \<Rightarrow> 'e \<Rightarrow> 'x) \<Rightarrow> 'k \<Rightarrow> (time \<times> 'e) list \<Rightarrow> 'x list" where
  "history key entry k tes = map (\<lambda>(now, e). entry now e) (filter (\<lambda>(now, e). key e = Some k) tes)"

locale sliding_window =
  fixes step :: "time \<Rightarrow> 'e \<Rightarrow> 's \<Rightarrow> 's \<times> 'r" and key :: "'e \<Rightarrow> 'k option" and entry :: "time \<Rightarrow> 'e \<Rightarrow> 'x"
    and stamp :: "'x \<Rightarrow> time" and events :: "'s \<Rightarrow> 'k \<Rightarrow> 'x list" and window :: time
  assumes entry_at: "stamp (entry now e) = now"
    and ignored: "key e \<noteq> Some k \<Longrightarrow> events (fst (step now e s)) k = events s k"
    and recorded: "key e = Some k \<Longrightarrow> events (fst (step now e s)) k = drop_stale stamp (now - window) (events s k @ [entry now e])"
begin

lemma history_sorted: "sorted (map fst tes) \<Longrightarrow> sorted (map stamp (history key entry k tes))"
proof (induction tes)
  case (Cons x tes)
  then show ?case by (cases x) (auto simp: history_def entry_at)
qed (simp add: history_def)

lemma history_snoc:
  "history key entry k (tes @ [(now, e)]) = history key entry k tes @ (if key e = Some k then [entry now e] else [])"
  by (simp add: history_def)

lemma queue_push:
  assumes srt: "sorted (map stamp (h @ [entry now e]))" and k: "key e = Some k"
    and q: "events s k = filter (\<lambda>x. c \<le> stamp x) h" and c: "h \<noteq> [] \<Longrightarrow> c \<le> stamp (last h) - window"
  shows "events (fst (step now e s)) k = filter (\<lambda>x. now - window \<le> stamp x) (h @ [entry now e])"
  using drop_stale_cut [OF srt q c] recorded [OF k, of now s] by (simp add: entry_at)

text \<open>After any run the queue is the history cut at the window that ends with the key's last event.\<close>

lemma queue_cut:
  assumes "sorted (map fst tes)" "events s0 k = []"
  shows "\<exists>c. events (fst (run step s0 tes)) k = filter (\<lambda>x. c \<le> stamp x) (history key entry k tes)
    \<and> (history key entry k tes \<noteq> [] \<longrightarrow> c \<le> stamp (last (history key entry k tes)) - window)"
  using assms(1)
proof (induction tes rule: rev_induct)
  case Nil
  show ?case using assms(2) by (auto simp: history_def)
next
  case (snoc x tes)
  obtain now e where x: "x = (now, e)" by (cases x)
  let ?s = "fst (run step s0 tes)" and ?h = "history key entry k tes"
  obtain c where c: "events ?s k = filter (\<lambda>x. c \<le> stamp x) ?h" "?h \<noteq> [] \<longrightarrow> c \<le> stamp (last ?h) - window"
    using snoc by (auto simp: sorted_append)
  have step: "fst (run step s0 (tes @ [(now, e)])) = fst (step now e ?s)" by (simp add: run_append split: prod.splits)
  show ?case
  proof (cases "key e = Some k")
    case True
    have "sorted (map stamp (?h @ [entry now e]))"
      using history_sorted [OF snoc.prems, of k] True by (simp add: x history_snoc)
    from queue_push [OF this True c(1)] c(2)
    show ?thesis using True by (intro exI [of _ "now - window"]) (simp add: step x history_snoc entry_at)
  next
    case False
    then show ?thesis using c ignored [OF False, of now ?s] by (intro exI [of _ c]) (simp add: step x history_snoc)
  qed
qed

text \<open>Right after an event of the key, the queue is the history inside the window.\<close>

lemma queue_exact:
  assumes "sorted (map fst (tes @ [(now, e)]))" "events s0 k = []" "key e = Some k"
  shows "events (fst (step now e (fst (run step s0 tes)))) k
    = filter (\<lambda>x. now - window \<le> stamp x) (history key entry k (tes @ [(now, e)]))"
proof -
  obtain c where c: "events (fst (run step s0 tes)) k = filter (\<lambda>x. c \<le> stamp x) (history key entry k tes)"
    "history key entry k tes \<noteq> [] \<longrightarrow> c \<le> stamp (last (history key entry k tes)) - window"
    using queue_cut [of tes s0 k] assms(1,2) by (auto simp: sorted_append)
  have "sorted (map stamp (history key entry k tes @ [entry now e]))"
    using history_sorted [OF assms(1), of k] assms(3) by (simp add: history_snoc)
  from queue_push [OF this assms(3) c(1)] c(2) show ?thesis using assms(3) by (simp add: history_snoc)
qed

end

end
