(* ===== verification/Anomaly.thy ===== *)
theory Anomaly
  imports Monitors Event_Windows
begin

text \<open>
  The stateful detectors of \<^verbatim>\<open>anomaly.py\<close> and the engine that runs them. Every operation takes
  the reading of \<open>time.monotonic()\<close> it makes as an argument. A detector returns its new state and
  the \<open>detail\<close> of its hit, if any. Windows, thresholds and cooldowns are the values of
  \<^verbatim>\<open>settings.py\<close>, passed as a record.
\<close>

record anomaly_settings =
  ARP_SPOOF_COOLDOWN_SECONDS :: int
  ICMP_FLOOD_WINDOW_SECONDS :: int
  ICMP_FLOOD_THRESHOLD :: int
  PORT_SCAN_WINDOW_SECONDS :: int
  PORT_SCAN_DISTINCT_PORTS_THRESHOLD :: int
  SYN_FLOOD_WINDOW_SECONDS :: int
  SYN_FLOOD_THRESHOLD :: int
  BRUTE_FORCE_WINDOW_SECONDS :: int
  BRUTE_FORCE_THRESHOLD :: int
  DNS_QUERY_FLOOD_WINDOW_SECONDS :: int
  DNS_QUERY_FLOOD_THRESHOLD :: int
  DHCP_ROGUE_SERVER_COOLDOWN_SECONDS :: int

type_synonym detail = ustr

text \<open>\<open>last is not None and now - last < seconds\<close>\<close>

definition cooling :: "time option \<Rightarrow> time \<Rightarrow> int \<Rightarrow> bool" where
  "cooling t0 now seconds \<longleftrightarrow> (case t0 of None \<Rightarrow> False | Some t \<Rightarrow> now - t < of_int seconds)"

section \<open>ARP spoofing\<close>

record arp_spoof =
  as_bindings :: "ustr \<rightharpoonup> ustr"
  as_last_alert :: "ustr \<rightharpoonup> time"

definition new_arp_spoof :: arp_spoof where
  "new_arp_spoof = \<lparr>as_bindings = Map.empty, as_last_alert = Map.empty\<rparr>"

definition arp_ip :: "packet \<Rightarrow> ustr" where "arp_ip p = strip (pk_src_ip p)"
definition arp_mac :: "packet \<Rightarrow> ustr" where "arp_mac p = lower (strip (pk_eth_src p))"

text \<open>The early returns: an ARP reply with a usable address and MAC.\<close>

definition arp_claim :: "packet \<Rightarrow> bool" where
  "arp_claim p \<longleftrightarrow> pk_proto p = U ''arp'' \<and> pk_arp_opcode p = 2 \<and> arp_ip p \<noteq> [] \<and> arp_mac p \<noteq> [] \<and> arp_ip p \<noteq> U ''0.0.0.0''
     \<and> arp_mac p \<notin> {U ''ff:ff:ff:ff:ff:ff'', U ''00:00:00:00:00:00''}"

definition arp_spoof_evaluate :: "int \<Rightarrow> time \<Rightarrow> packet \<Rightarrow> arp_spoof \<Rightarrow> arp_spoof \<times> detail option" where
  "arp_spoof_evaluate cooldown_seconds now p st =
     (if \<not> arp_claim p then (st, None)
      else let ip = arp_ip p; mac = arp_mac p in
        case as_bindings st ip of
          None \<Rightarrow> (st\<lparr>as_bindings := (as_bindings st)(ip \<mapsto> mac)\<rparr>, None)
        | Some known \<Rightarrow>
            if known = mac then (st, None)
            else let st1 = st\<lparr>as_bindings := (as_bindings st)(ip \<mapsto> mac)\<rparr> in
              if cooling (as_last_alert st ip) now cooldown_seconds then (st1, None)
              else (st1\<lparr>as_last_alert := (as_last_alert st1)(ip \<mapsto> now)\<rparr>,
                    Some (ip @ U '' now claimed by '' @ mac @ U '', previously '' @ known)))"

section \<open>Floods\<close>

type_synonym flood = "ustr \<Rightarrow> time list"

definition flood_record :: "int \<Rightarrow> int \<Rightarrow> time \<Rightarrow> ustr \<Rightarrow> flood \<Rightarrow> flood \<times> bool" where
  "flood_record window threshold now key ev =
     (let q = drop_stale (\<lambda>t. t) (now - of_int window) (ev key @ [now]) in
      if int (length q) \<ge> threshold then (ev(key := []), True) else (ev(key := q), False))"

definition flood_detail :: "string \<Rightarrow> ustr \<Rightarrow> int \<Rightarrow> int \<Rightarrow> detail" where
  "flood_detail what key threshold window =
     key @ U '' sent '' @ dec_int threshold @ U ''+ '' @ U what @ U '' within '' @ dec_int window @ U ''s''"

text \<open>The shared end of the three flood detectors.\<close>

definition flood_hit :: "string \<Rightarrow> int \<Rightarrow> int \<Rightarrow> time \<Rightarrow> packet \<Rightarrow> flood \<Rightarrow> flood \<times> detail option" where
  "flood_hit what window threshold now p ev =
     (let key = strip (pk_src_ip p) in
      if key = [] then (ev, None)
      else case flood_record window threshold now key ev of
        (ev', hit) \<Rightarrow> (ev', if hit then Some (flood_detail what key threshold window) else None))"

definition icmp_flood_evaluate :: "int \<Rightarrow> int \<Rightarrow> time \<Rightarrow> packet \<Rightarrow> flood \<Rightarrow> flood \<times> detail option" where
  "icmp_flood_evaluate window threshold now p ev =
     (if pk_proto p \<notin> {U ''icmp'', U ''icmpv6''} then (ev, None) else flood_hit ''ICMP packets'' window threshold now p ev)"

text \<open>\<open>"SYN" not in flags or "ACK" in flags\<close> is the guard of three detectors.\<close>

definition bare_syn :: "packet \<Rightarrow> bool" where
  "bare_syn p \<longleftrightarrow> contains (pk_tcp_flags p) (U ''SYN'') \<and> \<not> contains (pk_tcp_flags p) (U ''ACK'')"

definition syn_flood_evaluate :: "int \<Rightarrow> int \<Rightarrow> time \<Rightarrow> packet \<Rightarrow> flood \<Rightarrow> flood \<times> detail option" where
  "syn_flood_evaluate window threshold now p ev =
     (if pk_proto p \<noteq> U ''tcp'' \<or> \<not> bare_syn p then (ev, None) else flood_hit ''bare TCP SYN packets'' window threshold now p ev)"

definition dns_query_flood_evaluate :: "int \<Rightarrow> int \<Rightarrow> time \<Rightarrow> packet \<Rightarrow> flood \<Rightarrow> flood \<times> detail option" where
  "dns_query_flood_evaluate window threshold now p ev =
     (if pk_proto p \<notin> {U ''tcp'', U ''udp''} \<or> pk_dst_port p \<noteq> 53 then (ev, None)
      else flood_hit ''DNS queries'' window threshold now p ev)"

section \<open>Port scans\<close>

record port_scan =
  ps_events :: "ustr \<Rightarrow> (time \<times> nat) list"
  ps_last_alert :: "ustr \<rightharpoonup> time"

definition new_port_scan :: port_scan where
  "new_port_scan = \<lparr>ps_events = (\<lambda>_. []), ps_last_alert = Map.empty\<rparr>"

text \<open>The source a packet is counted for as a probe, if it is one.\<close>

definition probe_source :: "packet \<Rightarrow> ustr option" where
  "probe_source p =
     (if pk_proto p \<notin> {U ''tcp'', U ''udp''} \<or> pk_proto p = U ''tcp'' \<and> \<not> bare_syn p
         \<or> strip (pk_src_ip p) = [] \<or> pk_dst_port p = 0
      then None else Some (strip (pk_src_ip p)))"

definition port_scan_evaluate :: "int \<Rightarrow> int \<Rightarrow> time \<Rightarrow> packet \<Rightarrow> port_scan \<Rightarrow> port_scan \<times> detail option" where
  "port_scan_evaluate window threshold now p st =
     (case probe_source p of
        None \<Rightarrow> (st, None)
      | Some src_ip \<Rightarrow>
          let q = drop_stale fst (now - of_int window) (ps_events st src_ip @ [(now, pk_dst_port p)]);
              st1 = st\<lparr>ps_events := (ps_events st)(src_ip := q)\<rparr>;
              distinct_ports = remdups (map snd q) in
          if int (length distinct_ports) < threshold then (st1, None)
          else if cooling (ps_last_alert st src_ip) now window then (st1, None)
          else (st1\<lparr>ps_last_alert := (ps_last_alert st1)(src_ip \<mapsto> now)\<rparr>,
                Some (src_ip @ U '' touched '' @ dec (length distinct_ports) @ U '' distinct ports within '' @ dec_int window @ U ''s'')))"

section \<open>Login brute force and declarative thresholds\<close>

text \<open>State of \<open>BruteForceLoginDetector\<close> and of \<open>GenericThresholdDetector\<close>.\<close>

record counter =
  ct_events :: "ustr \<Rightarrow> time list"
  ct_last_alert :: "ustr \<rightharpoonup> time"

definition new_counter :: counter where
  "new_counter = \<lparr>ct_events = (\<lambda>_. []), ct_last_alert = Map.empty\<rparr>"

text \<open>The end both detectors have, from \<open>now = time.monotonic()\<close>: the number of events counted.\<close>

definition count_event :: "int \<Rightarrow> int \<Rightarrow> time \<Rightarrow> ustr \<Rightarrow> counter \<Rightarrow> counter \<times> nat option" where
  "count_event window threshold now key st =
     (let q = drop_stale (\<lambda>t. t) (now - of_int window) (ct_events st key @ [now]);
          st1 = st\<lparr>ct_events := (ct_events st)(key := q)\<rparr> in
      if int (length q) < threshold then (st1, None)
      else if cooling (ct_last_alert st key) now window then (st1, None)
      else (st1\<lparr>ct_last_alert := (ct_last_alert st1)(key \<mapsto> now)\<rparr>, Some (length q)))"

definition LOGIN_PORTS :: "nat list" where
  "LOGIN_PORTS = [21, 22, 23, 25, 110, 143, 993, 995, 1433, 3306, 3389, 5432, 5900]"

definition login_key :: "packet \<Rightarrow> ustr option" where
  "login_key p =
     (let src_ip = strip (pk_src_ip p); dst_ip = strip (pk_dst_ip p) in
      if pk_proto p \<noteq> U ''tcp'' \<or> \<not> bare_syn p \<or> pk_dst_port p \<notin> set LOGIN_PORTS \<or> src_ip = [] \<or> dst_ip = [] then None
      else Some (src_ip @ U ''->'' @ dst_ip @ U '':'' @ dec (pk_dst_port p)))"

definition brute_force_evaluate :: "int \<Rightarrow> int \<Rightarrow> time \<Rightarrow> packet \<Rightarrow> counter \<Rightarrow> counter \<times> detail option" where
  "brute_force_evaluate window threshold now p st =
     (case login_key p of
        None \<Rightarrow> (st, None)
      | Some key \<Rightarrow>
          (case count_event window threshold now key st of (st', n) \<Rightarrow>
             (st', map_option (\<lambda>n. strip (pk_src_ip p) @ U '' attempted '' @ dec n @ U ''+ connections to '' @ strip (pk_dst_ip p)
                @ U '':'' @ dec (pk_dst_port p) @ U '' within '' @ dec_int window @ U ''s'') n)))"

definition group_key :: "packet \<Rightarrow> ustr \<Rightarrow> ustr" where
  "group_key p spec =
     (let src_ip = strip (pk_src_ip p); dst_ip = strip (pk_dst_ip p); dst_port = pk_dst_port p in
      if spec = U ''dst_ip'' then dst_ip
      else if spec = U ''src_ip+dst_port'' then (if src_ip \<noteq> [] \<and> dst_port \<noteq> 0 then src_ip @ U '':'' @ dec dst_port else [])
      else if spec = U ''dst_ip+dst_port'' then (if dst_ip \<noteq> [] \<and> dst_port \<noteq> 0 then dst_ip @ U '':'' @ dec dst_port else [])
      else if spec = U ''src_ip+dst_ip'' then (if src_ip \<noteq> [] \<and> dst_ip \<noteq> [] then src_ip @ U ''->'' @ dst_ip else [])
      else src_ip)"

text \<open>What counts as one event of a monitor, and for which key.\<close>

definition threshold_key :: "regex_engine \<Rightarrow> nat \<Rightarrow> monitor \<Rightarrow> packet \<Rightarrow> ustr option" where
  "threshold_key rx lmt m p =
     (let c = crit (r_match m); key = group_key p (or_text (m_group_by c) (U ''src_ip'')) in
      if m_count_threshold c \<le> 0 \<or> m_window_seconds c \<le> 0 \<or> \<not> rule_matches_packet rx lmt m p (Some (build_packet_text lmt p)) \<or> key = []
      then None else Some key)"

definition generic_threshold_evaluate :: "regex_engine \<Rightarrow> nat \<Rightarrow> monitor \<Rightarrow> time \<Rightarrow> packet \<Rightarrow> counter \<Rightarrow> counter \<times> detail option" where
  "generic_threshold_evaluate rx lmt m now p st =
     (case threshold_key rx lmt m p of
        None \<Rightarrow> (st, None)
      | Some key \<Rightarrow>
          (case count_event (m_window_seconds (crit (r_match m))) (m_count_threshold (crit (r_match m))) now key st of (st', n) \<Rightarrow>
             (st', map_option (\<lambda>n. key @ U '': '' @ dec n @ U ''+ matches within '' @ dec_int (m_window_seconds (crit (r_match m))) @ U ''s'') n)))"

section \<open>Rogue DHCP servers\<close>

record dhcp_rogue =
  dr_servers :: "ustr list"
  dr_last_alert :: "time option"

definition new_dhcp_rogue :: dhcp_rogue where
  "new_dhcp_rogue = \<lparr>dr_servers = [], dr_last_alert = None\<rparr>"

definition OFFER_ACK_TYPES :: "int list" where "OFFER_ACK_TYPES = [2, 5]"

text \<open>\<open>packet.get("dhcp_msg_type") in (2, 5)\<close>: Python compares numbers with numbers only.\<close>

definition is_offer_ack :: "packet \<Rightarrow> bool" where
  "is_offer_ack p \<longleftrightarrow> (case pk_extra p ''dhcp_msg_type'' of
       Some (PInt n) \<Rightarrow> n \<in> set OFFER_ACK_TYPES
     | Some (PFloat f) \<Rightarrow> f \<in> set (map (\<lambda>n. Fin (of_int n)) OFFER_ACK_TYPES)
     | _ \<Rightarrow> False)"

definition dhcp_rogue_evaluate :: "int \<Rightarrow> time \<Rightarrow> packet \<Rightarrow> dhcp_rogue \<Rightarrow> dhcp_rogue \<times> detail option" where
  "dhcp_rogue_evaluate cooldown_seconds now p st =
     (let src_ip = strip (pk_src_ip p) in
      if pk_proto p \<noteq> U ''dhcp'' \<or> \<not> is_offer_ack p \<or> src_ip = [] then (st, None)
      else let st1 = st\<lparr>dr_servers := List.insert src_ip (dr_servers st)\<rparr> in
        if length (dr_servers st1) \<le> 1 \<or> cooling (dr_last_alert st) now cooldown_seconds then (st1, None)
        else (st1\<lparr>dr_last_alert := Some now\<rparr>,
              Some (dec (length (dr_servers st1)) @ U '' distinct DHCP servers observed: ''
                @ join (U '', '') (sort (dr_servers st1)))))"

section \<open>The engine\<close>

record anomaly_hit = rule_hit +
  ah_detail :: detail

record engine =
  en_arp :: arp_spoof
  en_icmp :: flood
  en_scan :: port_scan
  en_syn :: flood
  en_brute :: counter
  en_dns :: flood
  en_dhcp :: dhcp_rogue
  en_generic :: "ustr \<rightharpoonup> counter"
  en_candidates :: "ustr list"
  en_source :: "nat option"

definition new_engine :: engine where
  "new_engine = \<lparr>en_arp = new_arp_spoof, en_icmp = (\<lambda>_. []), en_scan = new_port_scan, en_syn = (\<lambda>_. []), en_brute = new_counter,
     en_dns = (\<lambda>_. []), en_dhcp = new_dhcp_rogue, en_generic = Map.empty, en_candidates = [], en_source = None\<rparr>"

definition DETECTOR_IDS :: "ustr list" where
  "DETECTOR_IDS = [U ''builtin-arp-spoof'', U ''builtin-icmp-flood'', U ''builtin-port-scan'', U ''builtin-syn-flood'',
     U ''builtin-brute-force-login'', U ''builtin-dns-query-flood'', U ''builtin-dhcp-rogue-server'']"

text \<open>The id-to-monitor dictionary, in insertion order; built from the list when none is passed.\<close>

type_synonym by_id = "(ustr \<times> monitor) list"

definition monitors_by_id :: "monitor list \<Rightarrow> by_id" where
  "monitors_by_id ms = fold (\<lambda>m. AList.update (r_id m) m) ms []"

definition is_stateful :: "monitor \<Rightarrow> bool" where
  "is_stateful m \<longleftrightarrow> lower (strip (mo_mode m)) = U ''stateful''"

definition anomaly_hit_of :: "ustr \<Rightarrow> monitor \<Rightarrow> detail \<Rightarrow> anomaly_hit" where
  "anomaly_hit_of i m d = \<lparr>h_rule_id = i, h_rule_name = r_name m, h_tag = or_text (a_tag (r_action m)) i,
     h_label = or_text (a_label (r_action m)) (r_name m), h_severity = or_text (a_severity (r_action m)) (U ''info''), ah_detail = d\<rparr>"

text \<open>One turn of the loop over the fixed detectors.\<close>

definition run_detector :: "by_id \<Rightarrow> ustr \<Rightarrow> 's \<times> ('s \<times> detail option) \<Rightarrow> 's \<times> anomaly_hit list" where
  "run_detector by_id i old_new =
     (case old_new of (s, s', d) \<Rightarrow>
        (case map_of by_id i of
           None \<Rightarrow> (s, [])
         | Some m \<Rightarrow> if \<not> r_enabled m \<or> \<not> is_stateful m then (s, [])
             else (s', case d of None \<Rightarrow> [] | Some x \<Rightarrow> [anomaly_hit_of i m x])))"

definition run_fixed :: "anomaly_settings \<Rightarrow> (ustr \<Rightarrow> time) \<Rightarrow> packet \<Rightarrow> by_id \<Rightarrow> engine \<Rightarrow> engine \<times> anomaly_hit list" where
  "run_fixed cf clock p by_id en =
     (let (arp, h1) = run_detector by_id (U ''builtin-arp-spoof'')
            (en_arp en, arp_spoof_evaluate (ARP_SPOOF_COOLDOWN_SECONDS cf) (clock (U ''builtin-arp-spoof'')) p (en_arp en));
          (icmp, h2) = run_detector by_id (U ''builtin-icmp-flood'')
            (en_icmp en, icmp_flood_evaluate (ICMP_FLOOD_WINDOW_SECONDS cf) (ICMP_FLOOD_THRESHOLD cf) (clock (U ''builtin-icmp-flood'')) p (en_icmp en));
          (scan, h3) = run_detector by_id (U ''builtin-port-scan'')
            (en_scan en, port_scan_evaluate (PORT_SCAN_WINDOW_SECONDS cf) (PORT_SCAN_DISTINCT_PORTS_THRESHOLD cf) (clock (U ''builtin-port-scan'')) p (en_scan en));
          (syn, h4) = run_detector by_id (U ''builtin-syn-flood'')
            (en_syn en, syn_flood_evaluate (SYN_FLOOD_WINDOW_SECONDS cf) (SYN_FLOOD_THRESHOLD cf) (clock (U ''builtin-syn-flood'')) p (en_syn en));
          (brute, h5) = run_detector by_id (U ''builtin-brute-force-login'')
            (en_brute en, brute_force_evaluate (BRUTE_FORCE_WINDOW_SECONDS cf) (BRUTE_FORCE_THRESHOLD cf) (clock (U ''builtin-brute-force-login'')) p (en_brute en));
          (dns, h6) = run_detector by_id (U ''builtin-dns-query-flood'')
            (en_dns en, dns_query_flood_evaluate (DNS_QUERY_FLOOD_WINDOW_SECONDS cf) (DNS_QUERY_FLOOD_THRESHOLD cf) (clock (U ''builtin-dns-query-flood'')) p (en_dns en));
          (dhcp, h7) = run_detector by_id (U ''builtin-dhcp-rogue-server'')
            (en_dhcp en, dhcp_rogue_evaluate (DHCP_ROGUE_SERVER_COOLDOWN_SECONDS cf) (clock (U ''builtin-dhcp-rogue-server'')) p (en_dhcp en)) in
      (en\<lparr>en_arp := arp, en_icmp := icmp, en_scan := scan, en_syn := syn, en_brute := brute, en_dns := dns, en_dhcp := dhcp\<rparr>,
       h1 @ h2 @ h3 @ h4 @ h5 @ h6 @ h7))"

definition generic_candidates :: "by_id \<Rightarrow> ustr list" where
  "generic_candidates by_id = map fst (filter (\<lambda>(i, m). i \<notin> set DETECTOR_IDS \<and> is_stateful m \<and> m_count_threshold (crit (r_match m)) > 0) by_id)"

text \<open>One turn of the loop over the declarative monitors.\<close>

definition run_generic :: "regex_engine \<Rightarrow> nat \<Rightarrow> (ustr \<Rightarrow> time) \<Rightarrow> packet \<Rightarrow> by_id \<Rightarrow> ustr \<Rightarrow> engine \<times> anomaly_hit list \<Rightarrow> engine \<times> anomaly_hit list" where
  "run_generic rx lmt clock p by_id i acc =
     (case acc of (en, hits) \<Rightarrow>
        (case map_of by_id i of
           None \<Rightarrow> (en, hits)
         | Some m \<Rightarrow>
             if \<not> r_enabled m then (en, hits)
             else let det = (case en_generic en i of None \<Rightarrow> new_counter | Some d \<Rightarrow> d) in
               (case generic_threshold_evaluate rx lmt m (clock i) p det of (det', d) \<Rightarrow>
                  (en\<lparr>en_generic := (en_generic en)(i \<mapsto> det')\<rparr>,
                   hits @ (case d of None \<Rightarrow> [] | Some x \<Rightarrow> [anomaly_hit_of i m x])))))"

definition refresh_candidates :: "nat \<Rightarrow> by_id \<Rightarrow> engine \<Rightarrow> engine" where
  "refresh_candidates did by_id en =
     (if Some did \<noteq> en_source en then en\<lparr>en_candidates := generic_candidates by_id, en_source := Some did\<rparr> else en)"

text \<open>\<open>did\<close> is \<open>id(monitors_by_id)\<close>; \<open>clock i\<close> is the reading made for the detector of monitor \<open>i\<close>.\<close>

definition engine_evaluate :: "regex_engine \<Rightarrow> nat \<Rightarrow> anomaly_settings \<Rightarrow> (ustr \<Rightarrow> time) \<Rightarrow> packet \<Rightarrow> nat \<Rightarrow> by_id \<Rightarrow> engine \<Rightarrow> engine \<times> anomaly_hit list" where
  "engine_evaluate rx lmt cf clock p did by_id en =
     (case run_fixed cf clock p by_id en of (en1, hits) \<Rightarrow>
        let en2 = refresh_candidates did by_id en1 in
        fold (run_generic rx lmt clock p by_id) (en_candidates en2) (en2, hits))"

end
