(* ===== verification/Anomaly_Properties.thy ===== *)
theory Anomaly_Properties
  imports Anomaly
begin

text \<open>
  What the detectors of \<^verbatim>\<open>anomaly.py\<close> promise: the contracts \<open>cooldown\<close> and \<open>sliding_window\<close> hold
  for them, alerts are spaced, the queues lose nothing a full history would keep, and the engine's
  memo of declarative monitors is transparent.
\<close>

section \<open>The contracts hold\<close>

lemma cooling_False: "\<not> cooling (Some t) now s \<Longrightarrow> t + of_int s \<le> now"
  by (simp add: cooling_def)

lemma count_event_cases:
  assumes "count_event w thr now key st = (st', r)"
  shows "ct_events st' = (ct_events st)(key := drop_stale (\<lambda>t. t) (now - of_int w) (ct_events st key @ [now]))"
    "r = None \<Longrightarrow> ct_last_alert st' = ct_last_alert st"
    "r = Some n \<Longrightarrow> ct_last_alert st' = (ct_last_alert st)(key \<mapsto> now)"
    "r = Some n \<Longrightarrow> ct_last_alert st key = Some t \<Longrightarrow> t + of_int w \<le> now"
  using assms by (auto simp: count_event_def Let_def dest: cooling_False split: if_splits)

interpretation arp: cooldown "arp_spoof_evaluate s" arp_ip as_last_alert "of_int s" for s
  by unfold_locales
    (auto simp: arp_spoof_evaluate_def Let_def dest: cooling_False split: if_splits option.splits)

interpretation scan: cooldown "port_scan_evaluate w thr" "\<lambda>p. strip (pk_src_ip p)" ps_last_alert "of_int w" for w thr
  by unfold_locales
    (auto simp: port_scan_evaluate_def probe_source_def Let_def dest: cooling_False split: if_splits option.splits)

interpretation brute: cooldown "brute_force_evaluate w thr" "\<lambda>p. the (login_key p)" ct_last_alert "of_int w" for w thr
  by unfold_locales
    (auto simp: brute_force_evaluate_def dest: count_event_cases split: option.splits prod.splits)

interpretation generic: cooldown "generic_threshold_evaluate rx lmt m" "\<lambda>p. the (threshold_key rx lmt m p)" ct_last_alert
    "of_int (m_window_seconds (crit (r_match m)))" for rx lmt m
  by unfold_locales
    (auto simp: generic_threshold_evaluate_def dest: count_event_cases split: option.splits prod.splits)

interpretation dhcp: cooldown "dhcp_rogue_evaluate s" "\<lambda>_. ()" "\<lambda>st _. dr_last_alert st" "of_int s" for s
  by unfold_locales
    (auto simp: dhcp_rogue_evaluate_def Let_def fun_eq_iff dest: cooling_False split: if_splits)

interpretation scan_queue: sliding_window "port_scan_evaluate w thr" probe_source "\<lambda>now p. (now, pk_dst_port p)" fst ps_events "of_int w"
  for w thr
  by unfold_locales (auto simp: port_scan_evaluate_def Let_def split: option.splits)

interpretation brute_queue: sliding_window "brute_force_evaluate w thr" login_key "\<lambda>now p. now" "\<lambda>t. t" ct_events "of_int w"
  for w thr
  by unfold_locales (auto simp: brute_force_evaluate_def count_event_cases(1) split: option.splits prod.splits)

interpretation generic_queue: sliding_window "generic_threshold_evaluate rx lmt m" "threshold_key rx lmt m" "\<lambda>now p. now" "\<lambda>t. t" ct_events
    "of_int (m_window_seconds (crit (r_match m)))" for rx lmt m
  by unfold_locales (auto simp: generic_threshold_evaluate_def count_event_cases(1) split: option.splits prod.splits)

section \<open>Spacing of alerts\<close>

text \<open>
  As long as the clock does not go back, two alerts of a detector for the same key are at least
  its cooldown apart: ARP spoofing per address, port scans per source, login brute force per
  source, destination and port, declarative thresholds per group key, rogue DHCP servers globally.
\<close>

theorem detector_alerts_spaced:
  assumes "sorted (map fst tps)"
  shows "sorted_wrt (\<lambda>t u. t + of_int s \<le> u) (alert_times (arp_spoof_evaluate s) arp_ip k new_arp_spoof tps)
    \<and> sorted_wrt (\<lambda>t u. t + of_int w \<le> u) (alert_times (port_scan_evaluate w thr) (\<lambda>p. strip (pk_src_ip p)) k new_port_scan tps)
    \<and> sorted_wrt (\<lambda>t u. t + of_int w \<le> u) (alert_times (brute_force_evaluate w thr) (\<lambda>p. the (login_key p)) k new_counter tps)
    \<and> sorted_wrt (\<lambda>t u. t + of_int (m_window_seconds (crit (r_match m))) \<le> u)
        (alert_times (generic_threshold_evaluate rx lmt m) (\<lambda>p. the (threshold_key rx lmt m p)) k new_counter tps)
    \<and> sorted_wrt (\<lambda>t u. t + of_int s \<le> u) (alert_times (dhcp_rogue_evaluate s) (\<lambda>_. ()) () new_dhcp_rogue tps)"
  using assms
  by (intro conjI arp.spaced scan.spaced brute.spaced generic.spaced dhcp.spaced)
    (simp_all add: new_arp_spoof_def new_port_scan_def new_counter_def new_dhcp_rogue_def)

section \<open>Windowed counts\<close>

text \<open>
  C18. Port scans are detected exactly: when a probe arrives, the detector alerts precisely if the
  probes of its source inside the window that ends now, out of the whole capture, touch at least
  the threshold of distinct ports, and the source is not in its cooldown.
\<close>

theorem port_scan_exact:
  assumes "sorted (map fst (tps @ [(now, p)]))" and "probe_source p = Some src"
  shows "snd (port_scan_evaluate w thr now p (fst (run (port_scan_evaluate w thr) new_port_scan tps))) \<noteq> None
    \<longleftrightarrow> int (card {port. \<exists>t. (t, port) \<in> set (history probe_source (\<lambda>now p. (now, pk_dst_port p)) src (tps @ [(now, p)]))
            \<and> now - of_int w \<le> t}) \<ge> thr
        \<and> \<not> cooling (ps_last_alert (fst (run (port_scan_evaluate w thr) new_port_scan tps)) src) now w"
proof -
  let ?st = "fst (run (port_scan_evaluate w thr) new_port_scan tps)"
  let ?h = "history probe_source (\<lambda>now p. (now, pk_dst_port p)) src (tps @ [(now, p)])"
  let ?q = "drop_stale fst (now - of_int w) (ps_events ?st src @ [(now, pk_dst_port p)])"
  have "?q = ps_events (fst (port_scan_evaluate w thr now p ?st)) src"
    using scan_queue.recorded [OF assms(2)] by simp
  also have "\<dots> = filter (\<lambda>x. now - of_int w \<le> fst x) ?h"
    by (rule scan_queue.queue_exact [OF assms(1) _ assms(2)]) (simp add: new_port_scan_def)
  finally have q: "?q = filter (\<lambda>x. now - of_int w \<le> fst x) ?h" .
  have "length (remdups (map snd ?q)) = card (set (map snd ?q))" by (rule length_remdups_card_conv)
  also have "set (map snd ?q) = {port. \<exists>t. (t, port) \<in> set ?h \<and> now - of_int w \<le> t}"
    unfolding q by force
  finally have n: "length (remdups (map snd ?q)) = card {port. \<exists>t. (t, port) \<in> set ?h \<and> now - of_int w \<le> t}" .
  show ?thesis using assms(2) by (simp add: port_scan_evaluate_def Let_def n not_less)
qed

text \<open>
  A declarative threshold monitor counts exactly: on a matching packet with a group key it
  alerts precisely if at least \<open>count_threshold\<close> matching packets of that key, out of the whole
  capture, lie inside the window that ends now, and the key is not in its cooldown.
\<close>

theorem threshold_monitor_exact:
  assumes "sorted (map fst (tps @ [(now, p)]))" and "threshold_key rx lmt m p = Some key"
    and "w = m_window_seconds (crit (r_match m))"
  shows "snd (generic_threshold_evaluate rx lmt m now p (fst (run (generic_threshold_evaluate rx lmt m) new_counter tps))) \<noteq> None
    \<longleftrightarrow> int (length (filter (\<lambda>(t, q). threshold_key rx lmt m q = Some key \<and> now - of_int w \<le> t) (tps @ [(now, p)])))
          \<ge> m_count_threshold (crit (r_match m))
        \<and> \<not> cooling (ct_last_alert (fst (run (generic_threshold_evaluate rx lmt m) new_counter tps)) key) now w"
proof -
  let ?st = "fst (run (generic_threshold_evaluate rx lmt m) new_counter tps)"
  let ?q = "drop_stale (\<lambda>t. t) (now - of_int w) (ct_events ?st key @ [now])"
  have "?q = ct_events (fst (generic_threshold_evaluate rx lmt m now p ?st)) key"
    using generic_queue.recorded [OF assms(2)] assms(3) by simp
  also have "\<dots> = filter (\<lambda>x. now - of_int w \<le> x) (history (threshold_key rx lmt m) (\<lambda>now p. now) key (tps @ [(now, p)]))"
    unfolding assms(3) by (rule generic_queue.queue_exact [OF assms(1) _ assms(2)]) (simp add: new_counter_def)
  also have "length \<dots> = length (filter (\<lambda>(t, q). threshold_key rx lmt m q = Some key \<and> now - of_int w \<le> t) (tps @ [(now, p)]))"
    unfolding history_def filter_map length_map filter_filter by (rule arg_cong [of _ _ length], rule filter_cong) auto
  finally have "length ?q = length (filter (\<lambda>(t, q). threshold_key rx lmt m q = Some key \<and> now - of_int w \<le> t) (tps @ [(now, p)]))" .
  then show ?thesis
    using assms(2,3) by (auto simp: generic_threshold_evaluate_def count_event_def Let_def split: if_splits)
qed

section \<open>Floods\<close>

text \<open>
  The abstract flood counter: it keeps every event of a key since the key's last alert and alerts
  when enough of them lie in the window.
\<close>

definition flood_spec :: "int \<Rightarrow> int \<Rightarrow> time \<Rightarrow> ustr \<Rightarrow> flood \<Rightarrow> flood \<times> bool" where
  "flood_spec window threshold now key h =
     (if int (length (filter (\<lambda>t. now - of_int window \<le> t) (h key @ [now]))) \<ge> threshold
      then (h(key := []), True) else (h(key := h key @ [now]), False))"

definition flood_sim :: "int \<Rightarrow> flood \<Rightarrow> flood \<Rightarrow> bool" where
  "flood_sim w ev h \<longleftrightarrow> (\<forall>k. sorted (h k) \<and> (\<exists>c. ev k = filter (\<lambda>t. c \<le> t) (h k) \<and> (h k \<noteq> [] \<longrightarrow> c \<le> last (h k) - of_int w)))"

lemma flood_sim_upd:
  assumes "flood_sim w ev h" "sorted hs" "q = filter (\<lambda>t. c \<le> t) hs" "hs \<noteq> [] \<longrightarrow> c \<le> last hs - of_int w"
  shows "flood_sim w (ev(k := q)) (h(k := hs))"
  using assms unfolding flood_sim_def by auto

lemma flood_step:
  assumes sim: "flood_sim w ev h" and now: "\<forall>k. \<forall>t \<in> set (h k). t \<le> now"
  shows "snd (flood_record w thr now key ev) = snd (flood_spec w thr now key h)"
    "flood_sim w (fst (flood_record w thr now key ev)) (fst (flood_spec w thr now key h))"
    "\<forall>k. \<forall>t \<in> set (fst (flood_spec w thr now key h) k). t \<le> now"
proof -
  let ?q = "drop_stale (\<lambda>t. t) (now - of_int w) (ev key @ [now])"
  obtain c where c: "ev key = filter (\<lambda>t. c \<le> t) (h key)" "h key \<noteq> [] \<Longrightarrow> c \<le> last (h key) - of_int w"
    using sim by (auto simp: flood_sim_def)
  have srt: "sorted (h key @ [now])" using sim now by (auto simp: flood_sim_def sorted_append)
  have q: "?q = filter (\<lambda>t. now - of_int w \<le> t) (h key @ [now])"
    using drop_stale_cut [of "\<lambda>t. t" "h key" now "ev key" c "of_int w"] srt c by simp
  show "snd (flood_record w thr now key ev) = snd (flood_spec w thr now key h)"
    unfolding flood_record_def flood_spec_def q Let_def by simp
  have "flood_sim w (ev(key := [])) (h(key := []))" by (rule flood_sim_upd [OF sim, of _ _ 0]) simp_all
  moreover have "flood_sim w (ev(key := ?q)) (h(key := h key @ [now]))"
    by (rule flood_sim_upd [OF sim srt q]) simp
  ultimately show "flood_sim w (fst (flood_record w thr now key ev)) (fst (flood_spec w thr now key h))"
    unfolding flood_record_def flood_spec_def Let_def q by auto
  show "\<forall>k. \<forall>t \<in> set (fst (flood_spec w thr now key h) k). t \<le> now"
    using now by (auto simp: flood_spec_def split: if_splits)
qed

lemma flood_run:
  assumes "sorted (map fst tks)" "flood_sim w ev h" "\<forall>x \<in> set tks. \<forall>k. \<forall>t \<in> set (h k). t \<le> fst x"
  shows "snd (run (flood_record w thr) ev tks) = snd (run (flood_spec w thr) h tks)"
  using assms
proof (induction tks arbitrary: ev h)
  case (Cons x tks)
  obtain now key where x: "x = (now, key)" by (cases x)
  have now: "\<forall>k. \<forall>t \<in> set (h k). t \<le> now" using Cons.prems(3) x by auto
  note st = flood_step [OF Cons.prems(2) now, of thr key]
  have "\<forall>y \<in> set tks. \<forall>k. \<forall>t \<in> set (fst (flood_spec w thr now key h) k). t \<le> fst y"
    using st(3) Cons.prems(1) x by fastforce
  from Cons.IH [OF _ st(2) this] Cons.prems(1) st(1) show ?case by (simp add: x split_beta)
qed simp

lemma flood_bounded:
  "\<forall>k. int (length (ev k)) < max 1 thr \<Longrightarrow> int (length (fst (run (flood_record w thr) ev tks) k)) < max 1 thr"
proof (induction tks arbitrary: ev)
  case (Cons x tks)
  have "\<forall>k. int (length (fst (flood_record w thr (fst x) (snd x) ev) k)) < max 1 thr"
    using Cons.prems by (auto simp: flood_record_def Let_def)
  from Cons.IH [OF this] show ?case by (simp add: fst_run_Cons)
qed simp

text \<open>
  C16. The flood counters shared by the ICMP, SYN and DNS detectors raise exactly the alerts of a
  counter that remembers every event since the last alert, for any interleaving of keys, while
  their queues stay shorter than the threshold.
\<close>

theorem flood_counter_refines:
  assumes "sorted (map fst tks)"
  shows "snd (run (flood_record w thr) (\<lambda>_. []) tks) = snd (run (flood_spec w thr) (\<lambda>_. []) tks)
    \<and> int (length (fst (run (flood_record w thr) (\<lambda>_. []) tks) k)) < max 1 thr"
  using flood_run [OF assms, of w "\<lambda>_. []" "\<lambda>_. []" thr] flood_bounded [of "\<lambda>_. []" thr w tks k]
  by (simp add: flood_sim_def)

section \<open>ARP\<close>

text \<open>The MAC address last claimed for an IP address in a capture.\<close>

definition last_claim :: "ustr \<Rightarrow> (time \<times> packet) list \<Rightarrow> ustr option" where
  "last_claim ip tps =
     (let cs = filter (\<lambda>(t, p). arp_claim p \<and> arp_ip p = ip) tps in if cs = [] then None else Some (arp_mac (snd (last cs))))"

lemma last_claim_snoc:
  "last_claim ip (tps @ [(t, p)]) = (if arp_claim p \<and> arp_ip p = ip then Some (arp_mac p) else last_claim ip tps)"
  by (simp add: last_claim_def Let_def)

lemma arp_step_bindings:
  "as_bindings (fst (arp_spoof_evaluate s now p st)) ip = (if arp_claim p \<and> arp_ip p = ip then Some (arp_mac p) else as_bindings st ip)"
  by (auto simp: arp_spoof_evaluate_def Let_def split: option.splits)

lemma arp_bindings: "as_bindings (fst (run (arp_spoof_evaluate s) new_arp_spoof tps)) ip = last_claim ip tps"
proof (induction tps rule: rev_induct)
  case (snoc x tps)
  then show ?case by (cases x) (simp add: run_append fst_run_Cons last_claim_snoc arp_step_bindings del: run.simps(2))
qed (simp add: new_arp_spoof_def last_claim_def)

text \<open>
  The ARP detector alerts exactly when a usable ARP reply claims an address for another MAC than
  the last usable reply of the whole capture did, and the address is not in its cooldown; the hit
  names the address and both MACs.
\<close>

theorem arp_spoof_exact:
  "snd (arp_spoof_evaluate s now p (fst (run (arp_spoof_evaluate s) new_arp_spoof tps)))
    = (case last_claim (arp_ip p) tps of
         None \<Rightarrow> None
       | Some known \<Rightarrow>
           if arp_claim p \<and> known \<noteq> arp_mac p
              \<and> \<not> cooling (as_last_alert (fst (run (arp_spoof_evaluate s) new_arp_spoof tps)) (arp_ip p)) now s
           then Some (arp_ip p @ U '' now claimed by '' @ arp_mac p @ U '', previously '' @ known) else None)"
  using arp_bindings [of s tps "arp_ip p"]
  by (auto simp: arp_spoof_evaluate_def Let_def split: option.splits)

section \<open>The engine\<close>

text \<open>The engine without its memo: the declarative monitors are selected anew for every packet.\<close>

definition engine_fresh :: "regex_engine \<Rightarrow> nat \<Rightarrow> anomaly_settings \<Rightarrow> (ustr \<Rightarrow> time) \<Rightarrow> packet \<Rightarrow> by_id \<Rightarrow> engine \<Rightarrow> engine \<times> anomaly_hit list" where
  "engine_fresh rx lmt cf clock p by_id en =
     (case run_fixed cf clock p by_id en of (en1, hits) \<Rightarrow>
        fold (run_generic rx lmt clock p by_id) (generic_candidates by_id) (en1, hits))"

fun engine_run :: "('x \<Rightarrow> engine \<Rightarrow> engine \<times> 'h) \<Rightarrow> engine \<Rightarrow> 'x list \<Rightarrow> 'h list" where
  "engine_run ev en [] = []"
| "engine_run ev en (x # xs) = (case ev x en of (en', h) \<Rightarrow> h # engine_run ev en' xs)"

text \<open>Two engine states that differ at most in the memo.\<close>

definition same_detectors :: "engine \<Rightarrow> engine \<Rightarrow> bool" where
  "same_detectors a b \<longleftrightarrow> a\<lparr>en_candidates := [], en_source := None\<rparr> = b\<lparr>en_candidates := [], en_source := None\<rparr>"

lemma run_fixed_memo:
  "en_source (fst (run_fixed cf clock p by_id en)) = en_source en" "en_candidates (fst (run_fixed cf clock p by_id en)) = en_candidates en"
  by (simp_all add: run_fixed_def Let_def split: prod.splits)

lemma run_generic_memo:
  "en_source (fst (fold (run_generic rx lmt clock p by_id) is acc)) = en_source (fst acc)"
  "en_candidates (fst (fold (run_generic rx lmt clock p by_id) is acc)) = en_candidates (fst acc)"
  by (induction "is" arbitrary: acc) (auto simp: run_generic_def Let_def split: prod.splits option.splits)

lemma run_fixed_same:
  assumes "same_detectors a b"
  shows "snd (run_fixed cf clock p by_id a) = snd (run_fixed cf clock p by_id b)"
    "same_detectors (fst (run_fixed cf clock p by_id a)) (fst (run_fixed cf clock p by_id b))"
proof -
  have "b = a\<lparr>en_candidates := en_candidates b, en_source := en_source b\<rparr>"
    using assms by (cases a, cases b) (simp add: same_detectors_def)
  then obtain c s where b: "b = a\<lparr>en_candidates := c, en_source := s\<rparr>" by blast
  show "snd (run_fixed cf clock p by_id a) = snd (run_fixed cf clock p by_id b)"
    "same_detectors (fst (run_fixed cf clock p by_id a)) (fst (run_fixed cf clock p by_id b))"
    unfolding b by (simp_all add: run_fixed_def Let_def same_detectors_def split: prod.splits)
qed

lemma run_generic_same:
  "same_detectors a b \<Longrightarrow>
     snd (fold (run_generic rx lmt clock p by_id) is (a, hs)) = snd (fold (run_generic rx lmt clock p by_id) is (b, hs))
     \<and> same_detectors (fst (fold (run_generic rx lmt clock p by_id) is (a, hs))) (fst (fold (run_generic rx lmt clock p by_id) is (b, hs)))"
proof (induction "is" arbitrary: a b hs)
  case (Cons i "is")
  have "en_generic a = en_generic b" using Cons.prems by (cases a, cases b) (simp add: same_detectors_def)
  then have "\<exists>a' b' hs'. run_generic rx lmt clock p by_id i (a, hs) = (a', hs') \<and> run_generic rx lmt clock p by_id i (b, hs) = (b', hs')
      \<and> same_detectors a' b'"
    using Cons.prems by (cases a, cases b) (simp add: run_generic_def Let_def same_detectors_def split: option.splits prod.splits)
  then show ?case using Cons.IH by fastforce
qed simp

lemma engine_step_memo:
  assumes memo: "\<forall>d. en_source a = Some d \<longrightarrow> en_candidates a = generic_candidates (contents d)" and same: "same_detectors a b"
    and a: "engine_evaluate rx lmt cf clock p did (contents did) a = (a', hs)"
    and b: "engine_fresh rx lmt cf clock p (contents did) b = (b', hs')"
  shows "hs = hs' \<and> same_detectors a' b' \<and> (\<forall>d. en_source a' = Some d \<longrightarrow> en_candidates a' = generic_candidates (contents d))"
proof -
  let ?cs = "generic_candidates (contents did)"
  obtain a1 h1 where a1: "run_fixed cf clock p (contents did) a = (a1, h1)" by (cases "run_fixed cf clock p (contents did) a")
  obtain b1 where b1: "run_fixed cf clock p (contents did) b = (b1, h1)" "same_detectors a1 b1"
    using run_fixed_same [OF same, of cf clock p "contents did"] a1 by (cases "run_fixed cf clock p (contents did) b") auto
  define a2 where "a2 = refresh_candidates did (contents did) a1"
  have a2: "en_candidates a2 = ?cs" "en_source a2 = Some did"
    using memo run_fixed_memo [of cf clock p "contents did" a] a1 by (auto simp: a2_def refresh_candidates_def)
  have "same_detectors a2 b1" using b1(2) by (auto simp: a2_def refresh_candidates_def same_detectors_def)
  from run_generic_same [OF this, of rx lmt clock p "contents did" ?cs h1]
  show ?thesis
    using a b a1 b1 a2 run_generic_memo [of rx lmt clock p "contents did" ?cs "(a2, h1)"]
    by (simp add: engine_evaluate_def engine_fresh_def flip: a2_def)
qed


section \<open>Witnesses\<close>

text \<open>A bare SYN from one source, and a monitor that counts packets to port 80 per source.\<close>

definition sample_syn :: "nat \<Rightarrow> packet" where
  "sample_syn port = (build_base_packet [] [] [] [] [] [] 0)
     \<lparr>pk_proto := U ''tcp'', pk_transport := U ''tcp'', pk_src_ip := U ''10.0.0.9'', pk_dst_port := port, pk_tcp_flags := U ''SYN''\<rparr>"

definition counting_monitor :: monitor where
  "counting_monitor = \<lparr>r_id = U ''burst'', r_name = U ''burst'', r_description = [], r_enabled = True, r_priority = 10,
     r_match = Match (empty_criteria\<lparr>m_dst_ports := [80], m_count_threshold := 2, m_window_seconds := 10\<rparr>) [] [] [],
     r_action = \<lparr>a_tag = U ''t'', a_label = U ''l'', a_severity = U ''high''\<rparr>, r_source = [], mo_mode = U ''stateful'', mo_updated_at = []\<rparr>"

lemma sample_probe: "probe_source (sample_syn 80) = Some (U ''10.0.0.9'')" "probe_source (sample_syn 81) = Some (U ''10.0.0.9'')"
  by (simp_all add: probe_source_def sample_syn_def build_base_packet_def bare_syn_def contains_sublist strip_by_def lstrip_by_def
      rstrip_by_def is_space_def U_def sublist_code)

lemma sample_port: "pk_dst_port (sample_syn n) = n"
  by (simp add: sample_syn_def)

theorem detector_alerts_spaced_witness:
  "sorted_wrt (\<lambda>t u. t + of_int 10 \<le> u)
     (alert_times (port_scan_evaluate 10 2) (\<lambda>p. strip (pk_src_ip p)) (U ''10.0.0.9'') new_port_scan [(1, sample_syn 80), (2, sample_syn 81)])"
  using detector_alerts_spaced [of "[(1, sample_syn 80), (2, sample_syn 81)]" 1 "U ''10.0.0.9''" 10 2 counting_monitor "\<lambda>_ _. False" 100] by simp

theorem port_scan_exact_witness:
  "snd (port_scan_evaluate 10 2 2 (sample_syn 81) (fst (run (port_scan_evaluate 10 2) new_port_scan [(1, sample_syn 80)]))) \<noteq> None"
proof -
  have "{port. \<exists>t. (t, port) \<in> set (history probe_source (\<lambda>now p. (now, pk_dst_port p)) (U ''10.0.0.9'') [(1, sample_syn 80), (2, sample_syn 81)])
      \<and> 2 - of_int 10 \<le> (t :: rat)} = {80, 81}"
    using sample_port by (auto simp: history_def sample_probe)
  then show ?thesis
    using port_scan_exact [of "[(1, sample_syn 80)]" 2 "sample_syn 81" "U ''10.0.0.9''" 10 2]
    by (simp add: sample_probe port_scan_evaluate_def Let_def new_port_scan_def cooling_def drop_stale_def)
qed

lemma sample_key: "group_key (sample_syn 80) (U ''src_ip'') = U ''10.0.0.9''"
  by (simp add: group_key_def sample_syn_def Let_def) (simp add: strip_by_def lstrip_by_def rstrip_by_def is_space_def U_def)

lemma sample_match: "rule_matches_packet (\<lambda>_ _. False) 100 counting_monitor (sample_syn 80) (Some t)"
  by (simp add: rule_matches_packet_def counting_monitor_def sample_syn_def check_defs flag_specs_def has_criteria_def nonzero_def
      shared_text_def Let_def build_base_packet_def)

lemma sample_counts: "m_count_threshold (crit (r_match counting_monitor)) = 2" "m_window_seconds (crit (r_match counting_monitor)) = 10"
  "m_group_by (crit (r_match counting_monitor)) = U ''src_ip''"
  by (simp_all add: counting_monitor_def empty_criteria_def)

lemma sample_threshold: "threshold_key (\<lambda>_ _. False) 100 counting_monitor (sample_syn 80) = Some (U ''10.0.0.9'')"
  by (simp add: threshold_key_def sample_counts sample_match sample_key Let_def)

theorem threshold_monitor_exact_witness:
  "snd (generic_threshold_evaluate (\<lambda>_ _. False) 100 counting_monitor 2 (sample_syn 80)
     (fst (run (generic_threshold_evaluate (\<lambda>_ _. False) 100 counting_monitor) new_counter [(1, sample_syn 80)]))) \<noteq> None"
  using threshold_monitor_exact [of "[(1, sample_syn 80)]" 2 "sample_syn 80" "\<lambda>_ _. False" 100 counting_monitor "U ''10.0.0.9''" 10]
  by (simp add: sample_threshold sample_counts generic_threshold_evaluate_def count_event_def Let_def new_counter_def cooling_def drop_stale_def)

theorem flood_counter_refines_witness:
  "snd (run (flood_record 5 2) (\<lambda>_. []) [(1, U ''a''), (2, U ''b''), (3, U ''a'')]) = [False, False, True]"
  using flood_counter_refines [of "[(1, U ''a''), (2, U ''b''), (3, U ''a'')]" 5 2 "U ''a''"]
  by (simp add: flood_spec_def)

end
