(* ===== verification/Detector_Coverage.thy ===== *)
theory Detector_Coverage
  imports Parser_Safety Anomaly
begin

text \<open>
  The parser and the detectors together. The frame parser renames \<open>proto\<close> after the application
  whenever a port or a signature names one; the detectors of \<^verbatim>\<open>anomaly.py\<close> test \<open>proto\<close> for the
  transport. This theory carries an invariant through every parser: a packet still called \<open>tcp\<close> or
  \<open>udp\<close> is on no named port. It follows which alerts can never be raised on parsed traffic.
\<close>

section \<open>Packets called by their transport are on no named port\<close>

definition unnamed_ports :: "packet \<Rightarrow> bool" where
  "unnamed_ports p \<longleftrightarrow>
     (pk_proto p = U ''tcp'' \<longrightarrow> map_of TCP_PORT_PROTOCOLS (pk_dst_port p) = None)
     \<and> (pk_proto p = U ''udp'' \<longrightarrow> map_of UDP_PORT_PROTOCOLS (pk_dst_port p) = None \<and> pk_dst_port p \<noteq> 53)"

lemma unnamed_zero: "pk_dst_port p = 0 \<Longrightarrow> unnamed_ports p"
  by (simp add: unnamed_ports_def TCP_PORT_PROTOCOLS_def UDP_PORT_PROTOCOLS_def)

lemma unnamed_other: "pk_proto p \<noteq> U ''tcp'' \<Longrightarrow> pk_proto p \<noteq> U ''udp'' \<Longrightarrow> unnamed_ports p"
  by (simp add: unnamed_ports_def)

lemma core_dst_port: "core q = core p \<Longrightarrow> pk_dst_port q = pk_dst_port p"
  by (simp add: core_def)

lemma unnamed_keep: "core q = core p \<Longrightarrow> pk_proto q = pk_proto p \<Longrightarrow> unnamed_ports p \<Longrightarrow> unnamed_ports q"
  by (simp add: unnamed_ports_def core_dst_port [of q p])

lemma unnamed_proto: "pk_proto p = U n \<Longrightarrow> n \<notin> {''tcp'', ''udp''} \<Longrightarrow> unnamed_ports p"
  by (auto intro: unnamed_other)

lemma classified_names: "classify_tcp a b payload \<notin> {''tcp'', ''udp''}" "classify_udp a b payload \<notin> {''tcp'', ''udp''}"
proof -
  have "''tcp'' \<notin> snd ` set TCP_PORT_PROTOCOLS" "''udp'' \<notin> snd ` set TCP_PORT_PROTOCOLS"
    "''tcp'' \<notin> snd ` set UDP_PORT_PROTOCOLS" "''udp'' \<notin> snd ` set UDP_PORT_PROTOCOLS"
    by (simp_all add: TCP_PORT_PROTOCOLS_def UDP_PORT_PROTOCOLS_def)
  then show "classify_tcp a b payload \<notin> {''tcp'', ''udp''}" "classify_udp a b payload \<notin> {''tcp'', ''udp''}"
    using classify_tcp_range [of a b payload] classify_udp_range [of a b payload] by auto
qed

lemma table_names_nonempty: "(n, []) \<notin> set TCP_PORT_PROTOCOLS" "(n, []) \<notin> set UDP_PORT_PROTOCOLS"
  by (simp_all add: TCP_PORT_PROTOCOLS_def UDP_PORT_PROTOCOLS_def)

lemma unclassified_port:
  "classify_tcp a b payload = [] \<Longrightarrow> map_of TCP_PORT_PROTOCOLS b = None"
  "classify_udp a b payload = [] \<Longrightarrow> map_of UDP_PORT_PROTOCOLS b = None"
  using table_names_nonempty
  by (auto simp: classify_tcp_def classify_udp_def port_protocol_def Let_def dest: map_of_SomeD split: if_splits option.splits)

section \<open>Transport parsers\<close>

lemma fix_hop_limit_port: "pk_dst_port (fix_hop_limit v p) = pk_dst_port p" "pk_src_port (fix_hop_limit v p) = pk_src_port p"
  "pk_proto (fix_hop_limit v p) = pk_proto p"
  by (simp_all add: fix_hop_limit_def)

lemma tcp_finish_unnamed:
  assumes "pk_proto p = U ''tcp''"
  shows "unnamed_ports (tcp_finish v payload banner p)"
proof -
  define p3 where "p3 = apply_sni payload (fix_hop_limit v (banner_and_summary ''TCP'' banner p))"
  let ?app = "classify_tcp (pk_src_port p3) (pk_dst_port p3) payload"
  have pr: "pk_proto p3 = U ''tcp''" using assms by (simp add: p3_def keeps fix_hop_limit_port)
  have u: "unnamed_ports (if ?app = [] then p3 else apply_app_decoder (U ?app) payload (p3\<lparr>pk_proto := U ?app\<rparr>))"
  proof (cases "?app = []")
    case True
    then show ?thesis using unclassified_port(1) [OF True] pr by (simp add: unnamed_ports_def)
  next
    case False
    have "pk_proto (apply_app_decoder (U ?app) payload (p3\<lparr>pk_proto := U ?app\<rparr>)) = U ?app" by (simp add: keeps)
    then show ?thesis using False classified_names(1) [of "pk_src_port p3" "pk_dst_port p3" payload] by (auto intro!: unnamed_other)
  qed
  show ?thesis
    unfolding tcp_finish_def Let_def p3_def [symmetric]
    by (rule unnamed_keep [OF _ _ u]) (simp_all add: keeps)
qed

lemma unnamed_if: "(c \<Longrightarrow> unnamed_ports (fst a)) \<Longrightarrow> (\<not> c \<Longrightarrow> unnamed_ports (fst b)) \<Longrightarrow> unnamed_ports (fst (if c then a else b))"
  by simp

lemma unnamed_branch: "(c \<Longrightarrow> unnamed_ports a) \<Longrightarrow> (\<not> c \<Longrightarrow> unnamed_ports b) \<Longrightarrow> unnamed_ports (if c then a else b)"
  by simp

lemma tcp_generic_unnamed:
  assumes "pk_proto (fst st) = U ''tcp''"
  shows "unnamed_ports (fst (tcp_generic cfg v payload st))"
proof -
  obtain p fl where i: "interpret_text cfg payload st = (p, fl)" by (cases "interpret_text cfg payload st")
  have "pk_proto p = U ''tcp''" using interpret_keeps(2) [of cfg payload st] i assms by simp
  then show ?thesis using tcp_finish_unnamed by (simp add: tcp_generic_def i split: prod.splits)
qed

lemma tcp_dispatch_unnamed:
  assumes "pk_proto p = U ''tcp''"
  shows "unnamed_ports (fst (tcp_dispatch cfg v payload (p, fl)))"
  unfolding tcp_dispatch_def prod.case
  by (intro unnamed_if tcp_generic_unnamed)
    (simp_all add: assms keeps fix_hop_limit_port unnamed_proto [of _ "''dns''"] unnamed_proto [of _ "''modbus''"]
      unnamed_proto [of _ "''dnp3''"] unnamed_proto [of _ "''mqtt''"])

lemma truncated_unnamed: "pk_dst_port (fst st) = 0 \<Longrightarrow> unnamed_ports (fst (truncated cfg s body st))"
proof -
  assume z: "pk_dst_port (fst st) = 0"
  have "core (fst (truncated cfg s body st)) = core (fst st)"
    by (simp add: truncated_def split_beta keeps upd_def)
  from core_dst_port [OF this] show ?thesis using z by (intro unnamed_zero) simp
qed

lemma upd_port: "fst (upd f st) = f (fst st)"
  by (simp add: upd_def split_beta)

lemma parse_tcp_unnamed:
  assumes "pk_dst_port (fst st) = 0" "parse_tcp cfg v body st = Some st'"
  shows "unnamed_ports (fst st')"
proof (cases "length body < 20")
  case True
  then show ?thesis using assms truncated_unnamed [of "upd (\<lambda>p. p\<lparr>pk_proto := U ''tcp'', pk_transport := U ''tcp''\<rparr>) st"]
    by (auto simp: parse_tcp_def Let_def upd_port)
next
  case False
  obtain fb payload where "st' = tcp_dispatch cfg v payload (upd (tcp_header fb payload body)
      (upd (\<lambda>p. p\<lparr>pk_proto := U ''tcp'', pk_transport := U ''tcp''\<rparr>) st))"
    using assms(2) False by (auto simp: parse_tcp_def Let_def bind_eq_Some_conv)
  then show ?thesis
    using tcp_dispatch_unnamed [of "fst (upd (tcp_header fb payload body) (upd (\<lambda>p. p\<lparr>pk_proto := U ''tcp'', pk_transport := U ''tcp''\<rparr>) st))"]
    by (simp add: upd_port tcp_header_def upd_def split_beta)
qed

lemma udp_dispatch_unnamed:
  assumes "pk_proto p = U ''udp''"
  shows "unnamed_ports (udp_dispatch payload p)"
proof -
  let ?app = "classify_udp (pk_src_port p) (pk_dst_port p) payload"
  have "unnamed_ports (if ?app = [] then p else apply_app_decoder (U ?app) payload (p\<lparr>pk_proto := U ?app\<rparr>))" if "\<not> on_port 53 p"
  proof (cases "?app = []")
    case True
    then show ?thesis using unclassified_port(2) [OF True] assms that by (simp add: unnamed_ports_def on_port_def)
  next
    case False
    have "pk_proto (apply_app_decoder (U ?app) payload (p\<lparr>pk_proto := U ?app\<rparr>)) = U ?app" by (simp add: keeps)
    then show ?thesis using False classified_names(2) [of "pk_src_port p" "pk_dst_port p" payload] by (auto intro!: unnamed_other)
  qed
  then show ?thesis
    unfolding udp_dispatch_def Let_def
    by (intro unnamed_branch) (simp_all add: keeps unnamed_other)
qed

lemma parse_udp_unnamed:
  assumes "pk_dst_port (fst st) = 0"
  shows "unnamed_ports (fst (parse_udp cfg v body st))"
proof (cases "length body < 8")
  case True
  then show ?thesis using assms truncated_unnamed [of "upd (\<lambda>p. p\<lparr>pk_proto := U ''udp'', pk_transport := U ''udp''\<rparr>) st"]
    by (auto simp: parse_udp_def Let_def upd_port)
next
  case False
  have "pk_proto (fst (interpret_text cfg b s)) = pk_proto (fst s)" for b s by (rule interpret_keeps)
  then show ?thesis using False
    by (auto simp: parse_udp_def Let_def split_beta upd_port keeps fix_hop_limit_port intro!: udp_dispatch_unnamed)
qed

section \<open>The DHCP message type is a text\<close>

text \<open>What the packet dictionary holds under \<open>dhcp_msg_type\<close>.\<close>

definition msg_type :: "packet \<Rightarrow> pyval option" where
  "msg_type p = pk_extra p ''dhcp_msg_type''"

definition text_type :: "packet \<Rightarrow> bool" where
  "text_type p \<longleftrightarrow> (case msg_type p of None \<Rightarrow> True | Some v \<Rightarrow> \<exists>s. v = PStr s)"

named_theorems types

lemma msg_type_setters [types]:
  "msg_type (set_summary s p) = msg_type p" "msg_type (set_all_text s p) = msg_type p" "msg_type (set_proto n p) = msg_type p"
  "k \<noteq> ''dhcp_msg_type'' \<Longrightarrow> msg_type (put_extra k v p) = msg_type p" "k \<noteq> ''dhcp_msg_type'' \<Longrightarrow> msg_type (put_text k t p) = msg_type p"
  "k \<noteq> ''dhcp_msg_type'' \<Longrightarrow> msg_type (set_key k v p) = msg_type p" "msg_type (p\<lparr>pk_proto := a\<rparr>) = msg_type p"
  "msg_type (p\<lparr>pk_summary := a\<rparr>) = msg_type p" "msg_type (p\<lparr>pk_banner_text := a\<rparr>) = msg_type p" "msg_type (p\<lparr>pk_payload_text := a\<rparr>) = msg_type p"
  "msg_type (p\<lparr>pk_state := a\<rparr>) = msg_type p" "msg_type (p\<lparr>pk_domain := a\<rparr>) = msg_type p" "msg_type (p\<lparr>pk_domain_source := a\<rparr>) = msg_type p"
  "msg_type (p\<lparr>pk_transport := a\<rparr>) = msg_type p" "msg_type (p\<lparr>pk_src_port := n'\<rparr>) = msg_type p" "msg_type (p\<lparr>pk_dst_port := n'\<rparr>) = msg_type p"
  "msg_type (p\<lparr>pk_tcp_flags := a\<rparr>) = msg_type p" "msg_type (p\<lparr>pk_payload_len := n'\<rparr>) = msg_type p" "msg_type (p\<lparr>pk_payload_hex := a\<rparr>) = msg_type p"
  "msg_type (p\<lparr>pk_icmp_type := n'\<rparr>) = msg_type p" "msg_type (p\<lparr>pk_icmp_code := n'\<rparr>) = msg_type p" "msg_type (p\<lparr>pk_arp_opcode := n'\<rparr>) = msg_type p"
  "msg_type (p\<lparr>pk_src_ip := a\<rparr>) = msg_type p" "msg_type (p\<lparr>pk_dst_ip := a\<rparr>) = msg_type p" "msg_type (p\<lparr>pk_eth_type := n'\<rparr>) = msg_type p"
  "msg_type (p\<lparr>pk_hop_limit := n'\<rparr>) = msg_type p" "msg_type (p\<lparr>pk_ttl := n'\<rparr>) = msg_type p" "msg_type (p\<lparr>pk_ip_version := n'\<rparr>) = msg_type p"
  "msg_type (p\<lparr>pk_http_method := a\<rparr>) = msg_type p" "msg_type (p\<lparr>pk_http_path := a\<rparr>) = msg_type p" "msg_type (p\<lparr>pk_http_host := a\<rparr>) = msg_type p"
  by (simp_all add: msg_type_def set_summary_def set_all_text_def set_proto_def put_extra_def put_text_def set_key_def)

lemma apply_app_decoder_type [types]: "msg_type (apply_app_decoder q payload p) = msg_type p"
proof -
  have "msg_type (fold (\<lambda>(k, v) q. if v = PStr [] \<or> v = PNone then q else set_key k v q) fs p) = msg_type p"
    if "\<forall>f \<in> set fs. fst f \<noteq> ''dhcp_msg_type''" for fs
    using that by (induction fs arbitrary: p) (auto simp: types)
  moreover have "\<forall>f \<in> set (decode q payload). fst f \<noteq> ''dhcp_msg_type''"
    using decode_good [of q payload] by (auto simp: list_all_iff good_field_def DECODER_KEYS_def)
  ultimately show ?thesis by (simp add: apply_app_decoder_def)
qed

lemma dns_type [types]: "msg_type (apply_dns_answer a p) = msg_type p" "msg_type (apply_dns_result b s t p) = msg_type p"
proof -
  show *: "msg_type (apply_dns_answer a p) = msg_type p" for a p by (simp add: apply_dns_answer_def Let_def types)
  show "msg_type (apply_dns_result b s t p) = msg_type p" by (simp add: apply_dns_result_def Let_def types * split: list.split)
qed

lemma app_parsers_type [types]:
  "msg_type (parse_nbns b p) = msg_type p" "msg_type (parse_modbus b p) = msg_type p" "msg_type (parse_dnp3 b p) = msg_type p"
  "msg_type (parse_snmp b p) = msg_type p" "msg_type (parse_syslog b p) = msg_type p" "msg_type (parse_tftp b p) = msg_type p"
  "msg_type (parse_radius b p) = msg_type p" "msg_type (parse_mqtt b p) = msg_type p" "msg_type (parse_gre b p) = msg_type p"
  "msg_type (parse_esp b p) = msg_type p"
  by (simp_all add: parse_nbns_def parse_modbus_def parse_dnp3_def parse_snmp_def parse_syslog_def
      parse_tftp_def parse_radius_def parse_mqtt_def parse_gre_def parse_esp_def Let_def types split_beta split: option.split)

lemma finish_type [types]:
  "msg_type (fst (interpret_text cfg b st)) = msg_type (fst st)"
  "msg_type (apply_http_request p) = msg_type p" "msg_type (apply_sni b p) = msg_type p" "msg_type (fallback_if_empty p) = msg_type p"
  "msg_type (banner_and_summary l bn p) = msg_type p" "msg_type (fix_hop_limit v p) = msg_type p"
  "msg_type (frame_summary n b p) = msg_type p"
  by (auto simp: interpret_text_def interpret_payload_def banner_and_summary_def apply_http_request_def apply_sni_def
      fallback_if_empty_def fix_hop_limit_def frame_summary_def Let_def types split_beta)

lemma text_type_cong: "msg_type q = msg_type p \<Longrightarrow> text_type p \<Longrightarrow> text_type q"
  by (simp add: text_type_def)

lemma parse_dhcp_type: "text_type p \<Longrightarrow> text_type (parse_dhcp b p)"
proof -
  assume t: "text_type p"
  have "msg_type (put_extra ''dhcp_msg_type'' (PStr s) q) = Some (PStr s)" for s q by (simp add: msg_type_def put_extra_def)
  then show ?thesis using t by (auto simp: parse_dhcp_def Let_def text_type_def types)
qed

lemma tcp_type: "msg_type (fst (tcp_dispatch cfg v payload st)) = msg_type (fst st)"
proof -
  have "msg_type (tcp_finish v payload banner p) = msg_type p" for banner p
    by (simp add: tcp_finish_def Let_def types)
  moreover have "msg_type (fst (interpret_text cfg payload st)) = msg_type (fst st)" by (rule finish_type)
  ultimately have "msg_type (fst (tcp_generic cfg v payload st)) = msg_type (fst st)"
    by (simp add: tcp_generic_def split_beta)
  then show ?thesis by (cases st) (simp add: tcp_dispatch_def types)
qed

lemma truncated_type: "msg_type (fst (truncated cfg s body st)) = msg_type (fst st)"
  by (simp add: truncated_def split_beta types upd_def)

lemma parse_tcp_type: "parse_tcp cfg v body st = Some st' \<Longrightarrow> msg_type (fst st') = msg_type (fst st)"
  by (auto simp: parse_tcp_def Let_def bind_eq_Some_conv truncated_type tcp_type upd_port tcp_header_def types split: if_splits)

lemma text_type_if: "(c \<Longrightarrow> text_type a) \<Longrightarrow> (\<not> c \<Longrightarrow> text_type b) \<Longrightarrow> text_type (if c then a else b)"
  by simp

lemma udp_dispatch_type: "text_type p \<Longrightarrow> text_type (udp_dispatch payload p)"
  unfolding udp_dispatch_def Let_def
  by (intro text_type_if parse_dhcp_type; simp add: text_type_def types)

lemma parse_udp_type:
  assumes "text_type (fst st)"
  shows "text_type (fst (parse_udp cfg v body st))"
proof (cases "length body < 8")
  case True
  then show ?thesis using assms text_type_cong [OF truncated_type] by (auto simp: parse_udp_def Let_def upd_port types text_type_def)
next
  case False
  then show ?thesis
    by (auto simp: parse_udp_def Let_def split_beta intro!: udp_dispatch_type) (simp_all add: text_type_def types upd_port assms [unfolded text_type_def])
qed

section \<open>Network and link layers\<close>

text \<open>What a packet has before its transport is parsed, and what it has in the end.\<close>

definition fresh :: "pst \<Rightarrow> bool" where
  "fresh st \<longleftrightarrow> pk_dst_port (fst st) = 0 \<and> text_type (fst st)"

definition seen :: "pst \<Rightarrow> bool" where
  "seen st \<longleftrightarrow> unnamed_ports (fst st) \<and> text_type (fst st)"

definition seen_res :: "pst option \<Rightarrow> bool" where
  "seen_res r \<longleftrightarrow> (\<forall>st. r = Some st \<longrightarrow> seen st)"

lemma fresh_seen: "fresh st \<Longrightarrow> seen st"
  by (simp add: fresh_def seen_def unnamed_zero)

lemma fresh_keep: "fresh st \<Longrightarrow> pk_dst_port (fst st') = pk_dst_port (fst st) \<Longrightarrow> msg_type (fst st') = msg_type (fst st) \<Longrightarrow> fresh st'"
  by (simp add: fresh_def text_type_def)

lemma seen_proto: "pk_proto (fst st) = U n \<Longrightarrow> n \<notin> {''tcp'', ''udp''} \<Longrightarrow> text_type (fst st) \<Longrightarrow> seen st"
  by (simp add: seen_def unnamed_proto)

lemma seen_rules:
  "(c \<Longrightarrow> seen_res a) \<Longrightarrow> (\<not> c \<Longrightarrow> seen_res b) \<Longrightarrow> seen_res (if c then a else b)"
  "(\<And>x. x = m \<Longrightarrow> seen_res (f x)) \<Longrightarrow> seen_res (Let m f)"
  "(\<And>x. r = Some x \<Longrightarrow> seen_res (g x)) \<Longrightarrow> seen_res (r \<bind> g)"
  "seen_res s \<Longrightarrow> (\<And>st. seen st \<Longrightarrow> seen_res (h st)) \<Longrightarrow> seen_res (s \<bind> h)"
  "seen st \<Longrightarrow> seen_res (Some st)"
  "(\<And>n. y = Some n \<Longrightarrow> seen_res (k n)) \<Longrightarrow> (y = None \<Longrightarrow> seen_res d) \<Longrightarrow> seen_res (case y of None \<Rightarrow> d | Some n \<Rightarrow> k n)"
  by (auto simp: seen_res_def bind_eq_Some_conv split: option.splits)

lemma transport_seen:
  assumes "fresh st"
  shows "seen_res (parse_tcp cfg v body st)" "seen_res (Some (parse_udp cfg v body st))" "seen_res (Some (parse_sctp cfg v body st))"
    "seen_res (parse_icmp cfg v6 body st)" "seen_res (parse_igmp cfg body st)" "seen_res (Some (upd (parse_gre body) st))"
    "seen_res (Some (upd (parse_esp body) st))"
proof -
  have z: "pk_dst_port (fst st) = 0" and t: "text_type (fst st)" using assms by (simp_all add: fresh_def)
  show "seen_res (parse_tcp cfg v body st)"
    using parse_tcp_unnamed [OF z] text_type_cong [OF parse_tcp_type t] by (auto simp: seen_res_def seen_def)
  show "seen_res (Some (parse_udp cfg v body st))"
    using parse_udp_unnamed [OF z] parse_udp_type [OF t] by (simp add: seen_res_def seen_def)
  have "pk_proto (fst (parse_sctp cfg v body st)) = U ''sctp''" "msg_type (fst (parse_sctp cfg v body st)) = msg_type (fst st)"
    by (simp_all add: parse_sctp_def truncated_def split_beta upd_port keeps types)
  then show "seen_res (Some (parse_sctp cfg v body st))"
    by (intro seen_rules seen_proto [where n = "''sctp''"] text_type_cong [OF _ t]) simp_all
  have "pk_proto (fst st') \<in> {U ''icmp'', U ''icmpv6''} \<and> msg_type (fst st') = msg_type (fst st)" if "parse_icmp cfg v6 body st = Some st'" for st'
    using that by (auto simp: parse_icmp_def truncated_def Let_def bind_eq_Some_conv split_beta upd_port keeps types split: if_splits)
  then show "seen_res (parse_icmp cfg v6 body st)"
    unfolding seen_res_def seen_def using text_type_cong [OF _ t] by (auto intro!: unnamed_other)
  have "pk_proto (fst st') = U ''igmp'' \<and> msg_type (fst st') = msg_type (fst st)" if "parse_igmp cfg body st = Some st'" for st'
    using that by (auto simp: parse_igmp_def Let_def bind_eq_Some_conv split_beta upd_port keeps types split: if_splits)
  then show "seen_res (parse_igmp cfg body st)"
    unfolding seen_res_def by (auto intro!: seen_proto [where n = "''igmp''"] text_type_cong [OF _ t])
  show "seen_res (Some (upd (parse_gre body) st))"
    by (intro seen_rules seen_proto [where n = "''gre''"] text_type_cong [OF _ t]) (simp_all add: upd_port keeps types)
  show "seen_res (Some (upd (parse_esp body) st))"
    by (intro seen_rules seen_proto [where n = "''esp''"] text_type_cong [OF _ t]) (simp_all add: upd_port keeps types)
qed

lemma seen_upd: "seen st \<Longrightarrow> (\<And>p. core (f p) = core p \<and> pk_proto (f p) = pk_proto p \<and> msg_type (f p) = msg_type p) \<Longrightarrow> seen (upd f st)"
  unfolding seen_def upd_port using unnamed_keep text_type_cong by blast

lemma fresh_upd: "fresh st \<Longrightarrow> (\<And>p. pk_dst_port (f p) = pk_dst_port p \<and> msg_type (f p) = msg_type p) \<Longrightarrow> fresh (upd f st)"
  by (rule fresh_keep [of st]) (simp_all add: upd_port)

lemma seen_summary: "seen st \<Longrightarrow> seen_res (Some (upd (\<lambda>p. set_summary (f p) p) st))"
  by (intro seen_rules seen_upd) (simp_all add: keeps types)

lemma seen_fallback: "seen st \<Longrightarrow> seen_res (Some (upd fallback_if_empty st))"
  by (intro seen_rules seen_upd) (simp_all add: keeps types)

lemma seen_text_and_banner: "fresh st \<Longrightarrow> seen (text_and_banner cfg body st)"
proof -
  assume f: "fresh st"
  have "core (fst (text_and_banner cfg body st)) = core (fst st)" by (simp add: text_and_banner_def split_beta keeps)
  from core_dst_port [OF this] have "fresh (text_and_banner cfg body st)"
    by (intro fresh_keep [OF f]) (simp_all add: text_and_banner_def split_beta types)
  then show ?thesis by (rule fresh_seen)
qed

lemma seen_truncated: "fresh st \<Longrightarrow> seen (truncated cfg s body st)"
  using truncated_unnamed [of st] text_type_cong [OF truncated_type] by (auto simp: seen_def fresh_def)

lemma parse_ah_seen: "fresh st \<Longrightarrow> seen_res (parse_ah cfg v body st)"
  unfolding parse_ah_def
  by (intro seen_rules(1,2,4) seen_rules(3) transport_seen seen_summary; (rule seen_rules(5), rule fresh_seen, rule fresh_upd)?)
    (auto simp: types set_summary_def set_proto_def)

lemma parse_ipv4_seen:
  assumes "fresh st"
  shows "seen_res (parse_ipv4 cfg payload st)"
proof -
  have f: "fresh (upd (\<lambda>p. p\<lparr>pk_ip_version := 4, pk_ttl := ttl, pk_src_ip := a, pk_dst_ip := b\<rparr>) st)" for ttl a b
    by (rule fresh_upd [OF assms]) (simp add: types)
  show ?thesis
    unfolding parse_ipv4_def
    by (intro seen_rules(1,2,4) seen_rules(3) transport_seen parse_ah_seen seen_fallback;
        (rule seen_rules(5))?; (rule seen_text_and_banner)?; (rule seen_truncated)?; (rule fresh_upd)?; (simp add: f assms types)?)
qed

lemma seen_bind3: "(\<And>a b c. m = Some (a, b, c) \<Longrightarrow> seen_res (f a b c)) \<Longrightarrow> seen_res (m \<bind> (\<lambda>(a, b, c). f a b c))"
  by (auto simp: seen_res_def bind_eq_Some_conv)

lemma parse_ipv6_seen:
  assumes "fresh st"
  shows "seen_res (parse_ipv6 cfg payload st)"
proof -
  have f: "fresh (upd (\<lambda>p. p\<lparr>pk_ip_version := 6, pk_hop_limit := hop, pk_src_ip := a, pk_dst_ip := b\<rparr>) st)" for hop a b
    by (rule fresh_upd [OF assms]) (simp add: types)
  show ?thesis
    unfolding parse_ipv6_def
    by (intro seen_bind3 seen_rules(1,2,4) seen_rules(3) transport_seen parse_ah_seen seen_fallback;
        (rule seen_rules(5))?; (rule seen_text_and_banner)?; (rule seen_truncated)?; (rule fresh_upd)?; (simp add: f assms types)?)
qed

text \<open>The link-layer parsers name the packet themselves.\<close>

lemma parse_arp_seen:
  assumes "fresh st"
  shows "seen_res (parse_arp cfg payload st)"
proof -
  have "pk_proto (fst st') = U ''arp'' \<and> msg_type (fst st') = msg_type (fst st)" if "parse_arp cfg payload st = Some st'" for st'
    using that by (auto simp: parse_arp_def truncated_def Let_def bind_eq_Some_conv split_beta upd_port keeps types split: if_splits)
  then show ?thesis
    using assms unfolding seen_res_def fresh_def by (auto intro!: seen_proto [where n = "''arp''"] text_type_cong [of _ "fst st"])
qed

lemma parse_stp_seen: "fresh st \<Longrightarrow> seen (parse_stp cfg payload st)"
  by (rule seen_proto [where n = "''stp''"]) (simp_all add: parse_stp_def split_beta upd_port keeps types fresh_def text_type_def)

lemma seen_text: "fresh st \<Longrightarrow> (\<And>p. core (f p) = core p \<and> msg_type (f p) = msg_type p) \<Longrightarrow> seen_res (Some (text_and_banner cfg body (upd f st)))"
  by (intro seen_rules(5) seen_text_and_banner fresh_upd) (auto dest: core_dst_port)

lemma parse_snap_seen:
  assumes "fresh st"
  shows "seen_res (parse_snap cfg payload st)"
proof -
  have f: "fresh (upd (\<lambda>p. (put_extra ''llc_snap_ethertype'' a (put_extra ''llc_snap_oui'' b p))\<lparr>pk_eth_type := n\<rparr>) st)" for a b n
    by (rule fresh_upd [OF assms]) (simp add: msg_type_def put_extra_def)
  show ?thesis
    unfolding parse_snap_def Let_def
    by (intro seen_rules(1,6) seen_text parse_ipv4_seen parse_ipv6_seen parse_arp_seen f) (auto simp: keeps types)
qed

lemma parse_llc_seen:
  assumes "fresh st"
  shows "seen_res (parse_llc cfg payload n st)"
proof -
  have f: "fresh (upd (\<lambda>p. put_extra ''llc_control'' c (put_extra ''llc_ssap'' b (put_extra ''llc_dsap'' a p))) (upd (put_extra ''llc_length'' d) st))"
    "fresh (upd (put_extra ''llc_length'' d) st)" for a b c d
    by (intro fresh_upd assms; simp add: types; simp add: put_extra_def)+
  have i: "seen_res (case interpret_text cfg b (upd g st') of (p, fl) \<Rightarrow> Some (p\<lparr>pk_banner_text := pk_summary p\<rparr>, fl))"
    if "fresh st'" "\<And>p. core (g p) = core p \<and> msg_type (g p) = msg_type p" for b g st'
  proof -
    have "core (fst (interpret_text cfg b (upd g st'))) = core (fst st')" using that(2) by (simp add: keeps upd_port)
    from core_dst_port [OF this] have "fresh (interpret_text cfg b (upd g st'))"
      by (intro fresh_keep [OF that(1)]) (simp_all add: types upd_port that(2))
    then show ?thesis by (cases "interpret_text cfg b (upd g st')") (auto simp: seen_res_def fresh_def text_type_def types intro!: fresh_seen)
  qed
  show ?thesis
    unfolding parse_llc_def Let_def
    by (intro seen_rules(1) seen_rules(3) seen_text parse_snap_seen i f) (auto simp: keeps types)
qed

lemma parse_ethernet_seen: "fresh st \<Longrightarrow> seen_res (parse_ethernet cfg t payload st)"
  unfolding parse_ethernet_def
  by (intro seen_rules(1,6) seen_text parse_ipv4_seen parse_ipv6_seen parse_arp_seen parse_llc_seen;
      (rule seen_rules(5), rule parse_stp_seen)?; simp add: keeps types)

lemma parse_packet_seen:
  assumes "parse_packet cfg data interface fl = Some (Some p, fl')"
  shows "seen (p, fl')"
proof -
  have fin: "seen (p, fl')" if "seen_res r" "map_option (finalize_st cfg) r = Some (Some p, fl')" for r
    using that by (auto simp: seen_res_def seen_def finalize_st_def unnamed_ports_def text_type_def msg_type_def)
  have b: "fresh (build_base_packet n i data payload a b t, fl)" for n i payload a b t
    by (simp add: fresh_def text_type_def msg_type_def build_base_packet_def)
  show ?thesis using assms unfolding parse_packet_def Let_def split_beta
    by (simp only: split: if_splits)
      (auto dest!: fin [OF parse_ipv4_seen [OF b]] fin [OF parse_ipv6_seen [OF b]] fin [OF parse_ethernet_seen [OF b]] simp del: map_option_eq_Some)
qed

section \<open>Alerts that are never raised\<close>

lemma login_ports_named: "q \<in> set LOGIN_PORTS \<Longrightarrow> map_of TCP_PORT_PROTOCOLS q \<noteq> None"
  by (auto simp: LOGIN_PORTS_def TCP_PORT_PROTOCOLS_def)

text \<open>
  C38. On packets the frame parser produced, whatever the traffic: the login brute-force detector
  never alerts and never counts anything, because a segment to a login port is no longer called
  \<open>tcp\<close> but \<open>ssh\<close>, \<open>ftp\<close> and so on; the rogue DHCP server detector never does either, because the
  message type is stored as a name and compared with the numbers 2 and 5; and the DNS query flood
  detector ignores every packet but those still called \<open>tcp\<close>, in which no DNS message was
  recognised.
\<close>

theorem blind_detectors:
  assumes "parse_packet cfg data interface fl = Some (Some p, fl')"
  shows "brute_force_evaluate w thr now p counter_state = (counter_state, None)
    \<and> dhcp_rogue_evaluate w now p dhcp_state = (dhcp_state, None)
    \<and> (pk_proto p \<noteq> U ''tcp'' \<longrightarrow> dns_query_flood_evaluate w thr now p flood_state = (flood_state, None))"
proof -
  have u: "unnamed_ports p" and t: "text_type p" using parse_packet_seen [OF assms] by (simp_all add: seen_def)
  have "login_key p = None" using u login_ports_named [of "pk_dst_port p"] by (auto simp: login_key_def unnamed_ports_def Let_def)
  moreover have "pk_proto p \<noteq> U ''udp'' \<or> pk_dst_port p \<noteq> 53"
    using u by (auto simp: unnamed_ports_def)
  moreover have "\<not> is_offer_ack p"
    using t by (auto simp: is_offer_ack_def text_type_def msg_type_def split: option.splits)
  ultimately show ?thesis
    by (auto simp: brute_force_evaluate_def dns_query_flood_evaluate_def dhcp_rogue_evaluate_def Let_def)
qed

text \<open>A bare SYN to port 22 in a raw IPv4 packet.\<close>

definition syn_cfg :: sniff_config where
  "syn_cfg = \<lparr>cfg_text_max = 100, cfg_local_ips = {}, cfg_dashboard_port = 8080, cfg_now = []\<rparr>"

definition syn_frame :: bytes where
  "syn_frame = [0x45, 0, 0, 40, 0, 0, 0, 0, 64, 6, 0x66, 0xC7, 10, 0, 0, 9, 10, 0, 0, 1]
     @ [0x9c, 0x40, 0, 22, 0, 0, 0, 1, 0, 0, 0, 0, 0x50, 2, 4, 0, 0, 0, 0, 0]"

theorem blind_detectors_witness:
  "\<exists>p fl'. parse_packet syn_cfg syn_frame [] [] = Some (Some p, fl') \<and> brute_force_evaluate 30 1 7 p new_counter = (new_counter, None)"
proof -
  obtain r where r: "parse_packet syn_cfg syn_frame [] [] = Some r" using parse_packet_total by fastforce
  have raw: "looks_like_raw_ipv4 syn_frame" "syn_frame \<noteq> []"
    by (simp_all add: looks_like_raw_ipv4_def syn_frame_def slice_def be_def ipv4_str_def ipv4_checksum_is_valid_def fold16.simps Let_def)
  then have "fst r \<noteq> None" using r by (auto simp: parse_packet_def finalize_st_def)
  then obtain p fl' where p: "parse_packet syn_cfg syn_frame [] [] = Some (Some p, fl')" using r by (cases r) auto
  from blind_detectors [OF this, of 30 1 7 new_counter new_dhcp_rogue "\<lambda>_. []"] p show ?thesis by auto
qed

end
