(* ===== verification/Monitor_Index.thy ===== *)
theory Monitor_Index
  imports Monitors
begin

text \<open>
  The life of the monitor index (\<^verbatim>\<open>monitors.py\<close>): interleavings of index refreshes with the
  background builds they start, as a step relation over the index state and the multiset of
  builds that have not ended. \<open>heap oid\<close> is the content of the list object \<open>oid\<close>. The index
  never adds a hit in any reachable state, and once the pending builds have ended, in any
  order, evaluation through the index is the plain scan.
\<close>

section \<open>Interleavings\<close>

inductive reach :: "(nat \<Rightarrow> monitor list) \<Rightarrow> index_state \<Rightarrow> job multiset \<Rightarrow> bool" for heap where
  init: "reach heap initial_index {#}"
| ensure: "reach heap st js \<Longrightarrow> ensure_monitor_index oid (heap oid) st = (st', None) \<Longrightarrow> reach heap st' js"
| ensure_start: "reach heap st js \<Longrightarrow> ensure_monitor_index oid (heap oid) st = (st', Some j) \<Longrightarrow> reach heap st' (add_mset j js)"
| finish: "reach heap st (add_mset j js) \<Longrightarrow> finish_build j st = Some st' \<Longrightarrow> reach heap st' js"

fun finish_all :: "job list \<Rightarrow> index_state \<Rightarrow> index_state option" where
  "finish_all [] st = Some st"
| "finish_all (j # js) st = (case finish_build j st of None \<Rightarrow> None | Some st' \<Rightarrow> finish_all js st')"

definition job_of :: "monitor list \<Rightarrow> job" where
  "job_of ms = (monitor_index_signature ms, tb_content (build_tables ms))"

section \<open>What the signature determines\<close>

text \<open>Two lists with one signature give the same content table and the same hits.\<close>

lemma sig_fields:
  assumes "monitor_sig m = monitor_sig n"
  shows "r_id m = r_id n" "r_match m = r_match n" "r_action m = r_action n" "r_name m = r_name n" "mo_mode m = mo_mode n"
    "r_enabled m = r_enabled n"
  using assms by (auto simp: monitor_sig_def)

lemma signature_nth:
  assumes "monitor_index_signature ms = monitor_index_signature ns"
  shows "list_all2 (\<lambda>m n. monitor_sig m = monitor_sig n) ms ns"
  using assms by (auto simp: monitor_index_signature_def list_all2_conv_all_nth dest: map_eq_imp_length_eq)
    (metis length_map nth_map)

lemma index_monitor_content:
  assumes "monitor_sig m = monitor_sig n" "tb_content t = tb_content u"
  shows "tb_content (index_monitor (i, m) t) = tb_content (index_monitor (i, n) u)"
  using assms by (simp add: index_monitor_def Let_def sig_fields [OF assms(1)])

lemma content_of_signature:
  assumes "monitor_index_signature ms = monitor_index_signature ns"
  shows "tb_content (build_tables ms) = tb_content (build_tables ns)"
proof -
  have "list_all2 (\<lambda>m n. monitor_sig m = monitor_sig n) ms ns" by (rule signature_nth [OF assms])
  then have "tb_content (fold index_monitor (zip is ms) t) = tb_content (fold index_monitor (zip is ns) u)"
    if "tb_content t = tb_content u" for "is" t u
    using that
  proof (induction arbitrary: "is" t u rule: list_all2_induct)
    case (Cons m ms n ns)
    show ?case
    proof (cases "is")
      case (Cons i is')
      then show ?thesis
        using Cons.IH [of "index_monitor (i, m) t" "index_monitor (i, n) u" is']
          index_monitor_content [OF Cons.hyps(1) Cons.prems, of i] by simp
    qed (simp add: Cons.prems)
  qed simp
  then show ?thesis
    using assms by (simp add: build_tables_def monitor_index_signature_def map_eq_imp_length_eq [OF assms [unfolded monitor_index_signature_def]])
qed

lemma hit_of_sig:
  assumes "monitor_sig m = monitor_sig n"
  shows "hit_of m = hit_of n" "skip_monitor p m = skip_monitor p n"
    "monitor_matches_packet rx lmt m p t = monitor_matches_packet rx lmt n p t" "indexable m = indexable n"
  by (simp_all add: hit_of_def skip_monitor_def monitor_matches_packet_def rule_matches_packet_def indexable_def sig_fields [OF assms])

lemma evaluate_of_signature:
  assumes "monitor_index_signature ms = monitor_index_signature ns"
  shows "evaluate_candidates rx lmt p ms = evaluate_candidates rx lmt p ns"
  using signature_nth [OF assms] unfolding evaluate_candidates_def
proof (induction rule: list_all2_induct)
  case (Cons m ms n ns)
  then show ?case by (simp add: hit_of_sig [OF Cons.hyps(1)])
qed simp

lemma indexable_of_signature:
  assumes "monitor_index_signature ms = monitor_index_signature ns"
  shows "list_all indexable ms = list_all indexable ns"
  using signature_nth [OF assms]
proof (induction rule: list_all2_induct)
  case (Cons m ms n ns)
  then show ?case by (simp add: hit_of_sig [OF Cons.hyps(1)])
qed simp

section \<open>The invariant\<close>

definition current :: "(nat \<Rightarrow> monitor list) \<Rightarrow> index_state \<Rightarrow> msig list \<Rightarrow> bool" where
  "current heap st s \<longleftrightarrow> ix_automaton st \<noteq> None \<and> (\<exists>oid. job_of (heap oid) = (s, ix_content st))"

definition pending :: "job multiset \<Rightarrow> msig list \<Rightarrow> bool" where
  "pending js s \<longleftrightarrow> (\<exists>c. (s, c) \<in># js)"

definition index_inv :: "(nat \<Rightarrow> monitor list) \<Rightarrow> index_state \<Rightarrow> job multiset \<Rightarrow> bool" where
  "index_inv heap st js \<longleftrightarrow>
     (\<forall>oid. ix_ref st = Some oid \<longrightarrow> ix_signature st = Some (monitor_index_signature (heap oid)))
     \<and> (\<forall>s. ix_signature st = Some s \<longrightarrow>
          (\<exists>oid. monitor_index_signature (heap oid) = s \<and> ix_tables st = build_tables (heap oid)) \<and> (current heap st s \<or> pending js s))
     \<and> (\<forall>j \<in># js. \<exists>oid. j = job_of (heap oid))
     \<and> (\<forall>s. ix_building st = Some s \<longrightarrow> pending js s)
     \<and> (\<forall>a. ix_automaton st = Some a \<longrightarrow> build_automaton (map fst (ix_content st)) = Some a)"

lemma pending_add [simp]: "pending (add_mset j js) s \<longleftrightarrow> fst j = s \<or> pending js s"
  by (cases j) (auto simp: pending_def)

lemma index_inv_init: "index_inv heap initial_index {#}"
  by (simp add: index_inv_def initial_index_def)

lemma ensure_cases:
  assumes "ensure_monitor_index oid ms st = (st', r)"
  obtains (same) "ix_signature st = Some (monitor_index_signature ms)" "st' = st\<lparr>ix_ref := Some oid\<rparr>" "r = None"
    | (new) "st' = st\<lparr>ix_ref := Some oid, ix_signature := Some (monitor_index_signature ms), ix_tables := build_tables ms,
        ix_building := Some (monitor_index_signature ms)\<rparr>"
      "r = (if ix_building st = Some (monitor_index_signature ms) then None else Some (job_of ms))"
  using assms by (auto simp: ensure_monitor_index_def Let_def job_of_def split: if_splits)

lemma current_upd [simp]:
  "current heap (st\<lparr>ix_ref := a, ix_signature := b, ix_tables := c, ix_building := d\<rparr>) s = current heap st s"
  "current heap (st\<lparr>ix_ref := a\<rparr>) s = current heap st s"
  "current heap (st\<lparr>ix_building := d\<rparr>) s = current heap st s"
  by (simp_all add: current_def)

lemma ensure_inv:
  assumes inv: "index_inv heap st js" and step: "ensure_monitor_index oid (heap oid) st = (st', r)"
  shows "index_inv heap st' (case r of None \<Rightarrow> js | Some j \<Rightarrow> add_mset j js)"
  using step
proof (cases rule: ensure_cases)
  case same
  then show ?thesis using inv by (auto simp: index_inv_def)
next
  case new
  have "fst (job_of (heap oid)) = monitor_index_signature (heap oid)" by (simp add: job_of_def)
  then show ?thesis using inv unfolding index_inv_def new by (auto split: if_splits)
qed

lemma finish_inv:
  assumes inv: "index_inv heap st (add_mset j js)" and step: "finish_build j st = Some st'"
  shows "index_inv heap st' js" "ix_ref st' = ix_ref st"
proof -
  obtain oid where j: "j = job_of (heap oid)" using inv by (auto simp: index_inv_def)
  let ?s = "monitor_index_signature (heap oid)" and ?c = "tb_content (build_tables (heap oid))"
  obtain a where a: "build_automaton (map fst ?c) = Some a" using aho.build_total by blast
  define st1 where "st1 = (if ix_signature st = Some ?s then st\<lparr>ix_automaton := Some a, ix_content := ?c\<rparr> else st)"
  have st': "st' = (if ix_building st1 = Some ?s then st1\<lparr>ix_building := None\<rparr> else st1)"
    using step unfolding st1_def by (simp add: j job_of_def finish_build_def a Let_def)
  have fst_j: "fst j = ?s" by (simp add: j job_of_def)
  have cur: "current heap (st\<lparr>ix_automaton := Some a, ix_content := ?c\<rparr>) ?s"
    by (auto simp: current_def job_of_def)
  have "index_inv heap st1 (add_mset j js) \<and> (\<forall>s. ix_signature st1 = Some s \<longrightarrow> current heap st1 s \<or> pending js s)"
    using inv cur a fst_j unfolding st1_def index_inv_def by auto
  then show "index_inv heap st' js" unfolding st' index_inv_def using fst_j by auto
  show "ix_ref st' = ix_ref st" by (simp add: st' st1_def)
qed

lemma reach_inv: "reach heap st js \<Longrightarrow> index_inv heap st js"
proof (induction rule: reach.induct)
  case init
  show ?case by (rule index_inv_init)
next
  case (ensure st js oid st')
  then show ?case using ensure_inv [of heap st js oid st' None] by simp
next
  case (ensure_start st js oid st' j)
  then show ?case using ensure_inv [of heap st js oid st' "Some j"] by simp
next
  case (finish st j js st')
  then show ?case by (blast intro: finish_inv(1))
qed

lemma finish_total: "\<exists>st'. finish_build j st = Some st'"
proof -
  obtain a where "build_automaton (map fst (snd j)) = Some a" using aho.build_total by blast
  then show ?thesis by (cases j) (simp add: finish_build_def Let_def)
qed

lemma finish_all_inv: "index_inv heap st (mset js) \<Longrightarrow> \<exists>st'. finish_all js st = Some st' \<and> index_inv heap st' {#} \<and> ix_ref st' = ix_ref st"
proof (induction js arbitrary: st)
  case (Cons j js)
  obtain st1 where st1: "finish_build j st = Some st1" using finish_total by blast
  have "index_inv heap st1 (mset js)" "ix_ref st1 = ix_ref st"
    using finish_inv [of heap st j "mset js" st1] Cons.prems st1 by simp_all
  then show ?case using Cons.IH [of st1] st1 by simp
qed simp

section \<open>Evaluation\<close>

text \<open>With the automaton of a content table, the candidates are those of the strings found.\<close>

lemma indexed_candidates_cases:
  assumes "index_inv heap st js"
  shows "indexed_candidates st oid t ports = None
    \<or> ix_ref st = Some oid \<and> indexed_candidates st oid t ports =
        Some (Some (candidates_for (ix_tables st) (hit_ids (ix_tables st) (ix_content st)
          {k \<in> fst ` set (ix_content st). k \<noteq> [] \<and> sublist k t} ports)))"
proof (cases "ix_automaton st")
  case (Some a)
  then have "build_automaton (map fst (ix_content st)) = Some a" using assms by (simp add: index_inv_def)
  from aho.find_spec [OF this, of t] show ?thesis using Some by (simp add: indexed_candidates_def)
qed (simp add: indexed_candidates_def)

lemma index_inv_tables:
  assumes "index_inv heap st js" "ix_ref st = Some oid" "\<forall>i. distinct (map r_id (heap i))"
  obtains ns where "tables_ok ns (ix_tables st)" "distinct (map r_id ns)" "ix_tables st = build_tables ns"
    "monitor_index_signature ns = monitor_index_signature (heap oid)"
  using assms build_tables_ok by (fastforce simp: index_inv_def)

text \<open>
  C5. In every state the index can reach, whatever refreshes and background builds have
  interleaved, evaluating a packet returns, and every hit is a hit of the plain scan over the
  list of monitors that was passed: a stale or missing index never adds a hit, and a list the
  index was not refreshed for is scanned in full.
\<close>

theorem monitor_index_sound:
  assumes "reach heap st js" and "\<forall>i. distinct (map r_id (heap i))"
  shows "\<exists>hs. evaluate_packet rx lmt st p oid (heap oid) = Some hs
    \<and> set hs \<subseteq> set (evaluate_candidates rx lmt p (heap oid))
    \<and> (ix_ref st \<noteq> Some oid \<longrightarrow> hs = evaluate_candidates rx lmt p (heap oid))"
proof (cases "indexed_candidates st oid (build_packet_text lmt p) (pk_src_port p, pk_dst_port p)")
  case None
  then show ?thesis by (simp add: evaluate_packet_def)
next
  case (Some r)
  note inv = reach_inv [OF assms(1)]
  from indexed_candidates_cases [OF inv, of oid "build_packet_text lmt p" "(pk_src_port p, pk_dst_port p)"] Some
  obtain h where r: "r = Some (candidates_for (ix_tables st) h)" and ref: "ix_ref st = Some oid" by auto
  obtain ns where ns: "tables_ok ns (ix_tables st)" "monitor_index_signature ns = monitor_index_signature (heap oid)"
    using index_inv_tables [OF inv ref assms(2)] by blast
  have "set (evaluate_candidates rx lmt p (candidates_for (ix_tables st) h)) \<subseteq> set (evaluate_candidates rx lmt p ns)"
    using candidates_subset [OF ns(1), of h] by (auto simp: evaluate_candidates_def)
  then show ?thesis using Some r ref by (simp add: evaluate_packet_def evaluate_of_signature [OF ns(2)])
qed

lemma settled_evaluation:
  assumes inv: "index_inv heap st {#}" and ref: "ix_ref st = Some oid"
    and d: "\<forall>i. distinct (map r_id (heap i))" and ok: "list_all indexable (heap oid)"
  shows "evaluate_packet rx lmt st p oid (heap oid) = Some (evaluate_candidates rx lmt p (heap oid))"
proof -
  obtain ns where ns: "tables_ok ns (ix_tables st)" "distinct (map r_id ns)" "ix_tables st = build_tables ns"
    "monitor_index_signature ns = monitor_index_signature (heap oid)"
    using index_inv_tables [OF inv ref d] by blast
  have "ix_signature st = Some (monitor_index_signature (heap oid))" using inv ref by (simp add: index_inv_def)
  then have "current heap st (monitor_index_signature (heap oid))" using inv by (auto simp: index_inv_def pending_def)
  then obtain i where "monitor_index_signature (heap i) = monitor_index_signature (heap oid)"
    "ix_content st = tb_content (build_tables (heap i))" by (auto simp: current_def job_of_def)
  then have content: "ix_content st = tb_content (ix_tables st)"
    using content_of_signature [of "heap i" ns] ns by simp
  have "list_all indexable ns" using ok indexable_of_signature [OF ns(4)] by simp
  from indexed_equals_scan [OF ns(1,2) this refl, of rx lmt p]
  show ?thesis
    using indexed_candidates_cases [OF inv, of oid "build_packet_text lmt p" "(pk_src_port p, pk_dst_port p)"]
    by (auto simp: evaluate_packet_def content evaluate_of_signature [OF ns(4)])
qed

text \<open>
  C6. From every reachable state, the pending builds end, in whatever order they are scheduled,
  and then evaluating a packet against the list the index was last refreshed for gives exactly
  the hits of the plain scan, in the order of the list: narrowing the candidates by content and
  by port loses nothing, provided no content criterion is blank and no port criterion is 0.
\<close>

theorem monitor_index_converges:
  assumes "reach heap st (mset js)" and "ix_ref st = Some oid"
    and "\<forall>i. distinct (map r_id (heap i))" and "list_all indexable (heap oid)"
  shows "\<exists>st'. finish_all js st = Some st'
    \<and> (\<forall>p. evaluate_packet rx lmt st' p oid (heap oid) = Some (evaluate_candidates rx lmt p (heap oid)))"
proof -
  obtain st' where "finish_all js st = Some st'" "index_inv heap st' {#}" "ix_ref st' = ix_ref st"
    using finish_all_inv [OF reach_inv [OF assms(1)]] by blast
  then show ?thesis using settled_evaluation [of heap st' oid rx lmt] assms by auto
qed

section \<open>Witnesses\<close>

definition sample_monitor :: monitor where
  "sample_monitor = \<lparr>r_id = U ''m'', r_name = U ''shell'', r_description = [], r_enabled = True, r_priority = 10,
     r_match = Match (empty_criteria\<lparr>m_payload_contains := [U ''cmd.exe'']\<rparr>) [] [] [],
     r_action = \<lparr>a_tag = U ''t'', a_label = U ''l'', a_severity = U ''high''\<rparr>, r_source = [], mo_mode = U ''rule'', mo_updated_at = []\<rparr>"

definition sample_index :: index_state where
  "sample_index = fst (ensure_monitor_index 0 [sample_monitor] initial_index)"

lemma sample_reach: "reach (\<lambda>_. [sample_monitor]) sample_index (mset [job_of [sample_monitor]])"
proof -
  have "ensure_monitor_index 0 [sample_monitor] initial_index = (sample_index, Some (job_of [sample_monitor]))"
    by (simp add: sample_index_def ensure_monitor_index_def initial_index_def Let_def job_of_def)
  from reach.ensure_start [OF reach.init this] show ?thesis by simp
qed

lemma sample_facts: "ix_ref sample_index = Some 0" "list_all indexable [sample_monitor]"
  by (simp_all add: sample_index_def ensure_monitor_index_def initial_index_def Let_def indexable_def sample_monitor_def
      U_def strip_by_def lstrip_by_def rstrip_by_def is_space_def)

theorem monitor_index_sound_witness:
  "\<exists>hs. evaluate_packet (\<lambda>_ _. False) 100 sample_index (build_base_packet [] [] [] [] [] [] 0) 0 [sample_monitor] = Some hs
    \<and> set hs \<subseteq> set (evaluate_candidates (\<lambda>_ _. False) 100 (build_base_packet [] [] [] [] [] [] 0) [sample_monitor])"
  using monitor_index_sound [OF sample_reach, of "\<lambda>_ _. False" 100 "build_base_packet [] [] [] [] [] [] 0" 0] by auto

theorem monitor_index_converges_witness:
  "\<exists>st'. finish_all [job_of [sample_monitor]] sample_index = Some st'
    \<and> (\<forall>p. evaluate_packet (\<lambda>_ _. False) 100 st' p 0 [sample_monitor] = Some (evaluate_candidates (\<lambda>_ _. False) 100 p [sample_monitor]))"
  using monitor_index_converges [OF sample_reach sample_facts(1), of "\<lambda>_ _. False" 100] sample_facts(2) by simp

end
