(* ===== verification/Alert_Throttle.thy ===== *)
theory Alert_Throttle
  imports Monitors Event_Windows
begin

text \<open>
  \<open>RuleAlertThrottle\<close> of \<^verbatim>\<open>monitors.py\<close>: at most one alert per monitor and source in a window,
  with the silenced hits counted and reported. Clock readings are rationals; \<open>window\<close> is
  \<open>_window_seconds\<close>. An allowed hit carries the value of \<open>suppressed_since_last\<close>, if set.
\<close>

type_synonym throttle_key = "ustr \<times> ustr"

record throttle =
  th_last_emit :: "throttle_key \<rightharpoonup> time"
  th_suppressed :: "throttle_key \<rightharpoonup> nat"

definition new_throttle :: throttle where
  "new_throttle = \<lparr>th_last_emit = Map.empty, th_suppressed = Map.empty\<rparr>"

definition THROTTLED_SEVERITIES :: "ustr list" where
  "THROTTLED_SEVERITIES = [U ''medium'', U ''high'', U ''critical'']"

definition is_throttled :: "rule_hit \<Rightarrow> bool" where
  "is_throttled h \<longleftrightarrow> lower (strip (or_text (h_severity h) (U ''info''))) \<in> set THROTTLED_SEVERITIES"

definition throttle_key :: "ustr \<Rightarrow> rule_hit \<Rightarrow> throttle_key" where
  "throttle_key source h = (or_text (h_rule_id h) (h_tag h), strip source)"

definition suppressed_count :: "throttle \<Rightarrow> throttle_key \<Rightarrow> nat" where
  "suppressed_count th k = (case th_suppressed th k of None \<Rightarrow> 0 | Some n \<Rightarrow> n)"

text \<open>One hit of the loop: allowed (\<open>Inl\<close>, with the count it reports) or silenced (\<open>Inr\<close>).\<close>

definition throttle_hit :: "time \<Rightarrow> time \<Rightarrow> ustr \<Rightarrow> rule_hit \<Rightarrow> throttle \<Rightarrow> throttle \<times> ((rule_hit \<times> nat option) + rule_hit)" where
  "throttle_hit window now source h th =
     (if \<not> is_throttled h then (th, Inl (h, None))
      else
        let k = throttle_key source h in
        if (case th_last_emit th k of None \<Rightarrow> False | Some t0 \<Rightarrow> now - t0 < window)
        then (th\<lparr>th_suppressed := (th_suppressed th)(k \<mapsto> suppressed_count th k + 1)\<rparr>, Inr h)
        else
          let n = suppressed_count th k in
          (th\<lparr>th_suppressed := (th_suppressed th)(k := None), th_last_emit := (th_last_emit th)(k \<mapsto> now)\<rparr>,
           Inl (h, if n \<noteq> 0 then Some n else None)))"

fun partition_hits :: "time \<Rightarrow> time \<Rightarrow> ustr \<Rightarrow> rule_hit list \<Rightarrow> throttle \<Rightarrow> throttle \<times> (rule_hit \<times> nat option) list \<times> rule_hit list" where
  "partition_hits window now source [] th = (th, [], [])"
| "partition_hits window now source (h # hs) th =
     (case throttle_hit window now source h th of (th1, r) \<Rightarrow>
       (case partition_hits window now source hs th1 of (th', al, su) \<Rightarrow>
         (case r of Inl x \<Rightarrow> (th', x # al, su) | Inr s \<Rightarrow> (th', al, s # su))))"

definition throttle_partition :: "time \<Rightarrow> time \<Rightarrow> throttle \<Rightarrow> rule_hit list \<Rightarrow> ustr \<Rightarrow> throttle \<times> (rule_hit \<times> nat option) list \<times> rule_hit list" where
  "throttle_partition window now th hits source =
     (if hits = [] then (th, [], []) else partition_hits window now source hits th)"

definition throttle_filter :: "time \<Rightarrow> time \<Rightarrow> throttle \<Rightarrow> rule_hit list \<Rightarrow> ustr \<Rightarrow> throttle \<times> (rule_hit \<times> nat option) list" where
  "throttle_filter window now th hits source = (case throttle_partition window now th hits source of (th', al, su) \<Rightarrow> (th', al))"

section \<open>Sequences of calls\<close>

text \<open>A call is the clock reading, the source and the hits; a result adds what \<open>partition\<close> returned.\<close>

fun run_calls :: "time \<Rightarrow> throttle \<Rightarrow> (time \<times> ustr \<times> rule_hit list) list
    \<Rightarrow> throttle \<times> (time \<times> ustr \<times> (rule_hit \<times> nat option) list \<times> rule_hit list) list" where
  "run_calls window th [] = (th, [])"
| "run_calls window th ((now, source, hits) # calls) =
     (case throttle_partition window now th hits source of (th1, al, su) \<Rightarrow>
       (case run_calls window th1 calls of (th', rs) \<Rightarrow> (th', (now, source, al, su) # rs)))"

definition of_key :: "throttle_key \<Rightarrow> ustr \<Rightarrow> rule_hit \<Rightarrow> bool" where
  "of_key k source h \<longleftrightarrow> is_throttled h \<and> throttle_key source h = k"

definition emitted :: "throttle_key \<Rightarrow> ustr \<Rightarrow> (rule_hit \<times> nat option) list \<Rightarrow> (rule_hit \<times> nat option) list" where
  "emitted k source al = filter (\<lambda>(h, n). of_key k source h) al"

fun emission_times :: "throttle_key \<Rightarrow> (time \<times> ustr \<times> (rule_hit \<times> nat option) list \<times> rule_hit list) list \<Rightarrow> time list" where
  "emission_times k [] = []"
| "emission_times k ((now, source, al, su) # rs) = map (\<lambda>_. now) (emitted k source al) @ emission_times k rs"

fun reported :: "throttle_key \<Rightarrow> (time \<times> ustr \<times> (rule_hit \<times> nat option) list \<times> rule_hit list) list \<Rightarrow> nat" where
  "reported k [] = 0"
| "reported k ((now, source, al, su) # rs) =
     sum_list (map (\<lambda>(h, n). case n of None \<Rightarrow> 0 | Some c \<Rightarrow> c) (emitted k source al)) + reported k rs"

fun silenced :: "throttle_key \<Rightarrow> (time \<times> ustr \<times> (rule_hit \<times> nat option) list \<times> rule_hit list) list \<Rightarrow> nat" where
  "silenced k [] = 0"
| "silenced k ((now, source, al, su) # rs) = length (filter (of_key k source) su) + silenced k rs"

section \<open>One call\<close>

lemma emitted_simps [simp]:
  "emitted k source [] = []"
  "emitted k source ((h, n) # al) = (if of_key k source h then (h, n) # emitted k source al else emitted k source al)"
  by (simp_all add: emitted_def)

lemma suppressed_count_upd [simp]:
  "suppressed_count (th\<lparr>th_suppressed := (th_suppressed th)(k \<mapsto> n)\<rparr>) k' = (if k' = k then n else suppressed_count th k')"
  "suppressed_count (th\<lparr>th_suppressed := (th_suppressed th)(k := None), th_last_emit := l\<rparr>) k' = (if k' = k then 0 else suppressed_count th k')"
  by (simp_all add: suppressed_count_def)

lemma throttle_hit_cases:
  assumes "throttle_hit window now source h th = (th1, r)"
  obtains (visibility) "\<not> is_throttled h" "th1 = th" "r = Inl (h, None)"
  | (silence) "is_throttled h" "r = Inr h"
      "th1 = th\<lparr>th_suppressed := (th_suppressed th)(throttle_key source h \<mapsto> suppressed_count th (throttle_key source h) + 1)\<rparr>"
  | (alert) t n where "is_throttled h" "r = Inl (h, n)" "(case n of None \<Rightarrow> 0 | Some c \<Rightarrow> c) = suppressed_count th (throttle_key source h)"
      "th1 = th\<lparr>th_suppressed := (th_suppressed th)(throttle_key source h := None), th_last_emit := (th_last_emit th)(throttle_key source h \<mapsto> now)\<rparr>"
      "\<forall>t. th_last_emit th (throttle_key source h) = Some t \<longrightarrow> t + window \<le> now"
proof (cases "is_throttled h")
  case True
  let ?k = "throttle_key source h"
  show ?thesis
  proof (cases "case th_last_emit th ?k of None \<Rightarrow> False | Some t0 \<Rightarrow> now - t0 < window")
    case hot: True
    show ?thesis by (rule silence) (use assms True hot in \<open>simp_all add: throttle_hit_def Let_def\<close>)
  next
    case cold: False
    have old: "\<forall>t. th_last_emit th ?k = Some t \<longrightarrow> t + window \<le> now"
      using cold by (auto split: option.splits)
    show ?thesis
      by (rule alert [of "if suppressed_count th ?k \<noteq> 0 then Some (suppressed_count th ?k) else None"])
        (use assms True cold old in \<open>simp_all add: throttle_hit_def Let_def\<close>)
  qed
qed (use assms visibility in \<open>simp add: throttle_hit_def\<close>)

lemma partition_Cons:
  assumes "partition_hits window now source (h # hs) th = (th', al, su)"
  obtains th1 r al1 su1 where "throttle_hit window now source h th = (th1, r)"
    "partition_hits window now source hs th1 = (th', al1, su1)"
    "(al, su) = (case r of Inl x \<Rightarrow> (x # al1, su1) | Inr s \<Rightarrow> (al1, s # su1))"
  using assms by (auto split: prod.splits sum.splits)

text \<open>Every hit comes back exactly once; only hits of the throttled severities are silenced.\<close>

lemma partition_splits:
  "partition_hits window now source hs th = (th', al, su) \<Longrightarrow>
     mset (map fst al) + mset su = mset hs \<and> (\<forall>h \<in> set su. is_throttled h)"
proof (induction hs arbitrary: th th' al su)
  case (Cons h hs)
  from Cons.prems obtain th1 r al1 su1 where step: "throttle_hit window now source h th = (th1, r)"
    and rest: "partition_hits window now source hs th1 = (th', al1, su1)"
    and out: "(al, su) = (case r of Inl x \<Rightarrow> (x # al1, su1) | Inr s \<Rightarrow> (al1, s # su1))" by (rule partition_Cons)
  from step Cons.IH [OF rest] out show ?case by (cases rule: throttle_hit_cases) auto
qed simp

text \<open>The silenced hits of a key are reported by its next alert or still counted.\<close>

lemma partition_accounting:
  "partition_hits window now source hs th = (th', al, su) \<Longrightarrow>
     suppressed_count th k + length (filter (of_key k source) su)
       = sum_list (map (\<lambda>(h, n). case n of None \<Rightarrow> 0 | Some c \<Rightarrow> c) (emitted k source al)) + suppressed_count th' k"
proof (induction hs arbitrary: th th' al su)
  case (Cons h hs)
  from Cons.prems obtain th1 r al1 su1 where step: "throttle_hit window now source h th = (th1, r)"
    and rest: "partition_hits window now source hs th1 = (th', al1, su1)"
    and out: "(al, su) = (case r of Inl x \<Rightarrow> (x # al1, su1) | Inr s \<Rightarrow> (al1, s # su1))" by (rule partition_Cons)
  from step Cons.IH [OF rest] out show ?case by (cases rule: throttle_hit_cases) (auto simp: of_key_def)
qed simp

text \<open>In one call a key emits at most once, and only when its last alert is a window old.\<close>

lemma partition_emits:
  assumes "window > 0"
  shows "partition_hits window now source hs th = (th', al, su) \<Longrightarrow>
    emitted k source al = [] \<and> th_last_emit th' k = th_last_emit th k
    \<or> length (emitted k source al) = 1 \<and> th_last_emit th' k = Some now \<and> (\<forall>t. th_last_emit th k = Some t \<longrightarrow> t + window \<le> now)"
proof (induction hs arbitrary: th th' al su)
  case (Cons h hs)
  from Cons.prems obtain th1 r al1 su1 where step: "throttle_hit window now source h th = (th1, r)"
    and rest: "partition_hits window now source hs th1 = (th', al1, su1)"
    and out: "(al, su) = (case r of Inl x \<Rightarrow> (x # al1, su1) | Inr s \<Rightarrow> (al1, s # su1))" by (rule partition_Cons)
  from step Cons.IH [OF rest] out assms show ?case
    by (cases rule: throttle_hit_cases) (auto simp: of_key_def split: if_splits)
qed simp

section \<open>What the throttle promises\<close>

lemma throttle_partition_eq: "throttle_partition window now th hits source = partition_hits window now source hits th"
  by (cases hits) (simp_all add: throttle_partition_def)

lemma run_calls_accounting:
  "run_calls window th calls = (th', rs) \<Longrightarrow> suppressed_count th k + silenced k rs = reported k rs + suppressed_count th' k"
proof (induction window th calls arbitrary: th' rs rule: run_calls.induct)
  case (2 window th now source hits calls)
  obtain th1 al su where p: "throttle_partition window now th hits source = (th1, al, su)" by (cases rule: prod_cases3)
  obtain rs1 where r: "run_calls window th1 calls = (th', rs1)" "rs = (now, source, al, su) # rs1"
    using 2(2) p by (auto split: prod.splits)
  show ?case using 2(1) [OF p [symmetric] refl r(1)] partition_accounting [of window now source hits th th1 al su k] p r(2)
    by (simp add: throttle_partition_eq)
qed simp

lemma run_calls_spacing:
  assumes "window > 0" "run_calls window th calls = (th', rs)" "sorted (map fst calls)"
    "\<forall>t. th_last_emit th k = Some t \<longrightarrow> (\<forall>c \<in> set calls. t \<le> fst c)"
  shows "sorted_wrt (\<lambda>t u. t + window \<le> u) (emission_times k rs)
    \<and> (\<forall>t u. th_last_emit th k = Some t \<longrightarrow> u \<in> set (emission_times k rs) \<longrightarrow> t + window \<le> u)"
  using assms
proof (induction window th calls arbitrary: th' rs rule: run_calls.induct)
  case (2 window th now source hits calls)
  obtain th1 al su where p: "throttle_partition window now th hits source = (th1, al, su)" by (cases rule: prod_cases3)
  obtain rs1 where r: "run_calls window th1 calls = (th', rs1)" "rs = (now, source, al, su) # rs1"
    using 2(3) p by (auto split: prod.splits)
  have e: "emitted k source al = [] \<and> th_last_emit th1 k = th_last_emit th k
    \<or> length (emitted k source al) = 1 \<and> th_last_emit th1 k = Some now \<and> (\<forall>t. th_last_emit th k = Some t \<longrightarrow> t + window \<le> now)"
    using partition_emits [OF 2(2), of now source hits th th1 al su k] p by (simp add: throttle_partition_eq)
  have "sorted (map fst calls)" "\<forall>t. th_last_emit th1 k = Some t \<longrightarrow> (\<forall>c \<in> set calls. t \<le> fst c)"
    using 2(4,5) e by auto
  note ih = 2(1) [OF p [symmetric] refl 2(2) r(1) this]
  show ?case
  proof (cases "emitted k source al")
    case Nil
    then show ?thesis using ih e r(2) by simp
  next
    case (Cons x xs)
    then have "xs = []" "th_last_emit th1 k = Some now" "\<forall>t. th_last_emit th k = Some t \<longrightarrow> t + window \<le> now"
      using e by auto
    then show ?thesis using ih r(2) Cons 2(2) by fastforce
  qed
qed simp


text \<open>
  C21. Suppression is never silent: over any sequence of calls the silenced hits of a monitor and
  source are exactly those its later alerts have reported in \<open>suppressed_since_last\<close> plus those
  still counted for the next one; each call returns every hit exactly once, and a hit below the
  throttled severities is always allowed.
\<close>

theorem throttle_accounting:
  assumes "run_calls window new_throttle calls = (th, rs)"
  shows "silenced k rs = reported k rs + suppressed_count th k
    \<and> (\<forall>((now, source, hits), (now', source', al, su)) \<in> set (zip calls rs).
        mset (map fst al) + mset su = mset hits \<and> (\<forall>h \<in> set su. is_throttled h))"
proof (rule conjI)
  show "silenced k rs = reported k rs + suppressed_count th k"
    using run_calls_accounting [OF assms, of k] by (simp add: new_throttle_def suppressed_count_def)
  have "\<forall>((now, source, hits), (now', source', al, su)) \<in> set (zip calls rs).
        mset (map fst al) + mset su = mset hits \<and> (\<forall>h \<in> set su. is_throttled h)"
    if "run_calls window th0 calls = (th, rs)" for th0
    using that
  proof (induction window th0 calls arbitrary: th rs rule: run_calls.induct)
    case (2 window th0 now source hits calls)
    obtain th1 al su where p: "throttle_partition window now th0 hits source = (th1, al, su)" by (cases rule: prod_cases3)
    obtain rs1 where r: "run_calls window th1 calls = (th, rs1)" "rs = (now, source, al, su) # rs1"
      using 2(2) p by (auto split: prod.splits)
    show ?case using 2(1) [OF p [symmetric] refl r(1)] partition_splits [of window now source hits th0 th1 al su] p r(2)
      by (simp add: throttle_partition_eq)
  qed simp
  from this [OF assms] show "\<forall>((now, source, hits), (now', source', al, su)) \<in> set (zip calls rs).
        mset (map fst al) + mset su = mset hits \<and> (\<forall>h \<in> set su. is_throttled h)" .
qed

section \<open>Witnesses\<close>

definition sample_hit :: rule_hit where
  "sample_hit = \<lparr>h_rule_id = U ''m'', h_rule_name = U ''n'', h_tag = U ''t'', h_label = U ''l'', h_severity = U ''high''\<rparr>"

definition sample_calls :: "(time \<times> ustr \<times> rule_hit list) list" where
  "sample_calls = [(1, U ''10.0.0.1'', [sample_hit, sample_hit]), (5, U ''10.0.0.1'', [sample_hit]), (70, U ''10.0.0.1'', [sample_hit])]"

lemma sample_hit_facts: "is_throttled sample_hit" "throttle_key (U ''10.0.0.1'') sample_hit = (U ''m'', U ''10.0.0.1'')"
  by (simp_all add: is_throttled_def throttle_key_def sample_hit_def THROTTLED_SEVERITIES_def or_text_def
      strip_by_def lstrip_by_def rstrip_by_def is_space_def U_def lower_def lower_cp_def)

lemma sample_run:
  "emission_times (U ''m'', U ''10.0.0.1'') (snd (run_calls 60 new_throttle sample_calls)) = [1, 70]"
  "silenced (U ''m'', U ''10.0.0.1'') (snd (run_calls 60 new_throttle sample_calls)) = 2"
  "suppressed_count (fst (run_calls 60 new_throttle sample_calls)) (U ''m'', U ''10.0.0.1'') = 0"
  by (simp_all add: sample_calls_def throttle_partition_def throttle_hit_def new_throttle_def sample_hit_facts Let_def
      of_key_def suppressed_count_def)


theorem throttle_accounting_witness:
  "silenced (U ''m'', U ''10.0.0.1'') (snd (run_calls 60 new_throttle sample_calls)) = 2
   \<and> reported (U ''m'', U ''10.0.0.1'') (snd (run_calls 60 new_throttle sample_calls)) = 2"
proof -
  show ?thesis
    using sample_run(2,3) throttle_accounting [of 60 sample_calls "fst (run_calls 60 new_throttle sample_calls)"
        "snd (run_calls 60 new_throttle sample_calls)" "(U ''m'', U ''10.0.0.1'')"] by simp
qed

end
