(* ===== verification/Detection.thy ===== *)
theory Detection
  imports Sniffer_Parse Monitor_Index Alert_Throttle Anomaly
begin

text \<open>
  What the sniffer does with a parsed packet (\<^verbatim>\<open>sniffer.py\<close>): the whitelist, the muting scopes and
  exclusion filters (\<^verbatim>\<open>store.py\<close>, \<^verbatim>\<open>utils.py\<close>), rules, monitors, throttle and anomaly engine
  composed as \<open>_store_packet\<close> composes them, the tags, and the decision to persist. Writes to the
  database, broadcasts and the DNS/ARP history are the environment; a packet to be persisted is
  the result \<open>Persist\<close>.

  The flags of \<open>ipaddress.ip_address(text)\<close> are the argument \<open>addr\<close> (\<open>None\<close> where it raises): its
  address tables differ between Python versions.
\<close>

section \<open>Muting\<close>

record address_flags =
  is_loopback :: bool
  is_multicast :: bool
  is_private :: bool
  is_link_local :: bool
  is_reserved :: bool
  is_global :: bool

type_synonym addresses = "ustr \<Rightarrow> address_flags option"

definition detection_ip_scope :: "addresses \<Rightarrow> ustr \<Rightarrow> ustr" where
  "detection_ip_scope addr value =
     (let t = strip value in
      if t = [] then U ''unknown''
      else case addr t of
        None \<Rightarrow> U ''unknown''
      | Some a \<Rightarrow> if is_loopback a then U ''loopback'' else if is_global a then U ''public'' else U ''private'')"

definition LINK_LAYER_PROTOCOLS :: "ustr list" where
  "LINK_LAYER_PROTOCOLS = map U [''arp'', ''rarp'', ''stp'', ''llc'', ''llc-snap'', ''lldp'', ''cdp'', ''eapol'', ''loop'', ''wol'']"

definition detection_muted :: "addresses \<Rightarrow> ustr list \<Rightarrow> packet \<Rightarrow> bool" where
  "detection_muted addr scopes p \<longleftrightarrow>
     (let proto = normalize_protocol_name (pk_proto p);
          src = detection_ip_scope addr (pk_src_ip p); dst = detection_ip_scope addr (pk_dst_ip p) in
      scopes \<noteq> [] \<and> \<not> (proto \<in> set LINK_LAYER_PROTOCOLS \<or> startswith proto (U ''llc-''))
      \<and> src \<noteq> U ''unknown'' \<and> dst \<noteq> U ''unknown'' \<and> src \<in> set scopes \<and> dst \<in> set scopes)"

record exclusion_filters =
  ex_ip_types :: "ustr list"
  ex_cidrs :: "ustr list"
  ex_ports :: "int list"
  ex_protocols :: "ustr list"

definition exclusion_ip_type :: "addresses \<Rightarrow> ustr \<Rightarrow> ustr" where
  "exclusion_ip_type addr ip =
     (let t = strip ip in
      if t = [] then U ''unknown''
      else case addr t of
        None \<Rightarrow> U ''unknown''
      | Some a \<Rightarrow> if is_loopback a then U ''loopback'' else if is_multicast a then U ''multicast''
          else if is_private a \<or> is_link_local a \<or> is_reserved a then U ''private''
          else if is_global a then U ''public'' else U ''unknown'')"

text \<open>The compiled networks: each says whether it contains an address.\<close>

type_synonym networks = "(ustr \<Rightarrow> bool) list"

definition ip_in_any_network :: "addresses \<Rightarrow> ustr \<Rightarrow> networks \<Rightarrow> bool" where
  "ip_in_any_network addr ip nets \<longleftrightarrow>
     (let t = strip ip in t \<noteq> [] \<and> nets \<noteq> [] \<and> addr t \<noteq> None \<and> (\<exists>n \<in> set nets. n t))"

definition packet_matches_exclusion_filter :: "addresses \<Rightarrow> packet \<Rightarrow> exclusion_filters \<Rightarrow> networks \<Rightarrow> bool" where
  "packet_matches_exclusion_filter addr p f nets \<longleftrightarrow>
     ex_protocols f \<noteq> [] \<and> (normalize_protocol_name (pk_proto p) \<in> set (ex_protocols f)
       \<or> pk_transport p \<noteq> [] \<and> normalize_protocol_name (pk_transport p) \<in> set (ex_protocols f))
     \<or> ex_ports f \<noteq> [] \<and> (int (pk_src_port p) \<in> set (ex_ports f) \<or> int (pk_dst_port p) \<in> set (ex_ports f))
     \<or> (\<exists>ip \<in> {pk_src_ip p, pk_dst_ip p}. ip \<noteq> []
         \<and> (ex_ip_types f \<noteq> [] \<and> exclusion_ip_type addr ip \<in> set (ex_ip_types f) \<or> nets \<noteq> [] \<and> ip_in_any_network addr ip nets))"

definition exclusion_filtered :: "addresses \<Rightarrow> exclusion_filters \<Rightarrow> networks \<Rightarrow> packet \<Rightarrow> bool" where
  "exclusion_filtered addr f nets p \<longleftrightarrow>
     (ex_ip_types f \<noteq> [] \<or> ex_cidrs f \<noteq> [] \<or> ex_ports f \<noteq> [] \<or> ex_protocols f \<noteq> []) \<and> packet_matches_exclusion_filter addr p f nets"

section \<open>The whitelist\<close>

record whitelist_entry =
  wl_enabled :: bool
  wl_category :: ustr
  wl_value :: ustr
  wl_match_type :: ustr

text \<open>\<open>re.escape\<close> and \<open>literal_packet_text_pattern\<close>.\<close>

definition RE_SPECIAL :: "nat list" where
  "RE_SPECIAL = [9, 10, 11, 12, 13] @ U '' #$&()*+-.?[]^{|}~'' @ [92]"

definition re_escape :: "ustr \<Rightarrow> ustr" where
  "re_escape s = concat (map (\<lambda>c. if c \<in> set RE_SPECIAL then [92, c] else [c]) s)"

definition literal_packet_text_pattern :: "ustr \<Rightarrow> ustr" where
  "literal_packet_text_pattern value = U ''(?<![A-Za-z0-9_.-])'' @ re_escape (strip value) @ U ''(?![A-Za-z0-9_.-])''"

text \<open>The engine for patterns compiled with and without \<open>IGNORECASE\<close>.\<close>

type_synonym flag_engine = "bool \<Rightarrow> regex_engine"

definition whitelist_entry_matches_packet :: "flag_engine \<Rightarrow> nat \<Rightarrow> whitelist_entry \<Rightarrow> packet \<Rightarrow> ustr option \<Rightarrow> bool" where
  "whitelist_entry_matches_packet rx lmt e p packet_text \<longleftrightarrow>
     (let category = lower (strip (wl_category e)); value = strip (wl_value e);
          is_regex = (lower (strip (or_text (wl_match_type e) (U ''exact''))) = U ''regex'');
          find = (\<lambda>icase pattern subject. regex_search (rx icase) lmt (strip pattern) subject) in
      if \<not> wl_enabled e \<or> category = [] \<or> value = [] then False
      else if category = U ''ip'' then
        (let src = lower (strip (pk_src_ip p)); dst = lower (strip (pk_dst_ip p)) in
         if is_regex then find False value src \<or> find False value dst else src = lower value \<or> dst = lower value)
      else if category = U ''port'' then
        (let src = dec (pk_src_port p); dst = dec (pk_dst_port p) in
         if is_regex then find False value src \<or> find False value dst else src = value \<or> dst = value)
      else if category = U ''protocol'' then
        (let proto = normalize_protocol_name (pk_proto p); transport = lower (strip (pk_transport p)) in
         if is_regex then find True value proto \<or> transport \<noteq> [] \<and> find True value transport
         else proto = normalize_protocol_name value \<or> transport = normalize_protocol_name value)
      else if category \<notin> {U ''domain'', U ''path''} then False
      else let t = (case packet_text of None \<Rightarrow> build_packet_text lmt p | Some x \<Rightarrow> x) in
        if is_regex then find True value t else find False (literal_packet_text_pattern (lower value)) t)"

fun whitelisted_by :: "flag_engine \<Rightarrow> nat \<Rightarrow> whitelist_entry list \<Rightarrow> packet \<Rightarrow> ustr option \<Rightarrow> bool" where
  "whitelisted_by rx lmt [] p t = False"
| "whitelisted_by rx lmt (e # es) p t =
     (if whitelist_entry_matches_packet rx lmt e p t then True
      else whitelisted_by rx lmt es p
        (if lower (strip (wl_category e)) \<in> {U ''domain'', U ''path''} \<and> t = None then Some (build_packet_text lmt p) else t))"

definition whitelisted :: "flag_engine \<Rightarrow> nat \<Rightarrow> whitelist_entry list \<Rightarrow> packet \<Rightarrow> bool" where
  "whitelisted rx lmt entries p = whitelisted_by rx lmt entries p None"

section \<open>Severity filter\<close>

definition MONITOR_SEVERITIES :: "ustr list" where
  "MONITOR_SEVERITIES = map U [''info'', ''low'', ''medium'', ''high'', ''critical'']"

fun index_of :: "'a \<Rightarrow> 'a list \<Rightarrow> nat option" where
  "index_of x [] = None"
| "index_of x (y # ys) = (if x = y then Some 0 else map_option Suc (index_of x ys))"

definition severity_rank :: "ustr \<Rightarrow> nat" where
  "severity_rank s = (case index_of s MONITOR_SEVERITIES of None \<Rightarrow> 0 | Some n \<Rightarrow> n)"

definition hit_severity :: "rule_hit \<Rightarrow> ustr" where
  "hit_severity h = lower (strip (or_text (h_severity h) (U ''info'')))"

definition keeps_hit :: "ustr \<Rightarrow> bool \<Rightarrow> rule_hit \<Rightarrow> bool" where
  "keeps_hit min_severity suppress_generated_info h \<longleftrightarrow>
     severity_rank (hit_severity h) \<ge> severity_rank min_severity
     \<and> \<not> (suppress_generated_info \<and> startswith (strip (h_rule_id h)) (U ''builtin-signal-'')
          \<and> hit_severity h \<in> {U ''info'', U ''low''})"

definition filter_monitor_hits :: "ustr \<Rightarrow> bool \<Rightarrow> rule_hit list \<Rightarrow> rule_hit list" where
  "filter_monitor_hits min_severity suppress_generated_info hits = filter (keeps_hit min_severity suppress_generated_info) hits"

section \<open>Tags\<close>

datatype alert = MonitorAlert rule_hit "nat option" | AnomalyAlert anomaly_hit

type_synonym tag = "ustr \<times> ustr \<times> ustr option"

definition hit_label :: "'a rule_hit_scheme \<Rightarrow> ustr" where
  "hit_label h = strip (or_text (h_label h) (or_text (h_tag h) (h_rule_name h)))"

definition severity_text :: "'a rule_hit_scheme \<Rightarrow> ustr" where
  "severity_text h = or_text (h_severity h) (U ''info'')"

definition hit_tags :: "string \<Rightarrow> string \<Rightarrow> 'a rule_hit_scheme \<Rightarrow> tag list" where
  "hit_tags label_key id_key h =
     (if hit_label h \<noteq> [] then [(U label_key, hit_label h, Some (severity_text h))] else [])
     @ (if strip (h_rule_id h) \<noteq> [] then [(U id_key, strip (h_rule_id h), Some (severity_text h))] else [])"

fun alert_tags :: "alert \<Rightarrow> tag list" where
  "alert_tags (MonitorAlert h n) = hit_tags ''monitor'' ''monitor_id'' h
     @ (case n of None \<Rightarrow> [] | Some k \<Rightarrow> if k > 0 then [(U ''monitor_suppressed_count'', dec k, Some (severity_text h))] else [])"
| "alert_tags (AnomalyAlert h) = hit_tags ''monitor'' ''monitor_id'' h
     @ (if strip (ah_detail h) \<noteq> [] then [(U ''detail'', strip (ah_detail h), Some (severity_text h))] else [])"

definition build_packet_tags :: "packet \<Rightarrow> rule_hit list \<Rightarrow> alert list \<Rightarrow> rule_hit list \<Rightarrow> tag list" where
  "build_packet_tags p matches alerts suppressed =
     [(U ''proto'', normalize_protocol_name (pk_proto p), None),
      (U ''state'', or_text (lower (strip (or_text (pk_state p) (U ''open'')))) (U ''open''), None),
      (U ''direction'', or_text (lower (strip (or_text (pk_direction p) (U ''unknown'')))) (U ''unknown''), None)]
     @ (if pk_src_port p \<noteq> 0 then [(U ''src_port'', dec (pk_src_port p), None)] else [])
     @ (if pk_dst_port p \<noteq> 0 then [(U ''dst_port'', dec (pk_dst_port p), None)] else [])
     @ concat (map (\<lambda>m. if hit_label m \<noteq> [] then [(U ''rule'', hit_label m, Some (severity_text m))] else []) matches)
     @ concat (map alert_tags alerts)
     @ concat (map (hit_tags ''monitor_suppressed'' ''monitor_suppressed_id'') suppressed)"

section \<open>One packet\<close>

text \<open>What \<open>_store_packet\<close> reads: the caches of the last monitor refresh and the settings.\<close>

record detection_env =
  env_port :: nat
  env_rx :: regex_engine
  env_flag_rx :: flag_engine
  env_limit :: nat
  env_addr :: addresses
  env_whitelist :: "whitelist_entry list"
  env_scopes :: "ustr list"
  env_exclusions :: exclusion_filters
  env_networks :: networks
  env_rulesets :: "rule list"
  env_list :: nat
  env_monitors :: "monitor list"
  env_index :: index_state
  env_filter_enabled :: bool
  env_min_severity :: ustr
  env_suppress_info :: bool
  env_throttle_enabled :: bool
  env_window :: time
  env_anomaly :: anomaly_settings
  env_persist_all :: bool

record sniffer_state =
  ss_seen :: nat
  ss_bytes :: nat
  ss_stored :: nat
  ss_evaluated :: nat
  ss_alerts :: nat
  ss_clean :: nat
  ss_muted :: nat
  ss_whitelisted :: nat
  ss_throttle :: throttle
  ss_engine :: engine

definition touch_packet :: "packet \<Rightarrow> bool \<Rightarrow> sniffer_state \<Rightarrow> sniffer_state" where
  "touch_packet p stored s = s\<lparr>ss_seen := ss_seen s + 1, ss_bytes := ss_bytes s + max (pk_length p) (pk_payload_len p),
     ss_stored := ss_stored s + (if stored then 1 else 0)\<rparr>"

text \<open>The verdict written into the packet, and what becomes of it.\<close>

record verdict =
  vd_rule_hits :: "rule_hit list"
  vd_alerts :: "alert list"
  vd_suppressed :: "rule_hit list"
  vd_tags :: "tag list"
  vd_banner_text :: ustr

datatype fate = Ignored | Whitelisted | Dropped verdict | Persist verdict bool

text \<open>The evaluation of a packet that is not muted: \<open>clock\<close> gives the clock readings, \<open>did\<close> is the
  identity of the dictionary of monitors. \<open>None\<close> is an evaluation that does not return.\<close>

definition monitor_hits_of :: "detection_env \<Rightarrow> packet \<Rightarrow> rule_hit list option" where
  "monitor_hits_of env p =
     (if env_filter_enabled env
      then map_option (filter_monitor_hits (env_min_severity env) (env_suppress_info env))
             (evaluate_packet (env_rx env) (env_limit env) (env_index env) p (env_list env) (env_monitors env))
      else Some [])"

definition throttle_hits :: "detection_env \<Rightarrow> time \<Rightarrow> packet \<Rightarrow> rule_hit list \<Rightarrow> throttle \<Rightarrow> throttle \<times> (rule_hit \<times> nat option) list \<times> rule_hit list" where
  "throttle_hits env now p hits th =
     (if hits \<noteq> [] \<and> env_throttle_enabled env then throttle_partition (env_window env) now th hits (pk_src_ip p)
      else (th, map (\<lambda>h. (h, None)) hits, []))"

definition by_id_of :: "detection_env \<Rightarrow> by_id" where
  "by_id_of env = (case indexed_monitors_by_id (env_index env) (env_list env) of
     None \<Rightarrow> monitors_by_id (env_monitors env) | Some d \<Rightarrow> d)"

definition detect :: "detection_env \<Rightarrow> time \<Rightarrow> (ustr \<Rightarrow> time) \<Rightarrow> nat \<Rightarrow> packet \<Rightarrow> sniffer_state
    \<Rightarrow> (sniffer_state \<times> rule_hit list \<times> alert list \<times> rule_hit list) option" where
  "detect env now clock did p s =
     (case monitor_hits_of env p of
        None \<Rightarrow> None
      | Some hits \<Rightarrow>
          (case throttle_hits env now p hits (ss_throttle s) of (th, allowed, suppressed) \<Rightarrow>
             (case engine_evaluate (env_rx env) (env_limit env) (env_anomaly env) clock p did (by_id_of env) (ss_engine s) of
                (en, anomalies) \<Rightarrow>
                  Some (s\<lparr>ss_throttle := th, ss_engine := en\<rparr>,
                        classify_packet (env_rx env) (env_limit env) p (env_rulesets env),
                        map (\<lambda>(h, n). MonitorAlert h n) allowed @ map AnomalyAlert anomalies, suppressed))))"

definition is_muted :: "detection_env \<Rightarrow> packet \<Rightarrow> bool" where
  "is_muted env p \<longleftrightarrow> detection_muted (env_addr env) (env_scopes env) p
     \<or> exclusion_filtered (env_addr env) (env_exclusions env) (env_networks env) p"

definition verdict_of :: "packet \<Rightarrow> rule_hit list \<Rightarrow> alert list \<Rightarrow> rule_hit list \<Rightarrow> verdict" where
  "verdict_of p matches alerts suppressed = \<lparr>vd_rule_hits = matches, vd_alerts = alerts, vd_suppressed = suppressed,
     vd_tags = build_packet_tags p matches alerts suppressed, vd_banner_text = or_text (pk_banner_text p) (pk_payload_text p)\<rparr>"

text \<open>\<open>_store_packet\<close>. The counters of a persisted packet move when its row is saved.\<close>

definition store_packet :: "detection_env \<Rightarrow> time \<Rightarrow> (ustr \<Rightarrow> time) \<Rightarrow> nat \<Rightarrow> packet \<Rightarrow> sniffer_state \<Rightarrow> (sniffer_state \<times> fate) option" where
  "store_packet env now clock did p s =
     (if is_own_dashboard_traffic (env_port env) p then Some (s, Ignored)
      else if whitelisted (env_flag_rx env) (env_limit env) (env_whitelist env) p
      then Some (touch_packet p False (s\<lparr>ss_whitelisted := ss_whitelisted s + 1\<rparr>), Whitelisted)
      else
        let muted = is_muted env p;
            s1 = (if muted then s\<lparr>ss_muted := ss_muted s + 1\<rparr> else s\<lparr>ss_evaluated := ss_evaluated s + 1\<rparr>) in
        (case (if muted then Some (s1, [], [], []) else detect env now clock did p s1) of
           None \<Rightarrow> None
         | Some (s2, matches, alerts, suppressed) \<Rightarrow>
             let is_alert = (alerts \<noteq> []);
                 s3 = (if is_alert then s2\<lparr>ss_alerts := ss_alerts s2 + 1\<rparr> else s2\<lparr>ss_clean := ss_clean s2 + 1\<rparr>);
                 v = verdict_of p matches alerts suppressed in
             Some (if muted \<or> is_alert \<or> env_persist_all env then (s3, Persist v is_alert)
                   else (touch_packet p False s3, Dropped v))))"

end
