(* ===== verification/Detection_Batch.thy ===== *)
theory Detection_Batch
  imports Detection
begin

text \<open>
  The pipeline job of \<^verbatim>\<open>sniffer.py\<close>: a batch of packets is evaluated one by one, the packets to
  persist are written together with retries, and the counters account for every packet. What the
  environment decides is an argument: where a packet's processing raises, and what each attempt
  to write gives.
\<close>

section \<open>Evaluating a batch\<close>

text \<open>An exception while a packet is processed, before it changed anything or at the very end
  (\<open>trim_oversized_tables\<close>).\<close>

datatype fault = SqlError | OtherError

record job_input =
  ji_now :: time
  ji_clock :: "ustr \<Rightarrow> time"
  ji_dict :: nat
  ji_packet :: packet
  ji_early_fault :: "fault option"
  ji_late_fault :: "fault option"

record pipeline_counts =
  cn_processed :: nat
  cn_persisted :: nat
  cn_errors :: nat
  cn_write_errors :: nat

definition no_counts :: pipeline_counts where
  "no_counts = \<lparr>cn_processed = 0, cn_persisted = 0, cn_errors = 0, cn_write_errors = 0\<rparr>"

type_synonym deferred = "(packet \<times> verdict \<times> bool) list"

definition count_outcome :: "fault option \<Rightarrow> pipeline_counts \<Rightarrow> pipeline_counts" where
  "count_outcome r c = (case r of
       None \<Rightarrow> c\<lparr>cn_processed := cn_processed c + 1\<rparr>
     | Some SqlError \<Rightarrow> c\<lparr>cn_write_errors := cn_write_errors c + 1\<rparr>
     | Some OtherError \<Rightarrow> c\<lparr>cn_errors := cn_errors c + 1\<rparr>)"

fun process_packets :: "detection_env \<Rightarrow> job_input list \<Rightarrow> sniffer_state \<Rightarrow> pipeline_counts \<Rightarrow> deferred
    \<Rightarrow> (sniffer_state \<times> pipeline_counts \<times> deferred) option" where
  "process_packets env [] s c d = Some (s, c, d)"
| "process_packets env (x # xs) s c d =
     (case ji_early_fault x of
        Some f \<Rightarrow> process_packets env xs s (count_outcome (Some f) c) d
      | None \<Rightarrow>
          (case store_packet env (ji_now x) (ji_clock x) (ji_dict x) (ji_packet x) s of
             None \<Rightarrow> None
           | Some (s', f) \<Rightarrow>
               process_packets env xs s' (count_outcome (ji_late_fault x) c)
                 (case f of Persist v raw \<Rightarrow> d @ [(ji_packet x, v, raw)] | _ \<Rightarrow> d)))"

section \<open>Writing the batch\<close>

text \<open>\<open>register_packets\<close> gives one outcome per packet: a saved row, an empty one, or the error that
  undid that packet alone. An attempt at the whole batch may find the database locked or fail.\<close>

datatype row = Saved | Empty_Row | Row_Failed

datatype attempt = Locked | Broken | Rows "nat \<Rightarrow> row"

definition register_packets :: "(nat \<Rightarrow> row) \<Rightarrow> deferred \<Rightarrow> row list" where
  "register_packets outcome d = map outcome [0..<length d]"

function try_write :: "(nat \<Rightarrow> attempt) \<Rightarrow> deferred \<Rightarrow> nat \<Rightarrow> row list option" where
  "try_write attempts d n =
     (case attempts n of
        Rows outcome \<Rightarrow> Some (register_packets outcome d)
      | Broken \<Rightarrow> None
      | Locked \<Rightarrow> if n < 3 then try_write attempts d (n + 1) else None)"
  by pat_completeness auto

termination try_write
  by (relation "measure (\<lambda>(a, d, n). 3 - n)") auto

declare try_write.simps [simp del]

fun finish_rows :: "((packet \<times> verdict \<times> bool) \<times> row) list \<Rightarrow> sniffer_state \<Rightarrow> pipeline_counts \<Rightarrow> sniffer_state \<times> pipeline_counts" where
  "finish_rows [] s c = (s, c)"
| "finish_rows (((p, v, raw), r) # rest) s c =
     (case r of
        Row_Failed \<Rightarrow> finish_rows rest s (c\<lparr>cn_write_errors := cn_write_errors c + 1\<rparr>)
      | Empty_Row \<Rightarrow> finish_rows rest (touch_packet p True s) c
      | Saved \<Rightarrow> finish_rows rest (touch_packet p True s) (c\<lparr>cn_persisted := cn_persisted c + 1\<rparr>))"

definition flush_deferred :: "(nat \<Rightarrow> attempt) \<Rightarrow> deferred \<Rightarrow> sniffer_state \<Rightarrow> pipeline_counts \<Rightarrow> sniffer_state \<times> pipeline_counts" where
  "flush_deferred attempts d s c =
     (if d = [] then (s, c)
      else case try_write attempts d 1 of
        None \<Rightarrow> (s, c\<lparr>cn_write_errors := cn_write_errors c + length d\<rparr>)
      | Some rows \<Rightarrow> finish_rows (zip d rows) s c)"

definition process_batch :: "detection_env \<Rightarrow> (nat \<Rightarrow> attempt) \<Rightarrow> job_input list \<Rightarrow> sniffer_state \<Rightarrow> (sniffer_state \<times> pipeline_counts) option" where
  "process_batch env attempts batch s =
     (case process_packets env batch s no_counts [] of
        None \<Rightarrow> None
      | Some (s1, c1, d) \<Rightarrow> Some (flush_deferred attempts d s1 c1))"

section \<open>Accounting\<close>

definition count_total :: "pipeline_counts \<Rightarrow> nat" where
  "count_total c = cn_processed c + cn_errors c + cn_write_errors c"

lemma count_outcome_total [simp]: "count_total (count_outcome r c) = count_total c + 1" "cn_persisted (count_outcome r c) = cn_persisted c"
  by (cases r; cases "the r"; simp add: count_total_def count_outcome_def)+

lemma store_packet_stored:
  "store_packet env now clock did p s = Some (s', f) \<Longrightarrow> ss_stored s' = ss_stored s"
  by (auto simp: store_packet_def detect_def touch_packet_def Let_def split: if_splits option.splits prod.splits)

lemma process_packets_counts:
  "process_packets env xs s c d = Some (s', c', d') \<Longrightarrow>
     count_total c' = count_total c + length xs \<and> cn_persisted c' = cn_persisted c \<and> ss_stored s' = ss_stored s
     \<and> length d \<le> length d' \<and> length d' \<le> length d + length xs"
proof (induction xs arbitrary: s c d)
  case (Cons x xs)
  show ?case
  proof (cases "ji_early_fault x")
    case (Some f)
    then show ?thesis using Cons.IH [of s "count_outcome (Some f) c" d] Cons.prems by simp
  next
    case None
    then obtain s1 f where st: "store_packet env (ji_now x) (ji_clock x) (ji_dict x) (ji_packet x) s = Some (s1, f)"
      using Cons.prems by (auto split: option.splits)
    let ?d = "case f of Persist v raw \<Rightarrow> d @ [(ji_packet x, v, raw)] | _ \<Rightarrow> d"
    have "length d \<le> length ?d" "length ?d \<le> length d + 1" by (simp_all split: fate.split)
    then show ?thesis
      using Cons.IH [of s1 "count_outcome (ji_late_fault x) c" ?d] Cons.prems None st store_packet_stored [OF st] by simp
  qed
qed simp

lemma finish_rows_counts:
  "length rows = length d \<Longrightarrow> finish_rows (zip d rows) s c = (s', c') \<Longrightarrow>
     count_total c' + cn_persisted c' + (ss_stored s' - ss_stored s - (cn_persisted c' - cn_persisted c)) = count_total c + cn_persisted c + length d
     \<and> cn_persisted c \<le> cn_persisted c' \<and> cn_persisted c' - cn_persisted c \<le> ss_stored s' - ss_stored s \<and> ss_stored s \<le> ss_stored s'"
proof (induction d arbitrary: rows s c)
  case (Cons x d)
  obtain p v raw where x: "x = (p, v, raw)" by (cases x)
  obtain r rs where rows: "rows = r # rs" "length rs = length d" using Cons.prems(1) by (cases rows) auto
  show ?case
  proof (cases r)
    case Saved
    then show ?thesis
      using Cons.IH [OF rows(2), of "touch_packet p True s" "c\<lparr>cn_persisted := cn_persisted c + 1\<rparr>"] Cons.prems
      by (auto simp: x rows touch_packet_def count_total_def)
  next
    case Empty_Row
    then show ?thesis
      using Cons.IH [OF rows(2), of "touch_packet p True s" c] Cons.prems by (auto simp: x rows touch_packet_def count_total_def)
  next
    case Row_Failed
    then show ?thesis
      using Cons.IH [OF rows(2), of s "c\<lparr>cn_write_errors := cn_write_errors c + 1\<rparr>"] Cons.prems by (auto simp: x rows count_total_def)
  qed
qed simp

lemma try_write_length: "try_write attempts d n = Some rows \<Longrightarrow> length rows = length d"
proof (induction attempts d n rule: try_write.induct)
  case (1 attempts d n)
  from "1.prems" show ?case
    by (subst (asm) try_write.simps) (auto simp: register_packets_def split: attempt.splits if_splits intro: "1.IH")
qed


section \<open>Witnesses\<close>

definition sample_anomaly :: anomaly_settings where
  "sample_anomaly = \<lparr>ARP_SPOOF_COOLDOWN_SECONDS = 30, ICMP_FLOOD_WINDOW_SECONDS = 5, ICMP_FLOOD_THRESHOLD = 30,
     PORT_SCAN_WINDOW_SECONDS = 10, PORT_SCAN_DISTINCT_PORTS_THRESHOLD = 15, SYN_FLOOD_WINDOW_SECONDS = 5, SYN_FLOOD_THRESHOLD = 50,
     BRUTE_FORCE_WINDOW_SECONDS = 30, BRUTE_FORCE_THRESHOLD = 8, DNS_QUERY_FLOOD_WINDOW_SECONDS = 10, DNS_QUERY_FLOOD_THRESHOLD = 60,
     DHCP_ROGUE_SERVER_COOLDOWN_SECONDS = 60\<rparr>"

definition sample_env :: detection_env where
  "sample_env = \<lparr>env_port = 8765, env_rx = (\<lambda>_ _. False), env_flag_rx = (\<lambda>_ _ _. False), env_limit = 100, env_addr = (\<lambda>_. None),
     env_whitelist = [], env_scopes = [], env_exclusions = \<lparr>ex_ip_types = [], ex_cidrs = [], ex_ports = [], ex_protocols = []\<rparr>,
     env_networks = [], env_rulesets = [], env_list = 0, env_monitors = [], env_index = initial_index, env_filter_enabled = True,
     env_min_severity = U ''info'', env_suppress_info = False, env_throttle_enabled = True, env_window = 60, env_anomaly = sample_anomaly,
     env_persist_all = True\<rparr>"

definition sample_state :: sniffer_state where
  "sample_state = \<lparr>ss_seen = 0, ss_bytes = 0, ss_stored = 0, ss_evaluated = 0, ss_alerts = 0, ss_clean = 0, ss_muted = 0, ss_whitelisted = 0,
     ss_throttle = new_throttle, ss_engine = new_engine\<rparr>"

definition sample_input :: job_input where
  "sample_input = \<lparr>ji_now = 1, ji_clock = (\<lambda>_. 1), ji_dict = 0, ji_packet = build_base_packet [] [] [] [] [] [] 0,
     ji_early_fault = None, ji_late_fault = Some SqlError\<rparr>"

lemma sample_detect:
  "\<exists>s f. store_packet sample_env 1 (\<lambda>_. 1) 0 (build_base_packet [] [] [] [] [] [] 0) sample_state = Some (s, f)"
  by (auto simp: store_packet_def detect_def monitor_hits_of_def evaluate_packet_def indexed_candidates_def sample_env_def initial_index_def
      Let_def split: prod.splits)


end
