(* ===== verification/Detection_Properties.thy ===== *)
theory Detection_Properties
  imports Detection_Batch
begin

text \<open>
  The detection path as a whole: no match of an enabled monitor is lost between the index, the
  severity filter, the throttle and the tags; and traffic the operator muted leaves no trace in the
  verdicts of the rest.
\<close>

section \<open>No match is lost\<close>

lemma mset_mem: "mset xs + mset ys = mset zs \<Longrightarrow> z \<in> set zs \<Longrightarrow> z \<in> set xs \<or> z \<in> set ys"
  by (metis set_mset_mset set_mset_union UnE)

lemma throttle_hits_complete:
  assumes "throttle_hits env now p hits th = (th', allowed, suppressed)" "h \<in> set hits"
  shows "(\<exists>n. (h, n) \<in> set allowed) \<or> h \<in> set suppressed"
proof (cases "hits \<noteq> [] \<and> env_throttle_enabled env")
  case True
  then have "mset (map fst allowed) + mset suppressed = mset hits"
    using assms(1) partition_splits by (simp add: throttle_hits_def throttle_partition_eq)
  from mset_mem [OF this assms(2)] show ?thesis by auto
next
  case False
  then have "allowed = map (\<lambda>h. (h, None)) hits" using assms(1) by (auto simp: throttle_hits_def split: if_splits)
  then show ?thesis using assms(2) by auto
qed

lemma monitor_id_tag:
  assumes "MonitorAlert h n \<in> set alerts \<or> h \<in> set suppressed" "strip (h_rule_id h) \<noteq> []"
  shows "\<exists>key \<in> {U ''monitor_id'', U ''monitor_suppressed_id''}. (key, strip (h_rule_id h), Some (severity_text h)) \<in> set (build_packet_tags p ms alerts suppressed)"
proof -
  have t: "(U k2, strip (h_rule_id h), Some (severity_text h)) \<in> set (hit_tags k1 k2 h)" for k1 k2
    using assms(2) by (simp add: hit_tags_def)
  from assms(1) show ?thesis
  proof
    assume "MonitorAlert h n \<in> set alerts"
    moreover have "(U ''monitor_id'', strip (h_rule_id h), Some (severity_text h)) \<in> set (alert_tags (MonitorAlert h n))" using t by simp
    ultimately have "(U ''monitor_id'', strip (h_rule_id h), Some (severity_text h)) \<in> set (concat (map alert_tags alerts))"
      unfolding set_concat set_map by blast
    then show ?thesis by (auto simp: build_packet_tags_def)
  next
    assume "h \<in> set suppressed"
    then have "(U ''monitor_suppressed_id'', strip (h_rule_id h), Some (severity_text h))
        \<in> set (concat (map (hit_tags ''monitor_suppressed'' ''monitor_suppressed_id'') suppressed))"
      using t unfolding set_concat set_map by blast
    then show ?thesis by (auto simp: build_packet_tags_def)
  qed
qed

text \<open>The packets a sniffer evaluates.\<close>

definition evaluates :: "detection_env \<Rightarrow> packet \<Rightarrow> bool" where
  "evaluates env p \<longleftrightarrow> \<not> is_own_dashboard_traffic (env_port env) p
     \<and> \<not> whitelisted (env_flag_rx env) (env_limit env) (env_whitelist env) p \<and> \<not> is_muted env p"

lemma store_packet_evaluates:
  assumes "evaluates env p" "store_packet env now clock did p s = Some (s', f)"
  obtains s2 ms alerts suppressed where
    "detect env now clock did p (s\<lparr>ss_evaluated := ss_evaluated s + 1\<rparr>) = Some (s2, ms, alerts, suppressed)"
    "f = (if alerts \<noteq> [] \<or> env_persist_all env then Persist (verdict_of p ms alerts suppressed) (alerts \<noteq> [])
          else Dropped (verdict_of p ms alerts suppressed))"
    "ss_throttle s' = ss_throttle s2" "ss_engine s' = ss_engine s2"
  using assms unfolding evaluates_def store_packet_def
  by (auto simp: Let_def touch_packet_def split: option.splits if_splits)

text \<open>
  C3. No match is lost. Once the pending index builds have ended, if a packet is not the dashboard's
  own, not whitelisted and not muted, then every monitor of the list that matches it on its own,
  applies to it, and passes the severity filter is in the packet's verdict: as an alert, and then
  the packet is persisted, or as a suppressed hit; and the packet carries a tag with its
  identifier either way.
\<close>

theorem detection_never_lost:
  assumes "reach heap (env_index env) {#}" and "ix_ref (env_index env) = Some (env_list env)"
    and "env_monitors env = heap (env_list env)" and "\<forall>i. distinct (map r_id (heap i))" and "list_all indexable (env_monitors env)"
    and "evaluates env p" and "env_filter_enabled env"
    and "m \<in> set (env_monitors env)" and "\<not> skip_monitor p m" and "rule_matches_packet (env_rx env) (env_limit env) m p None"
    and "keeps_hit (env_min_severity env) (env_suppress_info env) (hit_of m)" and "strip (r_id m) \<noteq> []"
  shows "\<exists>s' v raw. (store_packet env now clock did p s = Some (s', Persist v raw) \<or> store_packet env now clock did p s = Some (s', Dropped v))
    \<and> ((\<exists>n. MonitorAlert (hit_of m) n \<in> set (vd_alerts v)) \<and> store_packet env now clock did p s = Some (s', Persist v True)
       \<or> hit_of m \<in> set (vd_suppressed v))
    \<and> (\<exists>key \<in> {U ''monitor_id'', U ''monitor_suppressed_id''}. \<exists>sev. (key, strip (r_id m), sev) \<in> set (vd_tags v))"
proof -
  let ?rx = "env_rx env" and ?lmt = "env_limit env" and ?text = "Some (build_packet_text (env_limit env) p)"
  have ev: "evaluate_packet ?rx ?lmt (env_index env) p (env_list env) (env_monitors env) = Some (evaluate_candidates ?rx ?lmt p (env_monitors env))"
    using settled_evaluation [OF reach_inv [OF assms(1)] assms(2) assms(4)] assms(3,5) by simp
  have "monitor_matches_packet ?rx ?lmt m p ?text"
    using assms(10) match_packet_text [of None ?lmt p ?rx "r_match m"] by (simp add: monitor_matches_packet_def rule_matches_packet_def)
  then have "hit_of m \<in> set (evaluate_candidates ?rx ?lmt p (env_monitors env))"
    using assms(8,9) by (auto simp: evaluate_candidates_def)
  then obtain hits where hits: "monitor_hits_of env p = Some hits" "hit_of m \<in> set hits"
    using ev assms(7,11) by (simp add: monitor_hits_of_def filter_monitor_hits_def)
  obtain s' f where st: "store_packet env now clock did p s = Some (s', f)"
    using assms(6) hits(1) by (cases "store_packet env now clock did p s")
      (auto simp: evaluates_def store_packet_def detect_def Let_def split: option.splits prod.splits if_splits)
  obtain s2 ms alerts suppressed where d: "detect env now clock did p (s\<lparr>ss_evaluated := ss_evaluated s + 1\<rparr>) = Some (s2, ms, alerts, suppressed)"
    and f: "f = (if alerts \<noteq> [] \<or> env_persist_all env then Persist (verdict_of p ms alerts suppressed) (alerts \<noteq> [])
          else Dropped (verdict_of p ms alerts suppressed))"
    using store_packet_evaluates [OF assms(6) st] by metis
  have in_verdict: "(\<exists>n. MonitorAlert (hit_of m) n \<in> set alerts) \<or> hit_of m \<in> set suppressed"
    using d hits throttle_hits_complete [OF _ hits(2)]
    by (auto simp: detect_def split: prod.splits) (metis (mono_tags, lifting) case_prod_conv image_eqI)
  have tag: "\<exists>key \<in> {U ''monitor_id'', U ''monitor_suppressed_id''}. (key, strip (r_id m), Some (severity_text (hit_of m)))
      \<in> set (build_packet_tags p ms alerts suppressed)"
    using in_verdict monitor_id_tag [of "hit_of m" _ alerts suppressed p ms] assms(12) by (auto simp: hit_of_def)
  have "alerts \<noteq> []" if "MonitorAlert (hit_of m) n \<in> set alerts" for n using that by auto
  then show ?thesis using st f in_verdict tag by (intro exI [of _ s'] exI [of _ "verdict_of p ms alerts suppressed"] exI [of _ "alerts \<noteq> []"])
      (auto simp: verdict_of_def)
qed

section \<open>Muted traffic leaves no trace\<close>

text \<open>The verdicts of a run, one for each packet that was evaluated.\<close>

fun run_store :: "detection_env \<Rightarrow> job_input list \<Rightarrow> sniffer_state \<Rightarrow> fate list option" where
  "run_store env [] s = Some []"
| "run_store env (x # xs) s =
     (case store_packet env (ji_now x) (ji_clock x) (ji_dict x) (ji_packet x) s of
        None \<Rightarrow> None
      | Some (s', f) \<Rightarrow> map_option (\<lambda>fs. if evaluates env (ji_packet x) then f # fs else fs) (run_store env xs s'))"

definition same_memory :: "sniffer_state \<Rightarrow> sniffer_state \<Rightarrow> bool" where
  "same_memory s t \<longleftrightarrow> ss_throttle s = ss_throttle t \<and> ss_engine s = ss_engine t"

lemma skipped_keeps_memory:
  assumes "\<not> evaluates env p"
  shows "\<exists>s' f. store_packet env now clock did p s = Some (s', f) \<and> same_memory s' s"
  using assms by (auto simp: evaluates_def store_packet_def same_memory_def touch_packet_def Let_def)

lemma detect_memory:
  assumes "same_memory s t"
  shows "case (detect env now clock did p (s\<lparr>ss_evaluated := a\<rparr>), detect env now clock did p (t\<lparr>ss_evaluated := b\<rparr>)) of
      (Some (s', r), Some (t', r')) \<Rightarrow> r = r' \<and> same_memory s' t' | (None, None) \<Rightarrow> True | _ \<Rightarrow> False"
  using assms by (auto simp: detect_def same_memory_def split: option.splits prod.splits)

lemma evaluated_same:
  assumes "same_memory s t" "evaluates env p"
  shows "case (store_packet env now clock did p s, store_packet env now clock did p t) of
      (Some (s', f), Some (t', f')) \<Rightarrow> f = f' \<and> same_memory s' t' | (None, None) \<Rightarrow> True | _ \<Rightarrow> False"
  using detect_memory [OF assms(1), of env now clock did p "ss_evaluated s + 1" "ss_evaluated t + 1"] assms(2)
  by (auto simp: evaluates_def store_packet_def Let_def same_memory_def touch_packet_def split: option.splits prod.splits)

text \<open>
  C24. Traffic the sniffer does not evaluate (its own dashboard, whitelisted or muted) has no influence
  on detection: over any sequence of packets, the verdicts of the evaluated packets, alerts,
  throttling and anomaly detection included, are those of the same sequence with every other packet
  removed.
\<close>

theorem muted_traffic_transparent:
  "run_store env xs s = run_store env (filter (\<lambda>x. evaluates env (ji_packet x)) xs) s"
proof -
  have "run_store env xs s = run_store env (filter (\<lambda>x. evaluates env (ji_packet x)) xs) t" if "same_memory s t" for t
    using that
  proof (induction xs arbitrary: s t)
    case (Cons x xs)
    show ?case
    proof (cases "evaluates env (ji_packet x)")
      case True
      from evaluated_same [OF Cons.prems True, of "ji_now x" "ji_clock x" "ji_dict x"] show ?thesis
        using Cons.IH True by (auto split: option.splits prod.splits)
    next
      case False
      obtain s' f where "store_packet env (ji_now x) (ji_clock x) (ji_dict x) (ji_packet x) s = Some (s', f)" "same_memory s' s"
        using skipped_keeps_memory [OF False] by blast
      then show ?thesis using Cons.IH [of s' t] Cons.prems False by (simp add: same_memory_def option.map_ident)
    qed
  qed simp
  then show ?thesis by (simp add: same_memory_def)
qed

section \<open>Witness\<close>

definition port_monitor :: monitor where
  "port_monitor = \<lparr>r_id = U ''web'', r_name = U ''web'', r_description = [], r_enabled = True, r_priority = 10,
     r_match = Match (empty_criteria\<lparr>m_dst_ports := [80]\<rparr>) [] [] [],
     r_action = \<lparr>a_tag = U ''t'', a_label = U ''l'', a_severity = U ''high''\<rparr>, r_source = [], mo_mode = U ''rule'', mo_updated_at = []\<rparr>"

definition port_packet :: packet where
  "port_packet = (build_base_packet [] [] [] [] [] [] 0)\<lparr>pk_src_port := 40000, pk_dst_port := 80\<rparr>"

definition port_env :: "index_state \<Rightarrow> detection_env" where
  "port_env ix = sample_env\<lparr>env_index := ix, env_monitors := [port_monitor]\<rparr>"

lemma port_env_fields [simp]:
  "env_index (port_env ix) = ix" "env_list (port_env ix) = 0" "env_monitors (port_env ix) = [port_monitor]"
  "env_filter_enabled (port_env ix) = True" "env_rx (port_env ix) = (\<lambda>_ _. False)" "env_limit (port_env ix) = 100"
  "env_min_severity (port_env ix) = U ''info''" "env_suppress_info (port_env ix) = False"
  by (simp_all add: port_env_def sample_env_def)

lemma port_reach: "\<exists>ix. reach (\<lambda>_. [port_monitor]) ix {#} \<and> ix_ref ix = Some 0"
proof -
  let ?ix = "fst (ensure_monitor_index 0 [port_monitor] initial_index)"
  have "ensure_monitor_index 0 [port_monitor] initial_index = (?ix, Some (job_of [port_monitor]))" "ix_ref ?ix = Some 0"
    by (simp_all add: ensure_monitor_index_def initial_index_def Let_def job_of_def)
  note r = reach.ensure_start [OF reach.init this(1)] and ref = this(2)
  obtain ix where ix: "finish_build (job_of [port_monitor]) ?ix = Some ix" using finish_total by blast
  have "reach (\<lambda>_. [port_monitor]) ix {#}" by (rule reach.finish [OF r ix])
  moreover have "ix_ref ix = Some 0" using finish_inv(2) [OF reach_inv [OF r] ix] ref by simp
  ultimately show ?thesis by blast
qed

lemma port_match: "rule_matches_packet (\<lambda>_ _. False) 100 port_monitor port_packet None"
  by (simp add: rule_matches_packet_def port_monitor_def port_packet_def check_defs flag_specs_def has_criteria_def nonzero_def
      shared_text_def Let_def build_base_packet_def)

lemma port_facts: "list_all indexable [port_monitor]" "\<not> skip_monitor port_packet port_monitor" "strip (r_id port_monitor) \<noteq> []"
  "keeps_hit (U ''info'') False (hit_of port_monitor)" "evaluates (port_env ix) port_packet"
proof -
  show "list_all indexable [port_monitor]" by (simp add: indexable_def port_monitor_def)
  show "strip (r_id port_monitor) \<noteq> []"
    by (simp add: port_monitor_def strip_by_def lstrip_by_def rstrip_by_def is_space_def U_def)
  have "lower (strip (U ''rule'')) = U ''rule''"
    by (simp add: strip_by_def lstrip_by_def rstrip_by_def is_space_def U_def lower_def lower_cp_def)
  then show "\<not> skip_monitor port_packet port_monitor"
    by (simp add: skip_monitor_def port_monitor_def startswith_def U_def)
  show "keeps_hit (U ''info'') False (hit_of port_monitor)"
    by (simp add: keeps_hit_def severity_rank_def MONITOR_SEVERITIES_def)
  show "evaluates (port_env ix) port_packet"
    by (simp add: evaluates_def port_env_def sample_env_def is_own_dashboard_traffic_def port_packet_def build_base_packet_def
        whitelisted_def is_muted_def detection_muted_def exclusion_filtered_def Let_def)
qed

theorem detection_never_lost_witness:
  "\<exists>ix. ix_ref ix = Some 0 \<and> (\<exists>s' v raw. (store_packet (port_env ix) 1 (\<lambda>_. 1) 0 port_packet sample_state = Some (s', Persist v raw)
        \<or> store_packet (port_env ix) 1 (\<lambda>_. 1) 0 port_packet sample_state = Some (s', Dropped v))
      \<and> ((\<exists>n. MonitorAlert (hit_of port_monitor) n \<in> set (vd_alerts v))
          \<and> store_packet (port_env ix) 1 (\<lambda>_. 1) 0 port_packet sample_state = Some (s', Persist v True)
         \<or> hit_of port_monitor \<in> set (vd_suppressed v))
      \<and> (\<exists>key \<in> {U ''monitor_id'', U ''monitor_suppressed_id''}. \<exists>sev. (key, strip (r_id port_monitor), sev) \<in> set (vd_tags v)))"
proof -
  obtain ix where ix: "reach (\<lambda>_. [port_monitor]) ix {#}" "ix_ref ix = Some 0" using port_reach by blast
  then show ?thesis
    by (intro exI [of _ ix] conjI detection_never_lost [where heap = "\<lambda>_. [port_monitor]"])
      (use ix port_match port_facts in simp_all)
qed

end
