(* ===== verification/Ipc_Frames.thy ===== *)
theory Ipc_Frames
  imports Py_Values
begin

text \<open>
  The framing of \<^verbatim>\<open>ipc.py\<close>: length-prefixed frames on a stream socket. A socket to read from is the
  list of the chunks the kernel will hand out, in order; \<open>recv\<close> gives at most the size asked for
  of the first one, and nothing at the end of the stream. The JSON codec of the messages is an
  argument (\<open>dumps\<close> with its UTF-8 encoding, \<open>loads\<close>); only its round trip is used.
\<close>

section \<open>Frames\<close>

datatype ipc_error = IpcError | IpcDisconnected | DecodeError

definition MAX_FRAME_BYTES :: nat where "MAX_FRAME_BYTES = 16 * 1024 * 1024"

text \<open>\<open>struct.Struct("!I")\<close>.\<close>

definition pack_length :: "nat \<Rightarrow> bytes" where
  "pack_length n = [of_nat (n div 2 ^ 24), of_nat (n div 2 ^ 16 mod 256), of_nat (n div 2 ^ 8 mod 256), of_nat (n mod 256)]"

text \<open>\<open>_send_frame\<close>: the bytes it puts on the wire.\<close>

definition send_frame :: "('m \<Rightarrow> bytes) \<Rightarrow> 'm \<Rightarrow> ipc_error + bytes" where
  "send_frame dumps payload =
     (let data = dumps payload in
      if length data > MAX_FRAME_BYTES then Inl IpcError else Inr (pack_length (length data) @ data))"

type_synonym socket = "bytes list"

fun recv :: "nat \<Rightarrow> socket \<Rightarrow> bytes \<times> socket" where
  "recv n [] = ([], [])"
| "recv n (c # cs) = (take n c, if n < length c then drop n c # cs else cs)"

function recv_exact :: "nat \<Rightarrow> socket \<Rightarrow> ipc_error + bytes \<times> socket" where
  "recv_exact remaining sock =
     (if remaining = 0 then Inr ([], sock)
      else case recv remaining sock of (chunk, sock') \<Rightarrow>
        if chunk = [] then Inl IpcDisconnected
        else case recv_exact (remaining - length chunk) sock' of
          Inl e \<Rightarrow> Inl e
        | Inr (rest, sock'') \<Rightarrow> Inr (chunk @ rest, sock''))"
  by pat_completeness auto

termination recv_exact
  by (relation "measure fst") auto

declare recv_exact.simps [simp del]

definition recv_frame :: "(bytes \<Rightarrow> 'm option) \<Rightarrow> socket \<Rightarrow> ipc_error + 'm \<times> socket" where
  "recv_frame loads sock =
     (case recv_exact 4 sock of
        Inl e \<Rightarrow> Inl e
      | Inr (header, sock1) \<Rightarrow>
          if be header > MAX_FRAME_BYTES then Inl IpcError
          else (case recv_exact (be header) sock1 of
              Inl e \<Rightarrow> Inl e
            | Inr (data, sock2) \<Rightarrow> (case loads data of None \<Rightarrow> Inl DecodeError | Some m \<Rightarrow> Inr (m, sock2))))"

text \<open>A reader loop takes frames until one cannot be read, which ends the session with that error.\<close>

partial_function (option) read_loop :: "(bytes \<Rightarrow> 'm option) \<Rightarrow> 'm list \<Rightarrow> socket \<Rightarrow> ('m list \<times> ipc_error) option" where
  "read_loop loads got sock =
     (case recv_frame loads sock of
        Inl e \<Rightarrow> Some (got, e)
      | Inr (m, sock') \<Rightarrow> read_loop loads (got @ [m]) sock')"

section \<open>Lemmas\<close>

lemma length_pack_length [simp]: "length (pack_length n) = 4"
  by (simp add: pack_length_def)

lemma be_pack_length: "n < 2 ^ 32 \<Longrightarrow> be (pack_length n) = n"
proof -
  assume n: "n < 2 ^ 32"
  have "n div 2 ^ 24 < 256" using n by (simp add: less_mult_imp_div_less)
  then have "be (pack_length n) = ((n div 2 ^ 24 * 256 + n div 2 ^ 16 mod 256) * 256 + n div 2 ^ 8 mod 256) * 256 + n mod 256"
    by (simp add: be_def pack_length_def unat_of_nat)
  also have "n div 2 ^ 24 * 256 + n div 2 ^ 16 mod 256 = n div 2 ^ 16"
    using div_mult_mod_eq [of "n div 2 ^ 16" 256] by (simp add: div_mult2_eq [symmetric])
  also have "n div 2 ^ 16 * 256 + n div 2 ^ 8 mod 256 = n div 2 ^ 8"
    using div_mult_mod_eq [of "n div 2 ^ 8" 256] by (simp add: div_mult2_eq [symmetric])
  also have "n div 2 ^ 8 * 256 + n mod 256 = n" using div_mult_mod_eq [of n 256] by simp
  finally show ?thesis .
qed

text \<open>The kernel never hands out an empty chunk before the end.\<close>

definition proper :: "socket \<Rightarrow> bool" where
  "proper sock \<longleftrightarrow> [] \<notin> set sock"

lemma recv_proper: "proper sock \<Longrightarrow> recv n sock = (c, sock') \<Longrightarrow> proper sock' \<and> concat sock = c @ concat sock'"
  by (cases sock) (auto simp: proper_def split: if_splits)

lemma recv_Nil: "proper sock \<Longrightarrow> n > 0 \<Longrightarrow> recv n sock = ([], sock') \<Longrightarrow> concat sock = []"
  by (cases sock) (auto simp: proper_def)

lemma recv_length: "recv n sock = (c, sock') \<Longrightarrow> length c \<le> n"
  by (cases sock) auto

text \<open>Whatever the chunks, \<open>recv_exact\<close> takes exactly the next bytes of the stream, or finds its end.\<close>

lemma recv_exact_stream:
  "proper sock \<Longrightarrow>
     (if n \<le> length (concat sock)
      then \<exists>sock'. recv_exact n sock = Inr (take n (concat sock), sock') \<and> proper sock' \<and> concat sock' = drop n (concat sock)
      else recv_exact n sock = Inl IpcDisconnected)"
proof (induction n sock rule: recv_exact.induct)
  case (1 n sock)
  show ?case
  proof (cases "n = 0")
    case True
    then show ?thesis using 1(2) by (subst recv_exact.simps) simp
  next
    case False
    obtain c sock1 where r: "recv n sock = (c, sock1)" by (cases "recv n sock")
    have p: "proper sock1" "concat sock = c @ concat sock1" using recv_proper [OF 1(2) r] by auto
    show ?thesis
    proof (cases "c = []")
      case True
      then have "length (concat sock) = 0" using recv_Nil [OF 1(2) _] r False by (metis gr0I list.size(3))
      moreover have "recv_exact n sock = Inl IpcDisconnected" using False r True by (simp add: recv_exact.simps [of n sock])
      ultimately show ?thesis using False by (simp only:) simp
    next
      case ne: False
      have ih: "if n - length c \<le> length (concat sock1)
          then \<exists>sock'. recv_exact (n - length c) sock1 = Inr (take (n - length c) (concat sock1), sock')
             \<and> proper sock' \<and> concat sock' = drop (n - length c) (concat sock1)
          else recv_exact (n - length c) sock1 = Inl IpcDisconnected"
        using 1(1) [OF False r [symmetric] ne p(1)] by simp
      have c: "length c \<le> n" by (rule recv_length [OF r])
      have split: "take n (concat sock) = c @ take (n - length c) (concat sock1)" "drop n (concat sock) = drop (n - length c) (concat sock1)"
        "n \<le> length (concat sock) \<longleftrightarrow> n - length c \<le> length (concat sock1)"
        using c unfolding p(2) by auto
      show ?thesis
        using ih False r ne unfolding split by (auto simp: recv_exact.simps [of n sock] split: if_splits)
    qed
  qed
qed

lemma recv_frame_sent:
  assumes p: "proper sock" and s: "concat sock = f @ rest" and f: "send_frame dumps m = Inr f" and d: "loads (dumps m) = Some m"
  shows "\<exists>sock'. recv_frame loads sock = Inr (m, sock') \<and> proper sock' \<and> concat sock' = rest"
proof -
  have f': "f = pack_length (length (dumps m)) @ dumps m" "length (dumps m) \<le> MAX_FRAME_BYTES"
    using f by (auto simp: send_frame_def Let_def split: if_splits)
  obtain sock1 where s1: "recv_exact 4 sock = Inr (pack_length (length (dumps m)), sock1)" "proper sock1" "concat sock1 = dumps m @ rest"
    using recv_exact_stream [OF p, of 4] s f' by auto
  obtain sock2 where s2: "recv_exact (length (dumps m)) sock1 = Inr (dumps m, sock2)" "proper sock2" "concat sock2 = rest"
    using recv_exact_stream [OF s1(2), of "length (dumps m)"] s1(3) by auto
  have "be (pack_length (length (dumps m))) = length (dumps m)"
    using f'(2) by (intro be_pack_length) (simp add: MAX_FRAME_BYTES_def)
  then show ?thesis using s1 s2 f'(2) d by (simp add: recv_frame_def)
qed

text \<open>
  C30. Messages cross the socket intact: when the stream carries the frames of any list of messages,
  cut into chunks in any way, the reader loop returns exactly these messages in order and then ends
  with the disconnection; a frame cut off by the end of the stream is never delivered.
\<close>

theorem ipc_stream_roundtrip:
  assumes "list_all2 (\<lambda>m f. send_frame dumps m = Inr f) msgs frames" and "\<forall>m \<in> set msgs. loads (dumps m) = Some m"
    and "proper sock" and "concat sock = concat frames @ tail" and "strict_prefix tail f" and "send_frame dumps last_msg = Inr f"
  shows "read_loop loads got sock = Some (got @ msgs, IpcDisconnected)"
  using assms(1-4)
proof (induction msgs frames arbitrary: got sock rule: list_all2_induct)
  case Nil
  have f: "f = pack_length (length (dumps last_msg)) @ dumps last_msg" "length (dumps last_msg) \<le> MAX_FRAME_BYTES"
    using assms(6) by (auto simp: send_frame_def Let_def split: if_splits)
  obtain g where g: "f = tail @ g" "g \<noteq> []" using assms(5) by (auto simp: strict_prefix_def prefix_def)
  have t: "concat sock = tail" using Nil by simp
  have "recv_frame loads sock = Inl IpcDisconnected"
  proof (cases "length tail < 4")
    case True
    then show ?thesis using recv_exact_stream [OF Nil(2), of 4] t by (simp add: recv_frame_def)
  next
    case False
    then obtain sock1 where s1: "recv_exact 4 sock = Inr (take 4 tail, sock1)" "proper sock1" "concat sock1 = drop 4 tail"
      using recv_exact_stream [OF Nil(2), of 4] t by auto
    have "take 4 tail = take 4 f" using False g by simp
    then have h: "take 4 tail = pack_length (length (dumps last_msg))" using f by simp
    have b: "be (take 4 tail) = length (dumps last_msg)" unfolding h using f(2) by (intro be_pack_length) (simp add: MAX_FRAME_BYTES_def)
    have "length tail + length g = 4 + length (dumps last_msg)" using arg_cong [OF f(1), of length] g(1) by simp
    moreover have "length g > 0" using g(2) by simp
    ultimately have "length (drop 4 tail) < length (dumps last_msg)" using False by (simp del: length_greater_0_conv)
    then have "recv_exact (length (dumps last_msg)) sock1 = Inl IpcDisconnected"
      using recv_exact_stream [OF s1(2), of "length (dumps last_msg)"] s1(3) by simp
    then show ?thesis using s1(1) b f(2) by (simp add: recv_frame_def)
  qed
  then show ?case by (subst read_loop.simps) simp
next
  case (Cons m msgs f' frames)
  obtain sock' where r: "recv_frame loads sock = Inr (m, sock')" "proper sock'" "concat sock' = concat frames @ tail"
    using recv_frame_sent [OF Cons.prems(2) _ Cons.hyps(1), of "concat frames @ tail"] Cons.prems by auto
  show ?case using Cons.IH [of sock' "got @ [m]"] Cons.prems(1) r by (subst read_loop.simps) simp
qed

theorem ipc_stream_roundtrip_witness:
  "read_loop Some [] [[0, 0], [0, 2, 65], [66, 0, 0, 0, 1, 67, 0, 0]] = Some ([[65, 66], [67]], IpcDisconnected)"
proof -
  have "list_all2 (\<lambda>m f. send_frame (\<lambda>x. x) m = Inr f) [[65, 66], [67]] [[0, 0, 0, 2, 65, 66], [0, 0, 0, 1, 67]]"
    "send_frame (\<lambda>x. x) [] = Inr [0, 0, 0, 0]"
    by (simp_all add: send_frame_def MAX_FRAME_BYTES_def pack_length_def Let_def)
  from ipc_stream_roundtrip [OF this(1) _ _ _ _ this(2), of Some "[[0, 0], [0, 2, 65], [66, 0, 0, 0, 1, 67, 0, 0]]" "[0, 0]" "[]"]
  show ?thesis by (simp add: proper_def)
qed

end
