(* ===== verification/Ipc_Calls.thy ===== *)
theory Ipc_Calls
  imports Py_Values
begin

text \<open>
  Remote calls over \<^verbatim>\<open>ipc.py\<close>: \<open>IpcClient\<close> with its pending table, its reader threads and its reconnects, and the
  dispatch of \<open>IpcServer\<close>, as a step relation. A step is what one thread does between two points at which another can
  run. A connection is named by its generation, so the socket and the generation of a reader are one number. Whether a frame
  can be sent, a connection made, and what a handler answers is left open; deadlines may pass at any time. A handshake may be
  refused, fail, or be cut off by the server, which \<open>connect\<close> does not catch.
\<close>

section \<open>State\<close>

text \<open>What \<open>_PendingCall\<close> holds: the answer of the server to a request, or the failure of its connection.\<close>

datatype reply = Result pyval | Remote_error ustr ustr

datatype message = Response nat reply | Lost

datatype call_result = Answered reply | Link_lost | Timed_out | Disconnected | Unreachable | Unauthorized

text \<open>
  Where a call stands; the first argument is the attempt. \<open>Connecting\<close> holds the connect lock, \<open>Sending\<close> has the
  request in the table, \<open>Dropping\<close> has taken it out after a failed send.
\<close>

datatype phase = Ensure nat | Connecting nat | Registering nat | Sending nat nat nat | Dropping nat nat | Waiting nat | Finished call_result

record pending_call =
  phase :: phase
  generation :: "nat option"
  inbox :: "message option"

definition new_call :: pending_call where
  "new_call = \<lparr>phase = Ensure 1, generation = None, inbox = None\<rparr>"

text \<open>
  The client, and outside it the requests on their way to the server, the answers on their way back, and what happened so
  far: the identifiers drawn with the call that drew each, the identifiers sent, the requests executed with their
  answers, the connections that were given up.
\<close>

record link =
  socket :: "nat option"
  online :: bool
  generations :: nat
  pending :: "(nat \<times> nat) list"
  calls :: "nat \<Rightarrow> pending_call option"
  lock :: "nat option"
  readers :: "nat set"
  stopped :: bool
  auth_failed :: bool
  connect_failed :: bool
  closing :: "nat option option"
  requests :: "(nat \<times> nat) set"
  responses :: "(nat \<times> nat \<times> reply) set"
  drawn :: "(nat \<times> nat) set"
  sent :: "nat set"
  executed :: "(nat \<times> reply) set"
  retired :: "nat set"

definition new_link :: link where
  "new_link = \<lparr>socket = None, online = False, generations = 0, pending = [], calls = (\<lambda>_. None), lock = None, readers = {},
     stopped = False, auth_failed = False, connect_failed = False, closing = None, requests = {}, responses = {}, drawn = {},
     sent = {}, executed = {}, retired = {}\<rparr>"

section \<open>Operations\<close>

definition upd_call :: "nat \<Rightarrow> (pending_call \<Rightarrow> pending_call) \<Rightarrow> link \<Rightarrow> link" where
  "upd_call c f s = s\<lparr>calls := (calls s)(c := map_option f (calls s c))\<rparr>"

definition go :: "nat \<Rightarrow> phase \<Rightarrow> link \<Rightarrow> link" where
  "go c p s = upd_call c (\<lambda>k. k\<lparr>phase := p\<rparr>) s"

text \<open>A connection is made.\<close>

definition install :: "link \<Rightarrow> link" where
  "install s = s\<lparr>socket := Some (generations s + 1), generations := generations s + 1, online := True,
     readers := insert (generations s + 1) (readers s), connect_failed := False\<rparr>"

definition register_call :: "nat \<Rightarrow> nat \<Rightarrow> link \<Rightarrow> link" where
  "register_call c r s =
     upd_call c (\<lambda>k. k\<lparr>generation := Some (generations s)\<rparr>)
       (s\<lparr>pending := (r, c) # pending s, drawn := insert (r, c) (drawn s)\<rparr>)"

definition unregister :: "nat \<Rightarrow> link \<Rightarrow> link" where
  "unregister r s = s\<lparr>pending := filter (\<lambda>(r', c). r' \<noteq> r) (pending s)\<rparr>"

text \<open>\<open>_resolve\<close>.\<close>

definition resolve :: "nat \<Rightarrow> reply \<Rightarrow> link \<Rightarrow> link" where
  "resolve r a s =
     (case map_of (pending s) r of
        None \<Rightarrow> s
      | Some c \<Rightarrow> upd_call c (\<lambda>k. k\<lparr>inbox := Some (Response r a)\<rparr>) (unregister r s))"

text \<open>\<open>_fail_all_pending\<close> and \<open>_drop_connection\<close>.\<close>

definition generation_of :: "link \<Rightarrow> nat \<Rightarrow> nat option" where
  "generation_of s c = (case calls s c of None \<Rightarrow> None | Some k \<Rightarrow> generation k)"

definition doomed :: "nat option \<Rightarrow> link \<Rightarrow> nat \<times> nat \<Rightarrow> bool" where
  "doomed gen s e \<longleftrightarrow> gen = None \<or> generation_of s (snd e) = gen"

definition fail_all_pending :: "nat option \<Rightarrow> link \<Rightarrow> link" where
  "fail_all_pending gen s =
     (let victims = filter (doomed gen s) (pending s) in
      s\<lparr>pending := filter (\<lambda>e. \<not> doomed gen s e) (pending s),
        calls := (\<lambda>c. if c \<in> snd ` set victims then map_option (\<lambda>k. k\<lparr>inbox := Some Lost\<rparr>) (calls s c) else calls s c)\<rparr>)"

definition drop_connection :: "nat option \<Rightarrow> nat option \<Rightarrow> link \<Rightarrow> link" where
  "drop_connection sock gen s =
     fail_all_pending gen
       ((if sock = None \<or> socket s = sock then s\<lparr>socket := None, online := False\<rparr> else s)
          \<lparr>retired := (case sock of None \<Rightarrow> retired s | Some g \<Rightarrow> insert g (retired s))\<rparr>)"

text \<open>The \<open>finally\<close> of the wait.\<close>

definition forget_call :: "nat \<Rightarrow> nat \<Rightarrow> link \<Rightarrow> link" where
  "forget_call r c s = (if map_of (pending s) r = Some c then unregister r s else s)"

definition result_of :: "message \<Rightarrow> call_result" where
  "result_of m = (case m of Response _ a \<Rightarrow> Answered a | Lost \<Rightarrow> Link_lost)"

definition phase_of :: "link \<Rightarrow> nat \<Rightarrow> phase option" where
  "phase_of s c = map_option phase (calls s c)"

definition inbox_of :: "link \<Rightarrow> nat \<Rightarrow> message option" where
  "inbox_of s c = (case calls s c of None \<Rightarrow> None | Some k \<Rightarrow> inbox k)"

section \<open>Steps\<close>

inductive ipc_step :: "link \<Rightarrow> link \<Rightarrow> bool" where
  step_connect: "lock s = None \<Longrightarrow> \<not> online s \<Longrightarrow> \<not> auth_failed s \<Longrightarrow> ipc_step s (install s)"
| step_call: "calls s c = None \<Longrightarrow> ipc_step s (s\<lparr>calls := (calls s)(c := Some new_call)\<rparr>)"
| step_up: "phase_of s c = Some (Ensure n) \<Longrightarrow> online s \<Longrightarrow> ipc_step s (go c (Registering n) s)"
| step_refused: "phase_of s c = Some (Ensure n) \<Longrightarrow> \<not> online s \<Longrightarrow> stopped s \<or> auth_failed s \<or> connect_failed s \<Longrightarrow>
    ipc_step s (go c (Finished (if \<not> stopped s \<and> auth_failed s then Unauthorized else Disconnected)) s)"
| step_lock: "phase_of s c = Some (Ensure n) \<Longrightarrow> \<not> online s \<Longrightarrow> \<not> stopped s \<Longrightarrow> \<not> auth_failed s \<Longrightarrow> lock s = None \<Longrightarrow>
    ipc_step s (go c (Connecting n) (s\<lparr>lock := Some c\<rparr>))"
| step_connected: "phase_of s c = Some (Connecting n) \<Longrightarrow> ipc_step s (go c (Registering n) ((install s)\<lparr>lock := None\<rparr>))"
| step_rejected: "phase_of s c = Some (Connecting n) \<Longrightarrow>
    ipc_step s (go c (Finished Unauthorized) (s\<lparr>lock := None, auth_failed := True\<rparr>))"
| step_unreachable: "phase_of s c = Some (Connecting n) \<Longrightarrow>
    ipc_step s (go c (Finished Unreachable) (s\<lparr>lock := None, connect_failed := True\<rparr>))"
| step_cut_off: "phase_of s c = Some (Connecting n) \<Longrightarrow> ipc_step s (go c (Finished Disconnected) (s\<lparr>lock := None\<rparr>))"
| step_register: "phase_of s c = Some (Registering n) \<Longrightarrow> lock s = None \<Longrightarrow> socket s = Some g \<Longrightarrow> online s \<Longrightarrow> r \<notin> fst ` drawn s \<Longrightarrow>
    ipc_step s (go c (Sending n r g) (register_call c r s))"
| step_gone: "phase_of s c = Some (Registering n) \<Longrightarrow> lock s = None \<Longrightarrow> socket s = None \<or> \<not> online s \<Longrightarrow>
    ipc_step s (go c (if n = 1 then Ensure 2 else Finished Disconnected) s)"
| step_sent: "phase_of s c = Some (Sending n r g) \<Longrightarrow>
    ipc_step s (go c (Waiting r) (s\<lparr>requests := insert (g, r) (requests s), sent := insert r (sent s)\<rparr>))"
| step_send_failed: "phase_of s c = Some (Sending n r g) \<Longrightarrow> ipc_step s (go c (Dropping n g) (unregister r s))"
| step_dropped: "phase_of s c = Some (Dropping n g) \<Longrightarrow> lock s = None \<Longrightarrow>
    ipc_step s (go c (if n = 2 then Finished Disconnected else Ensure 2) (drop_connection (Some g) (generation_of s c) s))"
| step_dispatch: "(g, r) \<in> requests s \<Longrightarrow>
    ipc_step s (s\<lparr>requests := requests s - {(g, r)}, responses := insert (g, r, a) (responses s), executed := insert (r, a) (executed s)\<rparr>)"
| step_receive: "g \<in> readers s \<Longrightarrow> (g, r, a) \<in> responses s \<Longrightarrow>
    ipc_step s (resolve r a (s\<lparr>responses := responses s - {(g, r, a)}\<rparr>))"
| step_reader_ends: "g \<in> readers s \<Longrightarrow> lock s = None \<Longrightarrow>
    ipc_step s (drop_connection (Some g) (Some g) (s\<lparr>readers := readers s - {g}\<rparr>))"
| step_answered: "phase_of s c = Some (Waiting r) \<Longrightarrow> inbox_of s c = Some m \<Longrightarrow>
    ipc_step s (go c (Finished (result_of m)) (forget_call r c s))"
| step_timeout: "phase_of s c = Some (Waiting r) \<Longrightarrow> inbox_of s c = None \<Longrightarrow>
    ipc_step s (go c (Finished Timed_out) (forget_call r c s))"
| step_close: "ipc_step s (s\<lparr>stopped := True, closing := Some (socket s)\<rparr>)"
| step_closed: "closing s = Some sock \<Longrightarrow> lock s = None \<Longrightarrow> ipc_step s (drop_connection sock None (s\<lparr>closing := None\<rparr>))"

inductive ipc_reach :: "link \<Rightarrow> bool" where
  ipc_start: "ipc_reach new_link"
| ipc_next: "ipc_reach s \<Longrightarrow> ipc_step s s' \<Longrightarrow> ipc_reach s'"

section \<open>The operations as record updates\<close>

lemma resolve_eq:
  "resolve r a s = s\<lparr>pending := filter (\<lambda>(r', c). r' \<noteq> r) (pending s),
     calls := (\<lambda>c. if map_of (pending s) r = Some c then map_option (\<lambda>k. k\<lparr>inbox := Some (Response r a)\<rparr>) (calls s c) else calls s c)\<rparr>"
proof (cases "map_of (pending s) r")
  case None
  then have "filter (\<lambda>(r', c). r' \<noteq> r) (pending s) = pending s"
    by (force simp: map_of_eq_None_iff filter_id_conv)
  then show ?thesis using None by (simp add: resolve_def)
next
  case (Some c)
  then show ?thesis by (auto simp: resolve_def upd_call_def unregister_def fun_eq_iff intro!: link.equality)
qed

lemma drop_eq:
  "drop_connection sock gen s = s\<lparr>
     socket := (if sock = None \<or> socket s = sock then None else socket s),
     online := (if sock = None \<or> socket s = sock then False else online s),
     retired := (case sock of None \<Rightarrow> retired s | Some g \<Rightarrow> insert g (retired s)),
     pending := filter (\<lambda>e. \<not> doomed gen s e) (pending s),
     calls := (\<lambda>c. if c \<in> snd ` set (filter (doomed gen s) (pending s)) then map_option (\<lambda>k. k\<lparr>inbox := Some Lost\<rparr>) (calls s c) else calls s c)\<rparr>"
proof -
  have d: "doomed gen (s\<lparr>socket := x, online := y, retired := z\<rparr>) = doomed gen s"
    "doomed gen (s\<lparr>retired := z\<rparr>) = doomed gen s" "doomed gen (s\<lparr>socket := x, online := y\<rparr>) = doomed gen s" for x y z
    by (simp_all add: doomed_def generation_of_def fun_eq_iff)
  show ?thesis
    by (cases sock; cases "socket s = sock"; simp add: drop_connection_def fail_all_pending_def d Let_def cong: if_cong)
qed

lemma forget_eq:
  "forget_call r c s = s\<lparr>pending := (if map_of (pending s) r = Some c then filter (\<lambda>(r', c). r' \<noteq> r) (pending s) else pending s)\<rparr>"
  by (simp add: forget_call_def unregister_def)

lemma go_eq: "go c p s = s\<lparr>calls := (\<lambda>d. if d = c then map_option (\<lambda>k. k\<lparr>phase := p\<rparr>) (calls s c) else calls s d)\<rparr>"
  by (simp add: go_def upd_call_def fun_eq_iff)

lemma register_eq:
  "register_call c r s = s\<lparr>pending := (r, c) # pending s, drawn := insert (r, c) (drawn s),
     calls := (\<lambda>d. if d = c then map_option (\<lambda>k. k\<lparr>generation := Some (generations s)\<rparr>) (calls s c) else calls s d)\<rparr>"
  by (simp add: register_call_def upd_call_def fun_eq_iff)

lemmas op_eqs = go_eq install_def register_eq unregister_def resolve_eq drop_eq forget_eq

lemma phase_of_upd:
  "phase_of (s\<lparr>calls := f\<rparr>) c = map_option phase (f c)" "inbox_of (s\<lparr>calls := f\<rparr>) c = Option.bind (f c) inbox"
  "generation_of (s\<lparr>calls := f\<rparr>) c = Option.bind (f c) generation"
  by (simp_all add: phase_of_def inbox_of_def generation_of_def split: option.split)

lemma views_go [simp]:
  "phase_of (go c p s) = (if phase_of s c = None then phase_of s else (phase_of s)(c := Some p))"
  "inbox_of (go c p s) = inbox_of s" "generation_of (go c p s) = generation_of s"
  by (auto simp: go_eq phase_of_def inbox_of_def generation_of_def fun_eq_iff option.map_comp comp_def split: option.split)

lemma views_install [simp]:
  "phase_of (install s) = phase_of s" "inbox_of (install s) = inbox_of s" "generation_of (install s) = generation_of s"
  by (simp_all add: install_def phase_of_def inbox_of_def generation_of_def fun_eq_iff)

lemma views_register [simp]:
  "phase_of (register_call c r s) = phase_of s" "inbox_of (register_call c r s) = inbox_of s"
  "generation_of (register_call c r s) d = (if d = c \<and> phase_of s c \<noteq> None then Some (generations s) else generation_of s d)"
  by (auto simp: register_eq phase_of_def inbox_of_def generation_of_def fun_eq_iff option.map_comp comp_def split: option.split)

lemma views_unregister [simp]:
  "phase_of (unregister r s) = phase_of s" "inbox_of (unregister r s) = inbox_of s" "generation_of (unregister r s) = generation_of s"
  by (simp_all add: unregister_def phase_of_def inbox_of_def generation_of_def fun_eq_iff)

lemma views_forget [simp]:
  "phase_of (forget_call r c s) = phase_of s" "inbox_of (forget_call r c s) = inbox_of s"
  "generation_of (forget_call r c s) = generation_of s"
  by (simp_all add: forget_call_def)

lemma views_resolve [simp]:
  "phase_of (resolve r a s) = phase_of s" "generation_of (resolve r a s) = generation_of s"
  "inbox_of (resolve r a s) c = (if map_of (pending s) r = Some c \<and> phase_of s c \<noteq> None then Some (Response r a) else inbox_of s c)"
  by (auto simp: resolve_eq phase_of_def inbox_of_def generation_of_def fun_eq_iff option.map_comp comp_def split: option.split)

lemma views_drop [simp]:
  "phase_of (drop_connection sock gen s) = phase_of s" "generation_of (drop_connection sock gen s) = generation_of s"
  "inbox_of (drop_connection sock gen s) c =
     (if (\<exists>r. (r, c) \<in> set (pending s) \<and> (gen = None \<or> generation_of s c = gen)) \<and> phase_of s c \<noteq> None then Some Lost else inbox_of s c)"
  by (auto simp: drop_eq doomed_def phase_of_def inbox_of_def generation_of_def fun_eq_iff option.map_comp comp_def image_iff split: option.splits)

lemma views_fields [simp]:
  "phase_of (s\<lparr>lock := x1\<rparr>) = phase_of s" "phase_of (s\<lparr>auth_failed := x2\<rparr>) = phase_of s" "phase_of (s\<lparr>connect_failed := x2\<rparr>) = phase_of s"
  "phase_of (s\<lparr>requests := x3\<rparr>) = phase_of s" "phase_of (s\<lparr>responses := x4\<rparr>) = phase_of s" "phase_of (s\<lparr>sent := x5\<rparr>) = phase_of s"
  "phase_of (s\<lparr>executed := x6\<rparr>) = phase_of s" "phase_of (s\<lparr>readers := x5\<rparr>) = phase_of s" "phase_of (s\<lparr>stopped := x2\<rparr>) = phase_of s"
  "phase_of (s\<lparr>closing := x7\<rparr>) = phase_of s"
  "inbox_of (s\<lparr>lock := x1\<rparr>) = inbox_of s" "inbox_of (s\<lparr>auth_failed := x2\<rparr>) = inbox_of s" "inbox_of (s\<lparr>connect_failed := x2\<rparr>) = inbox_of s"
  "inbox_of (s\<lparr>requests := x3\<rparr>) = inbox_of s" "inbox_of (s\<lparr>responses := x4\<rparr>) = inbox_of s" "inbox_of (s\<lparr>sent := x5\<rparr>) = inbox_of s"
  "inbox_of (s\<lparr>executed := x6\<rparr>) = inbox_of s" "inbox_of (s\<lparr>readers := x5\<rparr>) = inbox_of s" "inbox_of (s\<lparr>stopped := x2\<rparr>) = inbox_of s"
  "inbox_of (s\<lparr>closing := x7\<rparr>) = inbox_of s"
  "generation_of (s\<lparr>lock := x1\<rparr>) = generation_of s" "generation_of (s\<lparr>auth_failed := x2\<rparr>) = generation_of s"
  "generation_of (s\<lparr>connect_failed := x2\<rparr>) = generation_of s" "generation_of (s\<lparr>requests := x3\<rparr>) = generation_of s"
  "generation_of (s\<lparr>responses := x4\<rparr>) = generation_of s" "generation_of (s\<lparr>sent := x5\<rparr>) = generation_of s"
  "generation_of (s\<lparr>executed := x6\<rparr>) = generation_of s" "generation_of (s\<lparr>readers := x5\<rparr>) = generation_of s"
  "generation_of (s\<lparr>stopped := x2\<rparr>) = generation_of s" "generation_of (s\<lparr>closing := x7\<rparr>) = generation_of s"
  by (simp_all add: phase_of_def inbox_of_def generation_of_def fun_eq_iff)

lemma views_new [simp]:
  "phase_of (s\<lparr>calls := (calls s)(c := Some new_call)\<rparr>) d = (if d = c then Some (Ensure 1) else phase_of s d)"
  "inbox_of (s\<lparr>calls := (calls s)(c := Some new_call)\<rparr>) d = (if d = c then None else inbox_of s d)"
  "generation_of (s\<lparr>calls := (calls s)(c := Some new_call)\<rparr>) d = (if d = c then None else generation_of s d)"
  by (simp_all add: phase_of_def inbox_of_def generation_of_def new_call_def)

lemma filter_out_keys: "distinct (map fst (filter P xs))" if "distinct (map fst xs)"
  using that by (induction xs) auto

lemma fields_go [simp]:
  "pending (go c p s) = pending s" "drawn (go c p s) = drawn s" "socket (go c p s) = socket s"
  "online (go c p s) = online s" "generations (go c p s) = generations s" "lock (go c p s) = lock s"
  "readers (go c p s) = readers s" "stopped (go c p s) = stopped s" "requests (go c p s) = requests s"
  "responses (go c p s) = responses s" "sent (go c p s) = sent s" "executed (go c p s) = executed s"
  "retired (go c p s) = retired s" "closing (go c p s) = closing s" "auth_failed (go c p s) = auth_failed s"
  "connect_failed (go c p s) = connect_failed s"
  by (simp_all add: go_eq)

lemma fields_install [simp]:
  "pending (install s) = pending s" "drawn (install s) = drawn s" "socket (install s) = Some (generations s + 1)"
  "online (install s) = True" "generations (install s) = generations s + 1" "lock (install s) = lock s"
  "readers (install s) = insert (generations s + 1) (readers s)" "stopped (install s) = stopped s"
  "requests (install s) = requests s" "responses (install s) = responses s" "sent (install s) = sent s"
  "executed (install s) = executed s" "retired (install s) = retired s" "closing (install s) = closing s"
  "auth_failed (install s) = auth_failed s" "connect_failed (install s) = False"
  by (simp_all add: install_def)

lemma fields_register_call [simp]:
  "pending (register_call c r s) = (r, c) # pending s" "drawn (register_call c r s) = insert (r, c) (drawn s)"
  "socket (register_call c r s) = socket s" "online (register_call c r s) = online s"
  "generations (register_call c r s) = generations s" "lock (register_call c r s) = lock s"
  "readers (register_call c r s) = readers s" "stopped (register_call c r s) = stopped s"
  "requests (register_call c r s) = requests s" "responses (register_call c r s) = responses s"
  "sent (register_call c r s) = sent s" "executed (register_call c r s) = executed s"
  "retired (register_call c r s) = retired s" "closing (register_call c r s) = closing s"
  "auth_failed (register_call c r s) = auth_failed s" "connect_failed (register_call c r s) = connect_failed s"
  by (simp_all add: register_eq)

lemma fields_unregister [simp]:
  "pending (unregister r s) = filter (\<lambda>(r', c). r' \<noteq> r) (pending s)" "drawn (unregister r s) = drawn s"
  "socket (unregister r s) = socket s" "online (unregister r s) = online s" "generations (unregister r s) = generations s"
  "lock (unregister r s) = lock s" "readers (unregister r s) = readers s" "stopped (unregister r s) = stopped s"
  "requests (unregister r s) = requests s" "responses (unregister r s) = responses s" "sent (unregister r s) = sent s"
  "executed (unregister r s) = executed s" "retired (unregister r s) = retired s" "closing (unregister r s) = closing s"
  "auth_failed (unregister r s) = auth_failed s" "connect_failed (unregister r s) = connect_failed s"
  by (simp_all add: unregister_def)

lemma fields_resolve [simp]:
  "pending (resolve r a s) = filter (\<lambda>(r', c). r' \<noteq> r) (pending s)" "drawn (resolve r a s) = drawn s"
  "socket (resolve r a s) = socket s" "online (resolve r a s) = online s" "generations (resolve r a s) = generations s"
  "lock (resolve r a s) = lock s" "readers (resolve r a s) = readers s" "stopped (resolve r a s) = stopped s"
  "requests (resolve r a s) = requests s" "responses (resolve r a s) = responses s" "sent (resolve r a s) = sent s"
  "executed (resolve r a s) = executed s" "retired (resolve r a s) = retired s" "closing (resolve r a s) = closing s"
  "auth_failed (resolve r a s) = auth_failed s" "connect_failed (resolve r a s) = connect_failed s"
  by (simp_all add: resolve_eq)

lemma fields_forget_call [simp]:

  "pending (forget_call r c s) = (if map_of (pending s) r = Some c then filter (\<lambda>(r', c). r' \<noteq> r) (pending s) else pending s)"
  "drawn (forget_call r c s) = drawn s" "socket (forget_call r c s) = socket s" "online (forget_call r c s) = online s"
  "generations (forget_call r c s) = generations s" "lock (forget_call r c s) = lock s"
  "readers (forget_call r c s) = readers s" "stopped (forget_call r c s) = stopped s"
  "requests (forget_call r c s) = requests s" "responses (forget_call r c s) = responses s"
  "sent (forget_call r c s) = sent s" "executed (forget_call r c s) = executed s" "retired (forget_call r c s) = retired s"
  "closing (forget_call r c s) = closing s" "auth_failed (forget_call r c s) = auth_failed s"
  "connect_failed (forget_call r c s) = connect_failed s"
  by (simp_all add: forget_eq)

lemma fields_drop_connection [simp]:
  "pending (drop_connection sock gen s) = filter (\<lambda>e. \<not> doomed gen s e) (pending s)"
  "drawn (drop_connection sock gen s) = drawn s"
  "socket (drop_connection sock gen s) = (if sock = None \<or> socket s = sock then None else socket s)"
  "online (drop_connection sock gen s) = (if sock = None \<or> socket s = sock then False else online s)"
  "generations (drop_connection sock gen s) = generations s" "lock (drop_connection sock gen s) = lock s"
  "readers (drop_connection sock gen s) = readers s" "stopped (drop_connection sock gen s) = stopped s"
  "requests (drop_connection sock gen s) = requests s" "responses (drop_connection sock gen s) = responses s"
  "sent (drop_connection sock gen s) = sent s" "executed (drop_connection sock gen s) = executed s"
  "retired (drop_connection sock gen s) = (case sock of None \<Rightarrow> retired s | Some g \<Rightarrow> insert g (retired s))"
  "closing (drop_connection sock gen s) = closing s" "auth_failed (drop_connection sock gen s) = auth_failed s"
  "connect_failed (drop_connection sock gen s) = connect_failed s"
  by (simp_all add: drop_eq)

section \<open>Invariants\<close>

text \<open>An identifier is drawn by one call, and is that call's current one while it is in the table.\<close>

definition in_flight :: "phase \<Rightarrow> nat \<Rightarrow> bool" where
  "in_flight p r \<longleftrightarrow> (case p of Waiting r' \<Rightarrow> r' = r | Sending n r' g \<Rightarrow> r' = r | _ \<Rightarrow> False)"

definition table_ok :: "link \<Rightarrow> bool" where
  "table_ok s \<longleftrightarrow> distinct (map fst (pending s))
     \<and> (\<forall>r c. (r, c) \<in> set (pending s) \<longrightarrow> (\<exists>p. phase_of s c = Some p \<and> in_flight p r))
     \<and> (\<forall>c p r. phase_of s c = Some p \<longrightarrow> in_flight p r \<longrightarrow> (r, c) \<in> drawn s)
     \<and> (\<forall>r c c'. (r, c) \<in> drawn s \<longrightarrow> (r, c') \<in> drawn s \<longrightarrow> c = c')
     \<and> (\<forall>r c. (r, c) \<in> drawn s \<longrightarrow> phase_of s c \<noteq> None)"

lemma in_flight_simps [simp]:
  "in_flight (Waiting r') r \<longleftrightarrow> r' = r" "in_flight (Sending n r' g) r \<longleftrightarrow> r' = r" "\<not> in_flight (Ensure n) r" "\<not> in_flight (Connecting n) r"
  "\<not> in_flight (Registering n) r" "\<not> in_flight (Dropping n g) r" "\<not> in_flight (Finished x) r"
  by (simp_all add: in_flight_def)

lemma table_okD:
  assumes "table_ok s"
  shows "distinct (map fst (pending s))"
    and "(r, c) \<in> set (pending s) \<Longrightarrow> \<exists>p. phase_of s c = Some p \<and> in_flight p r"
    and "phase_of s c = Some p \<Longrightarrow> in_flight p r \<Longrightarrow> (r, c) \<in> drawn s"
    and "(r, c) \<in> drawn s \<Longrightarrow> (r, c') \<in> drawn s \<Longrightarrow> c' = c"
    and "(r, c) \<in> drawn s \<Longrightarrow> phase_of s c \<noteq> None"
  using assms by (auto simp: table_ok_def)

lemma table_entry: "table_ok s \<Longrightarrow> phase_of s c = Some p \<Longrightarrow> in_flight p r \<Longrightarrow> (r, c') \<in> set (pending s) \<Longrightarrow> c' = c"
  using table_okD(2) table_okD(3) table_okD(4) by metis

lemma table_same:
  assumes "table_ok s" "phase_of s' = phase_of s" "set (pending s') \<subseteq> set (pending s)" "distinct (map fst (pending s'))" "drawn s' = drawn s"
  shows "table_ok s'"
  using assms table_okD [OF assms(1)] by (auto simp: table_ok_def)

lemma table_move:
  assumes "table_ok s" "phase_of s c = Some p" "phase_of s' = (phase_of s)(c := Some p')" "set (pending s') \<subseteq> set (pending s)"
    "distinct (map fst (pending s'))" "drawn s' = drawn s"
    "\<And>r. (r, c) \<in> set (pending s') \<Longrightarrow> in_flight p r \<Longrightarrow> in_flight p' r" "\<And>r. in_flight p' r \<Longrightarrow> in_flight p r"
  shows "table_ok s'"
proof -
  note d = table_okD [OF assms(1)]
  show ?thesis unfolding table_ok_def
  proof (intro conjI allI impI)
    fix r d assume e: "(r, d) \<in> set (pending s')"
    then obtain q where "phase_of s d = Some q" "in_flight q r" using d(2) assms(4) by blast
    then show "\<exists>p. phase_of s' d = Some p \<and> in_flight p r" using assms(2,3,7) e by auto
  next
    fix d q r assume "phase_of s' d = Some q" "in_flight q r"
    then show "(r, d) \<in> drawn s'" using assms(2,3,6,8) d(3) by (auto split: if_splits)
  qed (use assms d in auto)
qed

lemma table_step: "ipc_step s s' \<Longrightarrow> table_ok s \<Longrightarrow> table_ok s'"
proof (induction rule: ipc_step.induct)
  case (step_register s c n g r)
  have fresh: "(r, d) \<notin> drawn s" for d using step_register.hyps(5) by force
  have "r \<notin> fst ` set (pending s)"
    using fresh table_okD(2,3) [OF step_register.prems] by fastforce
  moreover have "(r', c) \<notin> set (pending s)" for r'
    using table_okD(2) [OF step_register.prems, of r' c] step_register.hyps(1) by auto
  ultimately show ?case
    using step_register fresh table_okD [OF step_register.prems]
    by (unfold table_ok_def; intro conjI allI impI) (auto split: if_splits)
next
  case (step_call s c)
  have "phase_of s c = None" using step_call.hyps by (simp add: phase_of_def)
  then have "(r, c) \<notin> drawn s" "(r, c) \<notin> set (pending s)" for r using table_okD(2,5) [OF step_call.prems, of r c] by auto
  then show ?case using table_okD [OF step_call.prems] by (unfold table_ok_def; intro conjI allI impI) (auto split: if_splits)
next
  case (step_up s c n)
  show ?case by (rule table_move [OF step_up.prems step_up.hyps(1)])
    (use step_up.hyps table_okD(1) [OF step_up.prems] in \<open>auto simp: filter_out_keys split: if_splits\<close>)
next
  case (step_refused s c n)
  show ?case by (rule table_move [OF step_refused.prems step_refused.hyps(1)])
    (use step_refused.hyps table_okD(1) [OF step_refused.prems] in \<open>auto simp: filter_out_keys split: if_splits\<close>)
next
  case (step_lock s c n)
  show ?case by (rule table_move [OF step_lock.prems step_lock.hyps(1)])
    (use step_lock.hyps table_okD(1) [OF step_lock.prems] in \<open>auto simp: filter_out_keys split: if_splits\<close>)
next
  case (step_connected s c n)
  show ?case by (rule table_move [OF step_connected.prems step_connected.hyps(1)])
    (use step_connected.hyps table_okD(1) [OF step_connected.prems] in \<open>auto simp: filter_out_keys split: if_splits\<close>)
next
  case (step_rejected s c n)
  show ?case by (rule table_move [OF step_rejected.prems step_rejected.hyps(1)])
    (use step_rejected.hyps table_okD(1) [OF step_rejected.prems] in \<open>auto simp: filter_out_keys split: if_splits\<close>)
next
  case (step_unreachable s c n)
  show ?case by (rule table_move [OF step_unreachable.prems step_unreachable.hyps(1)])
    (use step_unreachable.hyps table_okD(1) [OF step_unreachable.prems] in \<open>auto simp: filter_out_keys split: if_splits\<close>)
next
  case (step_cut_off s c n)
  show ?case by (rule table_move [OF step_cut_off.prems step_cut_off.hyps(1)])
    (use step_cut_off.hyps table_okD(1) [OF step_cut_off.prems] in \<open>auto simp: filter_out_keys split: if_splits\<close>)
next
  case (step_gone s c n)
  show ?case by (rule table_move [OF step_gone.prems step_gone.hyps(1)])
    (use step_gone.hyps table_okD(1) [OF step_gone.prems] in \<open>auto simp: filter_out_keys split: if_splits\<close>)
next
  case (step_sent s c n r g)
  show ?case by (rule table_move [OF step_sent.prems step_sent.hyps(1)])
    (use step_sent.hyps table_okD(1) [OF step_sent.prems] in \<open>auto simp: filter_out_keys split: if_splits\<close>)
next
  case (step_send_failed s c n r g)
  show ?case by (rule table_move [OF step_send_failed.prems step_send_failed.hyps(1)])
    (use step_send_failed.hyps table_okD(1) [OF step_send_failed.prems] in \<open>auto simp: filter_out_keys split: if_splits\<close>)
next
  case (step_dropped s c n g)
  show ?case by (rule table_move [OF step_dropped.prems step_dropped.hyps(1)])
    (use step_dropped.hyps table_okD(1) [OF step_dropped.prems] in \<open>auto simp: filter_out_keys split: if_splits\<close>)
next
  case (step_answered s c r m)
  show ?case by (rule table_move [OF step_answered.prems step_answered.hyps(1)])
    (use step_answered.hyps table_okD(1) [OF step_answered.prems] in \<open>auto simp: filter_out_keys map_of_eq_Some_iff split: if_splits\<close>)
next
  case (step_timeout s c r)
  show ?case by (rule table_move [OF step_timeout.prems step_timeout.hyps(1)])
    (use step_timeout.hyps table_okD(1) [OF step_timeout.prems] in \<open>auto simp: filter_out_keys map_of_eq_Some_iff split: if_splits\<close>)
qed (rule table_same, assumption; auto simp: table_okD(1) filter_out_keys split: option.splits)+

text \<open>
  What has happened so far: a request is sent once at most per call, executed once at most per request, and
  only a call that got past sending can have had its request sent.
\<close>

definition maybe_sent :: "phase \<Rightarrow> bool" where
  "maybe_sent p \<longleftrightarrow> (case p of Waiting _ \<Rightarrow> True | Finished x \<Rightarrow> x \<notin> {Disconnected, Unreachable, Unauthorized} | _ \<Rightarrow> False)"

lemma maybe_sent_simps [simp]:
  "maybe_sent (Waiting r)" "\<not> maybe_sent (Sending n r g)" "\<not> maybe_sent (Ensure n)" "\<not> maybe_sent (Connecting n)"
  "\<not> maybe_sent (Registering n)" "\<not> maybe_sent (Dropping n g)"
  "maybe_sent (Finished x) \<longleftrightarrow> x \<notin> {Disconnected, Unreachable, Unauthorized}"
  by (simp_all add: maybe_sent_def)

definition history_ok :: "link \<Rightarrow> bool" where
  "history_ok s \<longleftrightarrow>
     sent s \<subseteq> fst ` drawn s
     \<and> (\<forall>r c p. r \<in> sent s \<longrightarrow> (r, c) \<in> drawn s \<longrightarrow> phase_of s c = Some p \<longrightarrow> maybe_sent p)
     \<and> (\<forall>r r' c. r \<in> sent s \<longrightarrow> r' \<in> sent s \<longrightarrow> (r, c) \<in> drawn s \<longrightarrow> (r', c) \<in> drawn s \<longrightarrow> r = r')
     \<and> (\<forall>g r. (g, r) \<in> requests s \<longrightarrow> r \<in> sent s)
     \<and> (\<forall>g r a. (g, r) \<in> requests s \<longrightarrow> (r, a) \<notin> executed s)
     \<and> (\<forall>g g' r. (g, r) \<in> requests s \<longrightarrow> (g', r) \<in> requests s \<longrightarrow> g = g')
     \<and> (\<forall>g r a. (g, r, a) \<in> responses s \<longrightarrow> (r, a) \<in> executed s)
     \<and> (\<forall>r a. (r, a) \<in> executed s \<longrightarrow> r \<in> sent s)
     \<and> (\<forall>r a a'. (r, a) \<in> executed s \<longrightarrow> (r, a') \<in> executed s \<longrightarrow> a = a')
     \<and> (\<forall>c r a. inbox_of s c = Some (Response r a) \<longrightarrow> (r, c) \<in> drawn s \<and> (r, a) \<in> executed s)
     \<and> (\<forall>c a. phase_of s c = Some (Finished (Answered a)) \<longrightarrow> (\<exists>r. (r, c) \<in> drawn s \<and> (r, a) \<in> executed s))"

lemma history_okD:
  assumes "history_ok s"
  shows "r \<in> sent s \<Longrightarrow> (r, c) \<in> drawn s \<Longrightarrow> phase_of s c = Some p \<Longrightarrow> maybe_sent p"
    and "r \<in> sent s \<Longrightarrow> r' \<in> sent s \<Longrightarrow> (r, c) \<in> drawn s \<Longrightarrow> (r', c) \<in> drawn s \<Longrightarrow> r' = r"
    and "(g, r) \<in> requests s \<Longrightarrow> r \<in> sent s"
    and "(g, r) \<in> requests s \<Longrightarrow> (r, a) \<notin> executed s"
    and "(g, r) \<in> requests s \<Longrightarrow> (g', r) \<in> requests s \<Longrightarrow> g' = g"
    and "(g, r, a) \<in> responses s \<Longrightarrow> (r, a) \<in> executed s"
    and "(r, a) \<in> executed s \<Longrightarrow> r \<in> sent s"
    and "(r, a) \<in> executed s \<Longrightarrow> (r, a') \<in> executed s \<Longrightarrow> a' = a"
    and "inbox_of s c = Some (Response r a) \<Longrightarrow> (r, c) \<in> drawn s \<and> (r, a) \<in> executed s"
    and "phase_of s c = Some (Finished (Answered a)) \<Longrightarrow> \<exists>r. (r, c) \<in> drawn s \<and> (r, a) \<in> executed s"
    and "sent s \<subseteq> fst ` drawn s"
proof -
  note h = assms [unfolded history_ok_def]
  show "r \<in> sent s \<Longrightarrow> (r, c) \<in> drawn s \<Longrightarrow> phase_of s c = Some p \<Longrightarrow> maybe_sent p" using h by metis
  show "r \<in> sent s \<Longrightarrow> r' \<in> sent s \<Longrightarrow> (r, c) \<in> drawn s \<Longrightarrow> (r', c) \<in> drawn s \<Longrightarrow> r' = r" using h by metis
  show "(g, r) \<in> requests s \<Longrightarrow> r \<in> sent s" using h by metis
  show "(g, r) \<in> requests s \<Longrightarrow> (r, a) \<notin> executed s" using h by metis
  show "(g, r) \<in> requests s \<Longrightarrow> (g', r) \<in> requests s \<Longrightarrow> g' = g" using h by metis
  show "(g, r, a) \<in> responses s \<Longrightarrow> (r, a) \<in> executed s" using h by metis
  show "(r, a) \<in> executed s \<Longrightarrow> r \<in> sent s" using h by metis
  show "(r, a) \<in> executed s \<Longrightarrow> (r, a') \<in> executed s \<Longrightarrow> a' = a" using h by metis
  show "inbox_of s c = Some (Response r a) \<Longrightarrow> (r, c) \<in> drawn s \<and> (r, a) \<in> executed s" using h by metis
  show "phase_of s c = Some (Finished (Answered a)) \<Longrightarrow> \<exists>r. (r, c) \<in> drawn s \<and> (r, a) \<in> executed s" using h by metis
  show "sent s \<subseteq> fst ` drawn s" using h by (rule conjunct1)
qed

lemma history_move:
  assumes h: "history_ok s"
    and drawn: "drawn s \<subseteq> drawn s'" "\<And>r c. (r, c) \<in> drawn s' \<Longrightarrow> r \<in> sent s \<Longrightarrow> (r, c) \<in> drawn s"
    and same: "sent s' = sent s" "executed s' = executed s" "requests s' = requests s" "responses s' \<subseteq> responses s"
    and phases: "\<And>c p'. phase_of s' c = Some p' \<Longrightarrow> (\<exists>p. phase_of s c = Some p \<and> (maybe_sent p \<longrightarrow> maybe_sent p')) \<or> (\<forall>r \<in> sent s. (r, c) \<notin> drawn s)"
    and inbox: "\<And>c r a. inbox_of s' c = Some (Response r a) \<Longrightarrow> inbox_of s c = Some (Response r a) \<or> (r, c) \<in> drawn s \<and> (r, a) \<in> executed s"
    and answer: "\<And>c a. phase_of s' c = Some (Finished (Answered a)) \<Longrightarrow>
        phase_of s c = Some (Finished (Answered a)) \<or> (\<exists>r. inbox_of s c = Some (Response r a))"
  shows "history_ok s'"
  unfolding history_ok_def
proof (intro conjI allI impI)
  fix r c p assume "r \<in> sent s'" "(r, c) \<in> drawn s'" "phase_of s' c = Some p"
  then show "maybe_sent p" using phases history_okD(1) [OF h] same(1) drawn(2) by metis
next
  fix r r' c assume "r \<in> sent s'" "r' \<in> sent s'" "(r, c) \<in> drawn s'" "(r', c) \<in> drawn s'"
  then show "r = r'" using history_okD(2) [OF h] same(1) drawn(2) by metis
next
  fix c a assume "phase_of s' c = Some (Finished (Answered a))"
  then show "\<exists>r. (r, c) \<in> drawn s' \<and> (r, a) \<in> executed s'"
    using answer history_okD(9,10) [OF h] same(2) drawn(1) by (metis subsetD)
next
  fix c r a assume "inbox_of s' c = Some (Response r a)"
  then show "(r, c) \<in> drawn s'" "(r, a) \<in> executed s'" using inbox history_okD(9) [OF h] same(2) drawn(1) by (metis subsetD)+
next
  fix g r a assume "(g, r, a) \<in> responses s'"
  then show "(r, a) \<in> executed s'" using same(2,4) history_okD(6) [OF h] by blast
next
  show "sent s' \<subseteq> fst ` drawn s'" using history_okD(11) [OF h] same(1) drawn(1) by blast
qed (use history_okD(3-5,7,8) [OF h] same in metis)+

lemma result_of_Answered: "result_of m = Answered a \<longleftrightarrow> (\<exists>r. m = Response r a)"
  by (cases m) (auto simp: result_of_def)

lemma result_of_maybe [simp]: "result_of m \<noteq> Disconnected" "result_of m \<noteq> Unreachable" "result_of m \<noteq> Unauthorized"
  by (cases m; simp add: result_of_def)+

lemma history_step: "ipc_step s s' \<Longrightarrow> table_ok s \<Longrightarrow> history_ok s \<Longrightarrow> history_ok s'"
proof (induction rule: ipc_step.induct)
  case (step_call s c)
  have n: "phase_of s c = None" using step_call.hyps by (simp add: phase_of_def)
  then have "(r, c) \<notin> drawn s" for r using table_okD(5) [OF step_call.prems(1), of r c] by auto
  then show ?case by (intro history_move [OF step_call.prems(2)]) (auto split: if_splits)
next
  case (step_register s c n g r)
  then have "r \<notin> sent s" using history_okD(11) [OF step_register.prems(2)] by blast
  then show ?case using step_register.hyps(1) by (intro history_move [OF step_register.prems(2)]) (auto split: if_splits)
next
  case (step_sent s c n r g)
  have d: "(r, c) \<in> drawn s" using table_okD(3) [OF step_sent.prems(1) step_sent.hyps] by simp
  have none: "r' \<notin> sent s" if "(r', c) \<in> drawn s" for r'
    using history_okD(1) [OF step_sent.prems(2) _ that step_sent.hyps] by auto
  have "(g', r) \<notin> requests s" "(r, a) \<notin> executed s" "(r, c') \<in> drawn s \<Longrightarrow> c' = c" for g' a c'
    using none [OF d] history_okD(3,7) [OF step_sent.prems(2)] table_okD(4) [OF step_sent.prems(1) d] by metis+
  note h = history_okD [OF step_sent.prems(2)] and new = this
  show ?case unfolding history_ok_def
  proof (intro conjI, goal_cases)
    case 1 show ?case using h(11) d by force
  next
    case 2 show ?case
    proof (intro allI impI)
      fix r' c' p assume "r' \<in> sent (go c (Waiting r) (s\<lparr>requests := insert (g, r) (requests s), sent := insert r (sent s)\<rparr>))"
        "(r', c') \<in> drawn (go c (Waiting r) (s\<lparr>requests := insert (g, r) (requests s), sent := insert r (sent s)\<rparr>))"
        and p: "phase_of (go c (Waiting r) (s\<lparr>requests := insert (g, r) (requests s), sent := insert r (sent s)\<rparr>)) c' = Some p"
      then have "r' = r \<or> r' \<in> sent s" "(r', c') \<in> drawn s" by simp_all
      then consider "c' = c" | "c' \<noteq> c" "r' \<in> sent s" using new(3) by blast
      then show "maybe_sent p"
      proof cases
        case 1
        then show ?thesis using p step_sent.hyps by auto
      next
        case 2
        then show ?thesis using p h(1) [of r' c' p] \<open>(r', c') \<in> drawn s\<close> step_sent.hyps by simp
      qed
    qed
  next
    case 3 show ?case by simp (use h(2) none new(3) in blast)
  next
    case 4 show ?case using h(3) by auto
  next
    case 5 show ?case using h(4) new(2) by auto
  next
    case 6 show ?case by simp (use h(5) new(1) in blast)
  next
    case 7 show ?case using h(6) by simp
  next
    case 8 show ?case using h(7) by simp
  next
    case 9 show ?case using h(8) by simp
  next
    case 10 show ?case using h(9) by simp
  next
    case 11 show ?case using h(10) by simp
  qed
next
  case (step_dispatch g r s a)
  note h = history_okD [OF step_dispatch.prems(2)]
  show ?case unfolding history_ok_def
  proof (intro conjI, goal_cases)
    case 1 show ?case by simp (use h(11) step_dispatch.hyps in blast)
  next
    case 2 show ?case by simp (use h(1) step_dispatch.hyps in blast)
  next
    case 3 show ?case by simp (use h(2) step_dispatch.hyps in blast)
  next
    case 4 show ?case by simp (use h(3) step_dispatch.hyps in blast)
  next
    case 5 show ?case by simp (use h(4,5) step_dispatch.hyps in blast)
  next
    case 6 show ?case by simp (use h(5) step_dispatch.hyps in blast)
  next
    case 7 show ?case by simp (use h(6) step_dispatch.hyps in blast)
  next
    case 8 show ?case by simp (use h(3,7) step_dispatch.hyps in blast)
  next
    case 9 show ?case by simp (use h(4,8) step_dispatch.hyps in blast)
  next
    case 10 show ?case by simp (use h(9) step_dispatch.hyps in blast)
  next
    case 11 show ?case by simp (use h(10) step_dispatch.hyps in blast)
  qed
next
  case (step_receive g s r a)
  have "(r, c) \<in> drawn s" if "map_of (pending s) r = Some c" for c
    using table_okD(2,3) [OF step_receive.prems(1)] map_of_SomeD [OF that] by metis
  then show ?case using step_receive.hyps history_okD(6) [OF step_receive.prems(2) step_receive.hyps(2)]
    by (intro history_move [OF step_receive.prems(2)]) (auto split: if_splits)
qed (rule history_move, assumption; auto simp: result_of_Answered split: if_splits)+

text \<open>The connection that is up is the last one made, its reader runs, and it was never given up.\<close>

definition link_ok :: "link \<Rightarrow> bool" where
  "link_ok s \<longleftrightarrow>
     (online s \<longrightarrow> socket s = Some (generations s) \<and> generations s \<in> readers s \<and> generations s \<notin> retired s)
     \<and> readers s \<subseteq> {..generations s} \<and> retired s \<subseteq> {..generations s} \<and> set_option (socket s) \<subseteq> {..generations s}
     \<and> (\<forall>sock. closing s = Some sock \<longrightarrow> stopped s \<and> set_option sock \<subseteq> {..generations s})
     \<and> (\<forall>c n g. phase_of s c = Some (Dropping n g) \<longrightarrow> generation_of s c = Some g \<and> g \<le> generations s)
     \<and> (\<forall>c n r g. phase_of s c = Some (Sending n r g) \<longrightarrow> generation_of s c = Some g \<and> g \<le> generations s)"

lemma link_step: "ipc_step s s' \<Longrightarrow> link_ok s \<Longrightarrow> link_ok s'"
proof (induction rule: ipc_step.induct)
  case (step_register s c n g r)
  have g: "g = generations s" using step_register by (simp add: link_ok_def)
  show ?case using step_register.prems step_register.hyps unfolding link_ok_def g by (auto split: if_splits)
next
  case (step_dropped s c n g)
  then have "generation_of s c = Some g" "g \<le> generations s" by (auto simp: link_ok_def)
  then show ?case using step_dropped unfolding link_ok_def by (auto split: if_splits)
next
  case (step_closed s sock)
  then show ?case unfolding link_ok_def by (auto split: if_splits option.splits)
qed (unfold link_ok_def; auto simp: le_Suc_eq split: if_splits)+

text \<open>A call that is being sent or waits without a message is in the table, and the reader of its connection runs.\<close>

definition served :: "link \<Rightarrow> bool" where
  "served s \<longleftrightarrow> (\<forall>c p r. phase_of s c = Some p \<longrightarrow> in_flight p r \<longrightarrow> inbox_of s c = None \<longrightarrow>
     (r, c) \<in> set (pending s) \<and> (\<exists>g \<in> readers s. generation_of s c = Some g))"

lemma servedD: "served s \<Longrightarrow> phase_of s c = Some p \<Longrightarrow> in_flight p r \<Longrightarrow> inbox_of s c = None \<Longrightarrow>
    (r, c) \<in> set (pending s) \<and> (\<exists>g \<in> readers s. generation_of s c = Some g)"
  by (simp add: served_def)

lemma served_drop:
  assumes "served s" "phase_of s c = Some p" "in_flight p r" "inbox_of (drop_connection sock gen s) c = None"
  shows "(r, c) \<in> set (pending (drop_connection sock gen s)) \<and> (\<exists>g \<in> readers s. generation_of s c = Some g \<and> gen \<noteq> Some g)"
proof -
  have i: "inbox_of s c = None" and d: "\<nexists>r. (r, c) \<in> set (pending s) \<and> (gen = None \<or> generation_of s c = gen)"
    using assms(2,4) by (auto split: if_splits)
  have "(r, c) \<in> set (pending s)" "\<exists>g \<in> readers s. generation_of s c = Some g"
    using servedD [OF assms(1-3) i] by simp_all
  moreover from this d have "\<not> doomed gen s (r, c)" "generation_of s c \<noteq> gen" by (auto simp: doomed_def)
  ultimately show ?thesis by auto
qed

lemma served_step: "ipc_step s s' \<Longrightarrow> table_ok s \<Longrightarrow> link_ok s \<Longrightarrow> served s \<Longrightarrow> served s'"
proof (induction rule: ipc_step.induct)
  case (step_register s c n g r)
  then show ?case unfolding served_def link_ok_def by (auto split: if_splits)
next
  case (step_send_failed s c n r g)
  then show ?case using table_entry [OF step_send_failed.prems(1) step_send_failed.hyps, of r]
    unfolding served_def by (auto split: if_splits)
next
  case (step_receive g s r a)
  then show ?case using table_okD(1) [OF step_receive.prems(1)]
    unfolding served_def by (auto split: if_splits simp: map_of_eq_Some_iff)
next
  case (step_answered s c r m)
  then show ?case using table_entry [OF step_answered.prems(1) step_answered.hyps(1), of r]
    unfolding served_def by (auto split: if_splits)
next
  case (step_timeout s c r)
  then show ?case using table_entry [OF step_timeout.prems(1) step_timeout.hyps(1), of r]
    unfolding served_def by (auto split: if_splits)
next
  case (step_dropped s c n g)
  show ?case
    using served_drop [OF step_dropped.prems(3), of _ _ _ "Some g" "generation_of s c"]
    unfolding served_def by (simp del: views_drop(3)) (fastforce split: if_splits)
next
  case (step_reader_ends g s)
  let ?s = "s\<lparr>readers := readers s - {g}\<rparr>"
  have "doomed gen ?s = doomed gen s" for gen by (simp add: doomed_def fun_eq_iff)
  then have same: "pending (drop_connection (Some g) (Some g) ?s) = pending (drop_connection (Some g) (Some g) s)" by simp
  have inbox: "inbox_of (drop_connection (Some g) (Some g) ?s) c = inbox_of (drop_connection (Some g) (Some g) s) c" for c by auto
  show ?case unfolding served_def same inbox
    using served_drop [OF step_reader_ends.prems(3), of _ _ _ "Some g" "Some g"]
    by (simp del: views_drop(3) fields_drop_connection(1)) blast
next
  case (step_closed s sock)
  have "served (s\<lparr>closing := None\<rparr>)" using step_closed.prems(3) by (simp add: served_def)
  from served_drop [OF this, of _ _ _ sock None] show ?case
    unfolding served_def by (simp del: views_drop(3))
qed (unfold served_def; auto split: if_splits)+

lemma reach_ok: "ipc_reach s \<Longrightarrow> table_ok s \<and> history_ok s \<and> link_ok s \<and> served s"
proof (induction rule: ipc_reach.induct)
  case ipc_start
  have "phase_of new_link = (\<lambda>_. None)" "inbox_of new_link = (\<lambda>_. None)"
    by (simp_all add: new_link_def phase_of_def inbox_of_def fun_eq_iff)
  then show ?case by (simp add: table_ok_def history_ok_def link_ok_def served_def) (simp add: new_link_def)
qed (blast intro: table_step history_step link_step served_step)

section \<open>Properties\<close>

definition runs :: "link \<Rightarrow> nat \<Rightarrow> (nat \<times> reply) set" where
  "runs s c = {(r, a) \<in> executed s. (r, c) \<in> drawn s}"

text \<open>
  C10. In every interleaving of callers, readers, reconnects, deadlines and \<open>close\<close>, the server runs the request of a call at
  most once, although the call may be tried twice. A call that returns an answer returns the answer of
  that run and of no other. A call that ends with the service unreachable, unauthorized or disconnected never had a
  request sent, so it can be repeated safely.
\<close>

theorem ipc_calls_exact:
  assumes "ipc_reach s"
  shows "(\<exists>x. runs s c \<subseteq> {x}) \<and>
    (case phase_of s c of
       Some (Finished (Answered a)) \<Rightarrow> (\<exists>r. runs s c = {(r, a)})
     | Some (Finished x) \<Rightarrow> if x \<in> {Disconnected, Unreachable, Unauthorized} then runs s c = {} \<and> {r \<in> sent s. (r, c) \<in> drawn s} = {} else True
     | _ \<Rightarrow> True)"
proof -
  have h: "history_ok s" using reach_ok [OF assms] by simp
  have one: "(r', a') = (r, a)" if "(r, a) \<in> runs s c" "(r', a') \<in> runs s c" for r a r' a'
    using that history_okD(2,7,8) [OF h] by (auto simp: runs_def) metis+
  have "\<exists>x. runs s c \<subseteq> {x}"
  proof (cases "runs s c = {}")
    case False
    then obtain x where "x \<in> runs s c" by blast
    then have "runs s c \<subseteq> {x}" using one by (cases x) auto
    then show ?thesis by blast
  qed simp
  moreover have "\<exists>r. runs s c = {(r, a)}" if p: "phase_of s c = Some (Finished (Answered a))" for a
  proof -
    obtain r where "(r, a) \<in> runs s c" using history_okD(10) [OF h p] by (auto simp: runs_def)
    then have "runs s c = {(r, a)}" using one by auto
    then show ?thesis by blast
  qed
  moreover have "runs s c = {} \<and> {r \<in> sent s. (r, c) \<in> drawn s} = {}"
    if "phase_of s c = Some (Finished x)" "x \<in> {Disconnected, Unreachable, Unauthorized}" for x
    using history_okD(1) [OF h _ _ that(1)] that(2) history_okD(7) [OF h] by (auto simp: runs_def)
  ultimately show ?thesis by (auto split: option.split phase.split call_result.split)
qed

text \<open>
  C15. No call is left waiting for nothing, and none is failed by a connection it is not on. A call that waits without a
  message is in the table and the reader of its connection runs: its answer is delivered to it whenever it
  is received, and the end of that reader is delivered as a failure. The table holds calls in progress only. A call
  receives a failure only by \<open>close\<close> or when the connection it is registered on is given up.
\<close>

theorem ipc_no_call_stranded:
  assumes "ipc_reach s"
  shows "(case phase_of s c of
       Some (Waiting r) \<Rightarrow>
         (if inbox_of s c = None
          then (\<exists>g. generation_of s c = Some g \<and> g \<in> readers s \<and> inbox_of (drop_connection (Some g) (Some g) s) c = Some Lost)
            \<and> (\<forall>a. inbox_of (resolve r a s) c = Some (Response r a))
          else True)
     | _ \<Rightarrow> True)
    \<and> fst ` {e \<in> set (pending s). snd e = c} \<subseteq> {r. \<exists>n g. phase_of s c \<in> {Some (Sending n r g), Some (Waiting r)}}
    \<and> (\<forall>s'. if ipc_step s s' \<and> inbox_of s c \<noteq> Some Lost \<and> inbox_of s' c = Some Lost
            then stopped s' \<or> generation_of s c \<in> Some ` retired s' else True)"
proof -
  have inv: "table_ok s" "history_ok s" "link_ok s" "served s" using reach_ok [OF assms] by simp_all
  have "(\<exists>g. generation_of s c = Some g \<and> g \<in> readers s \<and> inbox_of (drop_connection (Some g) (Some g) s) c = Some Lost)
      \<and> (\<forall>a. inbox_of (resolve r a s) c = Some (Response r a))" if "phase_of s c = Some (Waiting r)" "inbox_of s c = None" for r
    using servedD [OF inv(4) that(1) _ that(2), of r] that table_okD(1) [OF inv(1)] by (auto simp: map_of_eq_Some_iff)
  moreover have "fst ` {e \<in> set (pending s). snd e = c} \<subseteq> {r. \<exists>n g. phase_of s c \<in> {Some (Sending n r g), Some (Waiting r)}}"
    using table_okD(2) [OF inv(1)] by (force simp: in_flight_def split: phase.splits)
  moreover have "stopped s' \<or> generation_of s c \<in> Some ` retired s'"
    if "ipc_step s s'" "inbox_of s c \<noteq> Some Lost" "inbox_of s' c = Some Lost" for s'
    using that inv(3)
  proof (cases rule: ipc_step.cases)
    case (step_dropped d n g)
    then show ?thesis using that inv(3) by (auto simp: link_ok_def split: if_splits)
  next
    case (step_closed sock)
    then show ?thesis using inv(3) by (auto simp: link_ok_def)
  qed (auto split: if_splits)
  ultimately show ?thesis by (simp split: option.split phase.split)
qed

section \<open>A failure that outlives its connection\<close>

text \<open>A run of one call, up to the request it has on the first connection.\<close>

definition run_up :: link where "run_up = install new_link"
definition run_call :: link where "run_call = run_up\<lparr>calls := (calls run_up)(0 := Some new_call)\<rparr>"
definition run_sending :: link where "run_sending = go 0 (Sending 1 0 1) (register_call 0 0 (go 0 (Registering 1) run_call))"

lemma run_sending_reach: "ipc_reach run_sending"
proof -
  have "ipc_reach run_up" unfolding run_up_def by (rule ipc_next [OF ipc_start], rule step_connect) (simp_all add: new_link_def)
  then have "ipc_reach run_call" unfolding run_call_def
    by (rule ipc_next, intro step_call) (simp add: run_up_def install_def new_link_def)
  then have "ipc_reach (go 0 (Registering 1) run_call)"
    by (rule ipc_next, intro step_up) (simp_all add: run_call_def run_up_def)
  then show ?thesis unfolding run_sending_def
    by (rule ipc_next, intro step_register) (simp_all add: run_call_def run_up_def, simp_all add: new_link_def install_def)
qed

lemma run_sending_views [simp]:
  "phase_of run_sending 0 = Some (Sending 1 0 1)" "generation_of run_sending 0 = Some 1" "inbox_of run_sending 0 = None"
  "pending run_sending = [(0, 0)]" "drawn run_sending = {(0, 0)}" "socket run_sending = Some 1" "online run_sending" "generations run_sending = 1"
  "readers run_sending = {1}" "lock run_sending = None" "retired run_sending = {}" "stopped run_sending = False" "sent run_sending = {}"
  "auth_failed run_sending = False" "connect_failed run_sending = False" "requests run_sending = {}" "executed run_sending = {}"
  "responses run_sending = {}"
  by (simp_all add: run_sending_def run_call_def run_up_def; simp add: new_link_def)+

text \<open>The first connection dies; its reader fails the call before the caller sees its send fail. The second attempt is sent.\<close>

definition run_lost :: link where "run_lost = drop_connection (Some 1) (Some 1) (run_sending\<lparr>readers := readers run_sending - {1}\<rparr>)"
definition run_dropping :: link where "run_dropping = go 0 (Dropping 1 1) (unregister 0 run_lost)"
definition run_again :: link where
  "run_again = go 0 (Ensure 2) (drop_connection (Some 1) (generation_of run_dropping 0) run_dropping)"
definition run_locked :: link where "run_locked = go 0 (Connecting 2) (run_again\<lparr>lock := Some 0\<rparr>)"
definition run_linked :: link where "run_linked = go 0 (Registering 2) ((install run_locked)\<lparr>lock := None\<rparr>)"
definition run_resending :: link where "run_resending = go 0 (Sending 2 1 2) (register_call 0 1 run_linked)"
definition run_resent :: link where
  "run_resent = go 0 (Waiting 1) (run_resending\<lparr>requests := insert (2, 1) (requests run_resending), sent := insert 1 (sent run_resending)\<rparr>)"
definition run_executed :: "reply \<Rightarrow> link" where
  "run_executed a = run_resent\<lparr>requests := requests run_resent - {(2, 1)}, responses := insert (2, 1, a) (responses run_resent),
     executed := insert (1, a) (executed run_resent)\<rparr>"
definition run_failed :: "reply \<Rightarrow> link" where
  "run_failed a = go 0 (Finished (result_of Lost)) (forget_call 1 0 (run_executed a))"

lemmas run_defs = run_lost_def run_dropping_def run_again_def run_locked_def run_linked_def run_resending_def run_resent_def run_executed_def
  run_failed_def

lemma generation_readers [simp]: "doomed gen (s\<lparr>readers := R\<rparr>) = doomed gen s"
  by (simp add: doomed_def fun_eq_iff)

lemma run_failed_reach: "ipc_reach (run_failed a)"
proof -
  have "ipc_reach run_lost" unfolding run_lost_def by (rule ipc_next [OF run_sending_reach], rule step_reader_ends) simp_all
  then have "ipc_reach run_dropping" unfolding run_dropping_def
    by (rule ipc_next, intro step_send_failed) (simp add: run_defs)
  then have "ipc_reach run_again" unfolding run_again_def
    by (rule ipc_next [of run_dropping], intro step_dropped [of _ _ 1, simplified]) (simp_all add: run_defs)
  then have "ipc_reach run_locked" unfolding run_locked_def
    by (rule ipc_next, intro step_lock) (simp_all add: run_defs)
  then have "ipc_reach run_linked" unfolding run_linked_def
    by (rule ipc_next, intro step_connected) (simp add: run_defs)
  then have "ipc_reach run_resending" unfolding run_resending_def
    by (rule ipc_next, intro step_register) (simp_all add: run_defs)
  then have "ipc_reach run_resent" unfolding run_resent_def
    by (rule ipc_next, intro step_sent) (simp add: run_defs)
  then have "ipc_reach (run_executed a)" unfolding run_executed_def
    by (rule ipc_next, intro step_dispatch) (simp add: run_defs)
  then show ?thesis unfolding run_failed_def
    by (rule ipc_next, intro step_answered) (simp_all add: run_defs doomed_def)
qed

text \<open>
  C39. A failure can outlive its connection. The object a caller waits on is shared by its two attempts and is
  never cleared: when the reader of a dying connection fails the call before the caller notices that
  its send failed, the second attempt is sent on a new connection and may be run by the server, but the caller
  takes the failure of the first attempt at once. The call then ends with a lost link although the only connection its
  request was ever sent on is up, has its reader, was never given up, and the request was executed on it.
\<close>

theorem ipc_stale_failure:
  "\<exists>s c g. ipc_reach s \<and> phase_of s c = Some (Finished Link_lost) \<and> generation_of s c = Some g \<and> runs s c = {(1, a)}
    \<and> online s \<and> socket s = Some g \<and> g \<in> readers s \<and> g \<notin> retired s \<and> \<not> stopped s"
proof -
  have "phase_of (run_failed a) 0 = Some (Finished Link_lost)" "generation_of (run_failed a) 0 = Some 2"
    "runs (run_failed a) 0 = {(1, a)}" "online (run_failed a)" "socket (run_failed a) = Some 2"
    "2 \<in> readers (run_failed a)" "2 \<notin> retired (run_failed a)" "\<not> stopped (run_failed a)"
    by (auto simp: run_defs result_of_def runs_def)
  then show ?thesis using run_failed_reach by blast
qed

section \<open>Witnesses\<close>

definition run_waiting :: link where
  "run_waiting = go 0 (Waiting 0) (run_sending\<lparr>requests := insert (1, 0) (requests run_sending), sent := insert 0 (sent run_sending)\<rparr>)"
definition run_served :: "reply \<Rightarrow> link" where
  "run_served a = run_waiting\<lparr>requests := requests run_waiting - {(1, 0)}, responses := insert (1, 0, a) (responses run_waiting),
     executed := insert (0, a) (executed run_waiting)\<rparr>"
definition run_received :: "reply \<Rightarrow> link" where
  "run_received a = resolve 0 a ((run_served a)\<lparr>responses := responses (run_served a) - {(1, 0, a)}\<rparr>)"
definition run_answered :: "reply \<Rightarrow> link" where
  "run_answered a = go 0 (Finished (result_of (Response 0 a))) (forget_call 0 0 (run_received a))"

lemmas run_answer_defs = run_waiting_def run_served_def run_received_def run_answered_def

lemma run_waiting_reach: "ipc_reach run_waiting"
  unfolding run_waiting_def by (rule ipc_next [OF run_sending_reach], intro step_sent) simp

lemma run_answered_reach: "ipc_reach (run_answered a)"
proof -
  have "ipc_reach (run_served a)" unfolding run_served_def by (rule ipc_next [OF run_waiting_reach], intro step_dispatch) (simp add: run_waiting_def)
  then have "ipc_reach (run_received a)" unfolding run_received_def
    by (rule ipc_next, intro step_receive) (simp_all add: run_answer_defs)
  then show ?thesis unfolding run_answered_def by (rule ipc_next, intro step_answered) (simp_all add: run_answer_defs)
qed

theorem ipc_calls_exact_witness:
  "phase_of (run_answered (Result PNone)) 0 = Some (Finished (Answered (Result PNone)))
    \<and> (\<exists>r. runs (run_answered (Result PNone)) 0 = {(r, Result PNone)})"
proof -
  have "phase_of (run_answered (Result PNone)) 0 = Some (Finished (Answered (Result PNone)))" by (simp add: run_answer_defs result_of_def)
  then show ?thesis using ipc_calls_exact [OF run_answered_reach, of "Result PNone" 0] by simp
qed

theorem ipc_no_call_stranded_witness:
  "phase_of run_waiting 0 = Some (Waiting 0) \<and> inbox_of (resolve 0 (Result PNone) run_waiting) 0 = Some (Response 0 (Result PNone))"
proof -
  have "phase_of run_waiting 0 = Some (Waiting 0)" "inbox_of run_waiting 0 = None" by (simp_all add: run_waiting_def)
  then show ?thesis using ipc_no_call_stranded [OF run_waiting_reach, of 0] by (simp del: views_resolve)
qed

end
