(* ===== verification/Auth_Limiter.thy ===== *)
theory Auth_Limiter
  imports Py_Values Event_Windows "HOL-Library.AList"
begin

text \<open>
  The failed-authentication limiter of \<^verbatim>\<open>auth.py\<close> (\<open>AuthRateLimiter\<close>) and the gate that uses it
  (\<open>_guard_request_auth\<close> of \<^verbatim>\<open>app.py\<close>). The table of sources is an association list in insertion
  order, as the dictionary keeps it. Clock readings and lockouts are rationals; the doubling of the
  lockout leaves the floating-point range at the 1025th strike, where Python raises.
\<close>

section \<open>State\<close>

record limiter =
  lim_window :: rat
  lim_threshold :: nat
  lim_base_lockout :: rat
  lim_max_lockout :: rat
  lim_max_clients :: nat

definition new_limiter :: "rat \<Rightarrow> int \<Rightarrow> rat \<Rightarrow> rat \<Rightarrow> int \<Rightarrow> limiter" where
  "new_limiter window_seconds threshold base_lockout max_lockout max_clients =
     \<lparr>lim_window = max 1 window_seconds,
      lim_threshold = nat (max 1 threshold),
      lim_base_lockout = max 1 base_lockout,
      lim_max_lockout = max (max 1 base_lockout) max_lockout,
      lim_max_clients = nat (max 1 max_clients)\<rparr>"

record lim_entry =
  le_failures :: "time list"
  le_blocked_until :: time
  le_strikes :: nat
  le_seen_at :: time

type_synonym lim_clients = "(ustr \<times> lim_entry) list"

definition client_key :: "ustr option \<Rightarrow> ustr" where
  "client_key client =
     (let s = strip (case client of None \<Rightarrow> [] | Some c \<Rightarrow> c) in if s = [] then U ''unknown'' else s)"

section \<open>Eviction\<close>

definition entry_stale :: "limiter \<Rightarrow> time \<Rightarrow> lim_entry \<Rightarrow> bool" where
  "entry_stale cfg now e \<longleftrightarrow>
     le_blocked_until e \<le> now \<and> (le_failures e = [] \<or> last (le_failures e) \<le> now - lim_window cfg)"

text \<open>\<open>min\<close> over the keys: the first entry with the smallest \<open>seen_at\<close>.\<close>

fun oldest :: "ustr \<times> lim_entry \<Rightarrow> lim_clients \<Rightarrow> ustr \<times> lim_entry" where
  "oldest best [] = best"
| "oldest best (x # xs) = oldest (if le_seen_at (snd x) < le_seen_at (snd best) then x else best) xs"

lemma oldest_in: "oldest b xs \<in> set (b # xs)"
  by (induction b xs rule: oldest.induct) (auto split: if_splits)

lemma delete_shrinks: "x \<in> set xs \<Longrightarrow> length (AList.delete (fst x) xs) < length xs"
  unfolding AList.delete_eq by (rule length_filter_less) auto

function drop_oldest :: "nat \<Rightarrow> lim_clients \<Rightarrow> lim_clients" where
  "drop_oldest max_clients cl =
     (case cl of [] \<Rightarrow> []
      | c # cs \<Rightarrow> if length cl \<ge> max_clients then drop_oldest max_clients (AList.delete (fst (oldest c cs)) cl) else cl)"
  by pat_completeness auto

termination drop_oldest
  by (relation "measure (length \<circ> snd)") (use delete_shrinks [OF oldest_in] in simp_all)

declare drop_oldest.simps [simp del]

definition limiter_evict :: "limiter \<Rightarrow> time \<Rightarrow> lim_clients \<Rightarrow> lim_clients" where
  "limiter_evict cfg now cl =
     (if length cl < lim_max_clients cfg then cl
      else drop_oldest (lim_max_clients cfg) (filter (\<lambda>(k, e). \<not> entry_stale cfg now e) cl))"

section \<open>Operations\<close>

definition new_entry :: "time \<Rightarrow> lim_entry" where
  "new_entry now = \<lparr>le_failures = [], le_blocked_until = 0, le_strikes = 0, le_seen_at = now\<rparr>"

definition limiter_entry :: "limiter \<Rightarrow> ustr \<Rightarrow> time \<Rightarrow> lim_clients \<Rightarrow> lim_clients \<times> lim_entry" where
  "limiter_entry cfg key now cl =
     (case map_of cl key of
        None \<Rightarrow> (limiter_evict cfg now cl, new_entry now)
      | Some e \<Rightarrow> (cl, e\<lparr>le_seen_at := now\<rparr>))"

definition limiter_check :: "bool \<Rightarrow> ustr option \<Rightarrow> time \<Rightarrow> lim_clients \<Rightarrow> lim_clients \<times> bool \<times> rat" where
  "limiter_check enabled client now cl =
     (if \<not> enabled then (cl, True, 0)
      else case map_of cl (client_key client) of
        None \<Rightarrow> (cl, True, 0)
      | Some e \<Rightarrow>
          let cl' = AList.update (client_key client) (e\<lparr>le_seen_at := now\<rparr>) cl; remaining = le_blocked_until e - now in
          if remaining > 0 then (cl', False, remaining) else (cl', True, 0))"

text \<open>The largest power of two a float can hold is \<open>2 ^ 1023\<close>; multiplying by a larger one raises.\<close>

definition backoff :: "limiter \<Rightarrow> nat \<Rightarrow> pyexc + rat" where
  "backoff cfg strikes =
     (if strikes - 1 \<ge> 1024 then Inl OverflowError
      else Inr (min (lim_base_lockout cfg * 2 ^ (strikes - 1)) (lim_max_lockout cfg)))"

text \<open>What \<open>register_failure\<close> does to the entry of its source.\<close>

definition failure_step :: "limiter \<Rightarrow> time \<Rightarrow> lim_entry \<Rightarrow> lim_entry \<times> (pyexc + rat)" where
  "failure_step cfg now e =
     (let failures = dropWhile (\<lambda>t. t \<le> now - lim_window cfg) (le_failures e @ [now]);
          e1 = e\<lparr>le_failures := failures\<rparr> in
      if length failures < lim_threshold cfg then (e1, Inr 0)
      else
        let e2 = e1\<lparr>le_strikes := le_strikes e1 + 1\<rparr> in
        (case backoff cfg (le_strikes e2) of
           Inl err \<Rightarrow> (e2, Inl err)
         | Inr lockout \<Rightarrow> (e2\<lparr>le_blocked_until := now + lockout, le_failures := []\<rparr>, Inr lockout)))"

definition register_failure :: "limiter \<Rightarrow> bool \<Rightarrow> ustr option \<Rightarrow> time \<Rightarrow> lim_clients \<Rightarrow> lim_clients \<times> (pyexc + rat)" where
  "register_failure cfg enabled client now cl =
     (if \<not> enabled then (cl, Inr 0)
      else
        let key = client_key client; (cl1, e) = limiter_entry cfg key now cl; (e', res) = failure_step cfg now e in
        (AList.update key e' cl1, res))"

definition register_success :: "bool \<Rightarrow> ustr option \<Rightarrow> lim_clients \<Rightarrow> lim_clients" where
  "register_success enabled client cl = (if \<not> enabled then cl else AList.delete (client_key client) cl)"

definition blocked_for :: "bool \<Rightarrow> ustr option \<Rightarrow> time \<Rightarrow> lim_clients \<Rightarrow> lim_clients \<times> rat" where
  "blocked_for enabled client now cl =
     (case limiter_check enabled client now cl of (cl', allowed, retry_after) \<Rightarrow> (cl', if allowed then 0 else retry_after))"

definition blocked_clients :: "time \<Rightarrow> lim_clients \<Rightarrow> nat" where
  "blocked_clients now cl = length (filter (\<lambda>(k, e). le_blocked_until e > now) cl)"

section \<open>The gate\<close>

text \<open>
  A request brings the two clock readings it may take, its source address and what checking its
  credential gives (\<open>Inl\<close>: the check raised). \<open>Refused\<close> is the 401 answer, \<open>Limited\<close> the 429 answer
  with its \<open>Retry-After\<close>, \<open>Raised\<close> an exception that leaves the gate.
\<close>

datatype gate_answer = Admitted | Refused rat | Limited int | Raised pyexc

record gate_request =
  gr_check_at :: time
  gr_register_at :: time
  gr_client :: "ustr option"
  gr_credential :: "pyexc + bool"

definition retry_seconds :: "rat \<Rightarrow> int" where
  "retry_seconds retry_after = max 1 (trunc_rat (retry_after + 999 / 1000))"

definition guard_request_auth :: "limiter \<Rightarrow> bool \<Rightarrow> bool \<Rightarrow> gate_request \<Rightarrow> lim_clients \<Rightarrow> lim_clients \<times> gate_answer" where
  "guard_request_auth cfg enabled require_auth rq cl =
     (if \<not> require_auth then (cl, Admitted)
      else case gr_credential rq of
        Inl err \<Rightarrow> (cl, Raised err)
      | Inr True \<Rightarrow> (register_success enabled (gr_client rq) cl, Admitted)
      | Inr False \<Rightarrow>
          (case limiter_check enabled (gr_client rq) (gr_check_at rq) cl of (cl1, allowed, retry_after) \<Rightarrow>
            if \<not> allowed then (cl1, Limited (retry_seconds retry_after))
            else (case register_failure cfg enabled (gr_client rq) (gr_register_at rq) cl1 of
                (cl2, Inl err) \<Rightarrow> (cl2, Raised err)
              | (cl2, Inr lockout) \<Rightarrow> (cl2, Refused lockout))))"

fun gate_run :: "limiter \<Rightarrow> bool \<Rightarrow> lim_clients \<Rightarrow> gate_request list \<Rightarrow> lim_clients \<times> gate_answer list" where
  "gate_run cfg require_auth cl [] = (cl, [])"
| "gate_run cfg require_auth cl (rq # rqs) =
     (case guard_request_auth cfg True require_auth rq cl of (cl1, a) \<Rightarrow>
       (case gate_run cfg require_auth cl1 rqs of (cl2, ans) \<Rightarrow> (cl2, a # ans)))"

text \<open>When the source \<open>k\<close> was answered 401.\<close>

definition refusal_times :: "ustr \<Rightarrow> gate_request list \<Rightarrow> gate_answer list \<Rightarrow> time list" where
  "refusal_times k rqs ans =
     map (\<lambda>(rq, a). gr_register_at rq) (filter (\<lambda>(rq, a). client_key (gr_client rq) = k \<and> (\<exists>l. a = Refused l)) (zip rqs ans))"

section \<open>The table stays bounded\<close>

definition limiter_ok :: "limiter \<Rightarrow> bool" where
  "limiter_ok cfg \<longleftrightarrow> lim_window cfg \<ge> 1 \<and> lim_threshold cfg \<ge> 1 \<and> lim_base_lockout cfg \<ge> 1
     \<and> lim_max_lockout cfg \<ge> lim_base_lockout cfg \<and> lim_max_clients cfg \<ge> 1"

lemma new_limiter_ok: "limiter_ok (new_limiter w t b m c)"
  by (auto simp: limiter_ok_def new_limiter_def)

definition table_ok :: "limiter \<Rightarrow> lim_clients \<Rightarrow> bool" where
  "table_ok cfg cl \<longleftrightarrow> distinct (map fst cl) \<and> length cl \<le> lim_max_clients cfg"

lemma distinct_delete: "distinct (map fst cl) \<Longrightarrow> distinct (map fst (AList.delete k cl))"
  by (rule AList.distinct_delete)

lemma distinct_filter_fst: "distinct (map fst cl) \<Longrightarrow> distinct (map fst (filter P cl))"
  by (induction cl) auto

lemma length_update_in: "map_of cl k = Some e \<Longrightarrow> length (AList.update k v cl) = length cl"
  by (induction cl) (auto split: if_splits)

lemma length_update_le: "length (AList.update k v cl) \<le> Suc (length cl)"
  by (induction cl) auto

lemma drop_oldest_facts:
  "distinct (map fst cl) \<Longrightarrow> m \<ge> 1 \<Longrightarrow>
     distinct (map fst (drop_oldest m cl)) \<and> length (drop_oldest m cl) < m"
proof (induction m cl rule: drop_oldest.induct)
  case (1 m cl)
  show ?case
  proof (cases cl)
    case (Cons c cs)
    show ?thesis
    proof (cases "length cl \<ge> m")
      case True
      from 1(1) [OF Cons True distinct_delete [OF 1(2)] 1(3)] show ?thesis
        by (subst (1 2) drop_oldest.simps) (use Cons True in simp)
    qed (use 1(2) Cons in \<open>subst (1 2) drop_oldest.simps, simp\<close>)
  qed (use 1(3) in \<open>simp add: drop_oldest.simps\<close>)
qed

lemma evict_room:
  "limiter_ok cfg \<Longrightarrow> table_ok cfg cl \<Longrightarrow>
     distinct (map fst (limiter_evict cfg now cl)) \<and> length (limiter_evict cfg now cl) < lim_max_clients cfg"
  using drop_oldest_facts [of "filter (\<lambda>(k, e). \<not> entry_stale cfg now e) cl" "lim_max_clients cfg"]
  by (auto simp: limiter_evict_def table_ok_def limiter_ok_def distinct_filter_fst)

lemma check_ok: "table_ok cfg cl \<Longrightarrow> limiter_check en c now cl = (cl', r) \<Longrightarrow> table_ok cfg cl'"
  by (auto simp: limiter_check_def table_ok_def Let_def length_update_in intro: AList.distinct_update
      split: if_splits option.splits)

lemma entry_room:
  assumes "limiter_ok cfg" "table_ok cfg cl" "limiter_entry cfg key now cl = (cl1, e)"
  shows "table_ok cfg (AList.update key v cl1)"
proof (cases "map_of cl key")
  case None
  then show ?thesis using evict_room [OF assms(1,2), of now] assms(3) length_update_le [of key v cl1]
    by (auto simp: limiter_entry_def table_ok_def intro: AList.distinct_update)
next
  case (Some e0)
  then show ?thesis using assms(2,3) by (auto simp: limiter_entry_def table_ok_def length_update_in intro: AList.distinct_update)
qed

lemma failure_ok:
  assumes "limiter_ok cfg" "table_ok cfg cl" "register_failure cfg en c now cl = (cl', r)"
  shows "table_ok cfg cl'"
proof -
  obtain cl1 e where e: "limiter_entry cfg (client_key c) now cl = (cl1, e)" by (cases "limiter_entry cfg (client_key c) now cl")
  show ?thesis using assms(2,3) entry_room [OF assms(1,2) e]
    by (auto simp: register_failure_def Let_def e split: if_splits prod.splits)
qed

lemma success_ok: "table_ok cfg cl \<Longrightarrow> table_ok cfg (register_success en c cl)"
  using AList.length_delete_le [of "client_key c" cl]
  by (auto simp: register_success_def table_ok_def intro: distinct_delete)

lemma guard_cases:
  assumes "guard_request_auth cfg en ra rq cl = (cl', a)"
  obtains (disabled) "\<not> ra" "cl' = cl" "a = Admitted"
  | (broken) err where "ra" "gr_credential rq = Inl err" "cl' = cl" "a = Raised err"
  | (valid) "ra" "gr_credential rq = Inr True" "cl' = register_success en (gr_client rq) cl" "a = Admitted"
  | (limited) r where "ra" "gr_credential rq = Inr False" "limiter_check en (gr_client rq) (gr_check_at rq) cl = (cl', False, r)"
      "a = Limited (retry_seconds r)"
  | (counted) cl1 r res where "ra" "gr_credential rq = Inr False" "limiter_check en (gr_client rq) (gr_check_at rq) cl = (cl1, True, r)"
      "register_failure cfg en (gr_client rq) (gr_register_at rq) cl1 = (cl', res)"
      "a = (case res of Inl err \<Rightarrow> Raised err | Inr l \<Rightarrow> Refused l)"
proof (cases ra)
  case True
  show ?thesis
  proof (cases "gr_credential rq")
    case (Inl err)
    show ?thesis by (rule broken [of err]) (use assms True Inl in \<open>simp_all add: guard_request_auth_def\<close>)
  next
    case (Inr ok)
    obtain cl1 al r where c: "limiter_check en (gr_client rq) (gr_check_at rq) cl = (cl1, al, r)" by (rule prod_cases3)
    obtain cl2 res where f: "register_failure cfg en (gr_client rq) (gr_register_at rq) cl1 = (cl2, res)"
      by (cases "register_failure cfg en (gr_client rq) (gr_register_at rq) cl1")
    consider "ok" | "\<not> ok" "\<not> al" | "\<not> ok" "al" by blast
    then show ?thesis
    proof cases
      case 1
      show ?thesis by (rule valid) (use assms True Inr 1 in \<open>simp_all add: guard_request_auth_def\<close>)
    next
      case 2
      show ?thesis by (rule limited [of r]) (use assms True Inr 2 c in \<open>simp_all add: guard_request_auth_def\<close>)
    next
      case 3
      show ?thesis
        by (rule counted [of cl1 r res]) (use assms True Inr 3 c f in \<open>simp_all add: guard_request_auth_def split: sum.splits\<close>)
    qed
  qed
qed (use disabled assms in \<open>simp add: guard_request_auth_def\<close>)

lemma guard_ok:
  assumes "limiter_ok cfg" "table_ok cfg cl" "guard_request_auth cfg en ra rq cl = (cl', a)"
  shows "table_ok cfg cl'"
  using assms(3)
proof (cases rule: guard_cases)
  case (limited r)
  then show ?thesis using check_ok [OF assms(2)] by blast
next
  case (counted cl1 r res)
  then show ?thesis using check_ok [OF assms(2)] failure_ok [OF assms(1)] by blast
qed (use assms(2) success_ok in simp_all)

lemma gate_run_Cons:
  assumes "gate_run cfg ra cl (rq # rqs) = (cl', ans)"
  obtains cl1 a ans1 where "guard_request_auth cfg True ra rq cl = (cl1, a)" "gate_run cfg ra cl1 rqs = (cl', ans1)" "ans = a # ans1"
  using assms by (auto split: prod.splits)

lemma run_ok: "limiter_ok cfg \<Longrightarrow> table_ok cfg cl \<Longrightarrow> gate_run cfg ra cl rqs = (cl', ans) \<Longrightarrow> table_ok cfg cl'"
proof (induction rqs arbitrary: cl ans)
  case (Cons rq rqs)
  from Cons.prems(3) show ?case
    by (rule gate_run_Cons) (use Cons.IH Cons.prems(1) guard_ok [OF Cons.prems(1,2)] in blast)
qed simp

section \<open>Refusals are rate limited\<close>

text \<open>
  How the refusals \<open>A\<close> answered to a source so far sit in its entry: those up to its last lockout are
  at least a base lockout older than its end, the later ones are still queued while in the window.
\<close>

definition rate_inv :: "limiter \<Rightarrow> time \<Rightarrow> time list \<Rightarrow> lim_entry \<Rightarrow> bool" where
  "rate_inv cfg u0 A e \<longleftrightarrow> (\<forall>a \<in> set A. a \<le> u0) \<and> (le_strikes e < 1024 \<longrightarrow> length (le_failures e) < lim_threshold cfg)
     \<and> (\<exists>A1 A2. A = A1 @ A2 \<and> (\<forall>a \<in> set A1. a + lim_base_lockout cfg \<le> le_blocked_until e)
          \<and> (\<forall>c \<ge> u0 - lim_window cfg. length (filter ((<) c) A2) \<le> length (filter ((<) c) (le_failures e))))"

lemma rate_inv_seen [simp]: "rate_inv cfg u0 A (e\<lparr>le_seen_at := x\<rparr>) = rate_inv cfg u0 A e"
  by (simp add: rate_inv_def)

lemma rate_inv_later:
  assumes "rate_inv cfg u0 A e" "u0 \<le> t"
  shows "rate_inv cfg t A e"
proof -
  obtain A1 A2 where A: "A = A1 @ A2" "\<forall>a \<in> set A1. a + lim_base_lockout cfg \<le> le_blocked_until e"
    "\<forall>c \<ge> u0 - lim_window cfg. length (filter ((<) c) A2) \<le> length (filter ((<) c) (le_failures e))"
    using assms(1) unfolding rate_inv_def by blast
  have "\<forall>c \<ge> t - lim_window cfg. length (filter ((<) c) A2) \<le> length (filter ((<) c) (le_failures e))"
    using A(3) assms(2) by auto
  moreover have "\<forall>a \<in> set A. a \<le> t" using assms by (auto simp: rate_inv_def)
  ultimately show ?thesis using assms(1) A(1,2) unfolding rate_inv_def by blast
qed

lemma rate_inv_new: "limiter_ok cfg \<Longrightarrow> rate_inv cfg u0 [] (new_entry now)"
  by (auto simp: rate_inv_def limiter_ok_def new_entry_def)

lemma filter_dropWhile_le: "k \<le> c \<Longrightarrow> filter ((<) c) (dropWhile (\<lambda>t. t \<le> k) xs) = filter ((<) c) (xs :: time list)"
  by (induction xs) auto

lemma backoff_range: "limiter_ok cfg \<Longrightarrow> backoff cfg s = Inr l \<Longrightarrow> lim_base_lockout cfg \<le> l \<and> l \<le> lim_max_lockout cfg"
  by (auto simp: backoff_def limiter_ok_def min_def split: if_splits)

lemma rate_step:
  assumes ok: "limiter_ok cfg" and inv: "rate_inv cfg u0 A e" and u0: "u0 \<le> t" and unblocked: "A \<noteq> [] \<Longrightarrow> le_blocked_until e \<le> t"
    and step: "failure_step cfg t e = (e', res)"
  shows "case res of
      Inl err \<Rightarrow> rate_inv cfg t A e'
    | Inr l \<Rightarrow> rate_inv cfg t (A @ [t]) e' \<and> (l = 0 \<or> lim_base_lockout cfg \<le> l \<and> l \<le> lim_max_lockout cfg)
        \<and> (\<forall>w. w \<le> lim_window cfg \<longrightarrow> w \<le> lim_base_lockout cfg \<longrightarrow> length (filter ((<) (t - w)) (A @ [t])) \<le> lim_threshold cfg)"
proof -
  let ?q = "dropWhile (\<lambda>u. u \<le> t - lim_window cfg) (le_failures e @ [t])"
  obtain A1 A2 where A: "A = A1 @ A2" "\<forall>a \<in> set A1. a + lim_base_lockout cfg \<le> le_blocked_until e"
    "\<And>c. u0 - lim_window cfg \<le> c \<Longrightarrow> length (filter ((<) c) A2) \<le> length (filter ((<) c) (le_failures e))"
    and old: "\<forall>a \<in> set A. a \<le> u0" and few: "le_strikes e < 1024 \<Longrightarrow> length (le_failures e) < lim_threshold cfg"
    using inv unfolding rate_inv_def by blast
  have cnt: "length (filter ((<) c) (A2 @ [t])) \<le> length (filter ((<) c) ?q)"
    "length (filter ((<) c) A2) \<le> length (filter ((<) c) ?q)" if "t - lim_window cfg \<le> c" for c
    using A(3) [of c] u0 that by (auto simp: filter_dropWhile_le)
  have recent: "length (filter ((<) (t - w)) (A @ [t])) \<le> length ?q" if "w \<le> lim_window cfg" "w \<le> lim_base_lockout cfg" for w
  proof -
    have "filter ((<) (t - w)) A1 = []" using A(1,2) unblocked that(2) by (fastforce simp: filter_empty_conv)
    then have "length (filter ((<) (t - w)) (A @ [t])) \<le> length (filter ((<) (t - w)) ?q)"
      using cnt(1) [of "t - w"] that(1) by (simp add: A(1))
    then show ?thesis using length_filter_le [of "(<) (t - w)" ?q] by linarith
  qed
  have seen: "\<forall>a \<in> set (A @ [t]). a \<le> t" using old u0 by auto
  consider (under) "length ?q < lim_threshold cfg" | (over) "\<not> length ?q < lim_threshold cfg" by blast
  then show ?thesis
  proof cases
    case under
    have r: "e' = e\<lparr>le_failures := ?q\<rparr>" "res = Inr 0" using step under by (simp_all add: failure_step_def Let_def)
    have "rate_inv cfg t (A @ [t]) e'"
      unfolding rate_inv_def using seen under cnt(1) A(1,2) by (intro conjI exI [of _ A1] exI [of _ "A2 @ [t]"]) (auto simp: r)
    then show ?thesis using r under recent by fastforce
  next
    case over
    show ?thesis
    proof (cases "le_strikes e < 1024")
      case True
      then obtain l where l: "backoff cfg (le_strikes e + 1) = Inr l" by (auto simp: backoff_def)
      have r: "e' = e\<lparr>le_failures := [], le_strikes := le_strikes e + 1, le_blocked_until := t + l\<rparr>" "res = Inr l"
        using step over l by (auto simp: failure_step_def Let_def)
      have b: "lim_base_lockout cfg \<le> l" "l \<le> lim_max_lockout cfg" using backoff_range [OF ok l] by auto
      have "\<forall>a \<in> set (A @ [t]). a + lim_base_lockout cfg \<le> le_blocked_until e'"
        using seen b(1) by (fastforce simp: r)
      moreover have "length (le_failures e') < lim_threshold cfg" using ok by (simp add: r limiter_ok_def)
      ultimately have "rate_inv cfg t (A @ [t]) e'"
        using seen unfolding rate_inv_def by (metis append_Nil2 filter.simps(1) le_zero_eq list.size(3) zero_le)
      moreover have "length ?q \<le> lim_threshold cfg"
        using few [OF True] length_dropWhile_le [of "\<lambda>u. u \<le> t - lim_window cfg" "le_failures e @ [t]"] by simp
      ultimately show ?thesis using r b recent by fastforce
    next
      case False
      have r: "e' = e\<lparr>le_failures := ?q, le_strikes := le_strikes e + 1\<rparr>" "res = Inl OverflowError"
        using step over False by (simp_all add: failure_step_def Let_def backoff_def)
      have "rate_inv cfg t A e'"
        unfolding rate_inv_def using seen False cnt(2) A(1,2) by (intro conjI exI [of _ A1] exI [of _ A2]) (auto simp: r)
      then show ?thesis by (simp add: r)
    qed
  qed
qed

text \<open>While no more sources than the table holds are seen, nothing is ever evicted.\<close>

definition entry_of :: "lim_clients \<Rightarrow> ustr \<Rightarrow> lim_entry" where
  "entry_of cl k = (case map_of cl k of None \<Rightarrow> new_entry 0 | Some e \<Rightarrow> e)"

lemma no_evict:
  assumes "distinct (map fst cl)" "insert key (fst ` set cl) \<subseteq> K" "finite K" "card K \<le> lim_max_clients cfg" "map_of cl key = None"
  shows "limiter_evict cfg now cl = cl"
proof -
  have "key \<notin> fst ` set cl" using assms(5) by (simp add: map_of_eq_None_iff)
  then have "Suc (length cl) = card (insert key (fst ` set cl))"
    using assms(1) distinct_card [of "map fst cl"] by simp
  then have "length cl < lim_max_clients cfg" using card_mono [OF assms(3,2)] assms(4) by linarith
  then show ?thesis by (simp add: limiter_evict_def)
qed

lemma register_view:
  assumes "distinct (map fst cl)" "insert (client_key c) (fst ` set cl) \<subseteq> K" "finite K" "card K \<le> lim_max_clients cfg"
    and "register_failure cfg True c now cl = (cl', res)"
  shows "\<exists>e'. failure_step cfg now ((entry_of cl (client_key c))\<lparr>le_seen_at := now\<rparr>) = (e', res)
    \<and> map_of cl' = (map_of cl)(client_key c \<mapsto> e')"
  using assms(5) no_evict [OF assms(1-4)]
  by (cases "map_of cl (client_key c)")
    (auto simp: register_failure_def limiter_entry_def entry_of_def new_entry_def update_conv' Let_def split: prod.splits)

lemma seen_same: "\<exists>x. e = e\<lparr>le_seen_at := x\<rparr>"
  by (intro exI [of _ "le_seen_at e"]) simp

lemma check_view:
  assumes "limiter_check True c now cl = (cl', allowed, r)"
  shows "map_of cl' k = None \<longleftrightarrow> map_of cl k = None" "\<exists>x. entry_of cl' k = (entry_of cl k)\<lparr>le_seen_at := x\<rparr>"
    "allowed \<Longrightarrow> map_of cl (client_key c) \<noteq> None \<Longrightarrow> le_blocked_until (entry_of cl (client_key c)) \<le> now"
  using assms
  by (auto simp: limiter_check_def entry_of_def update_conv' Let_def seen_same split: option.splits if_splits)

lemma entry_of_cong: "map_of cl' k = map_of cl k \<Longrightarrow> entry_of cl' k = entry_of cl k"
  by (simp add: entry_of_def)

text \<open>The table keeps its shape along a request, and what it holds on \<open>k\<close> follows its refusals.\<close>

definition tracked :: "limiter \<Rightarrow> ustr set \<Rightarrow> ustr \<Rightarrow> time \<Rightarrow> time list \<Rightarrow> lim_clients \<Rightarrow> bool" where
  "tracked cfg K k u A cl \<longleftrightarrow> distinct (map fst cl) \<and> fst ` set cl \<subseteq> K
     \<and> (map_of cl k = None \<longrightarrow> A = []) \<and> rate_inv cfg u A (entry_of cl k)"

definition spread :: "limiter \<Rightarrow> rat \<Rightarrow> time list \<Rightarrow> bool" where
  "spread cfg w A \<longleftrightarrow> (\<forall>t. length (filter (\<lambda>a. t - w < a \<and> a \<le> t) A) \<le> lim_threshold cfg)"

lemma spread_snoc:
  assumes "spread cfg w A" "\<forall>a \<in> set A. a \<le> t" "length (filter ((<) (t - w)) (A @ [t])) \<le> lim_threshold cfg"
  shows "spread cfg w (A @ [t])"
  unfolding spread_def
proof
  fix t'
  show "length (filter (\<lambda>a. t' - w < a \<and> a \<le> t') (A @ [t])) \<le> lim_threshold cfg"
  proof (cases "t' < t")
    case True
    then show ?thesis using assms(1) by (simp add: spread_def)
  next
    case False
    have "length (filter (\<lambda>a. t' - w < a \<and> a \<le> t') xs) \<le> length (filter ((<) (t - w)) xs)" for xs
      using False by (induction xs) auto
    then show ?thesis using assms(3) by (meson order_trans)
  qed
qed

lemma check_tracked:
  assumes "tracked cfg K k u0 A cl" "limiter_check True c now cl = (cl', allowed, r)"
  shows "tracked cfg K k u0 A cl'"
proof -
  have "fst ` set cl' = fst ` set cl" "distinct (map fst cl')"
    using assms by (auto simp: tracked_def limiter_check_def Let_def dom_update dom_map_of_conv_image_fst [symmetric] update_conv'
        intro: AList.distinct_update split: option.splits if_splits)
  moreover obtain x where "entry_of cl' k = (entry_of cl k)\<lparr>le_seen_at := x\<rparr>" using check_view(2) [OF assms(2)] by blast
  ultimately show ?thesis using assms(1) check_view(1) [OF assms(2), of k] by (simp add: tracked_def)
qed

lemma register_tracked:
  assumes ok: "limiter_ok cfg" and K: "finite K" "card K \<le> lim_max_clients cfg" "client_key c \<in> K"
    and tr: "tracked cfg K k u0 A cl" and now: "u0 \<le> now"
    and unblocked: "client_key c = k \<Longrightarrow> A \<noteq> [] \<Longrightarrow> le_blocked_until (entry_of cl k) \<le> now"
    and r: "register_failure cfg True c now cl = (cl', res)"
    and w: "w \<le> lim_window cfg" "w \<le> lim_base_lockout cfg" "spread cfg w A"
  defines "A' \<equiv> A @ (if client_key c = k \<and> (\<exists>l. res = Inr l) then [now] else [])"
  shows "tracked cfg K k now A' cl' \<and> spread cfg w A'"
proof -
  have d: "distinct (map fst cl)" "insert (client_key c) (fst ` set cl) \<subseteq> K" using tr K(3) by (auto simp: tracked_def)
  obtain e' where e': "failure_step cfg now ((entry_of cl (client_key c))\<lparr>le_seen_at := now\<rparr>) = (e', res)"
    "map_of cl' = (map_of cl)(client_key c \<mapsto> e')" using register_view [OF d K(1,2) r] by blast
  have "distinct (map fst cl')" using r d(1) no_evict [OF d K(1,2)]
    by (auto simp: register_failure_def limiter_entry_def Let_def intro: AList.distinct_update split: option.splits prod.splits)
  moreover have "fst ` set cl' = insert (client_key c) (fst ` set cl)"
    using e'(2) by (metis dom_map_of_conv_image_fst dom_fun_upd option.distinct(1))
  ultimately have shape: "distinct (map fst cl')" "fst ` set cl' \<subseteq> K" using d(2) by auto
  have inv: "rate_inv cfg u0 A (entry_of cl k)" using tr by (simp add: tracked_def)
  show ?thesis
  proof (cases "client_key c = k")
    case True
    have "entry_of cl' k = e'" using e'(2) True by (simp add: entry_of_def)
    then show ?thesis
      using rate_step [OF ok _ now _ e'(1), of A] inv unblocked [OF True] shape w e'(2) True spread_snoc [OF w(3), of now]
      by (cases res) (auto simp: tracked_def A'_def rate_inv_def)
  next
    case False
    then show ?thesis using shape e'(2) tr w(3) rate_inv_later [OF inv now] entry_of_cong [of cl' k cl]
      by (simp add: tracked_def A'_def)
  qed
qed

fun request_times :: "gate_request list \<Rightarrow> time list" where
  "request_times [] = []"
| "request_times (rq # rqs) = gr_check_at rq # gr_register_at rq # request_times rqs"

lemma refusal_times_Cons:
  "refusal_times k (rq # rqs) (a # ans) =
     (if client_key (gr_client rq) = k \<and> (\<exists>l. a = Refused l) then [gr_register_at rq] else []) @ refusal_times k rqs ans"
  by (simp add: refusal_times_def)

lemma guard_tracked:
  assumes ok: "limiter_ok cfg" and K: "finite K" "card K \<le> lim_max_clients cfg" "client_key (gr_client rq) \<in> K"
    and tr: "tracked cfg K k u0 A cl" and times: "u0 \<le> gr_check_at rq" "gr_check_at rq \<le> gr_register_at rq"
    and wrong: "client_key (gr_client rq) = k \<Longrightarrow> gr_credential rq \<noteq> Inr True"
    and g: "guard_request_auth cfg True ra rq cl = (cl', a)"
    and w: "w \<le> lim_window cfg" "w \<le> lim_base_lockout cfg" "spread cfg w A"
  shows "\<exists>u. u \<le> gr_register_at rq \<and> tracked cfg K k u (A @ refusal_times k [rq] [a]) cl' \<and> spread cfg w (A @ refusal_times k [rq] [a])"
  using g
proof (cases rule: guard_cases)
  case valid
  then have ne: "client_key (gr_client rq) \<noteq> k" using wrong by blast
  then have "map_of cl' k = map_of cl k" using valid(3) by (simp add: register_success_def delete_conv')
  moreover have "fst ` set cl' \<subseteq> fst ` set cl" "distinct (map fst cl')" using valid(3) tr
    by (auto simp: register_success_def AList.delete_eq tracked_def distinct_filter_fst)
  ultimately have "tracked cfg K k u0 A cl'" using tr entry_of_cong [of cl' k cl] by (auto simp: tracked_def)
  then show ?thesis using w(3) ne times by (intro exI [of _ u0]) (simp add: refusal_times_def)
next
  case (limited r)
  then show ?thesis using check_tracked [OF tr limited(3)] w(3) times by (intro exI [of _ u0]) (simp add: refusal_times_def)
next
  case (counted cl1 r res)
  have tr1: "tracked cfg K k u0 A cl1" by (rule check_tracked [OF tr counted(3)])
  obtain x where x: "entry_of cl1 k = (entry_of cl k)\<lparr>le_seen_at := x\<rparr>" using check_view(2) [OF counted(3)] by blast
  have "le_blocked_until (entry_of cl1 k) \<le> gr_register_at rq" if "client_key (gr_client rq) = k" "A \<noteq> []"
  proof -
    have "map_of cl k \<noteq> None" using tr that(2) by (auto simp: tracked_def)
    then have "le_blocked_until (entry_of cl k) \<le> gr_check_at rq" using check_view(3) [OF counted(3)] that(1) by simp
    then show ?thesis using times(2) by (simp add: x)
  qed
  from register_tracked [OF ok K tr1 _ this counted(4) w] times counted(5) show ?thesis
    by (intro exI [of _ "gr_register_at rq"]) (auto simp: refusal_times_def split: sum.splits)
next
  case (broken err)
  then show ?thesis using tr w(3) times by (intro exI [of _ u0]) (simp add: refusal_times_def)
next
  case disabled
  then show ?thesis using tr w(3) times by (intro exI [of _ u0]) (simp add: refusal_times_def)
qed

lemma run_spread:
  assumes ok: "limiter_ok cfg" and K: "finite K" "card K \<le> lim_max_clients cfg"
    and w: "w \<le> lim_window cfg" "w \<le> lim_base_lockout cfg"
  shows "gate_run cfg ra cl rqs = (cl', ans) \<Longrightarrow> (\<lambda>rq. client_key (gr_client rq)) ` set rqs \<subseteq> K \<Longrightarrow> sorted (u0 # request_times rqs)
    \<Longrightarrow> \<forall>rq \<in> set rqs. client_key (gr_client rq) = k \<longrightarrow> gr_credential rq \<noteq> Inr True
    \<Longrightarrow> tracked cfg K k u0 A cl \<Longrightarrow> spread cfg w A \<Longrightarrow> spread cfg w (A @ refusal_times k rqs ans)"
proof (induction rqs arbitrary: cl ans u0 A)
  case (Cons rq rqs)
  from Cons.prems(1) obtain cl1 a ans1 where g: "guard_request_auth cfg True ra rq cl = (cl1, a)"
    "gate_run cfg ra cl1 rqs = (cl', ans1)" "ans = a # ans1" by (rule gate_run_Cons)
  obtain u where u: "u \<le> gr_register_at rq" "tracked cfg K k u (A @ refusal_times k [rq] [a]) cl1"
    "spread cfg w (A @ refusal_times k [rq] [a])"
    using guard_tracked [OF ok K _ Cons.prems(5) _ _ _ g(1) w Cons.prems(6)] Cons.prems(2-4) by auto
  have "sorted (u # request_times rqs)" using Cons.prems(3) u(1) by force
  from Cons.IH [OF g(2) _ this _ u(2,3)] Cons.prems(2,4) show ?case
    unfolding g(3) refusal_times_Cons by (simp add: refusal_times_def)
qed (simp add: refusal_times_def)

lemma run_lockouts:
  "limiter_ok cfg \<Longrightarrow> gate_run cfg ra cl rqs = (cl', ans) \<Longrightarrow> Refused l \<in> set ans \<Longrightarrow>
     l = 0 \<or> lim_base_lockout cfg \<le> l \<and> l \<le> lim_max_lockout cfg"
proof (induction rqs arbitrary: cl ans)
  case (Cons rq rqs)
  from Cons.prems(2) obtain cl1 a ans1 where g: "guard_request_auth cfg True ra rq cl = (cl1, a)"
    "gate_run cfg ra cl1 rqs = (cl', ans1)" "ans = a # ans1" by (rule gate_run_Cons)
  have "l = 0 \<or> lim_base_lockout cfg \<le> l \<and> l \<le> lim_max_lockout cfg" if "a = Refused l"
    using g(1)
  proof (cases rule: guard_cases)
    case (counted cl2 r res)
    then have "res = Inr l" using that by (auto split: sum.splits)
    then show ?thesis using counted(4) backoff_range [OF Cons.prems(1)]
      by (auto simp: register_failure_def failure_step_def Let_def split: prod.splits if_splits sum.splits)
  qed (use that in simp_all)
  then show ?case using Cons.IH [OF Cons.prems(1) g(2)] Cons.prems(3) g(3) by auto
qed simp

section \<open>What the gate promises\<close>


text \<open>
  Whatever the requests, the clock and the configuration, the table never holds more sources
  than its cap nor one twice, and every lockout announced in a 401 answer is zero or between the base and the
  maximal lockout.
\<close>

theorem limiter_bounded:
  "let cfg = new_limiter window threshold base max_lockout max_clients; (cl, ans) = gate_run cfg ra [] rqs
   in length cl \<le> lim_max_clients cfg \<and> distinct (map fst cl)
      \<and> list_all (\<lambda>a. case a of Refused l \<Rightarrow> l = 0 \<or> lim_base_lockout cfg \<le> l \<and> l \<le> lim_max_lockout cfg | _ \<Rightarrow> True) ans"
proof -
  let ?cfg = "new_limiter window threshold base max_lockout max_clients"
  obtain cl ans where r: "gate_run ?cfg ra [] rqs = (cl, ans)" by (cases "gate_run ?cfg ra [] rqs")
  have "table_ok ?cfg cl" by (rule run_ok [OF new_limiter_ok _ r]) (simp add: table_ok_def)
  then show ?thesis using run_lockouts [OF new_limiter_ok r] r
    by (auto simp: table_ok_def list_all_iff Let_def split: gate_answer.splits)
qed

text \<open>
  C11. The gate decides by the credential alone: in every run, from any table, a request is admitted
  exactly when authentication is off or its credential is valid, however many failures its source
  has and whether or not it is locked out. So a lockout changes the refusal from 401 to 429; it never
  keeps a guess from being evaluated.
\<close>

theorem gate_admits_exactly_valid:
  "list_all2 (\<lambda>rq a. a = Admitted \<longleftrightarrow> (if ra then gr_credential rq = Inr True else True)) rqs (snd (gate_run cfg ra cl rqs))"
proof (induction rqs arbitrary: cl)
  case (Cons rq rqs)
  obtain cl1 a where g: "guard_request_auth cfg True ra rq cl = (cl1, a)" by (cases "guard_request_auth cfg True ra rq cl")
  have "a = Admitted \<longleftrightarrow> (if ra then gr_credential rq = Inr True else True)" using g
    by (cases rule: guard_cases) (auto split: sum.splits)
  then show ?case using Cons.IH [of cl1] by (auto simp: g split: prod.splits)
qed simp

section \<open>Witness\<close>

definition sample_limiter :: limiter where
  "sample_limiter = new_limiter 60 2 5 300 64"

definition guess_at :: "time \<Rightarrow> gate_request" where
  "guess_at t = \<lparr>gr_check_at = t, gr_register_at = t, gr_client = Some (U ''h''), gr_credential = Inr False\<rparr>"

lemma sample_gate:
  "snd (gate_run sample_limiter True [] (map guess_at [1, 2, 3, 7, 8, 9])) =
     [Refused 0, Refused 5, Limited 4, Refused 0, Refused 10, Limited 9]"
  by (simp add: guess_at_def sample_limiter_def new_limiter_def guard_request_auth_def limiter_check_def register_failure_def
      limiter_entry_def limiter_evict_def failure_step_def backoff_def new_entry_def client_key_def Let_def retry_seconds_def
      strip_by_def lstrip_by_def rstrip_by_def is_space_def U_def trunc_rat_def floor_eq_iff)


end
