(* ===== verification/Auth_Tokens.thy ===== *)
theory Auth_Tokens
  imports Rule_Normalize Py_Text Auth_Limiter
begin

text \<open>
  Credentials of \<^verbatim>\<open>auth.py\<close>: the base64url alphabet, HS256 tokens, the security code, and how a
  request is authenticated. The environment supplies the keyed hash, the digest, the JSON codec and
  \<open>str()\<close> of the values that are neither strings nor numbers; base64 is written out, with the
  lenient decoding of \<open>binascii\<close>.
\<close>

section \<open>base64url\<close>

definition b64_char :: "nat \<Rightarrow> nat" where
  "b64_char n = (if n < 26 then 65 + n else if n < 52 then 71 + n else if n < 62 then n - 4 else if n = 62 then 45 else 95)"

fun urlsafe_b64encode :: "bytes \<Rightarrow> ustr" where
  "urlsafe_b64encode (a # b # c # bs) =
     b64_char (unat a div 4) # b64_char (unat a mod 4 * 16 + unat b div 16)
       # b64_char (unat b mod 16 * 4 + unat c div 64) # b64_char (unat c mod 64) # urlsafe_b64encode bs"
| "urlsafe_b64encode [a, b] =
     [b64_char (unat a div 4), b64_char (unat a mod 4 * 16 + unat b div 16), b64_char (unat b mod 16 * 4), 61]"
| "urlsafe_b64encode [a] = [b64_char (unat a div 4), b64_char (unat a mod 4 * 16), 61, 61]"
| "urlsafe_b64encode [] = []"

definition b64url_encode :: "bytes \<Rightarrow> ustr" where
  "b64url_encode data = rstrip_by (\<lambda>c. c = 61) (urlsafe_b64encode data)"

text \<open>The value of a character, after \<open>-\<close> and \<open>_\<close> are translated to \<open>+\<close> and \<open>/\<close>.\<close>

definition b64_value :: "nat \<Rightarrow> nat option" where
  "b64_value c =
     (if 65 \<le> c \<and> c \<le> 90 then Some (c - 65) else if 97 \<le> c \<and> c \<le> 122 then Some (c - 71)
      else if 48 \<le> c \<and> c \<le> 57 then Some (c + 4) else if c = 43 \<or> c = 45 then Some 62 else if c = 47 \<or> c = 95 then Some 63
      else None)"

text \<open>
  \<open>a2b_base64\<close>: the position in the group of four, the bits left over, the padding seen. Characters
  outside the alphabet are skipped; an incomplete group at the end raises.
\<close>

fun a2b_base64 :: "nat \<Rightarrow> nat \<Rightarrow> nat \<Rightarrow> ustr \<Rightarrow> bytes option" where
  "a2b_base64 quad left pads [] = (if quad = 0 then Some [] else None)"
| "a2b_base64 quad left pads (c # cs) =
     (if c = 61 then
        (if quad \<ge> 2 then (if quad + (pads + 1) \<ge> 4 then Some [] else a2b_base64 quad left (pads + 1) cs)
         else a2b_base64 quad left pads cs)
      else case b64_value c of
        None \<Rightarrow> a2b_base64 quad left pads cs
      | Some v \<Rightarrow>
          if quad = 0 then a2b_base64 1 v 0 cs
          else if quad = 1 then map_option ((#) (of_nat (left * 4 + v div 16))) (a2b_base64 2 (v mod 16) 0 cs)
          else if quad = 2 then map_option ((#) (of_nat (left * 16 + v div 4))) (a2b_base64 3 (v mod 4) 0 cs)
          else map_option ((#) (of_nat (left * 64 + v))) (a2b_base64 0 0 0 cs))"

definition b64url_decode :: "ustr \<Rightarrow> bytes option" where
  "b64url_decode value =
     (if \<exists>c \<in> set value. c \<ge> 128 then None
      else a2b_base64 0 0 0 (value @ replicate ((4 - length value mod 4) mod 4) 61))"

section \<open>Tokens\<close>

text \<open>\<open>str.encode("utf-8")\<close>; a surrogate raises.\<close>

definition utf8_encode_cp :: "nat \<Rightarrow> bytes option" where
  "utf8_encode_cp c =
     (if c < 128 then Some [of_nat c]
      else if c < 2048 then Some [of_nat (192 + c div 64), of_nat (128 + c mod 64)]
      else if 55296 \<le> c \<and> c < 57344 then None
      else if c < 65536 then Some [of_nat (224 + c div 4096), of_nat (128 + c div 64 mod 64), of_nat (128 + c mod 64)]
      else Some [of_nat (240 + c div 262144), of_nat (128 + c div 4096 mod 64), of_nat (128 + c div 64 mod 64), of_nat (128 + c mod 64)])"

fun utf8_encode :: "ustr \<Rightarrow> bytes option" where
  "utf8_encode [] = Some []"
| "utf8_encode (c # cs) =
     (case (utf8_encode_cp c, utf8_encode cs) of (Some b, Some bs) \<Rightarrow> Some (b @ bs) | _ \<Rightarrow> None)"

record jwt_env =
  je_hmac :: "bytes \<Rightarrow> bytes \<Rightarrow> bytes"
  je_sha256 :: "bytes \<Rightarrow> bytes"
  je_secret :: bytes
  je_dumps :: "pyval \<Rightarrow> bytes"
  je_loads :: "bytes \<Rightarrow> pyval option"
  je_str :: "pyval \<Rightarrow> ustr"
  je_max_ttl :: int

definition signing_key :: "jwt_env \<Rightarrow> bytes" where
  "signing_key env = je_hmac env (je_secret env) (B ''sniff4hound-jwt-key-v1'')"

definition jwt_key_id :: "jwt_env \<Rightarrow> ustr" where
  "jwt_key_id env = take 16 (hex_bytes (je_sha256 env (signing_key env)))"

definition jwt_sign :: "jwt_env \<Rightarrow> ustr \<Rightarrow> ustr option" where
  "jwt_sign env signing_input = map_option (\<lambda>b. b64url_encode (je_hmac env (signing_key env) b)) (utf8_encode signing_input)"

definition JWT_AUDIENCE :: ustr where "JWT_AUDIENCE = U ''sniff4hound-api''"
definition JWT_ISSUER :: ustr where "JWT_ISSUER = U ''sniff4hound''"
definition JWT_ALGORITHM :: ustr where "JWT_ALGORITHM = U ''HS256''"
definition JWT_CLOCK_SKEW_SECONDS :: int where "JWT_CLOCK_SKEW_SECONDS = 60"

definition audience_matches :: "pyval \<Rightarrow> bool" where
  "audience_matches v = (case v of
       PStr s \<Rightarrow> s = JWT_AUDIENCE
     | PList xs \<Rightarrow> list_ex (\<lambda>x. x = PStr JWT_AUDIENCE) xs
     | _ \<Rightarrow> False)"

definition setdefault :: "string \<Rightarrow> pyval \<Rightarrow> pydict \<Rightarrow> pydict" where
  "setdefault key v d = (if map_of d (U key) = None then d @ [(U key, v)] else d)"

definition jwt_header :: "jwt_env \<Rightarrow> pyval" where
  "jwt_header env = PDict [(U ''alg'', PStr JWT_ALGORITHM), (U ''typ'', PStr (U ''JWT'')), (U ''kid'', PStr (jwt_key_id env))]"

definition encode_jwt :: "jwt_env \<Rightarrow> pydict \<Rightarrow> ustr option" where
  "encode_jwt env payload =
     (let claims = setdefault ''aud'' (PStr JWT_AUDIENCE) (setdefault ''iss'' (PStr JWT_ISSUER) payload);
          signing_input = b64url_encode (je_dumps env (jwt_header env)) @ 46 # b64url_encode (je_dumps env (PDict claims)) in
      map_option (\<lambda>sig. signing_input @ 46 # sig) (jwt_sign env signing_input))"

definition revoke_jwt_id :: "ustr \<Rightarrow> ustr set \<Rightarrow> bool \<times> ustr set" where
  "revoke_jwt_id jti revoked = (if strip jti = [] then (False, revoked) else (True, insert (strip jti) revoked))"

definition is_jwt_revoked :: "jwt_env \<Rightarrow> pyval \<Rightarrow> ustr set \<Rightarrow> bool" where
  "is_jwt_revoked env jti revoked =
     (let value = strip (str_or_empty (je_str env) jti) in if value = [] then False else value \<in> revoked)"

text \<open>A time claim: absent or null is no bound; one that \<open>int()\<close> rejects raises.\<close>

definition time_claim :: "pydict \<Rightarrow> string \<Rightarrow> pyexc + int option" where
  "time_claim d key = (case get_or d key PNone of PNone \<Rightarrow> Inr None | v \<Rightarrow> map_sum id Some (py_int v))"

definition claims_ok :: "jwt_env \<Rightarrow> ustr set \<Rightarrow> int \<Rightarrow> pydict \<Rightarrow> bool" where
  "claims_ok env revoked now d \<longleftrightarrow>
     str_or_empty (je_str env) (get_or d ''iss'' PNone) = JWT_ISSUER
     \<and> audience_matches (get_or d ''aud'' PNone)
     \<and> (case time_claim d ''exp'' of Inl _ \<Rightarrow> False | Inr None \<Rightarrow> True | Inr (Some t) \<Rightarrow> \<not> t < now)
     \<and> (case time_claim d ''nbf'' of Inl _ \<Rightarrow> False | Inr None \<Rightarrow> True | Inr (Some t) \<Rightarrow> \<not> t > now + JWT_CLOCK_SKEW_SECONDS)
     \<and> \<not> is_jwt_revoked env (get_or d ''jti'' PNone) revoked"

text \<open>\<open>decode_jwt\<close>: the claims of an accepted token; every exception is a rejection.\<close>

definition loads_b64 :: "jwt_env \<Rightarrow> ustr \<Rightarrow> pydict option" where
  "loads_b64 env part =
     (case Option.bind (b64url_decode part) (je_loads env) of Some (PDict d) \<Rightarrow> Some d | _ \<Rightarrow> None)"

definition jwt_header_ok :: "jwt_env \<Rightarrow> pydict \<Rightarrow> bool" where
  "jwt_header_ok env h \<longleftrightarrow>
     str_or_empty (je_str env) (get_or h ''alg'' PNone) = JWT_ALGORITHM
     \<and> (let key_id = str_or_empty (je_str env) (get_or h ''kid'' PNone) in key_id \<noteq> [] \<and> key_id = jwt_key_id env)"

definition decode_jwt :: "jwt_env \<Rightarrow> ustr set \<Rightarrow> int \<Rightarrow> ustr \<Rightarrow> pydict option" where
  "decode_jwt env revoked now token =
     (case split_at 46 (Some 2) token of
        [header_b64, payload_b64, signature_b64] \<Rightarrow>
          (case loads_b64 env header_b64 of
             None \<Rightarrow> None
           | Some h \<Rightarrow>
               if \<not> jwt_header_ok env h then None
               else if jwt_sign env (header_b64 @ 46 # payload_b64) \<noteq> Some signature_b64 then None
               else (case loads_b64 env payload_b64 of
                   None \<Rightarrow> None
                 | Some d \<Rightarrow> if claims_ok env revoked now d then Some d else None))
      | _ \<Rightarrow> None)"

definition token_claims :: "jwt_env \<Rightarrow> int \<Rightarrow> ustr \<Rightarrow> ustr \<Rightarrow> ustr \<Rightarrow> int \<Rightarrow> pydict \<Rightarrow> pydict" where
  "token_claims env now jti user scope expires_in extra =
     (let ttl = min (max 1 expires_in) (je_max_ttl env) in
      AList.updates (map fst extra) (map snd extra)
        [(U ''iss'', PStr JWT_ISSUER), (U ''aud'', PStr JWT_AUDIENCE),
         (U ''user'', PStr (if user = [] then U ''operator'' else user)),
         (U ''scope'', PStr (if scope = [] then U ''session'' else scope)),
         (U ''jti'', PStr jti), (U ''iat'', PInt now), (U ''nbf'', PInt now), (U ''exp'', PInt (now + ttl))])"

definition generate_token :: "jwt_env \<Rightarrow> int \<Rightarrow> ustr \<Rightarrow> ustr \<Rightarrow> ustr \<Rightarrow> int \<Rightarrow> pydict \<Rightarrow> ustr option" where
  "generate_token env now jti user scope expires_in extra = encode_jwt env (token_claims env now jti user scope expires_in extra)"

section \<open>The security code and requests\<close>

text \<open>The code is drawn once per process; \<open>draws\<close> are the random indices into the alphabet.\<close>

definition SESSION_TOKEN_ALPHABET :: ustr where
  "SESSION_TOKEN_ALPHABET = U ''abcdefghijklmnopqrstuvwxyzABCDEFGHIJKLMNOPQRSTUVWXYZ0123456789''"

definition generate_random_token :: "nat list \<Rightarrow> ustr" where
  "generate_random_token draws = map (\<lambda>i. SESSION_TOKEN_ALPHABET ! (i mod 62)) (take 8 draws)"

definition initialize_session_token :: "nat list \<Rightarrow> ustr option \<Rightarrow> ustr option \<times> ustr" where
  "initialize_session_token draws session =
     (case session of None \<Rightarrow> let t = generate_random_token draws in (Some t, t) | Some t \<Rightarrow> (Some t, t))"

text \<open>\<open>compare_digest\<close> on two strings raises \<open>TypeError\<close> unless both are ASCII.\<close>

definition str_compare_digest :: "ustr \<Rightarrow> ustr \<Rightarrow> pyexc + bool" where
  "str_compare_digest a b = (if \<exists>c \<in> set (a @ b). c \<ge> 128 then Inl TypeError else Inr (a = b))"

text \<open>\<open>code\<close> is the security code of the process.\<close>

definition verify_token :: "jwt_env \<Rightarrow> ustr set \<Rightarrow> int \<Rightarrow> bool \<Rightarrow> ustr \<Rightarrow> ustr option \<Rightarrow> pyexc + bool" where
  "verify_token env revoked now require_auth code token =
     (case token of
        None \<Rightarrow> Inr (\<not> require_auth)
      | Some t \<Rightarrow>
          if t = [] then Inr (\<not> require_auth)
          else case str_compare_digest (strip t) code of
            Inl err \<Rightarrow> Inl err
          | Inr True \<Rightarrow> Inr True
          | Inr False \<Rightarrow> Inr (decode_jwt env revoked now (strip t) \<noteq> None))"

definition extract_token_from_header :: "ustr option \<Rightarrow> ustr option" where
  "extract_token_from_header auth_header =
     (case auth_header of
        None \<Rightarrow> None
      | Some h \<Rightarrow> if h = [] then None else if startswith h (U ''Bearer '') then Some (strip (drop 7 h)) else Some (strip h))"

text \<open>The answer of \<open>authenticate_request\<close>, without the description of the user.\<close>

definition authenticate_request :: "jwt_env \<Rightarrow> ustr set \<Rightarrow> int \<Rightarrow> bool \<Rightarrow> ustr \<Rightarrow> ustr option \<Rightarrow> pyexc + bool" where
  "authenticate_request env revoked now require_auth code token =
     (case token of
        None \<Rightarrow> Inr (\<not> require_auth)
      | Some t \<Rightarrow>
          if t = [] then Inr (\<not> require_auth)
          else if decode_jwt env revoked now t \<noteq> None then Inr True
          else verify_token env revoked now require_auth code token)"

definition stripped :: "ustr option \<Rightarrow> ustr option" where
  "stripped v = (case v of None \<Rightarrow> None | Some s \<Rightarrow> if strip s = [] then None else Some (strip s))"

text \<open>\<open>_extract_request_token\<close>: the Authorization header, then the direct header, then the query.\<close>

definition extract_request_token :: "bool \<Rightarrow> ustr option \<Rightarrow> ustr option \<Rightarrow> ustr option \<Rightarrow> ustr option" where
  "extract_request_token allow_query auth_header direct query =
     (case extract_token_from_header auth_header of
        Some (c # cs) \<Rightarrow> Some (c # cs)
      | _ \<Rightarrow>
          (case direct of
             Some (c # cs) \<Rightarrow> stripped direct
           | _ \<Rightarrow> if allow_query then (if query = Some [] then None else stripped query) else None))"

section \<open>base64url is decoded back\<close>

lemma b64_value_char [simp]: "n < 64 \<Longrightarrow> b64_value (b64_char n) = Some n"
  by (auto simp: b64_value_def b64_char_def)

lemma b64_char_plain [simp]: "n < 64 \<Longrightarrow> b64_char n \<noteq> 61" "n < 64 \<Longrightarrow> b64_char n \<noteq> 46" "n < 64 \<Longrightarrow> b64_char n < 128"
  by (auto simp: b64_char_def)

lemma byte_quot: "unat (a :: 8 word) div 4 < 64" "unat (a :: 8 word) div 16 < 16" "unat (a :: 8 word) div 64 < 4"
  by (rule less_mult_imp_div_less, use unat_byte_less [of a] in simp)+

lemma six_bits [simp]:
  "unat (a :: 8 word) div 4 < 64" "unat a mod 4 * 16 + unat (b :: 8 word) div 16 < 64" "unat b mod 16 * 4 + unat (c :: 8 word) div 64 < 64"
  "unat c mod 64 < 64" "unat a mod 4 * 16 < 64" "unat b mod 16 * 4 < 64"
  using byte_quot [of a] byte_quot(2) [of b] byte_quot(3) [of c] mod_less_divisor [of 4 "unat a"] mod_less_divisor [of 16 "unat b"]
  by (linarith | simp)+

lemma split_group: "q < n \<Longrightarrow> (m * n + q) div n = m" "q < n \<Longrightarrow> (m * n + q) mod n = q" for q n m :: nat
  by simp_all

lemma regroup [simp]:
  "(unat a mod 4 * 16 + unat (b :: 8 word) div 16) div 16 = unat (a :: 8 word) mod 4"
  "(unat a mod 4 * 16 + unat b div 16) mod 16 = unat b div 16"
  "(unat b mod 16 * 4 + unat (c :: 8 word) div 64) div 4 = unat b mod 16"
  "(unat b mod 16 * 4 + unat c div 64) mod 4 = unat c div 64"
  by (rule split_group, rule byte_quot)+

lemma rejoin [simp]:
  "(of_nat (unat b div 16 mod 16) :: 8 word) * 16 + of_nat (unat b mod 16) = b"
  "(of_nat (unat c div 64 mod 4) :: 8 word) * 64 + of_nat (unat c mod 64) = c"
proof -
  have "(of_nat (unat b div 16 mod 16) :: 8 word) * 16 + of_nat (unat b mod 16) = of_nat (unat b div 16 * 16 + unat b mod 16)"
    using byte_quot(2) [of b] by (simp only: mod_less of_nat_add of_nat_mult of_nat_numeral)
  then show "(of_nat (unat b div 16 mod 16) :: 8 word) * 16 + of_nat (unat b mod 16) = b"
    by (simp only: div_mult_mod_eq) simp
  have "(of_nat (unat c div 64 mod 4) :: 8 word) * 64 + of_nat (unat c mod 64) = of_nat (unat c div 64 * 64 + unat c mod 64)"
    using byte_quot(3) [of c] by (simp only: mod_less of_nat_add of_nat_mult of_nat_numeral)
  then show "(of_nat (unat c div 64 mod 4) :: 8 word) * 64 + of_nat (unat c mod 64) = c"
    by (simp only: div_mult_mod_eq) simp
qed

lemma a2b_encode: "a2b_base64 0 0 0 (urlsafe_b64encode data) = Some data"
  by (induction data rule: urlsafe_b64encode.induct) simp_all

definition b64_plain :: "nat \<Rightarrow> bool" where "b64_plain c \<longleftrightarrow> c \<noteq> 61 \<and> c \<noteq> 46 \<and> c < 128"

definition b64_shape :: "ustr \<Rightarrow> bool" where
  "b64_shape s \<longleftrightarrow> (\<exists>body pad. s = body @ replicate pad 61 \<and> pad < 3 \<and> (length body + pad) mod 4 = 0 \<and> list_all b64_plain body)"

lemma b64_plain_char [simp]: "n < 64 \<Longrightarrow> b64_plain (b64_char n)"
  by (simp add: b64_plain_def)

lemma b64_shape_more:
  assumes "b64_shape s" "b64_plain w" "b64_plain x" "b64_plain y" "b64_plain z"
  shows "b64_shape (w # x # y # z # s)"
proof -
  obtain body pad where b: "s = body @ replicate pad 61" "pad < 3" "(length body + pad) mod 4 = 0" "list_all b64_plain body"
    using assms(1) by (auto simp: b64_shape_def)
  have "(length (w # x # y # z # body) + pad) mod 4 = (4 + (length body + pad)) mod 4" by simp
  then have "(length (w # x # y # z # body) + pad) mod 4 = 0" using b(3) by (simp only: mod_add_self1)
  then show ?thesis unfolding b64_shape_def using b assms(2-5)
    by (intro exI [of _ "w # x # y # z # body"] exI [of _ pad]) simp
qed

lemma b64_shape_last:
  "b64_plain w \<Longrightarrow> b64_plain x \<Longrightarrow> b64_plain y \<Longrightarrow> b64_shape [w, x, y, 61]"
  "b64_plain w \<Longrightarrow> b64_plain x \<Longrightarrow> b64_shape [w, x, 61, 61]" "b64_shape []"
proof -
  show "b64_shape [w, x, y, 61]" if "b64_plain w" "b64_plain x" "b64_plain y"
    unfolding b64_shape_def using that by (intro exI [of _ "[w, x, y]"] exI [of _ 1]) simp
  show "b64_shape [w, x, 61, 61]" if "b64_plain w" "b64_plain x"
    unfolding b64_shape_def using that by (intro exI [of _ "[w, x]"] exI [of _ 2]) (simp add: numeral_2_eq_2)
  show "b64_shape []" unfolding b64_shape_def by (intro exI [of _ "[]"] exI [of _ 0]) simp
qed

lemma encode_shape: "b64_shape (urlsafe_b64encode data)"
  by (induction data rule: urlsafe_b64encode.induct) (simp_all add: b64_shape_more b64_shape_last)

lemma rstrip_replicate: "\<forall>c \<in> set body. \<not> P c \<Longrightarrow> P x \<Longrightarrow> rstrip_by P (body @ replicate n x) = body"
  by (cases "body = []") (simp_all add: rstrip_by_def dropWhile_append dropWhile_hd_id hd_rev)

lemma pad_length:
  assumes "pad < 3" "(n + pad) mod 4 = 0"
  shows "pad = (4 - n mod 4) mod (4 :: nat)"
proof -
  consider "pad = 0" | "pad = 1" | "pad = 2" using assms(1) by linarith
  then show ?thesis
  proof cases
    case 2
    then have "n mod 4 = 3" using assms(2) by presburger
    then show ?thesis using 2 by simp
  next
    case 3
    then have "n mod 4 = 2" using assms(2) by presburger
    then show ?thesis using 3 by simp
  qed (use assms(2) in simp)
qed

lemma b64url_encode_shape:
  obtains pad where "urlsafe_b64encode data = b64url_encode data @ replicate pad 61" "pad = (4 - length (b64url_encode data) mod 4) mod 4"
    "list_all b64_plain (b64url_encode data)"
proof -
  obtain body pad where b: "urlsafe_b64encode data = body @ replicate pad 61" "pad < 3" "(length body + pad) mod 4 = 0"
    "list_all b64_plain body" using encode_shape [of data] by (auto simp: b64_shape_def)
  have e: "b64url_encode data = body"
    unfolding b64url_encode_def b(1) using b(4) by (intro rstrip_replicate) (auto simp: b64_plain_def list_all_iff)
  have "pad = (4 - length body mod 4) mod 4" using b(2,3) by (rule pad_length)
  then show thesis using that [of pad] b(1,4) e by simp
qed

lemma b64url_plain: "c \<in> set (b64url_encode data) \<Longrightarrow> c \<noteq> 46 \<and> c < 128"
  by (rule b64url_encode_shape [of data]) (auto simp: list_all_iff b64_plain_def)

lemma b64url_no_dot [simp]: "46 \<notin> set (b64url_encode data)"
  using b64url_plain [of 46 data] by blast

lemma b64url_roundtrip: "b64url_decode (b64url_encode data) = Some data"
proof -
  obtain pad where p: "urlsafe_b64encode data = b64url_encode data @ replicate pad 61" "pad = (4 - length (b64url_encode data) mod 4) mod 4"
    by (rule b64url_encode_shape)
  have "\<not> (\<exists>c \<in> set (b64url_encode data). c \<ge> 128)" using b64url_plain by (auto simp: not_le)
  then show ?thesis using p(1,2) a2b_encode [of data] by (simp add: b64url_decode_def)
qed

section \<open>Tokens are decoded back\<close>

lemma split_from_no: "c \<notin> set s \<Longrightarrow> split_from c n acc s = [acc @ s]"
  by (induction s arbitrary: acc) auto

lemma split_from_at: "c \<notin> set s \<Longrightarrow> n \<noteq> Some 0 \<Longrightarrow>
    split_from c n acc (s @ c # t) = (acc @ s) # split_from c (map_option (\<lambda>k. k - 1) n) [] t"
  by (induction s arbitrary: acc) auto

lemma split_three:
  "46 \<notin> set h \<Longrightarrow> 46 \<notin> set p \<Longrightarrow> 46 \<notin> set s \<Longrightarrow> split_at 46 (Some 2) (h @ 46 # p @ 46 # s) = [h, p, s :: ustr]"
  by (simp add: split_at_def split_from_at split_from_no)

lemma utf8_encode_ascii: "list_all (\<lambda>c. c < 128) s \<Longrightarrow> utf8_encode s = Some (map of_nat s)"
  by (induction s) (simp_all add: utf8_encode_cp_def)

lemma jwt_sign_b64:
  "jwt_sign env (b64url_encode a @ 46 # b64url_encode b)
     = Some (b64url_encode (je_hmac env (signing_key env) (map of_nat (b64url_encode a @ 46 # b64url_encode b))))"
  using b64url_plain [of _ a] b64url_plain [of _ b]
  by (subst jwt_sign_def, subst utf8_encode_ascii) (auto simp: list_all_iff)

lemma loads_b64_encode: "je_loads env data = Some (PDict d) \<Longrightarrow> loads_b64 env (b64url_encode data) = Some d"
  by (simp add: loads_b64_def b64url_roundtrip)

lemma jwt_header_ok_own:
  "jwt_key_id env \<noteq> [] \<Longrightarrow> jwt_header env = PDict h \<Longrightarrow> jwt_header_ok env h"
  by (auto simp: jwt_header_def jwt_header_ok_def get_or_def str_or_empty_def py_str_def JWT_ALGORITHM_def Let_def)

text \<open>A token this installation emits is accepted exactly when its claims are.\<close>

lemma decode_encode:
  assumes "encode_jwt env payload = Some token"
    and "claims = setdefault ''aud'' (PStr JWT_AUDIENCE) (setdefault ''iss'' (PStr JWT_ISSUER) payload)"
    and "je_loads env (je_dumps env (jwt_header env)) = Some (jwt_header env)"
    and "je_loads env (je_dumps env (PDict claims)) = Some (PDict claims)" and "jwt_key_id env \<noteq> []"
  shows "decode_jwt env revoked now token = (if claims_ok env revoked now claims then Some claims else None)"
proof -
  let ?h = "b64url_encode (je_dumps env (jwt_header env))" and ?p = "b64url_encode (je_dumps env (PDict claims))"
  obtain s where s: "jwt_sign env (?h @ 46 # ?p) = Some s" "token = ?h @ 46 # ?p @ 46 # s" "46 \<notin> set s"
    using assms(1) unfolding encode_jwt_def Let_def assms(2) [symmetric] jwt_sign_b64 by auto
  obtain h where h: "jwt_header env = PDict h" by (simp add: jwt_header_def)
  have "loads_b64 env ?h = Some h" "loads_b64 env ?p = Some claims" using assms(3,4) h by (simp_all add: loads_b64_encode)
  then show ?thesis unfolding decode_jwt_def s(2) by (simp add: split_three s jwt_header_ok_own [OF assms(5) h])
qed

lemma get_or_updates_other: "U key \<notin> set ks \<Longrightarrow> get_or (AList.updates ks vs d) key v = get_or d key v"
proof -
  assume "U key \<notin> set ks"
  then have "map_of (AList.updates ks vs d) (U key) = map_of d (U key)"
    by (simp add: updates_conv' map_upds_twist map_upds_apply_nontin)
  then show ?thesis by (simp add: get_or_def)
qed

lemma setdefault_id: "get_or d key PNone \<noteq> PNone \<Longrightarrow> setdefault key v d = d"
  by (cases "map_of d (U key)") (simp_all add: setdefault_def get_or_def)

definition reserved_claims :: "ustr set" where
  "reserved_claims = {U ''iss'', U ''aud'', U ''jti'', U ''nbf'', U ''exp''}"

text \<open>
  C31. A token issued at \<open>now\<close> is accepted at \<open>later\<close> exactly when its identifier is not revoked,
  the clock is not more than the skew behind the issue time, and the lifetime has not passed; the
  lifetime is at least a second and never above the ceiling, whatever was asked for. The extra claims
  may be anything but the reserved ones; the JSON codec gives back the two objects it wrote.
\<close>

theorem jwt_roundtrip:
  assumes "generate_token env now jti user scope expires_in extra = Some token"
    and "reserved_claims \<inter> fst ` set extra = {}" and "jwt_key_id env \<noteq> []" and "strip jti \<noteq> []"
    and "je_loads env (je_dumps env (jwt_header env)) = Some (jwt_header env)"
    and "je_loads env (je_dumps env (PDict (token_claims env now jti user scope expires_in extra)))
      = Some (PDict (token_claims env now jti user scope expires_in extra))"
  shows "decode_jwt env revoked later token \<noteq> None \<longleftrightarrow>
    strip jti \<notin> revoked \<and> now - JWT_CLOCK_SKEW_SECONDS \<le> later \<and> later \<le> now + min (max 1 expires_in) (je_max_ttl env)"
proof -
  let ?c = "token_claims env now jti user scope expires_in extra"
  have get: "get_or ?c key v = get_or (token_claims env now jti user scope expires_in []) key v" if "U key \<in> reserved_claims" for key v
    using assms(2) that unfolding token_claims_def Let_def by (subst get_or_updates_other) auto
  have iss: "get_or ?c ''iss'' PNone = PStr JWT_ISSUER" and aud: "get_or ?c ''aud'' PNone = PStr JWT_AUDIENCE"
    and jti: "get_or ?c ''jti'' PNone = PStr jti" and nbf: "get_or ?c ''nbf'' PNone = PInt now"
    and exp: "get_or ?c ''exp'' PNone = PInt (now + min (max 1 expires_in) (je_max_ttl env))"
    by (subst get; simp add: reserved_claims_def token_claims_def get_or_def Let_def)+
  have claims: "setdefault ''aud'' (PStr JWT_AUDIENCE) (setdefault ''iss'' (PStr JWT_ISSUER) ?c) = ?c"
    by (simp add: setdefault_id iss aud)
  have "jti \<noteq> []" using assms(4) by auto
  then have "claims_ok env revoked later ?c \<longleftrightarrow>
    strip jti \<notin> revoked \<and> now - JWT_CLOCK_SKEW_SECONDS \<le> later \<and> later \<le> now + min (max 1 expires_in) (je_max_ttl env)"
    unfolding claims_ok_def iss aud jti time_claim_def nbf exp is_jwt_revoked_def
    by (auto simp: str_or_empty_def py_str_def audience_matches_def JWT_ISSUER_def assms(4) Let_def)
  then show ?thesis
    using decode_encode [OF assms(1) [unfolded generate_token_def] claims [symmetric] assms(5,6,3), of revoked later] by simp
qed

section \<open>Who is authenticated\<close>

lemma join_split_from: "join [c] (split_from c n acc s) = acc @ s"
proof (induction c n acc s rule: split_from.induct)
  case (2 c n acc x xs)
  obtain y ys where "split_from c (map_option (\<lambda>k. k - 1) n) [] xs = y # ys"
    by (cases "split_from c (map_option (\<lambda>k. k - 1) n) [] xs") simp_all
  then show ?case using 2 by auto
qed simp

lemma decode_jwt_Some:
  assumes "decode_jwt env revoked now t = Some d"
  obtains h p s hd where "t = h @ 46 # p @ 46 # s" "loads_b64 env h = Some hd" "jwt_header_ok env hd"
    "jwt_sign env (h @ 46 # p) = Some s" "loads_b64 env p = Some d" "claims_ok env revoked now d"
proof -
  obtain h p s where sp: "split_at 46 (Some 2) t = [h, p, s]"
    using assms by (auto simp: decode_jwt_def split: list.splits)
  have "t = h @ 46 # p @ 46 # s" using join_split_from [of 46 "Some 2" "[]" t] sp by (simp add: split_at_def)
  then show thesis using that [of h p s] assms sp by (auto simp: decode_jwt_def split: option.splits if_splits)
qed

definition signed_by_us :: "jwt_env \<Rightarrow> ustr set \<Rightarrow> int \<Rightarrow> ustr \<Rightarrow> bool" where
  "signed_by_us env revoked now t \<longleftrightarrow>
     (\<exists>h p s d. t = h @ 46 # p @ 46 # s \<and> jwt_sign env (h @ 46 # p) = Some s
        \<and> loads_b64 env p = Some d \<and> claims_ok env revoked now d)"

lemma decode_signed: "decode_jwt env revoked now t \<noteq> None \<Longrightarrow> signed_by_us env revoked now t"
  unfolding signed_by_us_def by (auto elim!: decode_jwt_Some)

lemma authenticate_valid:
  "authenticate_request env revoked now ra code token = Inr True \<Longrightarrow> ra \<Longrightarrow>
     \<exists>t. token = Some t \<and> (strip t = code \<or> signed_by_us env revoked now t \<or> signed_by_us env revoked now (strip t))"
  using decode_signed [of env revoked now]
  by (auto simp: authenticate_request_def verify_token_def str_compare_digest_def split: option.splits if_splits)

lemma authenticate_invalid:
  "authenticate_request env revoked now ra code token = Inr False \<Longrightarrow>
     token = None \<or> token = Some [] \<or> (\<exists>t. token = Some t \<and> strip t \<noteq> code)"
  by (auto simp: authenticate_request_def verify_token_def str_compare_digest_def split: option.splits if_splits)

definition unreadable :: "jwt_env \<Rightarrow> ustr set \<Rightarrow> int \<Rightarrow> ustr \<Rightarrow> ustr option \<Rightarrow> bool" where
  "unreadable env revoked now code token \<longleftrightarrow>
     (\<exists>t. token = Some t \<and> t \<noteq> [] \<and> decode_jwt env revoked now t = None \<and> (\<exists>c \<in> set (strip t @ code). c \<ge> 128))"

lemma authenticate_raises:
  "authenticate_request env revoked now ra code token = (if unreadable env revoked now code token then Inl TypeError
     else Inr (authenticate_request env revoked now ra code token = Inr True))"
  by (auto simp: authenticate_request_def unreadable_def verify_token_def str_compare_digest_def split: option.splits if_splits bool.splits)

lemma guard_TypeError:
  assumes "guard_request_auth cfg True ra rq cl = (cl', a)"
  shows "a = Raised TypeError \<longleftrightarrow> ra \<and> gr_credential rq = Inl TypeError" "ra \<Longrightarrow> gr_credential rq = Inl err \<Longrightarrow> cl' = cl"
proof -
  have "register_failure cfg True c t x \<noteq> (y, Inl TypeError)" for c t x y
    by (auto simp: register_failure_def failure_step_def backoff_def Let_def split: prod.splits if_splits sum.splits)
  then show "a = Raised TypeError \<longleftrightarrow> ra \<and> gr_credential rq = Inl TypeError"
    by (cases rule: guard_cases [OF assms]) (auto split: sum.splits)
  show "ra \<Longrightarrow> gr_credential rq = Inl err \<Longrightarrow> cl' = cl" using assms by (simp add: guard_request_auth_def)
qed

text \<open>
  C32. A request passes the gate only with authentication off, with the security code, or with a token
  whose two parts carry our signature and whose claims hold now; a request answered 401 or 429 did not
  bring the code. But a credential that is no valid token and has a character outside ASCII is neither: comparing
  it with the code raises \<open>TypeError\<close>, which leaves the gate before the failure is counted.
\<close>

theorem gate_credentials:
  assumes "gr_credential rq = authenticate_request env revoked now ra code token"
    and "guard_request_auth cfg True ra rq cl = (cl', a)"
  shows "(a = Admitted \<longrightarrow> \<not> ra \<or> (\<exists>t. token = Some t
        \<and> (strip t = code \<or> signed_by_us env revoked now t \<or> signed_by_us env revoked now (strip t))))
    \<and> ((\<exists>l. a = Refused l) \<or> (\<exists>n. a = Limited n) \<longrightarrow> token = None \<or> token = Some [] \<or> (\<exists>t. token = Some t \<and> strip t \<noteq> code))
    \<and> (a = Raised TypeError \<longleftrightarrow> ra \<and> unreadable env revoked now code token)
    \<and> (a = Raised TypeError \<longrightarrow> cl' = cl)"
proof (intro conjI impI)
  assume "a = Admitted"
  then show "\<not> ra \<or> (\<exists>t. token = Some t
        \<and> (strip t = code \<or> signed_by_us env revoked now t \<or> signed_by_us env revoked now (strip t)))"
    by (cases rule: guard_cases [OF assms(2)]) (use assms(1) authenticate_valid in \<open>auto split: sum.splits\<close>)
next
  assume "(\<exists>l. a = Refused l) \<or> (\<exists>n. a = Limited n)"
  then have "gr_credential rq = Inr False" by (cases rule: guard_cases [OF assms(2)]) (auto split: sum.splits)
  then show "token = None \<or> token = Some [] \<or> (\<exists>t. token = Some t \<and> strip t \<noteq> code)"
    using authenticate_invalid assms(1) by metis
next
  have "gr_credential rq = Inl TypeError \<longleftrightarrow> unreadable env revoked now code token"
    using authenticate_raises [of env revoked now ra code token] assms(1) by (auto split: if_splits)
  then show "a = Raised TypeError \<longleftrightarrow> ra \<and> unreadable env revoked now code token" using guard_TypeError(1) [OF assms(2)] by simp
next
  assume "a = Raised TypeError"
  then show "cl' = cl" using guard_TypeError [OF assms(2)] by blast
qed

section \<open>Witnesses\<close>

definition sample_render :: "pyval \<Rightarrow> bytes" where
  "sample_render v = concat (map (\<lambda>(k, w). map of_nat k @ 58 # map of_nat (py_str (\<lambda>_. []) w) @ [59]) (dict_of v))"

definition sample_env :: jwt_env where
  "sample_env =
     (let env = \<lparr>je_hmac = (\<lambda>key msg. map (\<lambda>b. b + of_nat (length key)) (take 3 msg)), je_sha256 = (\<lambda>b. B ''01234567''),
        je_secret = B ''key'', je_dumps = sample_render, je_loads = (\<lambda>_. None), je_str = (\<lambda>_. []), je_max_ttl = 600\<rparr>;
      vs = [jwt_header env, PDict (token_claims env 1000 (U ''t1'') (U ''ana'') (U ''api'') 9999 [(U ''role'', PStr (U ''r''))])]
      in env\<lparr>je_loads := (\<lambda>b. List.find (\<lambda>v. sample_render v = b) vs)\<rparr>)"

lemma sample_env_facts:
  "jwt_key_id sample_env = U ''3031323334353637''" "je_max_ttl sample_env = 600"
  "je_loads sample_env (je_dumps sample_env (jwt_header sample_env)) = Some (jwt_header sample_env)"
  "je_loads sample_env (je_dumps sample_env (PDict (token_claims sample_env 1000 (U ''t1'') (U ''ana'') (U ''api'') 9999 [(U ''role'', PStr (U ''r''))])))
    = Some (PDict (token_claims sample_env 1000 (U ''t1'') (U ''ana'') (U ''api'') 9999 [(U ''role'', PStr (U ''r''))]))"
  by code_simp+

lemma encode_jwt_Some: "\<exists>token. encode_jwt env payload = Some token"
  by (simp add: encode_jwt_def Let_def jwt_sign_b64)

theorem jwt_roundtrip_witness:
  "\<exists>token. generate_token sample_env 1000 (U ''t1'') (U ''ana'') (U ''api'') 9999 [(U ''role'', PStr (U ''r''))] = Some token
    \<and> decode_jwt sample_env {} 1600 token \<noteq> None \<and> decode_jwt sample_env {} 1601 token = None
    \<and> decode_jwt sample_env {U ''t1''} 1200 token = None"
proof -
  obtain token where t: "generate_token sample_env 1000 (U ''t1'') (U ''ana'') (U ''api'') 9999 [(U ''role'', PStr (U ''r''))] = Some token"
    using encode_jwt_Some unfolding generate_token_def by blast
  have s: "strip (U ''t1'') = U ''t1''" by code_simp
  have r: "reserved_claims \<inter> fst ` set [(U ''role'', PStr (U ''r''))] = {}" by (simp add: reserved_claims_def)
  have k: "jwt_key_id sample_env \<noteq> []" "strip (U ''t1'') \<noteq> []" by (simp_all add: sample_env_facts s)
  note d = jwt_roundtrip [OF t r k sample_env_facts(3,4)]
  show ?thesis using d [of "{}" 1600] d [of "{}" 1601] d [of "{U ''t1''}" 1200] t
    by (simp add: sample_env_facts(2) s JWT_CLOCK_SKEW_SECONDS_def)
qed

definition odd_request :: gate_request where
  "odd_request = \<lparr>gr_check_at = 1, gr_register_at = 1, gr_client = None,
     gr_credential = authenticate_request sample_env {} 1000 True (U ''abcdefgh'') (Some [233])\<rparr>"

theorem gate_credentials_witness:
  "guard_request_auth sample_limiter True True odd_request [] = ([], Raised TypeError)
    \<and> unreadable sample_env {} 1000 (U ''abcdefgh'') (Some [233])"
proof -
  have g: "guard_request_auth sample_limiter True True odd_request [] = ([], Raised TypeError)" by code_simp
  have "gr_credential odd_request = authenticate_request sample_env {} 1000 True (U ''abcdefgh'') (Some [233])"
    by (simp add: odd_request_def)
  from gate_credentials [OF this g] g show ?thesis by simp
qed

end
