(* ===== verification/Jobs.thy ===== *)
theory Jobs
  imports Main "HOL-Library.Multiset"
begin

text \<open>
  The background job queue of \<^verbatim>\<open>jobs.py\<close> (\<open>JobQueue\<close>) as a step relation. A step is what one thread does
  between two points at which another can run: a critical section under a lock, a queue operation, the
  call of a handler. Threads are the workers (kept in a list, by number), the callers of \<open>submit\<close>, the
  watchdog, the reaper and \<open>shutdown\<close>. Deadlines may pass at any time. \<open>'r\<close> is the type of the results.
\<close>

section \<open>State\<close>

datatype job_error = Handler_error nat | Timed_out | Shut_down

datatype 'r outcome = Done 'r | Failed job_error

datatype status = QUEUED | RUNNING | DONE | ERROR

text \<open>\<open>started\<close> is a non-zero \<open>started_mono\<close>; \<open>outcome\<close> is set together with the event \<open>done\<close>.\<close>

record 'r job =
  outcome :: "'r outcome option"
  started :: bool
  persisted :: bool
  abandoned :: bool

definition new_job :: "'r job" where
  "new_job = \<lparr>outcome = None, started = False, persisted = False, abandoned = False\<rparr>"

definition job_status :: "'r job \<Rightarrow> status" where
  "job_status jb = (case outcome jb of
       None \<Rightarrow> if started jb then RUNNING else QUEUED
     | Some (Done _) \<Rightarrow> DONE
     | Some (Failed _) \<Rightarrow> ERROR)"

text \<open>
  Where a worker stands: waiting for an item, after taking one, after looking at the stop flag, in the
  handler, with what the handler gave, after settling, gone.
\<close>

datatype 'r worker = Idle | Holding nat | Ready nat | Handling nat | Returned nat "'r outcome" | Settled nat | Retired

text \<open>
  Where the caller of \<open>submit\<close> stands; \<open>Waiting persist\<close> is in the wait, \<open>Expired\<close> after settling an overdue
  read, \<open>Claimed\<close> after claiming the job for polling, \<open>Writing\<close> with the status it read for the row.
\<close>

datatype 'r answer = Result "'r outcome" | Poll

datatype 'r caller = Waiting bool | Expired | Claimed | Writing status | Answered "'r answer"

record 'r queue =
  jobs :: "nat \<rightharpoonup> 'r job"
  registry :: "nat set"
  pending :: "nat option list"
  running :: "nat set"
  workers :: "'r worker list"
  callers :: "nat \<rightharpoonup> 'r caller"
  surplus :: nat
  stopping :: bool
  finishing :: "nat set"
  rows :: "nat \<rightharpoonup> status"

definition new_job_queue :: "nat \<Rightarrow> 'r queue" where
  "new_job_queue limit =
     \<lparr>jobs = Map.empty, registry = {}, pending = [], running = {}, workers = replicate limit Idle, callers = Map.empty,
      surplus = 0, stopping = False, finishing = {}, rows = Map.empty\<rparr>"

section \<open>Operations\<close>

text \<open>\<open>_settle\<close>: the first outcome wins; an overdue started job may get its worker replaced.\<close>

definition settle :: "nat \<Rightarrow> nat \<Rightarrow> 'r outcome \<Rightarrow> bool \<Rightarrow> 'r queue \<Rightarrow> 'r queue" where
  "settle limit j out timed_out s =
     (case jobs s j of
        None \<Rightarrow> s
      | Some jb \<Rightarrow>
          if outcome jb \<noteq> None then s
          else
            let replace = timed_out \<and> started jb \<and> \<not> stopping s \<and> surplus s < limit;
                s1 = (if replace then s\<lparr>surplus := surplus s + 1, workers := workers s @ [Idle]\<rparr> else s) in
            s1\<lparr>jobs := (jobs s1)(j \<mapsto> (if replace then jb\<lparr>outcome := Some out, abandoned := True\<rparr> else jb\<lparr>outcome := Some out\<rparr>)),
               finishing := (if persisted jb then insert j (finishing s1) else finishing s1)\<rparr>)"

definition the_job :: "'r queue \<Rightarrow> nat \<Rightarrow> 'r job" where
  "the_job s j = (case jobs s j of None \<Rightarrow> new_job | Some jb \<Rightarrow> jb)"

definition set_worker :: "nat \<Rightarrow> 'r worker \<Rightarrow> 'r queue \<Rightarrow> 'r queue" where
  "set_worker w x s = s\<lparr>workers := (workers s)[w := x]\<rparr>"

definition set_caller :: "nat \<Rightarrow> 'r caller \<Rightarrow> 'r queue \<Rightarrow> 'r queue" where
  "set_caller j c s = s\<lparr>callers := (callers s)(j \<mapsto> c)\<rparr>"

text \<open>\<open>submit\<close> up to its wait.\<close>

definition submit :: "nat \<Rightarrow> bool \<Rightarrow> 'r queue \<Rightarrow> 'r queue" where
  "submit j persist s =
     s\<lparr>jobs := (jobs s)(j \<mapsto> new_job), registry := insert j (registry s), pending := pending s @ [Some j],
       callers := (callers s)(j \<mapsto> Waiting persist)\<rparr>"

text \<open>\<open>_PendingJobs.discard\<close> removes the item of the job, if it still waits.\<close>

definition discard :: "nat \<Rightarrow> 'r queue \<Rightarrow> 'r queue" where
  "discard j s = s\<lparr>pending := remove1 (Some j) (pending s)\<rparr>"

definition forget :: "nat \<Rightarrow> 'r queue \<Rightarrow> 'r queue" where
  "forget j s = s\<lparr>registry := registry s - {j}\<rparr>"

text \<open>The worker starts the handler unless the job was settled meanwhile.\<close>

definition begin_job :: "nat \<Rightarrow> nat \<Rightarrow> 'r queue \<Rightarrow> 'r queue" where
  "begin_job w j s =
     (if outcome (the_job s j) \<noteq> None then set_worker w Idle s
      else set_worker w (Handling j)
        (s\<lparr>jobs := (jobs s)(j \<mapsto> (the_job s j)\<lparr>started := True\<rparr>), running := insert j (running s)\<rparr>))"

text \<open>After settling: the job leaves the running set; the worker that was replaced retires.\<close>

definition account_job :: "nat \<Rightarrow> nat \<Rightarrow> 'r queue \<Rightarrow> 'r queue" where
  "account_job w j s =
     (if abandoned (the_job s j) then set_worker w Retired (s\<lparr>running := running s - {j}, surplus := surplus s - 1\<rparr>)
      else set_worker w Idle (s\<lparr>running := running s - {j}\<rparr>))"

section \<open>Steps\<close>

inductive job_step :: "nat \<Rightarrow> 'r queue \<Rightarrow> 'r queue \<Rightarrow> bool" for limit where
  step_submit: "\<not> stopping s \<Longrightarrow> jobs s j = None \<Longrightarrow> job_step limit s (submit j persist s)"
| step_take: "w < length (workers s) \<Longrightarrow> workers s ! w = Idle \<Longrightarrow> pending s = x # q \<Longrightarrow>
    job_step limit s (set_worker w (case x of None \<Rightarrow> Retired | Some j \<Rightarrow> Holding j) (s\<lparr>pending := q\<rparr>))"
| step_quit: "w < length (workers s) \<Longrightarrow> workers s ! w = Idle \<Longrightarrow> stopping s \<Longrightarrow> job_step limit s (set_worker w Retired s)"
| step_check: "w < length (workers s) \<Longrightarrow> workers s ! w = Holding j \<Longrightarrow>
    job_step limit s (set_worker w (Ready j) (if stopping s then settle limit j (Failed Shut_down) False s else s))"
| step_begin: "w < length (workers s) \<Longrightarrow> workers s ! w = Ready j \<Longrightarrow> job_step limit s (begin_job w j s)"
| step_handler: "w < length (workers s) \<Longrightarrow> workers s ! w = Handling j \<Longrightarrow> job_step limit s (set_worker w (Returned j out) s)"
| step_settle: "w < length (workers s) \<Longrightarrow> workers s ! w = Returned j out \<Longrightarrow>
    job_step limit s (set_worker w (Settled j) (settle limit j out False s))"
| step_account: "w < length (workers s) \<Longrightarrow> workers s ! w = Settled j \<Longrightarrow> job_step limit s (account_job w j s)"
| step_watchdog: "j \<in> running s \<Longrightarrow> job_step limit s (settle limit j (Failed Timed_out) True s)"
| step_answer: "callers s j = Some (Waiting persist) \<Longrightarrow> outcome (the_job s j) = Some out \<Longrightarrow>
    job_step limit s (set_caller j (Answered (Result out)) (forget j s))"
| step_expire: "callers s j = Some (Waiting False) \<Longrightarrow>
    job_step limit s (set_caller j Expired (settle limit j (Failed Timed_out) True s))"
| step_expired: "callers s j = Some Expired \<Longrightarrow>
    job_step limit s (set_caller j (Answered (Result (Failed Timed_out))) (forget j (discard j s)))"
| step_claim: "callers s j = Some (Waiting True) \<Longrightarrow> outcome (the_job s j) = None \<Longrightarrow>
    job_step limit s (set_caller j Claimed (s\<lparr>jobs := (jobs s)(j \<mapsto> (the_job s j)\<lparr>persisted := True\<rparr>)\<rparr>))"
| step_snapshot: "callers s j = Some Claimed \<Longrightarrow> job_step limit s (set_caller j (Writing (job_status (the_job s j))) s)"
| step_write: "callers s j = Some (Writing st) \<Longrightarrow>
    r = (rows s)(j \<mapsto> st) \<or> r = rows s \<Longrightarrow> job_step limit s (set_caller j (Answered Poll) (s\<lparr>rows := r\<rparr>))"
| step_finish: "j \<in> finishing s \<Longrightarrow> r = (rows s)(j \<mapsto> job_status (the_job s j)) \<or> r = rows s \<Longrightarrow>
    job_step limit s (s\<lparr>rows := r, finishing := finishing s - {j}\<rparr>)"
| step_reap: "\<forall>j \<in> old. outcome (the_job s j) \<noteq> None \<Longrightarrow> job_step limit s (s\<lparr>registry := registry s - old\<rparr>)"
| step_shutdown: "job_step limit s (s\<lparr>stopping := True\<rparr>)"
| step_drain: "stopping s \<Longrightarrow> pending s = x # q \<Longrightarrow>
    job_step limit s (case x of None \<Rightarrow> s\<lparr>pending := q\<rparr> | Some j \<Rightarrow> settle limit j (Failed Shut_down) False (s\<lparr>pending := q\<rparr>))"
| step_sentinel: "stopping s \<Longrightarrow> job_step limit s (s\<lparr>pending := pending s @ [None]\<rparr>)"

inductive job_reach :: "nat \<Rightarrow> 'r queue \<Rightarrow> bool" for limit where
  reach_init: "job_reach limit (new_job_queue limit)"
| reach_step: "job_reach limit s \<Longrightarrow> job_step limit s s' \<Longrightarrow> job_reach limit s'"

section \<open>Lemmas on the operations\<close>

lemma the_job_Some [simp]: "jobs s j = Some jb \<Longrightarrow> the_job s j = jb"
  by (simp add: the_job_def)

lemma the_job_upd: "the_job (s\<lparr>jobs := (jobs s)(j \<mapsto> jb)\<rparr>) k = (if k = j then jb else the_job s k)"
  by (simp add: the_job_def)

lemma the_job_cong: "jobs s' = jobs s \<Longrightarrow> the_job s' j = the_job s j"
  by (simp add: the_job_def)

lemma new_job_simps [simp]: "outcome new_job = None" "\<not> started new_job" "\<not> persisted new_job" "\<not> abandoned new_job"
  by (simp_all add: new_job_def)

lemma set_worker_simps [simp]:
  "jobs (set_worker w x s) = jobs s" "pending (set_worker w x s) = pending s" "callers (set_worker w x s) = callers s"
  "workers (set_worker w x s) = (workers s)[w := x]" "surplus (set_worker w x s) = surplus s"
  "stopping (set_worker w x s) = stopping s" "finishing (set_worker w x s) = finishing s" "running (set_worker w x s) = running s"
  by (simp_all add: set_worker_def)

lemma set_caller_simps [simp]:
  "jobs (set_caller j c s) = jobs s" "pending (set_caller j c s) = pending s" "callers (set_caller j c s) = (callers s)(j \<mapsto> c)"
  "workers (set_caller j c s) = workers s" "surplus (set_caller j c s) = surplus s"
  "stopping (set_caller j c s) = stopping s" "finishing (set_caller j c s) = finishing s" "running (set_caller j c s) = running s"
  by (simp_all add: set_caller_def)

lemma forget_discard_simps [simp]:
  "jobs (forget j s) = jobs s" "pending (forget j s) = pending s" "callers (forget j s) = callers s" "workers (forget j s) = workers s"
  "surplus (forget j s) = surplus s" "stopping (forget j s) = stopping s" "running (forget j s) = running s"
  "jobs (discard j s) = jobs s" "pending (discard j s) = remove1 (Some j) (pending s)" "callers (discard j s) = callers s"
  "workers (discard j s) = workers s" "surplus (discard j s) = surplus s" "stopping (discard j s) = stopping s"
  "running (discard j s) = running s"
  by (simp_all add: forget_def discard_def)

text \<open>What \<open>settle\<close> does, by cases.\<close>

lemma settle_cases:
  obtains (unknown) "jobs s j = None" "settle limit j out t s = s"
  | (settled) jb where "jobs s j = Some jb" "outcome jb \<noteq> None" "settle limit j out t s = s"
  | (kept) jb fin where "jobs s j = Some jb" "outcome jb = None" "\<not> (t \<and> started jb \<and> \<not> stopping s \<and> surplus s < limit)"
      "settle limit j out t s = s\<lparr>jobs := (jobs s)(j \<mapsto> jb\<lparr>outcome := Some out\<rparr>), finishing := fin\<rparr>"
  | (replaced) jb fin where "jobs s j = Some jb" "outcome jb = None" "t" "started jb" "\<not> stopping s" "surplus s < limit"
      "settle limit j out t s = s\<lparr>surplus := surplus s + 1, workers := workers s @ [Idle],
         jobs := (jobs s)(j \<mapsto> jb\<lparr>outcome := Some out, abandoned := True\<rparr>), finishing := fin\<rparr>"
proof (cases "jobs s j")
  case None
  then show thesis by (intro unknown) (simp_all add: settle_def)
next
  case (Some jb)
  show thesis
  proof (cases "outcome jb")
    case None
    show thesis
    proof (cases "t \<and> started jb \<and> \<not> stopping s \<and> surplus s < limit")
      case True
      show thesis
        by (rule replaced [of jb "if persisted jb then insert j (finishing s) else finishing s"])
          (use Some None True in \<open>simp_all add: settle_def Let_def\<close>)
    next
      case False
      show thesis
        by (rule kept [of jb "if persisted jb then insert j (finishing s) else finishing s"])
          (use Some None False in \<open>auto simp: settle_def Let_def\<close>)
    qed
  qed (use Some in \<open>intro settled [of jb], simp_all add: settle_def\<close>)
qed

lemma settle_simps [simp]:
  "pending (settle limit j out t s) = pending s" "callers (settle limit j out t s) = callers s"
  "stopping (settle limit j out t s) = stopping s" "registry (settle limit j out t s) = registry s"
  "running (settle limit j out t s) = running s" "rows (settle limit j out t s) = rows s"
  by (cases rule: settle_cases [of s j limit out t]; simp)+

lemma settle_done: "jobs s j \<noteq> None \<Longrightarrow> outcome (the_job (settle limit j out t s) j) \<noteq> None"
  by (cases rule: settle_cases [of s j limit out t]) (auto simp: the_job_def)

lemma settle_dom [simp]: "jobs (settle limit j out t s) k = None \<longleftrightarrow> jobs s k = None"
  by (cases rule: settle_cases [of s j limit out t]) auto

lemma settle_job:
  "started (the_job (settle limit j out t s) k) = started (the_job s k)"
  "outcome (the_job s k) \<noteq> None \<Longrightarrow> the_job (settle limit j out t s) k = the_job s k"
  "k \<noteq> j \<Longrightarrow> the_job (settle limit j out t s) k = the_job s k"
  by (cases rule: settle_cases [of s j limit out t]; auto simp: the_job_def)+

section \<open>Nothing settled is ever changed\<close>

definition grows :: "'r queue \<Rightarrow> 'r queue \<Rightarrow> bool" where
  "grows s s' \<longleftrightarrow> (\<forall>j. (jobs s j \<noteq> None \<longrightarrow> jobs s' j \<noteq> None)
     \<and> (outcome (the_job s j) \<noteq> None \<longrightarrow> outcome (the_job s' j) = outcome (the_job s j)))"

lemma grows_refl: "jobs s' = jobs s \<Longrightarrow> grows s s'"
  by (simp add: grows_def the_job_cong [of s' s])

lemma grows_settle: "jobs s' = jobs s \<Longrightarrow> jobs s'' = jobs (settle limit j out t s') \<Longrightarrow> grows s s''"
  using settle_job(2) [of s' _ limit j out t] settle_dom [of limit j out t s']
  by (simp add: grows_def the_job_cong [of s' s] the_job_cong [of s'' "settle limit j out t s'"])

lemma grows_upd: "outcome jb = outcome (the_job s j) \<Longrightarrow> jobs s' = (jobs s)(j \<mapsto> jb) \<Longrightarrow> grows s s'"
  by (auto simp: grows_def the_job_def split: option.splits)

lemma step_grows: "job_step limit s s' \<Longrightarrow> grows s s'"
proof (induction rule: job_step.induct)
  case (step_submit s j persist)
  then show ?case by (intro grows_upd [of new_job s j]) (simp_all add: submit_def the_job_def)
next
  case (step_begin w s j)
  show ?case unfolding begin_job_def
    by (auto intro: grows_refl grows_upd [of "(the_job s j)\<lparr>started := True\<rparr>" s j])
next
  case (step_claim s j)
  show ?case by (rule grows_upd [of "(the_job s j)\<lparr>persisted := True\<rparr>" s j]) simp_all
next
  case (step_drain s x q)
  show ?case by (cases x) (auto intro: grows_refl grows_settle [of "s\<lparr>pending := q\<rparr>" s])
qed (auto simp: account_job_def split: option.splits intro: grows_refl grows_settle [OF refl])

lemma steps_grow: "(job_step limit)\<^sup>*\<^sup>* s s' \<Longrightarrow> grows s s'"
proof (induction rule: rtranclp_induct)
  case (step y z)
  then show ?case using step_grows [of limit y z] unfolding grows_def by (metis (no_types, lifting))
qed (simp add: grows_refl)

section \<open>Every unfinished job is in one place\<close>

fun job_of :: "'r worker \<Rightarrow> nat option" where
  "job_of (Holding j) = Some j"
| "job_of (Ready j) = Some j"
| "job_of (Handling j) = Some j"
| "job_of (Returned j out) = Some j"
| "job_of (Settled j) = Some j"
| "job_of _ = None"

definition owners :: "nat \<Rightarrow> 'r queue \<Rightarrow> nat" where
  "owners j s = length (filter (\<lambda>x. job_of x = Some j) (workers s))"

definition places :: "nat \<Rightarrow> 'r queue \<Rightarrow> nat" where
  "places j s = count_list (pending s) (Some j) + owners j s"

lemma filter_update:
  "i < length xs \<Longrightarrow> length (filter P (xs[i := x])) + (if P (xs ! i) then 1 else 0) = length (filter P xs) + (if P x then 1 else 0)"
proof -
  assume i: "i < length xs"
  have "length (filter P xs) = length (filter P (take i xs @ xs ! i # drop (Suc i) xs))" using id_take_nth_drop [OF i] by simp
  then show ?thesis by (simp add: upd_conv_take_nth_drop [OF i])
qed

lemma owners_set_worker:
  assumes "w < length (workers s)"
  shows "owners j (set_worker w x s) + (if job_of (workers s ! w) = Some j then 1 else 0) = owners j s + (if job_of x = Some j then 1 else 0)"
  unfolding owners_def set_worker_def using filter_update [OF assms, of "\<lambda>x. job_of x = Some j" x] by simp

lemma owners_cong: "workers s' = workers s \<Longrightarrow> owners j s' = owners j s"
  by (simp add: owners_def)

lemma owners_settle [simp]: "owners k (settle limit j out t s) = owners k s"
  by (cases rule: settle_cases [of s j limit out t]) (simp_all add: owners_def)

lemma owned: "w < length (workers s) \<Longrightarrow> job_of (workers s ! w) = Some j \<Longrightarrow> owners j s \<ge> 1"
  unfolding owners_def by (metis (mono_tags, lifting) filter_empty_conv length_0_conv less_one not_less nth_mem)

lemma settle_worker: "w < length (workers s) \<Longrightarrow> w < length (workers (settle limit j out t s)) \<and> workers (settle limit j out t s) ! w = workers s ! w"
  by (cases rule: settle_cases [of s j limit out t]) (auto simp: nth_append)

text \<open>The place of a job tells whether its handler was started.\<close>

fun stage_ok :: "'r queue \<Rightarrow> 'r worker \<Rightarrow> bool" where
  "stage_ok s (Holding j) = (\<not> started (the_job s j))"
| "stage_ok s (Ready j) = (\<not> started (the_job s j))"
| "stage_ok s (Handling j) = started (the_job s j)"
| "stage_ok s (Returned j out) = started (the_job s j)"
| "stage_ok s (Settled j) = (started (the_job s j) \<and> outcome (the_job s j) \<noteq> None)"
| "stage_ok s _ = True"

definition placed :: "'r queue \<Rightarrow> bool" where
  "placed s \<longleftrightarrow> (\<forall>j. places j s \<le> 1) \<and> (\<forall>j. jobs s j = None \<longrightarrow> places j s = 0)
     \<and> (\<forall>j. jobs s j \<noteq> None \<longrightarrow> outcome (the_job s j) = None \<longrightarrow> places j s = 1)"

definition staged :: "'r queue \<Rightarrow> bool" where
  "staged s \<longleftrightarrow> (\<forall>x \<in> set (workers s). stage_ok s x) \<and> (\<forall>j. Some j \<in> set (pending s) \<longrightarrow> \<not> started (the_job s j))
     \<and> (\<forall>j. abandoned (the_job s j) \<longrightarrow> outcome (the_job s j) \<noteq> None \<and> started (the_job s j))
     \<and> (\<forall>j c. callers s j = Some c \<longrightarrow> jobs s j \<noteq> None \<and> (c = Expired \<longrightarrow> outcome (the_job s j) \<noteq> None))"

lemma places_cong: "pending s' = pending s \<Longrightarrow> workers s' = workers s \<Longrightarrow> places j s' = places j s"
  by (simp add: places_def owners_def)

lemma places_set_worker:
  "w < length (workers s) \<Longrightarrow> job_of x = job_of (workers s ! w) \<Longrightarrow> places j (set_worker w x s) = places j s"
  using owners_set_worker [of w s j x] by (simp add: places_def split: if_splits)

lemma places_settle [simp]: "places k (settle limit j out t s) = places k s"
  by (simp add: places_def)

lemma placed_same:
  assumes "placed s" "grows s s'" "\<And>j. places j s' = places j s" "\<And>j. jobs s' j = None \<longleftrightarrow> jobs s j = None"
  shows "placed s'"
  using assms unfolding placed_def grows_def by (metis (no_types, lifting))

lemma placed_drop:
  assumes "placed s" "grows s s'" "\<And>j. jobs s' j = None \<longleftrightarrow> jobs s j = None" "outcome (the_job s' k) \<noteq> None"
    "\<And>j. j \<noteq> k \<Longrightarrow> places j s' = places j s" "places k s' \<le> places k s"
  shows "placed s'"
proof -
  have "places j s' \<le> places j s" for j using assms(5,6) by (cases "j = k") auto
  then have "places j s' \<le> 1" "jobs s' j = None \<Longrightarrow> places j s' = 0" for j
    using assms(1,3) unfolding placed_def by (metis le_trans le_zero_eq)+
  moreover have "places j s' = 1" if "jobs s' j \<noteq> None" "outcome (the_job s' j) = None" for j
    using that assms(1-5) unfolding placed_def grows_def by metis
  ultimately show ?thesis unfolding placed_def by blast
qed

lemma placed_cong: "placed s \<Longrightarrow> jobs s' = jobs s \<Longrightarrow> pending s' = pending s \<Longrightarrow> workers s' = workers s \<Longrightarrow> placed s'"
  by (simp add: placed_def places_cong [of s' s] the_job_cong [of s' s])

lemma placed_settle: "placed s \<Longrightarrow> placed (settle limit j out t s)"
  by (rule placed_same [of s]) (auto intro: grows_settle [OF refl])

lemma step_dom: "job_step limit s s' \<Longrightarrow> (\<forall>j persist. s' \<noteq> submit j persist s) \<Longrightarrow> placed s \<Longrightarrow> staged s \<Longrightarrow> jobs s' j = None \<longleftrightarrow> jobs s j = None"
proof (induction rule: job_step.induct)
  case (step_begin w s k)
  then have "owners k s \<ge> 1" using owned [of w s k] by simp
  then have "jobs s k \<noteq> None" using step_begin.prems(2) by (auto simp: placed_def places_def)
  then show ?case by (auto simp: begin_job_def)
next
  case (step_claim s k)
  then show ?case by (auto simp: staged_def)
next
  case (step_drain s x q)
  show ?case by (cases x) simp_all
qed (auto simp: account_job_def split: option.splits)

lemma staged_settle: "staged s \<Longrightarrow> staged (settle limit j out t s)"
proof -
  assume st: "staged s"
  let ?s = "settle limit j out t s"
  have ok: "stage_ok ?s x" if "stage_ok s x" for x
    using that settle_job(1) [of limit j out t s] settle_job(2) [of s _ limit j out t] by (cases x) auto
  have "set (workers ?s) \<subseteq> insert Idle (set (workers s))" by (cases rule: settle_cases [of s j limit out t]) auto
  then have "\<forall>x \<in> set (workers ?s). stage_ok ?s x" using st ok unfolding staged_def by fastforce
  moreover have "\<forall>k. abandoned (the_job ?s k) \<longrightarrow> outcome (the_job ?s k) \<noteq> None \<and> started (the_job ?s k)"
    using st by (cases rule: settle_cases [of s j limit out t]) (auto simp: staged_def the_job_def split: if_splits option.splits)
  moreover have "outcome (the_job s k) \<noteq> None \<Longrightarrow> outcome (the_job ?s k) \<noteq> None" for k
    using settle_job(2) [of s k limit j out t] by simp
  ultimately show ?thesis using st unfolding staged_def settle_simps settle_job(1) settle_dom by (metis (no_types, lifting))
qed

lemma stage_ok_cong: "jobs s' = jobs s \<Longrightarrow> stage_ok s' x = stage_ok s x"
  by (cases x) (simp_all add: the_job_cong [of s' s])

lemma staged_worker: "staged s \<Longrightarrow> stage_ok s x \<Longrightarrow> staged (set_worker w x s)"
  using set_update_subset_insert [of "workers s" w x]
  by (auto simp: staged_def stage_ok_cong [of "set_worker w x s" s] the_job_cong [of "set_worker w x s" s])

lemma staged_caller: "staged s \<Longrightarrow> jobs s j \<noteq> None \<Longrightarrow> (c = Expired \<longrightarrow> outcome (the_job s j) \<noteq> None) \<Longrightarrow> staged (set_caller j c s)"
  by (auto simp: staged_def stage_ok_cong [of "set_caller j c s" s] the_job_cong [of "set_caller j c s" s])

lemma staged_rest: "staged s \<Longrightarrow> jobs s' = jobs s \<Longrightarrow> workers s' = workers s \<Longrightarrow> callers s' = callers s \<Longrightarrow>
    (\<And>j. Some j \<in> set (pending s') \<Longrightarrow> Some j \<in> set (pending s)) \<Longrightarrow> staged s'"
  by (simp add: staged_def stage_ok_cong [of s' s] the_job_cong [of s' s])

text \<open>A change of the record of \<open>j\<close> that keeps its progress.\<close>

lemma staged_upd:
  assumes "staged s" "outcome jb = outcome (the_job s j)" "started jb = started (the_job s j)" "abandoned jb = abandoned (the_job s j)"
    "jobs s j \<noteq> None" "s' = s\<lparr>jobs := (jobs s)(j \<mapsto> jb)\<rparr>"
  shows "staged s'"
proof -
  have j: "outcome (the_job s' k) = outcome (the_job s k)" "started (the_job s' k) = started (the_job s k)"
    "abandoned (the_job s' k) = abandoned (the_job s k)" "jobs s' k = None \<longleftrightarrow> jobs s k = None" for k
    using assms by (auto simp: the_job_def)
  have "stage_ok s' x = stage_ok s x" for x by (cases x) (simp_all add: j)
  then show ?thesis using assms(1) j assms(6) unfolding staged_def by simp
qed

lemma not_elsewhere:
  assumes "placed s" "w < length (workers s)" "job_of (workers s ! w) = Some j"
  shows "Some j \<notin> set (pending s)" "i < length (workers s) \<Longrightarrow> i \<noteq> w \<Longrightarrow> job_of (workers s ! i) \<noteq> Some j"
proof -
  have one: "places j s \<le> 1" "owners j s \<ge> 1" using assms owned by (auto simp: placed_def)
  then have "count_list (pending s) (Some j) = 0" "owners j s = 1" by (simp_all add: places_def)
  then show "Some j \<notin> set (pending s)" by (simp add: count_list_0_iff)
  show "i < length (workers s) \<Longrightarrow> i \<noteq> w \<Longrightarrow> job_of (workers s ! i) \<noteq> Some j"
  proof
    assume i: "i < length (workers s)" "i \<noteq> w" "job_of (workers s ! i) = Some j"
    have "owners j (set_worker w Idle s) = 0" using owners_set_worker [OF assms(2), of j Idle] assms(3) \<open>owners j s = 1\<close> by simp
    then show False using owned [of i "set_worker w Idle s" j] i by simp
  qed
qed

lemma staged_begin:
  assumes "staged s" "placed s" "w < length (workers s)" "workers s ! w = Ready j"
  shows "staged (begin_job w j s)"
proof (cases "outcome (the_job s j)")
  case None
  let ?s = "begin_job w j s"
  have e: "?s = set_worker w (Handling j) (s\<lparr>jobs := (jobs s)(j \<mapsto> (the_job s j)\<lparr>started := True\<rparr>), running := insert j (running s)\<rparr>)"
    using None by (simp add: begin_job_def)
  have j: "the_job ?s k = (if k = j then (the_job s j)\<lparr>started := True\<rparr> else the_job s k)" for k
    by (simp add: e the_job_def)
  have w: "workers ?s = (workers s)[w := Handling j]" "pending ?s = pending s" "callers ?s = callers s" by (simp_all add: e)
  have dom: "jobs s k \<noteq> None \<Longrightarrow> jobs ?s k \<noteq> None" for k by (simp add: e)
  have "stage_ok ?s (workers ?s ! i)" if "i < length (workers ?s)" for i
  proof (cases "i = w")
    case False
    have "stage_ok s (workers s ! i)" using assms(1) that by (simp add: staged_def w)
    moreover have "job_of (workers s ! i) \<noteq> Some j" using not_elsewhere(2) [OF assms(2,3)] assms(4) that False by (simp add: w)
    ultimately show ?thesis using False by (cases "workers s ! i") (simp_all add: w j)
  qed (use assms(3) in \<open>simp add: w j\<close>)
  then have "\<forall>x \<in> set (workers ?s). stage_ok ?s x" by (auto simp: in_set_conv_nth)
  moreover have "Some j \<notin> set (pending s)" using not_elsewhere(1) [OF assms(2,3)] assms(4) by simp
  ultimately show ?thesis using assms(1) unfolding staged_def w(2,3) j by (auto simp: dom split: if_splits)
qed (use assms(1) in \<open>simp add: begin_job_def staged_worker\<close>)

lemma staged_submit: "staged s \<Longrightarrow> placed s \<Longrightarrow> jobs s j = None \<Longrightarrow> staged (submit j persist s)"
proof -
  assume st: "staged s" and pl: "placed s" and j: "jobs s j = None"
  let ?s = "submit j persist s"
  have J: "the_job ?s k = the_job s k" for k using j by (simp add: submit_def the_job_def)
  then have "stage_ok ?s x = stage_ok s x" for x by (cases x) simp_all
  moreover have "\<not> started (the_job s j)" using j by (simp add: the_job_def)
  ultimately show ?thesis using st J by (auto simp: staged_def) (auto simp: submit_def split: if_splits)
qed

lemma step_staged: "job_step limit s s' \<Longrightarrow> placed s \<Longrightarrow> staged s \<Longrightarrow> staged s'"
proof (induction rule: job_step.induct)
  case (step_submit s j persist)
  then show ?case by (intro staged_submit)
next
  case (step_take w s x q)
  have st: "staged (s\<lparr>pending := q\<rparr>)" by (rule staged_rest [OF step_take(5)]) (use step_take(3) in auto)
  have "\<not> started (the_job s j)" if "x = Some j" for j using step_take(3,5) that by (auto simp: staged_def)
  then show ?case by (intro staged_worker [OF st]) (auto simp: the_job_cong [of "s\<lparr>pending := q\<rparr>" s] split: option.splits)
next
  case (step_check w s j)
  then have "\<not> started (the_job s j)" unfolding staged_def by (metis nth_mem stage_ok.simps(1))
  then show ?case using step_check.prems(2) by (auto intro!: staged_worker staged_settle simp: settle_job(1))
next
  case (step_begin w s j)
  then show ?case by (intro staged_begin)
next
  case (step_handler w s j out)
  then have "started (the_job s j)" unfolding staged_def by (metis nth_mem stage_ok.simps(3))
  then show ?case using step_handler.prems(2) by (intro staged_worker) simp_all
next
  case (step_settle w s j out)
  then have "started (the_job s j)" unfolding staged_def by (metis nth_mem stage_ok.simps(4))
  moreover have "owners j s \<ge> 1" using owned [of w s j] step_settle by simp
  then have "jobs s j \<noteq> None" using step_settle.prems(1) by (auto simp: placed_def places_def)
  ultimately show ?case using step_settle.prems(2)
    by (intro staged_worker staged_settle) (simp_all add: settle_job(1) settle_done)
next
  case (step_account w s j)
  show ?case unfolding account_job_def using staged_rest [OF step_account.prems(2)]
    by (auto intro!: staged_worker staged_rest [OF step_account.prems(2)])
next
  case (step_expire s j)
  then have "jobs s j \<noteq> None" by (auto simp: staged_def)
  then show ?case using step_expire.prems(2) by (intro staged_caller staged_settle) (simp_all add: settle_done)
next
  case (step_expired s j)
  then have "jobs s j \<noteq> None" by (auto simp: staged_def)
  moreover have "staged (forget j (discard j s))"
    by (rule staged_rest [OF step_expired.prems(2)]) (auto dest: in_set_remove1 [THEN iffD1, rotated] notin_set_remove1 set_mp [OF set_remove1_subset])
  ultimately show ?case by (intro staged_caller) simp_all
next
  case (step_claim s j)
  then have "jobs s j \<noteq> None" by (auto simp: staged_def)
  then have "staged (s\<lparr>jobs := (jobs s)(j \<mapsto> (the_job s j)\<lparr>persisted := True\<rparr>)\<rparr>)"
    by (intro staged_upd [OF step_claim.prems(2), of "(the_job s j)\<lparr>persisted := True\<rparr>" j]) simp_all
  then show ?case by (intro staged_caller) simp_all
next
  case (step_answer s j persist out)
  then have "jobs s j \<noteq> None" by (auto simp: staged_def)
  then show ?case by (intro staged_caller staged_rest [OF step_answer.prems(2)]) simp_all
next
  case (step_snapshot s j)
  then have "jobs s j \<noteq> None" by (auto simp: staged_def)
  then show ?case using step_snapshot.prems(2) by (intro staged_caller) simp_all
next
  case (step_write s j st r)
  then have "jobs s j \<noteq> None" by (auto simp: staged_def)
  then show ?case by (intro staged_caller staged_rest [OF step_write.prems(2)]) simp_all
next
  case (step_drain s x q)
  have "staged (s\<lparr>pending := q\<rparr>)" by (rule staged_rest [OF step_drain.prems(2)]) (use step_drain(2) in auto)
  then show ?case by (auto intro: staged_settle split: option.splits)
next
  case (step_quit w s)
  then show ?case by (intro staged_worker) simp_all
next
  case (step_watchdog j s)
  then show ?case by (intro staged_settle)
qed (erule staged_rest; auto)+

lemma step_placed: "job_step limit s s' \<Longrightarrow> placed s \<Longrightarrow> staged s \<Longrightarrow> placed s'"
proof -
  assume step: "job_step limit s s'" and pl: "placed s" and st: "staged s"
  note gr = step_grows [OF step] and dom = step_dom [OF step _ pl st]
  show "placed s'"
    using step
  proof cases
    case (step_submit j persist)
    have "places j s = 0" using pl step_submit by (simp add: placed_def)
    then have c: "places k s' = (if k = j then 1 else places k s)" for k
      using step_submit by (auto simp: places_def owners_def submit_def)
    then show ?thesis using pl step_submit unfolding placed_def
      by (auto simp: submit_def the_job_def split: if_splits option.splits)
  next
    case (step_take w x q)
    have "places j s' = places j s" for j
      using owners_set_worker [of w "s\<lparr>pending := q\<rparr>" j "case x of None \<Rightarrow> Retired | Some j \<Rightarrow> Holding j"] step_take
      by (auto simp: places_def owners_def split: option.splits if_splits)
    then show ?thesis using dom by (intro placed_same [OF pl gr]) (auto simp: step_take)
  next
    case (step_begin w j)
    have own: "jobs s j \<noteq> None" using step_begin owned [of w s j] pl by (auto simp: placed_def places_def)
    show ?thesis
    proof (cases "outcome (the_job s j)")
      case None
      have "places k s' = places k s" for k
        using owners_set_worker [of w "s\<lparr>jobs := (jobs s)(j \<mapsto> (the_job s j)\<lparr>started := True\<rparr>), running := insert j (running s)\<rparr>" k "Handling j"]
          step_begin None by (auto simp: begin_job_def places_def owners_def)
      then show ?thesis using own None by (intro placed_same [OF pl gr]) (auto simp: step_begin begin_job_def)
    next
      case (Some a)
      then have e: "s' = set_worker w Idle s" by (simp add: step_begin(1) begin_job_def)
      have "owners k s' + (if k = j then 1 else 0) = owners k s" for k
        unfolding e using owners_set_worker [OF step_begin(2), of k Idle] step_begin(3) by (auto split: if_splits)
      note o = this
      have jb: "jobs s' = jobs s" "pending s' = pending s" by (simp_all add: e)
      have d: "outcome (the_job s' j) \<noteq> None" using Some jb(1) by (simp add: the_job_cong [of s' s])
      show ?thesis using d jb o by (intro placed_drop [OF pl gr, of j]) (auto simp: places_def split: if_splits, metis add_0_right, metis le_add1)
    qed
  next
    case (step_account w j)
    have d: "outcome (the_job s j) \<noteq> None" using st step_account unfolding staged_def by (metis nth_mem stage_ok.simps(5))
    have jb: "jobs s' = jobs s" "pending s' = pending s" by (simp_all add: step_account account_job_def)
    have "owners k s' + (if k = j then 1 else 0) = owners k s" for k
      using owners_set_worker [of w "s\<lparr>running := running s - {j}\<rparr>" k Idle]
        owners_set_worker [of w "s\<lparr>running := running s - {j}, surplus := surplus s - 1\<rparr>" k Retired] step_account
      by (auto simp: account_job_def owners_def split: if_splits)
    then show ?thesis using d jb
      by (intro placed_drop [OF pl gr, of j]) (auto simp: places_def the_job_cong [of s' s] split: if_splits, metis add_0_right, metis le_add1)
  next
    case (step_expired j)
    have d: "outcome (the_job s j) \<noteq> None" using st step_expired by (auto simp: staged_def)
    have c: "count_list (remove1 (Some j) q) (Some k) \<le> count_list q (Some k)"
      "k \<noteq> j \<Longrightarrow> count_list (remove1 (Some j) q) (Some k) = count_list q (Some k)" for q k by (induction q) auto
    have jb: "jobs s' = jobs s" "workers s' = workers s" "pending s' = remove1 (Some j) (pending s)" by (simp_all add: step_expired)
    show ?thesis using d c
      by (intro placed_drop [OF pl gr, of j]) (simp_all add: jb places_def owners_cong [of s' s] the_job_cong [of s' s])
  next
    case (step_drain x q)
    show ?thesis
    proof (cases x)
      case None
      then show ?thesis using dom step_drain
        by (intro placed_same [OF pl gr]) (auto simp: places_def owners_def)
    next
      case (Some j)
      have "jobs s j \<noteq> None" using pl step_drain Some by (auto simp: placed_def places_def)
      then have d: "outcome (the_job s' j) \<noteq> None" using step_drain Some settle_done [of "s\<lparr>pending := q\<rparr>" j] by simp
      have "places k s' + (if k = j then 1 else 0) = places k s" for k
        using step_drain Some by (simp add: places_def owners_cong [of "s\<lparr>pending := q\<rparr>" s])
      then show ?thesis using d step_drain Some
        by (intro placed_drop [OF pl gr, of j]) (auto split: if_splits, metis add_0_right, metis le_add1)
    qed
  next
    case (step_claim j)
    have "jobs s j \<noteq> None" using st step_claim by (auto simp: staged_def)
    then show ?thesis by (intro placed_same [OF pl gr]) (auto simp: step_claim intro!: places_cong)
  next
    case (step_check w j)
    have "places k s' = places k s" for k
      using places_set_worker [of w s "Ready j" k] places_set_worker [of w "settle limit j (Failed Shut_down) False s" "Ready j" k]
        settle_worker [of w s limit j "Failed Shut_down" False] step_check by auto
    then show ?thesis by (intro placed_same [OF pl gr]) (auto simp: step_check)
  next
    case (step_settle w j out)
    have "places k s' = places k s" for k
      using places_set_worker [of w "settle limit j out False s" "Settled j" k]
        settle_worker [of w s limit j out False] step_settle by auto
    then show ?thesis by (intro placed_same [OF pl gr]) (auto simp: step_settle)
  next
    case (step_sentinel)
    then show ?thesis by (intro placed_same [OF pl gr]) (auto simp: places_def owners_def)
  next
    case (step_quit w)
    then show ?thesis by (intro placed_same [OF pl gr]) (simp_all add: places_set_worker)
  next
    case (step_handler w j out)
    then show ?thesis by (intro placed_same [OF pl gr]) (simp_all add: places_set_worker)
  next
    case (step_watchdog j)
    then show ?thesis using placed_settle [OF pl] by simp
  next
    case (step_expire j)
    then show ?thesis by (intro placed_cong [OF placed_settle [OF pl, of limit j "Failed Timed_out" True]]) simp_all
  qed (rule placed_cong [OF pl]; simp)+
qed

section \<open>The pool of workers\<close>

definition stuck :: "'r queue \<Rightarrow> 'r worker \<Rightarrow> bool" where
  "stuck s x \<longleftrightarrow> (case job_of x of None \<Rightarrow> False | Some j \<Rightarrow> abandoned (the_job s j))"

definition stuck_count :: "'r queue \<Rightarrow> nat" where
  "stuck_count s = length (filter (stuck s) (workers s))"

definition live_count :: "'r queue \<Rightarrow> nat" where
  "live_count s = length (filter (\<lambda>x. x \<noteq> Retired) (workers s))"

definition pool_ok :: "nat \<Rightarrow> 'r queue \<Rightarrow> bool" where
  "pool_ok limit s \<longleftrightarrow> surplus s = stuck_count s \<and> surplus s \<le> limit \<and> live_count s \<le> limit + surplus s
     \<and> (\<not> stopping s \<longrightarrow> live_count s = limit + surplus s \<and> None \<notin> set (pending s))"

lemma stuck_simps [simp]: "\<not> stuck s Idle" "\<not> stuck s Retired"
  by (simp_all add: stuck_def)

lemma stuck_cong: "(\<And>j. abandoned (the_job s' j) = abandoned (the_job s j)) \<Longrightarrow> stuck s' = stuck s"
  by (auto simp: stuck_def fun_eq_iff split: option.splits)

lemma counts_set_worker:
  assumes "w < length (workers s)"
  shows "stuck_count (set_worker w x s) + (if stuck s (workers s ! w) then 1 else 0) = stuck_count s + (if stuck s x then 1 else 0)"
    "live_count (set_worker w x s) + (if workers s ! w \<noteq> Retired then 1 else 0) = live_count s + (if x \<noteq> Retired then 1 else 0)"
  using filter_update [OF assms, of "stuck s" x] filter_update [OF assms, of "\<lambda>x. x \<noteq> Retired" x]
    stuck_cong [of "set_worker w x s" s] by (simp_all add: stuck_count_def live_count_def the_job_def)

lemma pool_worker:
  assumes "pool_ok limit s" "w < length (workers s)" "stuck s x = stuck s (workers s ! w)" "workers s ! w \<noteq> Retired" "x \<noteq> Retired \<or> stopping s"
  shows "pool_ok limit (set_worker w x s)"
  using assms counts_set_worker [OF assms(2), of x] by (auto simp: pool_ok_def split: if_splits)

lemma pool_cong:
  assumes "pool_ok limit s" "\<And>j. abandoned (the_job s' j) = abandoned (the_job s j)" "workers s' = workers s" "surplus s' = surplus s"
    "stopping s' = stopping s \<and> (None \<in> set (pending s') \<longrightarrow> None \<in> set (pending s)) \<or> stopping s'"
  shows "pool_ok limit s'"
  using assms(1,3-) stuck_cong [of s' s, OF assms(2)] by (auto simp: pool_ok_def stuck_count_def live_count_def)

lemma pool_settle:
  assumes "pool_ok limit s" "placed s" "staged s"
  shows "pool_ok limit (settle limit j out t s)"
proof (cases rule: settle_cases [of s j limit out t])
  case (kept jb fin)
  have "abandoned (the_job (settle limit j out t s) k) = abandoned (the_job s k)" for k
    using kept(1) by (simp add: kept(4) the_job_def)
  then show ?thesis by (rule pool_cong [OF assms(1)]) (simp_all add: kept(4))
next
  case (replaced jb fin)
  let ?s = "settle limit j out t s"
  have tj: "the_job s j = jb" using replaced(1) by simp
  have "Some j \<notin> set (pending s)" "\<not> abandoned jb" using assms(3) replaced(2,4) tj unfolding staged_def by metis+
  moreover have "places j s = 1" using assms(2) replaced(1,2) by (simp add: placed_def)
  ultimately have own: "owners j s = 1" "\<not> abandoned (the_job s j)" using replaced(1) by (simp_all add: places_def count_list_0_iff)
  have "stuck ?s = (\<lambda>x. stuck s x \<or> job_of x = Some j)"
    using replaced(1) by (auto simp: replaced(7) stuck_def the_job_def fun_eq_iff split: option.splits)
  moreover have "length (filter (\<lambda>x. stuck s x \<or> job_of x = Some j) xs)
      = length (filter (stuck s) xs) + length (filter (\<lambda>x. job_of x = Some j) xs)" for xs
    using own(2) by (induction xs) (auto simp: stuck_def)
  moreover have "workers ?s = workers s @ [Idle]" by (simp add: replaced(7))
  ultimately have "stuck_count ?s = stuck_count s + 1"
    using own(1) by (simp add: stuck_count_def owners_def)
  moreover have "live_count ?s = live_count s + 1" by (simp add: live_count_def replaced(7))
  ultimately show ?thesis using assms(1) replaced(5,6) by (auto simp: pool_ok_def replaced(7))
qed (use assms(1) in simp_all)

lemma fresh_not_abandoned: "staged s \<Longrightarrow> \<not> started (the_job s j) \<Longrightarrow> \<not> abandoned (the_job s j)"
  by (auto simp: staged_def)

lemma step_pool: "job_step limit s s' \<Longrightarrow> placed s \<Longrightarrow> staged s \<Longrightarrow> pool_ok limit s \<Longrightarrow> pool_ok limit s'"
proof (induction rule: job_step.induct)
  case (step_submit s j persist)
  then show ?case by (intro pool_cong [OF step_submit.prems(3)]) (auto simp: submit_def the_job_def)
next
  case (step_take w s x q)
  have p: "pool_ok limit (s\<lparr>pending := q\<rparr>)" by (rule pool_cong [OF step_take.prems(3)]) (use step_take in \<open>auto simp: the_job_def\<close>)
  have "\<not> abandoned (the_job s j)" if "x = Some j" for j
    using that step_take by (intro fresh_not_abandoned) (auto simp: staged_def)
  moreover have "x = None \<Longrightarrow> stopping s" using step_take by (auto simp: pool_ok_def)
  ultimately show ?case using step_take(1,2)
    by (intro pool_worker [OF p]) (auto simp: stuck_def the_job_def split: option.splits)
next
  case (step_check w s j)
  have "stuck s (Ready j) = stuck s (workers s ! w)" by (simp add: step_check stuck_def)
  then show ?case using step_check pool_settle [OF step_check.prems(3,1,2)]
      settle_worker [of w s limit j "Failed Shut_down" False]
    by (auto intro!: pool_worker simp: stuck_def)
next
  case (step_begin w s j)
  have na: "\<not> abandoned (the_job s j)" using step_begin
    by (intro fresh_not_abandoned) (auto simp: staged_def, metis nth_mem stage_ok.simps(2))
  let ?s = "s\<lparr>jobs := (jobs s)(j \<mapsto> (the_job s j)\<lparr>started := True\<rparr>), running := insert j (running s)\<rparr>"
  have p: "pool_ok limit ?s" by (rule pool_cong [OF step_begin.prems(3)]) (auto simp: the_job_def)
  show ?case
  proof (cases "outcome (the_job s j)")
    case None
    have "pool_ok limit (set_worker w (Handling j) ?s)" using step_begin by (intro pool_worker [OF p]) (auto simp: stuck_def)
    then show ?thesis using None by (simp add: begin_job_def)
  next
    case (Some a)
    have "pool_ok limit (set_worker w Idle s)" using step_begin na by (intro pool_worker) (auto simp: stuck_def)
    then show ?thesis using Some by (simp add: begin_job_def)
  qed
next
  case (step_settle w s j out)
  then show ?case using pool_settle [OF step_settle.prems(3,1,2)] settle_worker [of w s limit j out False]
    by (auto intro!: pool_worker simp: stuck_def)
next
  case (step_account w s j)
  show ?case
  proof (cases "abandoned (the_job s j)")
    case True
    let ?s = "s\<lparr>running := running s - {j}, surplus := surplus s - 1\<rparr>"
    have st: "stuck s (workers s ! w)" using step_account True by (simp add: stuck_def)
    have c: "stuck_count (set_worker w Retired s) + 1 = stuck_count s" "live_count (set_worker w Retired s) + 1 = live_count s"
      using counts_set_worker [OF step_account(1), of Retired] st step_account(2) by simp_all
    have "stuck (set_worker w Retired ?s) = stuck (set_worker w Retired s)" by (rule stuck_cong) (simp add: the_job_def)
    then have "stuck_count (set_worker w Retired ?s) = stuck_count (set_worker w Retired s)"
      "live_count (set_worker w Retired ?s) = live_count (set_worker w Retired s)"
      by (simp_all add: stuck_count_def live_count_def)
    then show ?thesis using True c step_account.prems(3) by (auto simp: account_job_def pool_ok_def)
  next
    case False
    have p: "pool_ok limit (s\<lparr>running := running s - {j}\<rparr>)" by (rule pool_cong [OF step_account.prems(3)]) (auto simp: the_job_def)
    have "pool_ok limit (set_worker w Idle (s\<lparr>running := running s - {j}\<rparr>))"
      using step_account False by (intro pool_worker [OF p]) (auto simp: stuck_def the_job_def)
    then show ?thesis using False by (simp add: account_job_def)
  qed
next
  case (step_expire s j)
  then show ?case by (intro pool_cong [OF pool_settle [OF step_expire.prems(3,1,2)]]) (auto simp: the_job_def)
next
  case (step_expired s j)
  then show ?case by (intro pool_cong [OF step_expired.prems(3)]) (auto simp: the_job_def dest: set_mp [OF set_remove1_subset])
next
  case (step_claim s j)
  then show ?case by (intro pool_cong [OF step_claim.prems(3)]) (auto simp: the_job_def)
next
  case (step_drain s x q)
  have pl: "pool_ok limit (s\<lparr>pending := q\<rparr>)" by (rule pool_cong [OF step_drain.prems(3)]) (use step_drain in \<open>auto simp: the_job_def\<close>)
  show ?case
  proof (cases x)
    case (Some j)
    have "pool_ok limit (settle limit j (Failed Shut_down) False (s\<lparr>pending := q\<rparr>))"
    proof (cases rule: settle_cases [of "s\<lparr>pending := q\<rparr>" j limit "Failed Shut_down" False])
      case (kept jb fin)
      show ?thesis by (rule pool_cong [OF pl]) (use kept(1) in \<open>auto simp: kept(4) the_job_def\<close>)
    qed (use pl in simp_all)
    then show ?thesis by (simp add: Some)
  qed (use pl in simp)
next
  case (step_quit w s)
  then show ?case by (intro pool_worker) (auto simp: stuck_def)
next
  case (step_handler w s j out)
  then show ?case by (intro pool_worker) (auto simp: stuck_def)
next
  case (step_watchdog j s)
  then show ?case by (intro pool_settle)
qed (erule pool_cong; auto simp: the_job_def)+

section \<open>Answers\<close>

definition answers_ok :: "'r queue \<Rightarrow> bool" where
  "answers_ok s \<longleftrightarrow> (\<forall>j out. callers s j = Some (Answered (Result out)) \<longrightarrow>
     outcome (the_job s j) \<noteq> None \<and> (outcome (the_job s j) = Some out \<or> out = Failed Timed_out))"

lemma answers_grow: "answers_ok s \<Longrightarrow> grows s s' \<Longrightarrow> (\<And>j out. callers s' j = Some (Answered (Result out)) \<Longrightarrow>
    callers s j = Some (Answered (Result out)) \<or> outcome (the_job s j) \<noteq> None \<and> (outcome (the_job s j) = Some out \<or> out = Failed Timed_out)) \<Longrightarrow> answers_ok s'"
  unfolding answers_ok_def grows_def by metis

lemma step_answers: "job_step limit s s' \<Longrightarrow> staged s \<Longrightarrow> answers_ok s \<Longrightarrow> answers_ok s'"
proof -
  assume step: "job_step limit s s'" and st: "staged s" and an: "answers_ok s"
  show ?thesis
    by (rule answers_grow [OF an step_grows [OF step]], use step st in \<open>cases\<close>)
      (auto simp: submit_def begin_job_def account_job_def staged_def split: if_splits option.splits)
qed

lemma job_reach_inv: "job_reach limit s \<Longrightarrow> placed s \<and> staged s \<and> pool_ok limit s \<and> answers_ok s"
proof (induction rule: job_reach.induct)
  case reach_init
  have "filter (stuck (new_job_queue limit)) (replicate limit Idle) = []" by simp
  then show ?case
    by (auto simp: placed_def staged_def pool_ok_def answers_ok_def new_job_queue_def places_def owners_def stuck_count_def live_count_def
        the_job_def)
next
  case (reach_step s s')
  then show ?case using step_placed step_staged step_pool step_answers by blast
qed

section \<open>What the queue promises\<close>

text \<open>
  C9. A job is settled once: in whatever order workers, callers, watchdog, reaper and shutdown go on, the
  first outcome of a job stays its outcome, and its caller is answered with that outcome or, for
  a read past its deadline, with the timeout; a result that arrives late never replaces it.
\<close>

theorem jobs_settle_once:
  assumes "job_reach limit s" and "(job_step limit)\<^sup>*\<^sup>* s s'" and "outcome (the_job s j) = Some out"
  shows "outcome (the_job s' j) = Some out
    \<and> (\<forall>ans. callers s' j = Some (Answered (Result ans)) \<longrightarrow> ans = out \<or> ans = Failed Timed_out)"
proof -
  have r: "job_reach limit s'" using assms(2,1) by (induction rule: rtranclp_induct) (auto intro: reach_step)
  have "outcome (the_job s' j) = Some out" using steps_grow [OF assms(2)] assms(3) by (simp add: grows_def)
  moreover have "answers_ok s'" using job_reach_inv [OF r] by blast
  ultimately show ?thesis unfolding answers_ok_def by (metis option.inject)
qed

text \<open>
  C14. The pool keeps its size: besides the workers inside handlers the watchdog gave up on, there
  are exactly \<open>limit\<close> workers as long as the queue is open (never more afterwards), and never more
  than \<open>2 * limit\<close> threads in all; every unfinished job waits in the queue once or is in the hands of exactly one worker.
\<close>

theorem jobs_pool:
  assumes "job_reach limit s"
  shows "surplus s = stuck_count s \<and> live_count s \<le> 2 * limit
    \<and> live_count s - stuck_count s \<le> limit \<and> (\<not> stopping s \<longrightarrow> live_count s - stuck_count s = limit)
    \<and> (\<forall>j. jobs s j \<noteq> None \<longrightarrow> outcome (the_job s j) = None \<longrightarrow> count_list (pending s) (Some j) + owners j s = 1)"
  using job_reach_inv [OF assms] by (auto simp: pool_ok_def placed_def places_def)

text \<open>
  The row of a polled job can stay behind: the caller reads the status for the row before the worker settles,
  and writes it after the worker has written the final one.
\<close>

lemma stale_row_reachable:
  "\<exists>s :: nat queue. job_reach 1 s \<and> outcome (the_job s 0) = Some (Done 7) \<and> finishing s = {}
     \<and> callers s 0 = Some (Answered Poll) \<and> rows s 0 = Some RUNNING"
proof -
  let ?s0 = "new_job_queue 1 :: nat queue"
  let ?s1 = "submit 0 True ?s0"
  let ?s2 = "set_worker 0 (Holding 0) (?s1\<lparr>pending := []\<rparr>)"
  let ?s3 = "set_worker 0 (Ready 0) ?s2"
  let ?s4 = "begin_job 0 0 ?s3"
  let ?s5 = "set_caller 0 Claimed (?s4\<lparr>jobs := (jobs ?s4)(0 \<mapsto> (the_job ?s4 0)\<lparr>persisted := True\<rparr>)\<rparr>)"
  let ?s6 = "set_caller 0 (Writing (job_status (the_job ?s5 0))) ?s5"
  let ?s7 = "set_worker 0 (Returned 0 (Done 7)) ?s6"
  let ?s8 = "set_worker 0 (Settled 0) (settle 1 0 (Done 7) False ?s7)"
  let ?s9 = "?s8\<lparr>rows := (rows ?s8)(0 \<mapsto> job_status (the_job ?s8 0)), finishing := finishing ?s8 - {0}\<rparr>"
  let ?s10 = "set_caller 0 (Answered Poll) (?s9\<lparr>rows := (rows ?s9)(0 \<mapsto> RUNNING)\<rparr>)"
  note defs = new_job_queue_def submit_def set_worker_def set_caller_def begin_job_def the_job_def new_job_def settle_def job_status_def
  have "job_reach 1 ?s1" by (rule reach_step [OF reach_init step_submit]) (simp_all add: defs)
  from reach_step [OF this step_take [of 0 _ "Some 0" "[]"]] have "job_reach 1 ?s2" by (simp add: defs)
  from reach_step [OF this step_check [of 0 _ 0]] have "job_reach 1 ?s3" by (simp add: defs)
  from reach_step [OF this step_begin [of 0 _ 0]] have "job_reach 1 ?s4" by (simp add: defs)
  from reach_step [OF this step_claim [of _ 0]] have "job_reach 1 ?s5" by (simp add: defs)
  from reach_step [OF this step_snapshot [of _ 0]] have "job_reach 1 ?s6" by (simp add: defs)
  from reach_step [OF this step_handler [of 0 _ 0]] have "job_reach 1 ?s7" by (simp add: defs)
  from reach_step [OF this step_settle [of 0 _ 0 "Done 7"]] have "job_reach 1 ?s8" by (simp add: defs)
  from reach_step [OF this step_finish [of 0 _ "(rows ?s8)(0 \<mapsto> job_status (the_job ?s8 0))"]] have "job_reach 1 ?s9" by (simp add: defs)
  from reach_step [OF this step_write [of _ 0 RUNNING "(rows ?s9)(0 \<mapsto> RUNNING)"]] have "job_reach 1 ?s10" by (simp add: defs)
  then show ?thesis by (intro exI [of _ ?s10]) (simp add: defs)
qed

section \<open>Witnesses\<close>

text \<open>A read whose handler outlives its deadline: the watchdog settles it and the worker is replaced.\<close>

definition overdue_queue :: "nat queue" where
  "overdue_queue =
     (let s1 = submit 0 False (new_job_queue 1); s2 = set_worker 0 (Holding 0) (s1\<lparr>pending := []\<rparr>);
          s3 = begin_job 0 0 (set_worker 0 (Ready 0) s2)
      in settle 1 0 (Failed Timed_out) True s3)"

definition late_queue :: "nat queue" where
  "late_queue = set_worker 0 (Settled 0) (settle 1 0 (Done 7) False (set_worker 0 (Returned 0 (Done 7)) overdue_queue))"

lemmas queue_defs = new_job_queue_def submit_def set_worker_def begin_job_def the_job_def new_job_def settle_def

lemma overdue_reach: "job_reach 1 overdue_queue"
proof -
  let ?s1 = "submit 0 False (new_job_queue 1 :: nat queue)"
  let ?s2 = "set_worker 0 (Holding 0) (?s1\<lparr>pending := []\<rparr>)"
  let ?s3 = "set_worker 0 (Ready 0) ?s2"
  let ?s4 = "begin_job 0 0 ?s3"
  have "job_reach 1 ?s1" by (rule reach_step [OF reach_init step_submit]) (simp_all add: queue_defs)
  from reach_step [OF this step_take [of 0 _ "Some 0" "[]"]] have "job_reach 1 ?s2" by (simp add: queue_defs)
  from reach_step [OF this step_check [of 0 _ 0]] have "job_reach 1 ?s3" by (simp add: queue_defs)
  from reach_step [OF this step_begin [of 0 _ 0]] have "job_reach 1 ?s4" by (simp add: queue_defs)
  from reach_step [OF this step_watchdog [of 0]] show ?thesis by (simp add: overdue_queue_def queue_defs)
qed

lemma overdue_facts:
  "outcome (the_job overdue_queue 0) = Some (Failed Timed_out)" "surplus overdue_queue = 1" "live_count overdue_queue = 2"
  "stuck_count overdue_queue = 1" "\<not> stopping overdue_queue"
  by (simp_all add: overdue_queue_def queue_defs live_count_def stuck_count_def stuck_def)

lemma late_steps: "(job_step 1)\<^sup>*\<^sup>* overdue_queue late_queue"
proof -
  have "job_step 1 overdue_queue (set_worker 0 (Returned 0 (Done 7)) overdue_queue)"
    by (rule step_handler) (simp_all add: overdue_queue_def queue_defs)
  moreover have "job_step 1 (set_worker 0 (Returned 0 (Done 7)) overdue_queue) late_queue"
    unfolding late_queue_def by (rule step_settle) (simp_all add: overdue_queue_def queue_defs)
  ultimately show ?thesis by (meson rtranclp.rtrancl_into_rtrancl rtranclp.rtrancl_refl)
qed

theorem jobs_settle_once_witness:
  "outcome (the_job late_queue 0) = Some (Failed Timed_out) \<and> workers late_queue ! 0 = Settled 0"
proof -
  have "workers late_queue ! 0 = Settled 0" by (simp add: late_queue_def overdue_queue_def queue_defs)
  then show ?thesis using jobs_settle_once [OF overdue_reach late_steps overdue_facts(1)] by blast
qed

theorem jobs_pool_witness:
  "surplus overdue_queue = 1 \<and> live_count overdue_queue = 2 \<and> live_count overdue_queue - stuck_count overdue_queue = 1"
  using jobs_pool [OF overdue_reach] overdue_facts by simp

end
