(* ===== verification/Resource_Guard.thy ===== *)
theory Resource_Guard
  imports Rule_Normalize Event_Windows
begin

text \<open>
  The resource guard of \<^verbatim>\<open>resource_guard.py\<close>: validation of its settings, one sampling pass with its trip and
  resume, and the operator's commands on the sniffer that run beside it. What a pass measures and the clock
  readings it takes are arguments. The state written for the dashboard is kept to the pause flag,
  its reason and the trip counters.
\<close>

section \<open>Settings\<close>

datatype limit_kind = Cpu | Ram | Storage

definition LIMIT_KINDS :: "limit_kind list" where "LIMIT_KINDS = [Cpu, Ram, Storage]"

definition LIMIT_BOUNDS :: "(string \<times> int \<times> int) list" where
  "LIMIT_BOUNDS =
     [(''cpu_percent'', 0, 100), (''ram_mb'', 0, 262144), (''storage_mb'', 0, 10485760),
      (''resume_percent'', 10, 99), (''sample_seconds'', 1, 300), (''cooldown_seconds'', 0, 3600)]"

definition LIMIT_DEFAULTS :: "(string \<times> int) list" where
  "LIMIT_DEFAULTS =
     [(''cpu_percent'', 0), (''ram_mb'', 0), (''storage_mb'', 0), (''resume_percent'', 80), (''sample_seconds'', 5),
      (''cooldown_seconds'', 300)]"

text \<open>One field: \<open>int()\<close> may raise \<open>OverflowError\<close>, which the handler of the code does not name.\<close>

definition limit_field :: "pyval \<Rightarrow> int \<Rightarrow> int \<Rightarrow> pyexc + int" where
  "limit_field raw low high =
     (if (case raw of PInt _ \<Rightarrow> True | PFloat _ \<Rightarrow> True | PStr _ \<Rightarrow> True | _ \<Rightarrow> False) then
        (case py_int raw of
           Inl e \<Rightarrow> Inl (if e = TypeError \<or> e = ValueError then ValueError else e)
         | Inr n \<Rightarrow> if n < low \<or> n > high then Inl ValueError else Inr n)
      else Inl ValueError)"

fun limit_fields :: "pydict \<Rightarrow> (string \<times> int \<times> int) list \<Rightarrow> pyexc + (string \<times> int) list" where
  "limit_fields values [] = Inr []"
| "limit_fields values ((field, low, high) # fs) =
     (case map_of values (U field) of
        None \<Rightarrow> limit_fields values fs
      | Some raw \<Rightarrow>
          (case limit_field raw low high of
             Inl e \<Rightarrow> Inl e
           | Inr n \<Rightarrow> map_sum id ((#) (field, n)) (limit_fields values fs)))"

definition coerce_limit_settings :: "pyval \<Rightarrow> pyexc + (string \<times> int) list" where
  "coerce_limit_settings values = (case values of PDict d \<Rightarrow> limit_fields d LIMIT_BOUNDS | _ \<Rightarrow> Inl ValueError)"

text \<open>\<open>get_limit_config\<close> of the store; \<open>stored\<close> gives the text kept for a field, empty when there is none.\<close>

definition limit_value :: "(string \<Rightarrow> ustr) \<Rightarrow> string \<Rightarrow> int" where
  "limit_value stored field =
     (let d = the (map_of LIMIT_DEFAULTS field); (low, high) = the (map_of LIMIT_BOUNDS field);
          v = (if stored field = [] then d else case int_of_str (stored field) of None \<Rightarrow> d | Some n \<Rightarrow> n)
      in min high (max low v))"

record limit_config =
  lc_limit :: "limit_kind \<Rightarrow> int"
  lc_resume :: int
  lc_cooldown :: int

definition get_limit_config :: "(string \<Rightarrow> ustr) \<Rightarrow> limit_config" where
  "get_limit_config stored =
     \<lparr>lc_limit = (\<lambda>k. limit_value stored (case k of Cpu \<Rightarrow> ''cpu_percent'' | Ram \<Rightarrow> ''ram_mb'' | Storage \<Rightarrow> ''storage_mb'')),
      lc_resume = limit_value stored ''resume_percent'', lc_cooldown = limit_value stored ''cooldown_seconds''\<rparr>"

section \<open>The guard\<close>

record guard =
  g_over :: "limit_kind \<Rightarrow> nat"
  g_paused :: bool
  g_since :: time
  g_trips :: nat
  g_by_kind :: "limit_kind \<Rightarrow> nat"
  g_reason :: "limit_kind list"

definition new_guard :: guard where
  "new_guard = \<lparr>g_over = (\<lambda>_. 0), g_paused = False, g_since = 0, g_trips = 0, g_by_kind = (\<lambda>_. 0), g_reason = []\<rparr>"

definition TRIP_SAMPLES :: nat where "TRIP_SAMPLES = 2"

type_synonym measures = "limit_kind \<Rightarrow> rat"

definition over_limit :: "limit_config \<Rightarrow> measures \<Rightarrow> limit_kind \<Rightarrow> bool" where
  "over_limit cfg m k \<longleftrightarrow> lc_limit cfg k \<noteq> 0 \<and> m k > of_int (lc_limit cfg k)"

definition below_resume :: "limit_config \<Rightarrow> measures \<Rightarrow> bool" where
  "below_resume cfg m \<longleftrightarrow>
     list_all (\<lambda>k. lc_limit cfg k \<noteq> 0 \<longrightarrow> \<not> m k \<ge> of_int (lc_limit cfg k * lc_resume cfg) / 100) LIMIT_KINDS"

text \<open>What a pass does to the sniffer: stop it (with the kinds exceeded), start it, or nothing.\<close>

datatype guard_action = Trip "limit_kind list" | Resume

text \<open>\<open>sample\<close>: \<open>now\<close> is the reading for the cooldown, \<open>stamp\<close> the one \<open>_trip\<close> records.\<close>

definition guard_trip :: "limit_kind list \<Rightarrow> time \<Rightarrow> guard \<Rightarrow> guard" where
  "guard_trip kinds stamp g =
     g\<lparr>g_paused := True, g_since := stamp, g_trips := g_trips g + 1,
       g_by_kind := (\<lambda>k. g_by_kind g k + count_list kinds k), g_reason := kinds\<rparr>"

definition guard_resume :: "guard \<Rightarrow> guard" where
  "guard_resume g = g\<lparr>g_paused := False, g_since := 0, g_reason := []\<rparr>"

definition guard_sample :: "limit_config \<Rightarrow> measures \<Rightarrow> time \<Rightarrow> time \<Rightarrow> guard \<Rightarrow> guard \<times> guard_action option" where
  "guard_sample cfg m now stamp g =
     (let over = (\<lambda>k. if over_limit cfg m k then g_over g k + 1 else 0);
          exceeded = filter (\<lambda>k. over_limit cfg m k \<and> over k = TRIP_SAMPLES) LIMIT_KINDS;
          g1 = g\<lparr>g_over := over\<rparr> in
      if exceeded \<noteq> [] \<and> \<not> g_paused g then (guard_trip exceeded stamp g1, Some (Trip exceeded))
      else if g_paused g \<and> now - g_since g \<ge> of_int (lc_cooldown cfg) \<and> below_resume cfg m then (guard_resume g1, Some Resume)
      else (g1, None))"

text \<open>
  The events of the capture process: a pass of the guard, and the operator's start and stop of the sniffer
  (\<open>RuntimeController\<close>). The state is the guard with the flag \<open>running\<close> of the sniffer.
\<close>

datatype guard_event = Sample limit_config "limit_kind \<Rightarrow> rat" time time | Manual_start | Manual_stop

fun guard_step :: "guard_event \<Rightarrow> guard \<times> bool \<Rightarrow> (guard \<times> bool) \<times> guard_action option" where
  "guard_step (Sample cfg m now stamp) (g, running) =
     (case guard_sample cfg m now stamp g of
        (g', a) \<Rightarrow> ((g', case a of None \<Rightarrow> running | Some (Trip _) \<Rightarrow> False | Some Resume \<Rightarrow> True), a))"
| "guard_step Manual_start (g, running) = ((g, True), None)"
| "guard_step Manual_stop (g, running) = ((g, False), None)"

fun guard_run :: "guard_event list \<Rightarrow> guard \<times> bool \<Rightarrow> (guard \<times> bool) \<times> guard_action list" where
  "guard_run [] st = (st, [])"
| "guard_run (e # es) st =
     (case guard_step e st of (st1, a) \<Rightarrow>
       (case guard_run es st1 of (st', acts) \<Rightarrow> (st', (case a of None \<Rightarrow> acts | Some x \<Rightarrow> x # acts))))"

fun is_sample :: "guard_event \<Rightarrow> bool" where
  "is_sample (Sample cfg m now stamp) = True"
| "is_sample _ = False"

section \<open>Reference: streaks\<close>

text \<open>For how many of the last samples the kind has been over its limit, without a break.\<close>

definition streak :: "limit_kind \<Rightarrow> (limit_config \<times> measures) list \<Rightarrow> nat" where
  "streak k ms = length (takeWhile (\<lambda>(cfg, m). over_limit cfg m k) (rev ms))"

fun samples :: "guard_event list \<Rightarrow> (limit_config \<times> measures) list" where
  "samples [] = []"
| "samples (Sample cfg m now stamp # es) = (cfg, m) # samples es"
| "samples (e # es) = samples es"

section \<open>Lemmas\<close>

lemma samples_append: "samples (xs @ ys) = samples xs @ samples ys"
  by (induction xs rule: samples.induct) simp_all

lemma run_Cons:
  "fst (guard_run (e # es) st) = fst (guard_run es (fst (guard_step e st)))"
  "snd (guard_run (e # es) st) = (case snd (guard_step e st) of None \<Rightarrow> [] | Some x \<Rightarrow> [x]) @ snd (guard_run es (fst (guard_step e st)))"
  by (auto split: prod.splits option.splits)

declare guard_run.simps(2) [simp del]

lemma run_snoc:
  "fst (guard_run (es @ [e]) st) = fst (guard_step e (fst (guard_run es st)))"
  "snd (guard_run (es @ [e]) st) = snd (guard_run es st) @ (case snd (guard_step e (fst (guard_run es st))) of None \<Rightarrow> [] | Some x \<Rightarrow> [x])"
  by (induction es arbitrary: st) (simp_all add: run_Cons)

lemma step_guard: "fst (fst (guard_step (Sample cfg m now stamp) st)) = fst (guard_sample cfg m now stamp (fst st))"
  "snd (guard_step (Sample cfg m now stamp) st) = snd (guard_sample cfg m now stamp (fst st))"
  by (cases st; simp split: prod.splits)+

lemma step_manual: "\<not> is_sample e \<Longrightarrow> fst (fst (guard_step e st)) = fst st \<and> snd (guard_step e st) = None"
  by (cases e; cases st) simp_all

lemma sample_over: "g_over (fst (guard_sample cfg m now stamp g)) k = (if over_limit cfg m k then g_over g k + 1 else 0)"
  by (simp add: guard_sample_def Let_def guard_trip_def guard_resume_def)

lemma streak_snoc: "streak k (ms @ [(cfg, m)]) = (if over_limit cfg m k then streak k ms + 1 else 0)"
  by (simp add: streak_def)

lemma over_streak: "g_over (fst (fst (guard_run es (new_guard, running)))) k = streak k (samples es)"
proof (induction es rule: rev_induct)
  case Nil
  show ?case by (simp add: new_guard_def streak_def)
next
  case (snoc e es)
  then show ?case
  proof (cases e)
    case (Sample cfg m now stamp)
    then show ?thesis using snoc by (simp add: run_snoc step_guard sample_over samples_append streak_snoc)
  qed (use snoc step_manual [of e] in \<open>simp_all add: run_snoc samples_append\<close>)
qed

lemma resume_clear:
  assumes "below_resume cfg m" "10 \<le> lc_resume cfg" "lc_resume cfg \<le> 99" "0 \<le> lc_limit cfg k"
  shows "\<not> over_limit cfg m k"
proof
  assume o: "over_limit cfg m k"
  have "k \<in> set LIMIT_KINDS" by (cases k) (simp_all add: LIMIT_KINDS_def)
  then have m: "m k < of_int (lc_limit cfg k * lc_resume cfg) / 100"
    using assms(1) o by (auto simp: below_resume_def list_all_iff over_limit_def not_le)
  have "lc_limit cfg k * lc_resume cfg \<le> lc_limit cfg k * 100" using assms(2-4) by (intro mult_left_mono) auto
  then have "(of_int (lc_limit cfg k * lc_resume cfg) :: rat) \<le> of_int (lc_limit cfg k * 100)" by (simp only: of_int_le_iff)
  then have "(of_int (lc_limit cfg k * lc_resume cfg) :: rat) / 100 \<le> of_int (lc_limit cfg k)" by simp
  then show False using m o by (auto simp: over_limit_def)
qed

section \<open>What the guard does\<close>

text \<open>
  A pass stops the capture exactly when the guard is not pausing it and some limit is exceeded in this
  sample and the one before but not in the one before that; it starts the capture exactly when the guard is pausing it, the cooldown
  since its trip has passed and every enabled limit is back under its resume share. The manual commands in between do not matter.
\<close>

theorem guard_decides_exactly:
  assumes "guard_run es (new_guard, running) = ((g, r), acts)"
  shows "((\<exists>kinds. snd (guard_sample cfg m now stamp g) = Some (Trip kinds))
      \<longleftrightarrow> \<not> g_paused g \<and> (\<exists>k. streak k (samples es @ [(cfg, m)]) = 2))
    \<and> (snd (guard_sample cfg m now stamp g) = Some Resume
      \<longleftrightarrow> g_paused g \<and> now - g_since g \<ge> of_int (lc_cooldown cfg) \<and> below_resume cfg m)"
proof -
  have st: "g_over g k = streak k (samples es)" for k using over_streak [of es running k] assms by simp
  have all: "k \<in> set LIMIT_KINDS" for k by (cases k) (simp_all add: LIMIT_KINDS_def)
  have "filter (\<lambda>k. over_limit cfg m k \<and> (if over_limit cfg m k then g_over g k + 1 else 0) = TRIP_SAMPLES) LIMIT_KINDS \<noteq> []
      \<longleftrightarrow> (\<exists>k. streak k (samples es @ [(cfg, m)]) = 2)"
    unfolding streak_snoc st [symmetric] filter_empty_conv TRIP_SAMPLES_def using all by (auto split: if_splits)
  then show ?thesis by (auto simp: guard_sample_def Let_def)
qed

lemma run_samples:
  "fst (fst (guard_run es st)) = fst (fst (guard_run (filter is_sample es) st'))
    \<and> snd (guard_run es st) = snd (guard_run (filter is_sample es) st')" if "fst st = fst st'"
  using that
proof (induction es arbitrary: st st')
  case (Cons e es)
  show ?case
  proof (cases e)
    case (Sample cfg m now stamp)
    then show ?thesis using Cons.IH [of "fst (guard_step e st)" "fst (guard_step e st')"] Cons.prems
      by (simp add: run_Cons step_guard)
  qed (use Cons.IH [of "fst (guard_step e st)" st'] Cons.prems step_manual [of e st] in \<open>simp_all add: run_Cons\<close>)
qed simp

text \<open>
  The guard is blind to the operator: everything it does depends on its samples only, whatever the operator
  starts or stops in between and whether the capture was running at all. In particular it starts the capture at the end of its pause
  when the operator has stopped it meanwhile, or had stopped it before the guard tripped.
\<close>

theorem guard_blind_to_operator:
  "snd (guard_run es (g, r)) = snd (guard_run (filter is_sample es) (g, r'))
    \<and> (if snd (guard_sample cfg m now stamp (fst (fst (guard_run (filter is_sample es) (g, r'))))) = Some Resume
       then snd (fst (guard_run (es @ [Manual_stop, Sample cfg m now stamp]) (g, r))) else True)"
proof -
  have run: "fst (fst (guard_run es (g, r))) = fst (fst (guard_run (filter is_sample es) (g, r')))"
    "snd (guard_run es (g, r)) = snd (guard_run (filter is_sample es) (g, r'))" using run_samples [of "(g, r)" "(g, r')" es] by simp_all
  obtain g1 r1 where st: "fst (guard_run es (g, r)) = (g1, r1)" by (cases "fst (guard_run es (g, r))")
  have "fst (guard_run (es @ [Manual_stop, Sample cfg m now stamp]) (g, r)) = fst (guard_step (Sample cfg m now stamp) (g1, False))"
    using run_snoc(1) [of "es @ [Manual_stop]" "Sample cfg m now stamp" "(g, r)"] run_snoc(1) [of es Manual_stop "(g, r)"] st by simp
  moreover have "g1 = fst (fst (guard_run (filter is_sample es) (g, r')))" using run(1) st by simp
  ultimately show ?thesis using run(2) by (simp split: prod.splits)
qed

section \<open>No flapping\<close>

definition sane :: "limit_config \<Rightarrow> bool" where
  "sane cfg \<longleftrightarrow> (\<forall>k. 0 \<le> lc_limit cfg k) \<and> 10 \<le> lc_resume cfg \<and> lc_resume cfg \<le> 99 \<and> 0 \<le> lc_cooldown cfg"

lemma limit_value_range:
  "limit_value stored ''cpu_percent'' \<in> {0..100}" "limit_value stored ''ram_mb'' \<in> {0..262144}"
  "limit_value stored ''storage_mb'' \<in> {0..10485760}" "limit_value stored ''resume_percent'' \<in> {10..99}"
  "limit_value stored ''cooldown_seconds'' \<in> {0..3600}"
  by (simp_all add: limit_value_def LIMIT_BOUNDS_def Let_def)

lemma stored_config_sane: "sane (get_limit_config stored)"
  using limit_value_range [of stored] by (auto simp: sane_def get_limit_config_def split: limit_kind.splits)

lemma paused_stays: "g_paused g \<Longrightarrow> snd (guard_run es (g, r)) = [] \<Longrightarrow>
    g_paused (fst (fst (guard_run es (g, r)))) \<and> g_since (fst (fst (guard_run es (g, r)))) = g_since g"
proof (induction es rule: rev_induct)
  case (snoc e es)
  have none: "snd (guard_run es (g, r)) = []" "snd (guard_step e (fst (guard_run es (g, r)))) = None"
    using snoc.prems(2) by (auto simp: run_snoc split: option.splits)
  then show ?case using snoc.IH [OF snoc.prems(1) none(1)]
  proof (cases e)
    case (Sample cfg m now stamp)
    then show ?thesis using none snoc.IH [OF snoc.prems(1) none(1)]
      by (auto simp: run_snoc step_guard) (auto simp: guard_sample_def Let_def split: if_splits)
  qed (use step_manual [of e] in \<open>simp_all add: run_snoc\<close>)
qed simp

text \<open>
  With the settings the store hands out, capture is not switched off and on in quick succession: a resume comes at least
  the cooldown after the trip it ends, and the pass after a resume never trips.
\<close>

theorem guard_no_flapping:
  assumes "snd (guard_sample cfg0 m0 now0 stamp g0) = Some (Trip kinds)" and "fst (guard_sample cfg0 m0 now0 stamp g0) = g"
    and "snd (guard_run es (g, False)) = []" and "fst (guard_run es (g, False)) = (g1, r1)"
    and "guard_sample (get_limit_config stored) m now stamp1 g1 = (g2, Some Resume)"
  shows "now - stamp \<ge> of_int (limit_value stored ''cooldown_seconds'')
    \<and> snd (guard_sample cfg' m' now' stamp' g2) = None"
proof -
  let ?cfg = "get_limit_config stored"
  have g: "g_paused g" "g_since g = stamp" using assms(1,2)
    by (auto simp: guard_sample_def guard_trip_def Let_def split: if_splits)
  then have g1: "g_since g1 = stamp" using paused_stays [OF g(1) assms(3)] assms(4) by simp
  have r: "now - g_since g1 \<ge> of_int (lc_cooldown ?cfg)" "below_resume ?cfg m" "\<not> g_paused g2"
    using assms(5) by (auto simp: guard_sample_def guard_resume_def Let_def split: if_splits)
  have "g_over g2 k = 0" for k
    using sample_over [of ?cfg m now stamp1 g1 k] assms(5) resume_clear [OF r(2), of k] stored_config_sane [of stored]
    by (simp add: sane_def)
  then have "snd (guard_sample cfg' m' now' stamp' g2) = None"
    using r(3) by (auto simp: guard_sample_def Let_def TRIP_SAMPLES_def filter_empty_conv)
  then show ?thesis using r(1) g1 by (simp add: get_limit_config_def)
qed

section \<open>Witnesses\<close>

definition ram_config :: limit_config where
  "ram_config = get_limit_config (\<lambda>f. if f = ''ram_mb'' then U ''512'' else [])"

definition ram :: "rat \<Rightarrow> measures" where
  "ram n = (\<lambda>k. case k of Ram \<Rightarrow> n | _ \<Rightarrow> 0)"

lemma ram_config_eq: "ram_config = \<lparr>lc_limit = (\<lambda>k. case k of Ram \<Rightarrow> 512 | _ \<Rightarrow> 0), lc_resume = 80, lc_cooldown = 300\<rparr>"
proof -
  let ?s = "\<lambda>f. if f = ''ram_mb'' then U ''512'' else []"
  have n: "int_of_str (U ''512'') = Some 512"
    by (simp add: U_def int_of_str_def nat_of_str_def strip_by_def lstrip_by_def rstrip_by_def is_space_def is_digit_def)
  have v: "limit_value ?s ''ram_mb'' = 512" "limit_value ?s ''cpu_percent'' = 0" "limit_value ?s ''storage_mb'' = 0"
    "limit_value ?s ''resume_percent'' = 80" "limit_value ?s ''cooldown_seconds'' = 300"
    by (simp_all add: limit_value_def LIMIT_BOUNDS_def LIMIT_DEFAULTS_def Let_def n)
  have "lc_limit ram_config k = (case k of Ram \<Rightarrow> 512 | _ \<Rightarrow> 0)" for k
    by (cases k) (simp_all add: ram_config_def get_limit_config_def v)
  then show ?thesis by (simp add: ram_config_def get_limit_config_def v fun_eq_iff)
qed

lemmas guard_eval = ram_config_eq ram_def guard_sample_def guard_trip_def guard_resume_def over_limit_def below_resume_def LIMIT_KINDS_def
  TRIP_SAMPLES_def new_guard_def Let_def run_Cons

theorem guard_decides_exactly_witness:
  "(\<exists>kinds. snd (guard_sample ram_config (ram 600) 10 10 (fst (fst (guard_run [Sample ram_config (ram 700) 5 5] (new_guard, True)))))
      = Some (Trip kinds))
    \<and> streak Ram [(ram_config, ram 700), (ram_config, ram 600)] = 2"
proof -
  obtain g r acts where run: "guard_run [Sample ram_config (ram 700) 5 5] (new_guard, True) = ((g, r), acts)" by (metis surj_pair)
  have s: "streak Ram [(ram_config, ram 700), (ram_config, ram 600)] = 2"
    by (simp add: streak_def over_limit_def ram_config_eq ram_def)
  have "g = fst (fst (guard_run [Sample ram_config (ram 700) 5 5] (new_guard, True)))" using run by simp
  then have "\<not> g_paused g" by (simp add: guard_eval)
  then show ?thesis using guard_decides_exactly [OF run, of ram_config "ram 600" 10 10] s run by auto
qed

theorem guard_no_flapping_witness:
  "\<exists>g. snd (guard_sample ram_config (ram 100) 400 400 g) = Some Resume \<and> (400 :: rat) - 20 \<ge> of_int 300"
proof -
  let ?g0 = "new_guard\<lparr>g_over := (\<lambda>k. if k = Ram then 1 else 0)\<rparr>"
  let ?g1 = "fst (guard_sample ram_config (ram 600) 20 20 ?g0)"
  have t: "snd (guard_sample ram_config (ram 600) 20 20 ?g0) = Some (Trip [Ram])" by (simp add: guard_eval)
  obtain g2 where r: "guard_sample ram_config (ram 100) 400 400 ?g1 = (g2, Some Resume)" by (simp add: guard_eval)
  have c: "limit_value (\<lambda>f. if f = ''ram_mb'' then U ''512'' else []) ''cooldown_seconds'' = 300"
    by (simp add: limit_value_def LIMIT_BOUNDS_def LIMIT_DEFAULTS_def Let_def)
  have "(400 :: rat) - 20 \<ge> of_int 300"
    using guard_no_flapping [OF t refl, of "[]" ?g1 False "\<lambda>f. if f = ''ram_mb'' then U ''512'' else []" "ram 100" 400 400 g2] r c
    by (simp add: ram_config_def)
  then show ?thesis using r by (intro exI [of _ ?g1]) simp
qed

end
