(* ===== verification/Runtime_Control.thy ===== *)
theory Runtime_Control
  imports Rule_Normalize "HOL-Library.List_Lexorder"
begin

text \<open>
  \<open>RuntimeController\<close> of \<^verbatim>\<open>runtime_controller.py\<close>: the two engines it starts and stops, the focused mode,
  and the change of the sniffer's interfaces with its rollback. An engine is its \<open>running\<close> flag. What the outside decides is an
  argument: the interfaces the machine has at each moment, and what the snapshots of a restarted sniffer show.
  Every method runs under the controller's lock, as one step; starting an engine is taken not to raise.
\<close>

section \<open>State\<close>

datatype engine_id = Sniffer | Honeypot

definition ENGINE_NAMES :: "engine_id list" where "ENGINE_NAMES = [Sniffer, Honeypot]"

definition engine_name :: "engine_id \<Rightarrow> ustr" where
  "engine_name e = (case e of Sniffer \<Rightarrow> U ''sniffer'' | Honeypot \<Rightarrow> U ''honeypot'')"

datatype interface_update =
    Applied "ustr list"
  | Saved "ustr list"
  | Rolled_back "ustr list" "ustr list" "ustr list" ustr
  | Rollback_failed "ustr list" "ustr list" "ustr list" ustr ustr

text \<open>\<open>rt_stored\<close> holds the three runtime settings as the values they encode.\<close>

record runtime =
  rt_mode :: engine_id
  rt_running :: "engine_id \<Rightarrow> bool"
  rt_auto_start :: bool
  rt_selected :: "ustr list"
  rt_update :: "interface_update option"
  rt_stored_mode :: engine_id
  rt_stored_interfaces :: "ustr list"
  rt_stored_interface :: ustr

section \<open>Names and selections\<close>

definition normalize_runtime_mode :: "(pyval \<Rightarrow> ustr) \<Rightarrow> pyval \<Rightarrow> engine_id" where
  "normalize_runtime_mode fmt v = (if lower (strip (str_or_empty fmt v)) = U ''honeypot'' then Honeypot else Sniffer)"

fun clean_items :: "(pyval \<Rightarrow> ustr) \<Rightarrow> ustr list \<Rightarrow> pyval list \<Rightarrow> ustr list" where
  "clean_items fmt seen [] = []"
| "clean_items fmt seen (v # vs) =
     (let s = strip (str_or_empty fmt v) in
      if s = [] \<or> s \<in> set seen then clean_items fmt seen vs else s # clean_items fmt (s # seen) vs)"

definition normalize_interface_selection :: "(pyval \<Rightarrow> ustr) \<Rightarrow> pyval \<Rightarrow> ustr list" where
  "normalize_interface_selection fmt raw =
     clean_items fmt [] (case raw of PNone \<Rightarrow> [] | PList xs \<Rightarrow> xs | v \<Rightarrow> [v])"

text \<open>\<open>_resolve_engines\<close>.\<close>

definition resolve_engines :: "(pyval \<Rightarrow> ustr) \<Rightarrow> engine_id \<Rightarrow> pyval \<Rightarrow> engine_id list" where
  "resolve_engines fmt mode engine =
     (case engine of
        PNone \<Rightarrow> [mode]
      | PList xs \<Rightarrow> unique_from [] (map (normalize_runtime_mode fmt) xs)
      | v \<Rightarrow>
          if v = PStr [] then [mode]
          else if lower (strip (py_str fmt v)) \<in> {U ''all'', U ''both'', U ''*''} then ENGINE_NAMES
          else [normalize_runtime_mode fmt (PStr (lower (strip (py_str fmt v))))])"

section \<open>Engines\<close>

definition start_engine :: "engine_id \<Rightarrow> runtime \<Rightarrow> runtime" where
  "start_engine e rt = rt\<lparr>rt_running := (rt_running rt)(e := True)\<rparr>"

definition stop_engine :: "engine_id \<Rightarrow> runtime \<Rightarrow> runtime" where
  "stop_engine e rt = rt\<lparr>rt_running := (rt_running rt)(e := False)\<rparr>"

definition runtime_start :: "(pyval \<Rightarrow> ustr) \<Rightarrow> pyval \<Rightarrow> runtime \<Rightarrow> runtime" where
  "runtime_start fmt engine rt = fold start_engine (resolve_engines fmt (rt_mode rt) engine) rt"

definition runtime_stop :: "(pyval \<Rightarrow> ustr) \<Rightarrow> pyval \<Rightarrow> runtime \<Rightarrow> runtime" where
  "runtime_stop fmt engine rt = fold stop_engine (resolve_engines fmt (rt_mode rt) engine) rt"

text \<open>\<open>set_engines\<close>: first the wanted state of the named engines, then one pass that brings them there.\<close>

fun wanted_of :: "pydict \<Rightarrow> engine_id list \<Rightarrow> pyexc + (engine_id \<times> bool) list" where
  "wanted_of d [] = Inr []"
| "wanted_of d (e # es) =
     (case map_of d (engine_name e) of
        None \<Rightarrow> wanted_of d es
      | Some v \<Rightarrow> (case coerce_bool v of
          Inl err \<Rightarrow> Inl err
        | Inr b \<Rightarrow> map_sum id ((#) (e, b)) (wanted_of d es)))"

text \<open>Iterating a text gives its characters; a value that cannot be iterated raises.\<close>

definition wanted_engines :: "(pyval \<Rightarrow> ustr) \<Rightarrow> pyval \<Rightarrow> pyexc + (engine_id \<times> bool) list" where
  "wanted_engines fmt selection =
     (case selection of
        PDict d \<Rightarrow> wanted_of d ENGINE_NAMES
      | v \<Rightarrow>
          map_sum id (\<lambda>items. let names = map (normalize_runtime_mode fmt) items
                               in map (\<lambda>e. (e, e \<in> set names)) ENGINE_NAMES)
            (if \<not> truthy v then Inr []
             else (case v of PList xs \<Rightarrow> Inr xs
                 | PStr s \<Rightarrow> Inr (map (\<lambda>c. PStr [c]) s)
                 | PBytes b \<Rightarrow> Inr (map (\<lambda>c. PInt (uint c)) b)
                 | _ \<Rightarrow> Inl TypeError)))"

definition bring :: "engine_id \<times> bool \<Rightarrow> runtime \<Rightarrow> runtime" where
  "bring w rt =
     (case w of (e, should_run) \<Rightarrow>
        if should_run \<and> \<not> rt_running rt e then start_engine e rt
        else if \<not> should_run \<and> rt_running rt e then stop_engine e rt
        else rt)"

definition set_engines :: "(pyval \<Rightarrow> ustr) \<Rightarrow> pyval \<Rightarrow> runtime \<Rightarrow> runtime \<times> pyexc option" where
  "set_engines fmt selection rt =
     (case wanted_engines fmt selection of
        Inl err \<Rightarrow> (rt, Some err)
      | Inr wanted \<Rightarrow> (fold bring wanted rt, None))"

definition set_mode :: "(pyval \<Rightarrow> ustr) \<Rightarrow> pyval \<Rightarrow> runtime \<Rightarrow> runtime" where
  "set_mode fmt mode rt =
     (let normalized = normalize_runtime_mode fmt mode in
      if normalized = rt_mode rt then
        (let rt1 = (if rt_auto_start rt \<and> \<not> rt_running rt (rt_mode rt) then start_engine (rt_mode rt) rt else rt)
         in rt1\<lparr>rt_stored_mode := rt_mode rt1\<rparr>)
      else
        (let rt1 = rt\<lparr>rt_mode := normalized, rt_stored_mode := normalized\<rparr>
         in if rt_auto_start rt1 then start_engine normalized rt1 else rt1))"

section \<open>Interfaces of the sniffer\<close>

text \<open>\<open>Sniffer.set_interfaces\<close>; the items are normalised already, \<open>available\<close> is what the machine has.\<close>

definition sniffer_set_interfaces :: "ustr set \<Rightarrow> ustr list \<Rightarrow> runtime \<Rightarrow> runtime \<times> ustr option" where
  "sniffer_set_interfaces available items rt =
     (case find (\<lambda>s. s \<notin> available) items of
        Some s \<Rightarrow> (rt, Some (U ''Unknown interface: '' @ s))
      | None \<Rightarrow> (rt\<lparr>rt_selected := items\<rparr>, None))"

text \<open>What a snapshot of the sniffer says of its health; an optional component may be missing from it.\<close>

record observation =
  ob_running :: bool
  ob_errors :: "(ustr \<times> ustr) list"
  ob_threads :: "int option"
  ob_capture :: "ustr option"
  ob_interfaces :: "ustr list"
  ob_ready :: "ustr list option"

definition sniffer_failure :: "observation \<Rightarrow> ustr" where
  "sniffer_failure ob =
     (if ob_errors ob \<noteq> [] then join (U ''; '') (map (\<lambda>(n, m). n @ U '': '' @ m) (sort_key fst (ob_errors ob)))
      else if \<not> ob_running ob then U ''sniffer is not running''
      else if (case ob_threads ob of None \<Rightarrow> 1 | Some n \<Rightarrow> n) < 1 then U ''sniffer has no live capture worker''
      else (case ob_capture ob of
              Some c \<Rightarrow> if c \<noteq> U ''running'' then U ''sniffer capture is '' @ c else []
            | None \<Rightarrow> []))"

definition deadline_failure :: "observation \<Rightarrow> bool" where
  "deadline_failure ob =
     (case ob_ready ob of
        None \<Rightarrow> False
      | Some ready \<Rightarrow> ready = [] \<or> set (ob_interfaces ob) \<noteq> set ready)"

text \<open>
  \<open>_restart_sniffer_verified\<close>: \<open>restart()\<close> raises, or the snapshots taken before the deadline and the first one
  after it are examined in turn. The result is whether the sniffer still runs, and the message of the exception, if any.
\<close>

datatype restart = Restart_raises bool ustr | Restarted "observation list" observation

fun watch :: "observation list \<Rightarrow> observation \<Rightarrow> bool \<times> ustr option" where
  "watch [] ob =
     (if sniffer_failure ob \<noteq> [] then (ob_running ob, Some (U ''sniffer interface restart failed: '' @ sniffer_failure ob))
      else if deadline_failure ob then (ob_running ob, Some (U ''sniffer interface startup did not finish before the deadline''))
      else (ob_running ob, None))"
| "watch (ob # obs) final =
     (if sniffer_failure ob \<noteq> [] then (ob_running ob, Some (U ''sniffer interface restart failed: '' @ sniffer_failure ob))
      else watch obs final)"

fun restart_outcome :: "restart \<Rightarrow> bool \<times> ustr option" where
  "restart_outcome (Restart_raises still_running err) = (still_running, Some err)"
| "restart_outcome (Restarted obs final) = watch obs final"

definition restart_sniffer :: "restart \<Rightarrow> runtime \<Rightarrow> runtime \<times> ustr option" where
  "restart_sniffer r rt =
     (rt\<lparr>rt_running := (rt_running rt)(Sniffer := fst (restart_outcome r))\<rparr>, snd (restart_outcome r))"

text \<open>
  \<open>set_sniffer_interfaces\<close>: \<open>avail1\<close>, \<open>avail2\<close> are the interfaces of the machine when the selection is made and when it
  is rolled back, \<open>r1\<close>, \<open>r2\<close> the two restarts. The result is the message of the exception, if one leaves.
\<close>

definition roll_back :: "ustr set \<Rightarrow> restart \<Rightarrow> ustr list \<Rightarrow> ustr list \<Rightarrow> ustr \<Rightarrow> runtime \<Rightarrow> runtime" where
  "roll_back avail2 r2 selected previous err rt =
     (case sniffer_set_interfaces avail2 previous rt of
        (rt1, Some e2) \<Rightarrow> rt1\<lparr>rt_update := Some (Rollback_failed selected previous [] err e2)\<rparr>
      | (rt1, None) \<Rightarrow>
          (case restart_sniffer r2 rt1 of
             (rt2, Some e2) \<Rightarrow> rt2\<lparr>rt_update := Some (Rollback_failed selected previous previous err e2)\<rparr>
           | (rt2, None) \<Rightarrow> rt2\<lparr>rt_update := Some (Rolled_back selected previous previous err)\<rparr>))"

definition save_interfaces :: "ustr list \<Rightarrow> ustr list \<Rightarrow> bool \<Rightarrow> runtime \<Rightarrow> runtime" where
  "save_interfaces selected previous was_running rt =
     (let rt1 = rt\<lparr>rt_stored_interfaces := selected, rt_stored_interface := (if length selected = 1 then hd selected else [])\<rparr> in
      if selected \<noteq> previous \<or> rt_update rt1 = None
      then rt1\<lparr>rt_update := Some (if was_running then Applied selected else Saved selected)\<rparr> else rt1)"

definition set_sniffer_interfaces ::
  "(pyval \<Rightarrow> ustr) \<Rightarrow> ustr set \<Rightarrow> ustr set \<Rightarrow> restart \<Rightarrow> restart \<Rightarrow> pyval \<Rightarrow> runtime \<Rightarrow> runtime \<times> ustr option" where
  "set_sniffer_interfaces fmt avail1 avail2 r1 r2 interfaces rt =
     (let selected = normalize_interface_selection fmt interfaces; previous = rt_selected rt; was_running = rt_running rt Sniffer in
      case sniffer_set_interfaces avail1 selected rt of
        (rt1, Some err) \<Rightarrow> (rt1, Some err)
      | (rt1, None) \<Rightarrow>
          if was_running \<and> selected \<noteq> previous then
            (case restart_sniffer r1 rt1 of
               (rt2, Some err) \<Rightarrow> (roll_back avail2 r2 selected previous err rt2, Some err)
             | (rt2, None) \<Rightarrow> (save_interfaces selected previous was_running rt2, None))
          else (save_interfaces selected previous was_running rt1, None))"

section \<open>Lemmas\<close>

lemma bring_running [simp]: "rt_running (bring (e, b) rt) = (rt_running rt)(e := b)"
  by (auto simp: bring_def start_engine_def stop_engine_def fun_eq_iff)

lemma bring_rest [simp]: "(bring w rt)\<lparr>rt_running := r\<rparr> = rt\<lparr>rt_running := r\<rparr>"
  by (cases w) (simp add: bring_def start_engine_def stop_engine_def)

lemma fold_bring_running:
  "distinct (map fst ws) \<Longrightarrow>
   rt_running (fold bring ws rt) e = (case map_of ws e of None \<Rightarrow> rt_running rt e | Some b \<Rightarrow> b)"
proof (induction ws arbitrary: rt)
  case (Cons w ws)
  then show ?case by (cases w) (auto split: option.splits simp: map_of_eq_None_iff image_iff dest: map_of_SomeD)
qed simp

lemma fold_bring_rest: "(fold bring ws rt)\<lparr>rt_running := r\<rparr> = rt\<lparr>rt_running := r\<rparr>"
  by (induction ws arbitrary: rt) simp_all

lemma wanted_of_map:
  "wanted_of d es = Inr ws \<Longrightarrow> distinct es \<Longrightarrow>
   map_of ws e = (if e \<in> set es then Option.bind (map_of d (engine_name e)) (\<lambda>v. case coerce_bool v of Inl _ \<Rightarrow> None | Inr b \<Rightarrow> Some b) else None)
   \<and> distinct (map fst ws) \<and> fst ` set ws \<subseteq> set es"
proof (induction es arbitrary: ws)
  case (Cons e0 es)
  show ?case
  proof (cases "map_of d (engine_name e0)")
    case None
    then show ?thesis using Cons by auto
  next
    case (Some v)
    then obtain b ws0 where v: "coerce_bool v = Inr b" and ws0: "wanted_of d es = Inr ws0" and ws: "ws = (e0, b) # ws0"
      using Cons.prems(1) by (auto split: sum.splits simp: map_sum_def)
    show ?thesis using Cons.IH [OF ws0] Cons.prems(2) Some v ws by auto
  qed
qed simp

definition healthy :: "observation \<Rightarrow> bool" where
  "healthy ob \<longleftrightarrow> ob_errors ob = [] \<and> ob_running ob \<and> (case ob_threads ob of None \<Rightarrow> True | Some n \<Rightarrow> 1 \<le> n)
     \<and> ob_capture ob \<in> {None, Some (U ''running'')}"

lemma join_Nil_iff: "join (c # sep) xs = [] \<longleftrightarrow> xs = [] \<or> xs = [[]]"
  by (induction "c # sep" xs rule: join.induct) auto

lemma healthy_iff: "healthy ob \<longleftrightarrow> sniffer_failure ob = []"
proof (cases "ob_errors ob")
  case Nil
  then show ?thesis
    by (auto simp: healthy_def sniffer_failure_def U_def split: option.splits)
next
  case (Cons x xs)
  then have "length (sort_key fst (ob_errors ob)) = Suc (length xs)" by simp
  then obtain y ys where "sort_key fst (ob_errors ob) = y # ys" by (cases "sort_key fst (ob_errors ob)") auto
  then have "sniffer_failure ob \<noteq> []" using Cons
    by (auto simp: sniffer_failure_def U_def join_Nil_iff split: prod.splits)
  then show ?thesis using Cons by (simp add: healthy_def)
qed

definition verified :: "restart \<Rightarrow> bool" where
  "verified r = (case r of Restart_raises _ _ \<Rightarrow> False
     | Restarted obs final \<Rightarrow> list_all healthy (obs @ [final]) \<and> \<not> deadline_failure final)"

lemma watch_verified: "snd (watch obs final) = None \<longleftrightarrow> verified (Restarted obs final)"
  by (induction obs) (auto simp: verified_def healthy_iff)

lemma watch_running: "snd (watch obs final) = None \<Longrightarrow> fst (watch obs final)"
  by (induction obs) (auto simp: healthy_def split: if_splits simp flip: healthy_iff)

lemma restart_verified:
  "snd (restart_outcome r) = None \<longleftrightarrow> verified r" "snd (restart_outcome r) = None \<Longrightarrow> fst (restart_outcome r)"
  by (cases r; simp add: watch_verified watch_running; simp add: verified_def)+

lemma select_cases:
  "sniffer_set_interfaces av items rt =
     (if set items \<subseteq> av then (rt\<lparr>rt_selected := items\<rparr>, None)
      else (rt, Some (U ''Unknown interface: '' @ the (find (\<lambda>s. s \<notin> av) items))))"
  by (auto simp: sniffer_set_interfaces_def find_None_iff split: option.split dest!: find_Some_iff [THEN iffD1] intro!: nth_mem)

lemma restart_shape:
  "restart_sniffer r rt = (rt\<lparr>rt_running := (rt_running rt)(Sniffer := fst (restart_outcome r))\<rparr>, snd (restart_outcome r))"
  by (simp add: restart_sniffer_def)

lemma all_engines [simp]: "e \<in> set ENGINE_NAMES" "distinct ENGINE_NAMES"
  by (cases e; simp add: ENGINE_NAMES_def)+

lemma wanted_of_error: "wanted_of d es = Inl err \<Longrightarrow> err \<in> {TypeError, ValueError}"
  by (induction es) (auto simp: map_sum_def split: option.splits sum.splits dest: coerce_bool_total)

lemma wanted_of_read:
  "wanted_of d es = Inr ws \<Longrightarrow> e \<in> set es \<Longrightarrow> map_of d (engine_name e) = Some v \<Longrightarrow> \<exists>b. coerce_bool v = Inr b"
  by (induction es arbitrary: ws) (auto simp: map_sum_def split: option.splits sum.splits)

lemma wanted_of_dict:
  assumes "wanted_of d ENGINE_NAMES = Inr wanted"
  shows "case map_of d (engine_name e) of
      None \<Rightarrow> rt_running (fold bring wanted rt) e = rt_running rt e
    | Some v \<Rightarrow> coerce_bool v = Inr (rt_running (fold bring wanted rt) e)"
proof -
  have m: "map_of wanted e = Option.bind (map_of d (engine_name e)) (\<lambda>v. case coerce_bool v of Inl _ \<Rightarrow> None | Inr b \<Rightarrow> Some b)"
    and dist: "distinct (map fst wanted)"
    using wanted_of_map [OF assms, of e] by simp_all
  show ?thesis
  proof (cases "map_of d (engine_name e)")
    case None
    then show ?thesis using m by (simp add: fold_bring_running [OF dist])
  next
    case (Some v)
    obtain b where "coerce_bool v = Inr b" using wanted_of_read [OF assms _ Some] by auto
    then show ?thesis using m Some by (simp add: fold_bring_running [OF dist])
  qed
qed

lemma wanted_of_items:
  assumes "wanted_engines fmt (PList items) = Inr wanted"
  shows "rt_running (fold bring wanted rt) e = list_ex (\<lambda>v. normalize_runtime_mode fmt v = e) items"
proof -
  have w: "wanted = map (\<lambda>e. (e, e \<in> normalize_runtime_mode fmt ` set items)) ENGINE_NAMES"
    using assms by (cases items) (auto simp: wanted_engines_def Let_def image_iff)
  have "map_of wanted e = Some (e \<in> normalize_runtime_mode fmt ` set items)" "distinct (map fst wanted)"
    unfolding w by (cases e; auto simp: ENGINE_NAMES_def)+
  then show ?thesis by (auto simp: fold_bring_running list_ex_iff)
qed

section \<open>Properties\<close>

text \<open>
  \<open>set_engines\<close> brings exactly the engines the caller names to the state it asks for and touches nothing else, not
  even the focused mode: with a dictionary an engine it does not mention keeps running or stays stopped, with a list an
  engine runs afterwards exactly when some item of the list names it. When a value cannot be read, \<open>ValueError\<close> or
  \<open>TypeError\<close> leaves before any engine was started or stopped.
\<close>

theorem set_engines_exact:
  "case set_engines fmt selection rt of
     (rt', Some err) \<Rightarrow> rt' = rt \<and> err \<in> {TypeError, ValueError}
   | (rt', None) \<Rightarrow>
       rt' = rt\<lparr>rt_running := rt_running rt'\<rparr>
       \<and> (case selection of
             PDict d \<Rightarrow> (\<forall>e. case map_of d (engine_name e) of
                None \<Rightarrow> rt_running rt' e = rt_running rt e
              | Some v \<Rightarrow> coerce_bool v = Inr (rt_running rt' e))
           | PList items \<Rightarrow> (\<forall>e. rt_running rt' e = list_ex (\<lambda>v. normalize_runtime_mode fmt v = e) items)
           | v \<Rightarrow> True)"
proof (cases "wanted_engines fmt selection")
  case (Inl err)
  then show ?thesis
    by (auto simp: set_engines_def wanted_engines_def Let_def map_sum_def dest!: wanted_of_error split: pyval.splits if_splits sum.splits)
next
  case (Inr ws)
  let ?rt = "fold bring ws rt"
  have rest: "?rt = rt\<lparr>rt_running := rt_running ?rt\<rparr>"
    using fold_bring_rest [of "rt_running ?rt" ws rt] by simp
  have "case selection of
      PDict d \<Rightarrow> (\<forall>e. case map_of d (engine_name e) of
        None \<Rightarrow> rt_running ?rt e = rt_running rt e
      | Some v \<Rightarrow> coerce_bool v = Inr (rt_running ?rt e))
    | PList items \<Rightarrow> (\<forall>e. rt_running ?rt e = list_ex (\<lambda>v. normalize_runtime_mode fmt v = e) items)
    | v \<Rightarrow> True"
  proof (cases selection)
    case (PDict d)
    then have w: "wanted_of d ENGINE_NAMES = Inr ws" using Inr by (simp add: wanted_engines_def)
    show ?thesis using wanted_of_dict [OF w] PDict by simp
  next
    case (PList items)
    show ?thesis using wanted_of_items [OF Inr [unfolded PList]] PList by simp
  qed simp_all
  then show ?thesis using Inr rest by (simp add: set_engines_def)
qed


end
