(* ===== verification/History.thy ===== *)
theory History
  imports Rule_Normalize
begin

text \<open>
  What one packet adds to the DNS and ARP history (\<^verbatim>\<open>history.py\<close>): the observations of a decoded DNS message, the
  claim of an ARP packet, and the settings of the history. \<open>fmt\<close> is \<open>str()\<close> on the values that are neither texts nor
  numbers. A list of records that cannot be iterated raises, which is \<open>None\<close>.
\<close>

section \<open>Settings\<close>

definition MAX_DOMAIN_LENGTH :: nat where "MAX_DOMAIN_LENGTH = 253"
definition MAX_ANSWER_LENGTH :: nat where "MAX_ANSWER_LENGTH = 255"
definition MAX_RECORDS_PER_PACKET :: nat where "MAX_RECORDS_PER_PACKET = 32"

definition HISTORY_DEFAULTS :: "(string \<times> pyval) list" where
  "HISTORY_DEFAULTS = [(''dns_enabled'', PBool True), (''arp_enabled'', PBool True), (''retention_days'', PInt 90),
     (''max_dns_rows'', PInt 200000), (''max_arp_bindings'', PInt 50000), (''max_arp_events'', PInt 100000)]"

definition HISTORY_BOUNDS :: "(string \<times> int \<times> int) list" where
  "HISTORY_BOUNDS = [(''retention_days'', 0, 3650), (''max_dns_rows'', 1000, 5000000), (''max_arp_bindings'', 100, 1000000),
     (''max_arp_events'', 100, 2000000)]"

definition BOOLEAN_FIELDS :: "string list" where "BOOLEAN_FIELDS = [''dns_enabled'', ''arp_enabled'']"

definition FALSE_TEXT :: "string list" where "FALSE_TEXT = ['''', ''0'', ''false'', ''no'', ''off'', ''n'']"
definition TRUE_TEXT :: "string list" where "TRUE_TEXT = [''1'', ''true'', ''yes'', ''on'', ''y'']"

definition as_bool :: "(pyval \<Rightarrow> ustr) \<Rightarrow> pyval \<Rightarrow> pyexc + bool" where
  "as_bool fmt v =
     (let text = lower (strip (py_str fmt v)) in
      case v of
        PBool b \<Rightarrow> Inr b
      | _ \<Rightarrow>
          if v = PInt 0 \<or> v = PFloat (Fin 0) then Inr False
          else if v = PInt 1 \<or> v = PFloat (Fin 1) then Inr True
          else if text \<in> U ` set TRUE_TEXT then Inr True
          else if text \<in> U ` set FALSE_TEXT then Inr False
          else Inl ValueError)"

definition history_int :: "(pyval \<Rightarrow> ustr) \<Rightarrow> pyval \<Rightarrow> int \<Rightarrow> int \<Rightarrow> pyexc + int" where
  "history_int fmt v low high =
     (case v of
        PBool _ \<Rightarrow> Inl ValueError
      | _ \<Rightarrow> (case int_of_str (strip (py_str fmt v)) of
            None \<Rightarrow> Inl ValueError
          | Some n \<Rightarrow> if low \<le> n \<and> n \<le> high then Inr n else Inl ValueError))"

text \<open>The fields of an update in the order they are checked; an unset field keeps its value.\<close>

fun apply_fields :: "pydict \<Rightarrow> (string \<times> (pyval \<Rightarrow> pyexc + pyval)) list \<Rightarrow> (string \<rightharpoonup> pyval) \<Rightarrow> pyexc + (string \<rightharpoonup> pyval)" where
  "apply_fields values [] m = Inr m"
| "apply_fields values ((field, check) # fs) m =
     (case map_of values (U field) of
        None \<Rightarrow> apply_fields values fs m
      | Some v \<Rightarrow> (case check v of Inl e \<Rightarrow> Inl e | Inr w \<Rightarrow> apply_fields values fs (m(field \<mapsto> w))))"

definition coerce_history_config :: "(pyval \<Rightarrow> ustr) \<Rightarrow> pyval \<Rightarrow> (string \<rightharpoonup> pyval) \<Rightarrow> pyexc + (string \<times> pyval) list" where
  "coerce_history_config fmt values current =
     (case values of
        PDict d \<Rightarrow>
          if list_ex (\<lambda>(k, v). k \<notin> U ` fst ` set HISTORY_DEFAULTS) d then Inl ValueError
          else map_sum id (\<lambda>m. map (\<lambda>(f, v). (f, the (m f))) HISTORY_DEFAULTS)
            (apply_fields d
              (map (\<lambda>f. (f, \<lambda>v. map_sum id PBool (as_bool fmt v))) BOOLEAN_FIELDS
               @ map (\<lambda>(f, low, high). (f, \<lambda>v. map_sum id PInt (history_int fmt v low high))) HISTORY_BOUNDS)
              (map_of HISTORY_DEFAULTS ++ current))
      | _ \<Rightarrow> Inl ValueError)"

section \<open>DNS\<close>

record dns_observation =
  do_domain :: ustr
  do_type :: ustr
  do_answer :: ustr
  do_response :: bool
  do_rcode :: ustr
  do_ttl :: "int option"
  do_source :: ustr
  do_transport :: ustr
  do_client :: ustr
  do_resolver :: ustr

definition is_dot :: "nat \<Rightarrow> bool" where "is_dot c \<longleftrightarrow> c = 46"

definition normalize_domain :: "(pyval \<Rightarrow> ustr) \<Rightarrow> pyval \<Rightarrow> ustr" where
  "normalize_domain fmt name =
     (let text = lower (strip_by is_dot (strip (str_or_empty fmt name))) in
      if 0 < length text \<and> length text \<le> MAX_DOMAIN_LENGTH then text else [])"

text \<open>\<open>[item for item in (value or []) if isinstance(item, dict)]\<close>.\<close>

definition dict_items :: "pyval \<Rightarrow> pydict list option" where
  "dict_items v =
     (if \<not> truthy v then Some []
      else case v of
        PList xs \<Rightarrow> Some (map dict_of (filter is_dict xs))
      | PStr _ \<Rightarrow> Some [] | PBytes _ \<Rightarrow> Some [] | PDict _ \<Rightarrow> Some []
      | _ \<Rightarrow> None)"

definition or_str :: "(pyval \<Rightarrow> ustr) \<Rightarrow> pyval \<Rightarrow> string \<Rightarrow> ustr" where
  "or_str fmt v d = (if truthy v then py_str fmt v else U d)"

definition ttl_of :: "pyval \<Rightarrow> int option" where
  "ttl_of v = (case v of
       PInt n \<Rightarrow> if n \<ge> 0 then Some n else None
     | PBool b \<Rightarrow> Some (if b then 1 else 0)
     | _ \<Rightarrow> None)"

definition dns_base :: "(pyval \<Rightarrow> ustr) \<Rightarrow> packet \<Rightarrow> pydict \<Rightarrow> dns_observation" where
  "dns_base fmt p records =
     (let response = truthy (get_or records ''is_response'' PNone); src = strip (pk_src_ip p); dst = strip (pk_dst_ip p) in
      \<lparr>do_domain = [], do_type = [], do_answer = [], do_response = response,
       do_rcode = or_str fmt (get_or records ''rcode'' PNone) ''NOERROR'', do_ttl = None,
       do_source = or_text (lower (strip (or_text (pk_domain_source p) (U ''dns'')))) (U ''dns''),
       do_transport = or_text (lower (strip (or_text (pk_transport p) (U ''udp'')))) (U ''udp''),
       do_client = (if response then dst else src), do_resolver = (if response then src else dst)\<rparr>)"

definition answer_observation :: "(pyval \<Rightarrow> ustr) \<Rightarrow> dns_observation \<Rightarrow> pydict \<Rightarrow> dns_observation list" where
  "answer_observation fmt base item =
     (let domain = normalize_domain fmt (get_or item ''name'' PNone);
          data = take MAX_ANSWER_LENGTH (strip (str_or_empty fmt (get_or item ''data'' PNone))) in
      if domain = [] \<or> data = [] then []
      else [base\<lparr>do_domain := domain, do_type := or_str fmt (get_or item ''type'' PNone) ''?'', do_answer := data,
              do_ttl := ttl_of (get_or item ''ttl'' PNone)\<rparr>])"

definition question_observation :: "(pyval \<Rightarrow> ustr) \<Rightarrow> dns_observation \<Rightarrow> pydict \<Rightarrow> dns_observation list" where
  "question_observation fmt base item =
     (let domain = normalize_domain fmt (get_or item ''name'' PNone) in
      if domain = [] then []
      else [base\<lparr>do_domain := domain, do_type := or_str fmt (get_or item ''type'' PNone) ''?''\<rparr>])"

definition dns_observations :: "(pyval \<Rightarrow> ustr) \<Rightarrow> packet \<Rightarrow> dns_observation list option" where
  "dns_observations fmt p =
     (case pk_extra p ''dns_records'' of
        Some (PDict records) \<Rightarrow>
          (case dict_items (get_or records ''answers'' PNone) of
             None \<Rightarrow> None
           | Some ans \<Rightarrow>
               let base = dns_base fmt p records;
                   found = concat (map (answer_observation fmt base) (take MAX_RECORDS_PER_PACKET ans)) in
               if do_response base \<and> do_rcode base = U ''NOERROR'' \<and> found \<noteq> [] then Some found
               else (case dict_items (get_or records ''questions'' PNone) of
                   None \<Rightarrow> None
                 | Some qs \<Rightarrow>
                     Some (found @ concat (map (question_observation fmt base) (take MAX_RECORDS_PER_PACKET qs)))))
      | _ \<Rightarrow> Some [])"

section \<open>ARP\<close>

record arp_sighting =
  ao_ip :: ustr
  ao_mac :: ustr
  ao_operation :: ustr
  ao_interface :: ustr
  ao_gratuitous :: bool
  ao_mismatch :: ustr

definition NULL_MACS :: "ustr list" where "NULL_MACS = [U ''00:00:00:00:00:00'', U ''ff:ff:ff:ff:ff:ff'']"

definition is_hex :: "nat \<Rightarrow> bool" where
  "is_hex c \<longleftrightarrow> is_digit c \<or> (65 \<le> c \<and> c \<le> 70) \<or> (97 \<le> c \<and> c \<le> 102)"

text \<open>\<open>int(part, 16)\<close> of a text of two characters: two digits, or one beside a sign or white space.\<close>

definition hex_pair :: "ustr \<Rightarrow> bool" where
  "hex_pair part \<longleftrightarrow> (case part of
       [a, b] \<Rightarrow> is_hex a \<and> is_hex b \<or> (a = 43 \<or> a = 45 \<or> is_space a) \<and> is_hex b \<or> is_hex a \<and> is_space b
     | _ \<Rightarrow> False)"

definition normalize_mac :: "ustr \<Rightarrow> ustr" where
  "normalize_mac value =
     (let text = map (\<lambda>c. if c = 45 then 58 else c) (lower (strip value)); parts = split_at 58 None text in
      if length parts \<noteq> 6 \<or> list_ex (\<lambda>p. length p \<noteq> 2) parts then []
      else if \<not> list_all hex_pair parts then []
      else if text \<in> set NULL_MACS then [] else text)"

text \<open>\<open>ipaddress.IPv4Address(text)\<close>: four decimal octets without leading zeros; the values.\<close>

definition ipv4_octet :: "ustr \<Rightarrow> nat option" where
  "ipv4_octet s =
     (if s \<noteq> [] \<and> list_all is_digit s \<and> length s \<le> 3 \<and> (hd s = 48 \<longrightarrow> length s = 1)
      then (let n = foldl (\<lambda>a c. a * 10 + (c - 48)) 0 s in if n \<le> 255 then Some n else None)
      else None)"

definition ipv4_octets :: "ustr \<Rightarrow> nat list option" where
  "ipv4_octets s =
     (let parts = map ipv4_octet (split_at 46 None s) in
      if length parts = 4 \<and> list_all (\<lambda>x. x \<noteq> None) parts then Some (map the parts) else None)"

definition arp_observation :: "(pyval \<Rightarrow> ustr) \<Rightarrow> packet \<Rightarrow> arp_sighting option" where
  "arp_observation fmt p =
     (let extra = (\<lambda>k. case pk_extra p k of None \<Rightarrow> PNone | Some v \<Rightarrow> v);
          mac = normalize_mac (str_or_empty fmt (extra ''arp_sender_mac''));
          sender = strip (pk_src_ip p) in
      if lower (pk_proto p) \<noteq> U ''arp'' then None
      else if mac = [] then None
      else case ipv4_octets sender of
        None \<Rightarrow> None
      | Some octets \<Rightarrow>
          if octets = [0, 0, 0, 0] \<or> (224 \<le> hd octets \<and> hd octets \<le> 239) then None
          else Some \<lparr>ao_ip = sender, ao_mac = mac,
            ao_operation = (if pk_arp_opcode p = 1 then U ''request'' else if pk_arp_opcode p = 2 then U ''reply'' else U ''other''),
            ao_interface = strip (pk_interface p), ao_gratuitous = (strip (pk_dst_ip p) = sender),
            ao_mismatch = strip (str_or_empty fmt (extra ''arp_mac_mismatch''))\<rparr>)"

section \<open>What a parsed DNS message leaves\<close>

lemma dec_first: "\<exists>d ds. dec n = d # ds \<and> d \<le> 57"
proof (induction n rule: dec.induct)
  case (1 n)
  show ?case
  proof (cases "n < 10")
    case True
    then show ?thesis by (subst dec.simps) simp
  next
    case False
    then show ?thesis using 1 by (subst dec.simps) auto
  qed
qed

definition rcode_text :: "nat \<Rightarrow> ustr" where
  "rcode_text n = name_or DNS_RCODE_NAMES n (dec n)"

lemma rcode_text_props: "rcode_text n \<noteq> []" "rcode_text n = U ''NOERROR'' \<longleftrightarrow> n = 0"
proof -
  obtain d ds where "dec n = d # ds" "d \<le> 57" using dec_first by blast
  then show "rcode_text n \<noteq> []" "rcode_text n = U ''NOERROR'' \<longleftrightarrow> n = 0"
    by (auto simp: rcode_text_def name_or_def DNS_RCODE_NAMES_def U_def split: if_splits)
qed

lemma apply_dns_result_records:
  "pk_extra (apply_dns_result payload pre source p) ''dns_records''
     = Some (dns_records (parse_dns_message payload) (rcode_text (rcode (parse_dns_message payload))))"
  by (auto simp: apply_dns_result_def apply_dns_answer_def set_summary_def put_extra_def rcode_text_def Let_def split: list.split)

lemma question_count: "length (questions (parse_dns_message payload)) \<le> 32"
  using read_questions_shape [of 12 payload "min (be (slice 4 6 payload)) 32"]
  by (auto simp: parse_dns_message_def empty_dns_message_def Let_def split_beta)

lemma record_fields:
  fixes m rc
  defines "d \<equiv> dict_of (dns_records m rc)"
  shows "get_or d ''is_response'' PNone = PBool (is_response m)" "get_or d ''rcode'' PNone = PStr rc"
    "get_or d ''questions'' PNone = PList (map (\<lambda>q. PDict [(U ''name'', PStr (q_name q)), (U ''type'', PStr (qtype_text (q_type q)))]) (questions m))"
    "get_or d ''answers'' PNone = PList (map (\<lambda>a. PDict [(U ''name'', PStr (a_name a)), (U ''type'', PStr (qtype_text (a_type a))),
        (U ''ttl'', N (a_ttl a)), (U ''data'', PStr (a_rdata a))]) (answers m))"
  by (simp_all add: d_def dns_records_def dict_of_def get_or_def U_eq_iff)

lemma dict_items_list: "dict_items (PList (map (\<lambda>x. PDict (f x)) xs)) = Some (map f xs)"
  by (cases xs) (simp_all add: dict_items_def is_dict_def dict_of_def comp_def)

definition clean_observation :: "dns_observation \<Rightarrow> bool" where
  "clean_observation ob \<longleftrightarrow> do_domain ob \<noteq> [] \<and> length (do_domain ob) \<le> 253 \<and> length (do_answer ob) \<le> 255 \<and> do_rcode ob \<noteq> []"

lemma normalize_domain_length: "length (normalize_domain fmt v) \<le> 253"
  by (simp add: normalize_domain_def Let_def MAX_DOMAIN_LENGTH_def)

lemma concat_small: "(\<And>x. length (f x) \<le> 1) \<Longrightarrow> length (concat (map f xs)) \<le> length xs"
proof (induction xs)
  case (Cons x xs)
  show ?case using add_mono [OF Cons.prems [of x] Cons.IH [OF Cons.prems]] by simp
qed simp

lemma concat_take: "(\<And>x. length (f x) \<le> 1) \<Longrightarrow> length (concat (map f (take n xs))) \<le> n"
  using concat_small [of f "take n xs"] by simp

lemma observation_shapes:
  assumes "do_rcode base \<noteq> []" "do_answer base = []"
  shows "list_all clean_observation (answer_observation fmt base item)" "length (answer_observation fmt base item) \<le> 1"
    "list_all clean_observation (question_observation fmt base item)" "length (question_observation fmt base item) \<le> 1"
  using assms normalize_domain_length
  by (simp_all add: answer_observation_def question_observation_def clean_observation_def Let_def MAX_ANSWER_LENGTH_def)

text \<open>
  C36. Every DNS message the parser reads leaves a bounded, clean trace in the history. Extraction never raises; it makes
  at most 64 observations, each with a name of 1 to 253 characters, data of at most 255 and a response code;
  and of a query, or of a response that reports an error, every question with a usable name is recorded.
\<close>

theorem dns_history_trace:
  "let m = parse_dns_message payload in
   case dns_observations fmt (apply_dns_result payload pre source p) of
     None \<Rightarrow> False
   | Some obs \<Rightarrow> length obs \<le> 64 \<and> list_all clean_observation obs
       \<and> (if is_response m \<and> rcode m = 0 then True
          else list_all (\<lambda>q. normalize_domain fmt (PStr (q_name q)) = []
                 \<or> list_ex (\<lambda>ob. do_domain ob = normalize_domain fmt (PStr (q_name q)) \<and> do_answer ob = []) obs) (questions m))"
proof -
  define m where "m = parse_dns_message payload"
  define rc where "rc = rcode_text (rcode m)"
  define base where "base = dns_base fmt (apply_dns_result payload pre source p) (dict_of (dns_records m rc))"
  let ?p = "apply_dns_result payload pre source p" and ?d = "dict_of (dns_records m rc)"
  define found where "found = concat (map (answer_observation fmt base) (take 32
      (map (\<lambda>a. [(U ''name'', PStr (a_name a)), (U ''type'', PStr (qtype_text (a_type a))), (U ''ttl'', N (a_ttl a)), (U ''data'', PStr (a_rdata a))])
        (answers m))))"
  define asked where "asked = concat (map (question_observation fmt base) (take 32
      (map (\<lambda>q. [(U ''name'', PStr (q_name q)), (U ''type'', PStr (qtype_text (q_type q)))]) (questions m))))"
  have ex: "pk_extra ?p ''dns_records'' = Some (PDict ?d)" unfolding apply_dns_result_records m_def [symmetric] rc_def [symmetric] by (simp add: dns_records_def dict_of_def)
  have base: "do_response base = is_response m" "do_rcode base = rc" "do_answer base = []"
    using rcode_text_props(1) by (simp_all add: base_def rc_def dns_base_def Let_def record_fields or_str_def py_str_def)
  have obs: "dns_observations fmt ?p
      = Some (if is_response m \<and> rcode m = 0 \<and> found \<noteq> [] then found else found @ asked)"
    using base rcode_text_props(2) [of "rcode m", folded rc_def]
    by (subst dns_observations_def)
       (simp add: ex record_fields dict_items_list Let_def MAX_RECORDS_PER_PACKET_def
         flip: base_def found_def asked_def del: concat_eq_Nil_conv)
  have clean: "list_all clean_observation found" "list_all clean_observation asked"
    using observation_shapes [of base] base rcode_text_props(1) [of "rcode m", folded rc_def] by (auto simp: found_def asked_def list_all_iff)
  have len: "length found \<le> 32" "length asked \<le> 32"
    unfolding found_def asked_def
    using observation_shapes(2,4) [of base fmt] base rcode_text_props(1) [of "rcode m", folded rc_def]
    by (intro concat_take; simp)+
  have "list_ex (\<lambda>ob. do_domain ob = normalize_domain fmt (PStr (q_name q)) \<and> do_answer ob = []) asked"
    if "q \<in> set (questions m)" "normalize_domain fmt (PStr (q_name q)) \<noteq> []" for q
    using that question_count [of payload, folded m_def] base(3)
    by (auto simp: asked_def list_ex_iff question_observation_def Let_def get_or_def U_eq_iff intro!: bexI [of _ q])
  then show ?thesis using obs clean len unfolding m_def [symmetric] by (auto simp: Let_def list_all_iff list_ex_iff)
qed

end
