(* ===== verification/History_Recorder.thy ===== *)
theory History_Recorder
  imports History "HOL-Library.AList" "HOL-Library.List_Lexorder" "HOL-Library.Sublist"
begin

text \<open>
  \<open>HistoryRecorder\<close> of \<^verbatim>\<open>history_recorder.py\<close> with the writes of \<open>write_history\<close> in \<^verbatim>\<open>history_store.py\<close>: observations are
  aggregated per key and merged into the tables by a flush, which may fail and is then retried. The lock
  makes adding the observations of a packet one step; a flush takes two, since packets are observed while it writes.
  Dictionaries that keep their order are association lists. Whether a write succeeds and the clock are arguments.
\<close>

section \<open>Rows\<close>

type_synonym dns_key = "ustr \<times> ustr \<times> ustr"
type_synonym arp_key = "ustr \<times> ustr"

record dns_row =
  hd_source :: ustr
  hd_transport :: ustr
  hd_queries :: nat
  hd_responses :: nat
  hd_errors :: nat
  hd_rcode :: ustr
  hd_ttl_min :: "int option"
  hd_ttl_max :: "int option"
  hd_ttl_last :: "int option"
  hd_client :: ustr
  hd_resolver :: ustr
  hd_clients :: "ustr list"
  hd_resolvers :: "ustr list"
  hd_first :: ustr
  hd_last :: ustr

record arp_row =
  ha_interface :: ustr
  ha_packets :: nat
  ha_requests :: nat
  ha_replies :: nat
  ha_gratuitous :: nat
  ha_mismatches :: nat
  ha_first :: ustr
  ha_last :: ustr

datatype event_kind = New_device | Ip_mac_changed | Mac_new_ip | Mac_mismatch

record arp_event =
  ev_kind :: event_kind
  ev_ip :: ustr
  ev_mac :: ustr
  ev_previous_ip :: ustr
  ev_previous_mac :: ustr
  ev_interface :: ustr
  ev_detail :: ustr
  ev_at :: ustr

definition MAX_REMEMBERED_PEERS :: nat where "MAX_REMEMBERED_PEERS = 20"
definition MISMATCH_EVENT_INTERVAL_SECONDS :: rat where "MISMATCH_EVENT_INTERVAL_SECONDS = 3600"

section \<open>Aggregation\<close>

definition dns_key_of :: "dns_observation \<Rightarrow> dns_key" where
  "dns_key_of ob = (do_domain ob, do_type ob, do_answer ob)"

definition new_dns_row :: "dns_observation \<Rightarrow> ustr \<Rightarrow> dns_row" where
  "new_dns_row ob seen = \<lparr>hd_source = do_source ob, hd_transport = do_transport ob, hd_queries = 0, hd_responses = 0, hd_errors = 0,
     hd_rcode = [], hd_ttl_min = None, hd_ttl_max = None, hd_ttl_last = None, hd_client = [], hd_resolver = [], hd_clients = [],
     hd_resolvers = [], hd_first = seen, hd_last = seen\<rparr>"

definition opt_with :: "(int \<Rightarrow> int \<Rightarrow> int) \<Rightarrow> int option \<Rightarrow> int \<Rightarrow> int option" where
  "opt_with f old n = Some (case old of None \<Rightarrow> n | Some m \<Rightarrow> f m n)"

definition remember_peer :: "ustr \<Rightarrow> ustr list \<Rightarrow> ustr list" where
  "remember_peer peer peers =
     (if peer \<noteq> [] \<and> peer \<notin> set peers \<and> length peers < MAX_REMEMBERED_PEERS then peers @ [peer] else peers)"

text \<open>What \<open>_add_dns\<close> does to the row of its key.\<close>

definition count_dns :: "dns_observation \<Rightarrow> ustr \<Rightarrow> dns_row \<Rightarrow> dns_row" where
  "count_dns ob seen row =
     (let row1 = (if do_response ob
        then row\<lparr>hd_responses := hd_responses row + 1, hd_rcode := do_rcode ob,
               hd_errors := (if do_rcode ob \<noteq> U ''NOERROR'' then hd_errors row + 1 else hd_errors row)\<rparr>
        else row\<lparr>hd_queries := hd_queries row + 1\<rparr>);
      row2 = row1\<lparr>hd_source := do_source ob, hd_transport := do_transport ob\<rparr>;
      row3 = (case do_ttl ob of None \<Rightarrow> row2
        | Some n \<Rightarrow> row2\<lparr>hd_ttl_last := Some n, hd_ttl_min := opt_with min (hd_ttl_min row2) n, hd_ttl_max := opt_with max (hd_ttl_max row2) n\<rparr>);
      row4 = (if do_client ob \<noteq> [] then row3\<lparr>hd_client := do_client ob\<rparr> else row3)\<lparr>hd_clients := remember_peer (do_client ob) (hd_clients row3)\<rparr>;
      row5 = (if do_resolver ob \<noteq> [] then row4\<lparr>hd_resolver := do_resolver ob\<rparr> else row4)
        \<lparr>hd_resolvers := remember_peer (do_resolver ob) (hd_resolvers row4)\<rparr>
      in row5\<lparr>hd_first := (if seen < hd_first row5 then seen else hd_first row5), hd_last := (if seen > hd_last row5 then seen else hd_last row5)\<rparr>)"

definition new_arp_row :: "arp_sighting \<Rightarrow> ustr \<Rightarrow> arp_row" where
  "new_arp_row ob seen = \<lparr>ha_interface = ao_interface ob, ha_packets = 0, ha_requests = 0, ha_replies = 0, ha_gratuitous = 0,
     ha_mismatches = 0, ha_first = seen, ha_last = seen\<rparr>"

definition count_arp :: "arp_sighting \<Rightarrow> ustr \<Rightarrow> arp_row \<Rightarrow> arp_row" where
  "count_arp ob seen row = row\<lparr>
     ha_packets := ha_packets row + 1,
     ha_requests := (if ao_operation ob = U ''request'' then ha_requests row + 1 else ha_requests row),
     ha_replies := (if ao_operation ob \<noteq> U ''request'' \<and> ao_operation ob = U ''reply'' then ha_replies row + 1 else ha_replies row),
     ha_gratuitous := (if ao_gratuitous ob then ha_gratuitous row + 1 else ha_gratuitous row),
     ha_mismatches := (if ao_mismatch ob \<noteq> [] then ha_mismatches row + 1 else ha_mismatches row),
     ha_interface := (if ao_interface ob \<noteq> [] then ao_interface ob else ha_interface row),
     ha_first := (if seen < ha_first row then seen else ha_first row), ha_last := (if seen > ha_last row then seen else ha_last row)\<rparr>"

section \<open>The recorder\<close>

record pending_rows =
  pr_dns :: "(dns_key \<times> dns_row) list"
  pr_arp :: "(arp_key \<times> arp_row) list"
  pr_events :: "arp_event list"

definition no_rows :: pending_rows where "no_rows = \<lparr>pr_dns = [], pr_arp = [], pr_events = []\<rparr>"

record recorder =
  rc_max :: nat
  rc_rows :: pending_rows
  rc_retry :: pending_rows
  rc_writing :: "pending_rows option"
  rc_ready :: bool
  rc_ip_mac :: "ustr \<rightharpoonup> ustr"
  rc_mac_ips :: "ustr \<rightharpoonup> ustr set"
  rc_mac_last_ip :: "ustr \<rightharpoonup> ustr"
  rc_mismatch_at :: "(arp_key \<times> rat) list"
  rc_dropped :: nat
  rc_write_errors :: nat

definition new_recorder :: "nat \<Rightarrow> recorder" where
  "new_recorder n = \<lparr>rc_max = n, rc_rows = no_rows, rc_retry = no_rows, rc_writing = None, rc_ready = False, rc_ip_mac = Map.empty,
     rc_mac_ips = Map.empty, rc_mac_last_ip = Map.empty, rc_mismatch_at = [], rc_dropped = 0, rc_write_errors = 0\<rparr>"

definition add_dns :: "dns_observation \<Rightarrow> ustr \<Rightarrow> recorder \<Rightarrow> recorder" where
  "add_dns ob seen rc =
     (let d = pr_dns (rc_rows rc); key = dns_key_of ob in
      case map_of d key of
        None \<Rightarrow>
          if length d \<ge> rc_max rc then rc\<lparr>rc_dropped := rc_dropped rc + 1\<rparr>
          else rc\<lparr>rc_rows := (rc_rows rc)\<lparr>pr_dns := AList.update key (count_dns ob seen (new_dns_row ob seen)) d\<rparr>\<rparr>
      | Some row \<Rightarrow> rc\<lparr>rc_rows := (rc_rows rc)\<lparr>pr_dns := AList.update key (count_dns ob seen row) d\<rparr>\<rparr>)"

definition add_event :: "arp_event \<Rightarrow> recorder \<Rightarrow> recorder" where
  "add_event ev rc =
     (if length (pr_events (rc_rows rc)) \<ge> rc_max rc then rc\<lparr>rc_dropped := rc_dropped rc + 1\<rparr>
      else rc\<lparr>rc_rows := (rc_rows rc)\<lparr>pr_events := pr_events (rc_rows rc) @ [ev]\<rparr>\<rparr>)"

definition arp_event_of :: "event_kind \<Rightarrow> arp_sighting \<Rightarrow> ustr \<Rightarrow> ustr \<Rightarrow> ustr \<Rightarrow> ustr \<Rightarrow> arp_event" where
  "arp_event_of kind ob seen previous_ip previous_mac detail =
     \<lparr>ev_kind = kind, ev_ip = ao_ip ob, ev_mac = ao_mac ob, ev_previous_ip = previous_ip, ev_previous_mac = previous_mac,
      ev_interface = ao_interface ob, ev_detail = detail, ev_at = seen\<rparr>"

text \<open>\<open>_load_arp_state\<close>; \<open>known\<close> is what the store answers, oldest first, or \<open>None\<close> when it fails.\<close>

definition learn_pair :: "ustr \<times> ustr \<Rightarrow> recorder \<Rightarrow> recorder" where
  "learn_pair pair rc =
     (case pair of (ip, mac) \<Rightarrow>
        rc\<lparr>rc_ip_mac := (rc_ip_mac rc)(ip \<mapsto> mac),
          rc_mac_ips := (rc_mac_ips rc)(mac \<mapsto> insert ip (case rc_mac_ips rc mac of None \<Rightarrow> {} | Some ips \<Rightarrow> ips)),
          rc_mac_last_ip := (rc_mac_last_ip rc)(mac \<mapsto> ip)\<rparr>)"

definition load_arp_state :: "(ustr \<times> ustr) list option \<Rightarrow> recorder \<Rightarrow> recorder" where
  "load_arp_state known rc =
     (if rc_ready rc then rc
      else (case known of None \<Rightarrow> rc\<lparr>rc_ready := True\<rparr> | Some pairs \<Rightarrow> fold learn_pair pairs (rc\<lparr>rc_ready := True\<rparr>)))"

text \<open>The events a claim raises, before it is learnt.\<close>

definition change_events :: "arp_sighting \<Rightarrow> ustr \<Rightarrow> recorder \<Rightarrow> arp_event list" where
  "change_events ob seen rc =
     (case rc_mac_ips rc (ao_mac ob) of
        None \<Rightarrow> [arp_event_of New_device ob seen [] [] (U ''first seen claiming '' @ ao_ip ob)]
      | Some ips \<Rightarrow>
          if ao_ip ob \<notin> ips
          then [arp_event_of Mac_new_ip ob seen (case rc_mac_last_ip rc (ao_mac ob) of None \<Rightarrow> [] | Some ip \<Rightarrow> ip) []
                  (ao_mac ob @ U '' now also uses '' @ ao_ip ob)]
          else [])
     @ (case rc_ip_mac rc (ao_ip ob) of
          None \<Rightarrow> []
        | Some previous \<Rightarrow>
            if previous \<noteq> [] \<and> previous \<noteq> ao_mac ob
            then [arp_event_of Ip_mac_changed ob seen [] previous (ao_ip ob @ U '' moved from '' @ previous @ U '' to '' @ ao_mac ob)]
            else [])"

definition mismatch_step :: "arp_sighting \<Rightarrow> ustr \<Rightarrow> rat \<Rightarrow> recorder \<Rightarrow> recorder" where
  "mismatch_step ob seen now rc =
     (let key = (ao_ip ob, ao_mac ob) in
      if ao_mismatch ob = [] then rc
      else if (case map_of (rc_mismatch_at rc) key of None \<Rightarrow> True | Some t \<Rightarrow> now - t \<ge> MISMATCH_EVENT_INTERVAL_SECONDS)
      then (let m = AList.update key now (rc_mismatch_at rc);
                rc1 = add_event (arp_event_of Mac_mismatch ob seen [] [] (ao_mismatch ob)) (rc\<lparr>rc_mismatch_at := m\<rparr>)
            in if length m > rc_max rc then rc1\<lparr>rc_mismatch_at := []\<rparr> else rc1)
      else rc)"

definition add_arp :: "(ustr \<times> ustr) list option \<Rightarrow> arp_sighting \<Rightarrow> ustr \<Rightarrow> rat \<Rightarrow> recorder \<Rightarrow> recorder" where
  "add_arp known ob seen now rc0 =
     (let rc = load_arp_state known rc0; d = pr_arp (rc_rows rc); key = (ao_ip ob, ao_mac ob);
          counted = (\<lambda>row. mismatch_step ob seen now (fold add_event (change_events ob seen rc)
            (rc\<lparr>rc_rows := (rc_rows rc)\<lparr>pr_arp := AList.update key (count_arp ob seen row) d\<rparr>\<rparr>))) in
      case map_of d key of
        None \<Rightarrow>
          if length d \<ge> rc_max rc then rc\<lparr>rc_dropped := rc_dropped rc + 1\<rparr>
          else learn_pair key (counted (new_arp_row ob seen))
      | Some row \<Rightarrow> learn_pair key (counted row))"

text \<open>\<open>observe\<close> under the lock: the observations of one packet.\<close>

definition observe_rows ::
  "(ustr \<times> ustr) list option \<Rightarrow> dns_observation list \<Rightarrow> arp_sighting option \<Rightarrow> ustr \<Rightarrow> rat \<Rightarrow> recorder \<Rightarrow> recorder" where
  "observe_rows known obs arp seen now rc =
     (let rc1 = fold (\<lambda>ob. add_dns ob seen) obs rc in
      case arp of None \<Rightarrow> rc1 | Some ob \<Rightarrow> add_arp known ob seen now rc1)"

definition observe ::
  "(pyval \<Rightarrow> ustr) \<Rightarrow> bool \<Rightarrow> bool \<Rightarrow> (ustr \<times> ustr) list option \<Rightarrow> ustr \<Rightarrow> rat \<Rightarrow> packet \<Rightarrow> recorder \<Rightarrow> recorder" where
  "observe fmt dns_enabled arp_enabled known utc_now now p rc =
     (case (if dns_enabled then dns_observations fmt p else Some []) of
        None \<Rightarrow> rc
      | Some obs \<Rightarrow>
          observe_rows known obs (if arp_enabled then arp_observation fmt p else None) (or_text (pk_created_at p) utc_now) now rc)"

section \<open>Writing\<close>

definition last_n :: "nat \<Rightarrow> 'a list \<Rightarrow> 'a list" where
  "last_n n xs = (if n = 0 then xs else drop (length xs - n) xs)"

text \<open>\<open>flush\<close> up to the write, and after it.\<close>

definition flush_take :: "recorder \<Rightarrow> recorder" where
  "flush_take rc =
     (let r = rc_retry rc; q = rc_rows rc;
          w = \<lparr>pr_dns = pr_dns r @ pr_dns q, pr_arp = pr_arp r @ pr_arp q, pr_events = pr_events r @ pr_events q\<rparr>
      in rc\<lparr>rc_rows := no_rows, rc_retry := no_rows, rc_writing := (if w = no_rows then None else Some w)\<rparr>)"

definition flush_failed :: "recorder \<Rightarrow> recorder" where
  "flush_failed rc =
     (case rc_writing rc of
        None \<Rightarrow> rc
      | Some w \<Rightarrow>
          let keep = rc_max rc * 4 in
          rc\<lparr>rc_retry := \<lparr>pr_dns = last_n keep (pr_dns w), pr_arp = last_n keep (pr_arp w), pr_events = last_n keep (pr_events w)\<rparr>,
            rc_writing := None, rc_write_errors := rc_write_errors rc + 1\<rparr>)"

record history_db =
  db_dns :: "dns_key \<rightharpoonup> dns_row"
  db_arp :: "arp_key \<rightharpoonup> arp_row"
  db_events :: "arp_event list"

definition last_items :: "nat \<Rightarrow> 'a list \<Rightarrow> 'a list" where
  "last_items n xs = drop (length xs - n) xs"

definition merge_peers :: "ustr list \<Rightarrow> ustr list \<Rightarrow> ustr list" where
  "merge_peers existing new =
     last_items MAX_REMEMBERED_PEERS (foldl (\<lambda>merged peer. if peer \<noteq> [] \<and> peer \<notin> set merged then merged @ [peer] else merged) existing new)"

definition opt_merge :: "(int \<Rightarrow> int \<Rightarrow> int) \<Rightarrow> int option \<Rightarrow> int option \<Rightarrow> int option" where
  "opt_merge f existing new = (case existing of None \<Rightarrow> new | Some m \<Rightarrow> (case new of None \<Rightarrow> Some m | Some n \<Rightarrow> Some (f m n)))"

definition merge_dns_row :: "dns_row option \<Rightarrow> dns_row \<Rightarrow> dns_row" where
  "merge_dns_row existing row =
     (case existing of
        None \<Rightarrow> row\<lparr>hd_clients := merge_peers [] (hd_clients row), hd_resolvers := merge_peers [] (hd_resolvers row)\<rparr>
      | Some old \<Rightarrow> \<lparr>hd_source = hd_source row, hd_transport = hd_transport row, hd_queries = hd_queries old + hd_queries row,
          hd_responses = hd_responses old + hd_responses row, hd_errors = hd_errors old + hd_errors row,
          hd_rcode = (if hd_rcode row \<noteq> [] then hd_rcode row else hd_rcode old),
          hd_ttl_min = opt_merge min (hd_ttl_min old) (hd_ttl_min row), hd_ttl_max = opt_merge max (hd_ttl_max old) (hd_ttl_max row),
          hd_ttl_last = (case hd_ttl_last row of None \<Rightarrow> hd_ttl_last old | Some n \<Rightarrow> Some n),
          hd_client = (if hd_client row \<noteq> [] then hd_client row else hd_client old),
          hd_resolver = (if hd_resolver row \<noteq> [] then hd_resolver row else hd_resolver old),
          hd_clients = merge_peers (hd_clients old) (hd_clients row), hd_resolvers = merge_peers (hd_resolvers old) (hd_resolvers row),
          hd_first = min (hd_first old) (hd_first row), hd_last = max (hd_last old) (hd_last row)\<rparr>)"

definition merge_arp_row :: "arp_row option \<Rightarrow> arp_row \<Rightarrow> arp_row" where
  "merge_arp_row existing row =
     (case existing of
        None \<Rightarrow> row
      | Some old \<Rightarrow> \<lparr>ha_interface = (if ha_interface row \<noteq> [] then ha_interface row else ha_interface old),
          ha_packets = ha_packets old + ha_packets row, ha_requests = ha_requests old + ha_requests row,
          ha_replies = ha_replies old + ha_replies row, ha_gratuitous = ha_gratuitous old + ha_gratuitous row,
          ha_mismatches = ha_mismatches old + ha_mismatches row,
          ha_first = min (ha_first old) (ha_first row), ha_last = max (ha_last old) (ha_last row)\<rparr>)"

definition insert_arp_event :: "arp_event \<Rightarrow> arp_event" where
  "insert_arp_event ev = ev\<lparr>ev_detail := take 500 (ev_detail ev)\<rparr>"

definition merge_row :: "('v option \<Rightarrow> 'v \<Rightarrow> 'v) \<Rightarrow> 'k \<times> 'v \<Rightarrow> ('k \<rightharpoonup> 'v) \<Rightarrow> ('k \<rightharpoonup> 'v)" where
  "merge_row f kv t = t(fst kv \<mapsto> f (t (fst kv)) (snd kv))"

definition write_history :: "pending_rows \<Rightarrow> history_db \<Rightarrow> history_db" where
  "write_history w db =
     \<lparr>db_dns = fold (merge_row merge_dns_row) (pr_dns w) (db_dns db),
      db_arp = fold (merge_row merge_arp_row) (pr_arp w) (db_arp db),
      db_events = db_events db @ map insert_arp_event (pr_events w)\<rparr>"

datatype history_op =
    Observe "dns_observation list" "arp_sighting option" ustr rat
  | Flush
  | Written
  | Write_failed

text \<open>A flush waits for the one before it; a write ends well or badly.\<close>

definition history_step :: "(ustr \<times> ustr) list option \<Rightarrow> history_op \<Rightarrow> recorder \<times> history_db \<Rightarrow> recorder \<times> history_db" where
  "history_step known op st =
     (case st of (rc, db) \<Rightarrow>
       (case op of
          Observe obs arp seen now \<Rightarrow> (observe_rows known obs arp seen now rc, db)
        | Flush \<Rightarrow> if rc_writing rc = None then (flush_take rc, db) else (rc, db)
        | Written \<Rightarrow> (case rc_writing rc of None \<Rightarrow> (rc, db) | Some w \<Rightarrow> (rc\<lparr>rc_writing := None\<rparr>, write_history w db))
        | Write_failed \<Rightarrow> (flush_failed rc, db)))"

definition history_run :: "(ustr \<times> ustr) list option \<Rightarrow> nat \<Rightarrow> history_db \<Rightarrow> history_op list \<Rightarrow> recorder \<times> history_db" where
  "history_run known n db ops = fold (history_step known) ops (new_recorder n, db)"

section \<open>What is kept in memory\<close>

definition rows_within :: "nat \<Rightarrow> pending_rows \<Rightarrow> bool" where
  "rows_within n w \<longleftrightarrow> length (pr_dns w) \<le> n \<and> length (pr_arp w) \<le> n \<and> length (pr_events w) \<le> n"

definition recorder_ok :: "nat \<Rightarrow> recorder \<Rightarrow> bool" where
  "recorder_ok n rc \<longleftrightarrow> rc_max rc = n \<and> rows_within n (rc_rows rc) \<and> distinct (map fst (pr_dns (rc_rows rc)))
     \<and> distinct (map fst (pr_arp (rc_rows rc))) \<and> length (rc_mismatch_at rc) \<le> n"

lemma rows_within_mono: "rows_within a w \<Longrightarrow> a \<le> b \<Longrightarrow> rows_within b w"
  by (auto simp: rows_within_def)

text \<open>The parts of the recorder that observing does not touch.\<close>

definition same_backlog :: "recorder \<Rightarrow> recorder \<Rightarrow> bool" where
  "same_backlog rc rc' \<longleftrightarrow> rc_retry rc' = rc_retry rc \<and> rc_writing rc' = rc_writing rc"

lemma length_update: "length (AList.update k v xs) = (if k \<in> fst ` set xs then length xs else length xs + 1)"
  by (induction xs) auto

lemma learn_fields [simp]:
  "rc_rows (learn_pair pair rc) = rc_rows rc" "rc_max (learn_pair pair rc) = rc_max rc" "rc_dropped (learn_pair pair rc) = rc_dropped rc"
  "rc_retry (learn_pair pair rc) = rc_retry rc" "rc_writing (learn_pair pair rc) = rc_writing rc" "rc_ready (learn_pair pair rc) = rc_ready rc"
  "rc_mismatch_at (learn_pair pair rc) = rc_mismatch_at rc"
  by (simp_all add: learn_pair_def split: prod.split)

lemma load_fields [simp]:
  "rc_rows (load_arp_state known rc) = rc_rows rc" "rc_max (load_arp_state known rc) = rc_max rc"
  "rc_dropped (load_arp_state known rc) = rc_dropped rc" "rc_retry (load_arp_state known rc) = rc_retry rc"
  "rc_writing (load_arp_state known rc) = rc_writing rc" "rc_mismatch_at (load_arp_state known rc) = rc_mismatch_at rc"
  "rc_ready (load_arp_state known rc)"
proof -
  have "rc_rows (fold learn_pair ps r) = rc_rows r \<and> rc_max (fold learn_pair ps r) = rc_max r \<and> rc_dropped (fold learn_pair ps r) = rc_dropped r
    \<and> rc_retry (fold learn_pair ps r) = rc_retry r \<and> rc_writing (fold learn_pair ps r) = rc_writing r
    \<and> rc_mismatch_at (fold learn_pair ps r) = rc_mismatch_at r \<and> rc_ready (fold learn_pair ps r) = rc_ready r" for ps r
    by (induction ps arbitrary: r) simp_all
  then show "rc_rows (load_arp_state known rc) = rc_rows rc" "rc_max (load_arp_state known rc) = rc_max rc"
    "rc_dropped (load_arp_state known rc) = rc_dropped rc" "rc_retry (load_arp_state known rc) = rc_retry rc"
    "rc_writing (load_arp_state known rc) = rc_writing rc" "rc_mismatch_at (load_arp_state known rc) = rc_mismatch_at rc"
    "rc_ready (load_arp_state known rc)"
    by (simp_all add: load_arp_state_def split: option.split)
qed

lemma event_fields [simp]:
  "rc_max (add_event ev rc) = rc_max rc" "rc_retry (add_event ev rc) = rc_retry rc" "rc_writing (add_event ev rc) = rc_writing rc"
  "pr_dns (rc_rows (add_event ev rc)) = pr_dns (rc_rows rc)" "pr_arp (rc_rows (add_event ev rc)) = pr_arp (rc_rows rc)"
  "rc_ready (add_event ev rc) = rc_ready rc" "rc_ip_mac (add_event ev rc) = rc_ip_mac rc" "rc_mac_ips (add_event ev rc) = rc_mac_ips rc"
  "rc_mac_last_ip (add_event ev rc) = rc_mac_last_ip rc" "rc_mismatch_at (add_event ev rc) = rc_mismatch_at rc"
  by (simp_all add: add_event_def)

lemma events_fields [simp]:
  "rc_max (fold add_event evs rc) = rc_max rc" "rc_retry (fold add_event evs rc) = rc_retry rc"
  "rc_writing (fold add_event evs rc) = rc_writing rc" "pr_dns (rc_rows (fold add_event evs rc)) = pr_dns (rc_rows rc)"
  "pr_arp (rc_rows (fold add_event evs rc)) = pr_arp (rc_rows rc)" "rc_ready (fold add_event evs rc) = rc_ready rc"
  "rc_ip_mac (fold add_event evs rc) = rc_ip_mac rc" "rc_mac_ips (fold add_event evs rc) = rc_mac_ips rc"
  "rc_mac_last_ip (fold add_event evs rc) = rc_mac_last_ip rc" "rc_mismatch_at (fold add_event evs rc) = rc_mismatch_at rc"
  by (induction evs arbitrary: rc) simp_all

lemma events_within: "length (pr_events (rc_rows rc)) \<le> rc_max rc \<Longrightarrow> length (pr_events (rc_rows (fold add_event evs rc))) \<le> rc_max rc"
proof (induction evs arbitrary: rc)
  case (Cons ev evs)
  have "length (pr_events (rc_rows (add_event ev rc))) \<le> rc_max (add_event ev rc)" using Cons.prems by (simp add: add_event_def)
  from Cons.IH [OF this] show ?case by simp
qed simp

lemma mismatch_fields [simp]:
  "rc_max (mismatch_step ob s now rc) = rc_max rc" "rc_retry (mismatch_step ob s now rc) = rc_retry rc"
  "rc_writing (mismatch_step ob s now rc) = rc_writing rc" "pr_dns (rc_rows (mismatch_step ob s now rc)) = pr_dns (rc_rows rc)"
  "pr_arp (rc_rows (mismatch_step ob s now rc)) = pr_arp (rc_rows rc)" "rc_ready (mismatch_step ob s now rc) = rc_ready rc"
  "rc_ip_mac (mismatch_step ob s now rc) = rc_ip_mac rc" "rc_mac_ips (mismatch_step ob s now rc) = rc_mac_ips rc"
  "rc_mac_last_ip (mismatch_step ob s now rc) = rc_mac_last_ip rc"
  by (simp_all add: mismatch_step_def Let_def)

lemma mismatch_within:
  assumes "length (pr_events (rc_rows rc)) \<le> rc_max rc" "length (rc_mismatch_at rc) \<le> rc_max rc"
  shows "length (pr_events (rc_rows (mismatch_step ob s now rc))) \<le> rc_max rc" "length (rc_mismatch_at (mismatch_step ob s now rc)) \<le> rc_max rc"
  using assms by (auto simp: mismatch_step_def Let_def add_event_def)

lemma add_dns_fields [simp]:
  "rc_max (add_dns ob s rc) = rc_max rc" "rc_retry (add_dns ob s rc) = rc_retry rc" "rc_writing (add_dns ob s rc) = rc_writing rc"
  "pr_arp (rc_rows (add_dns ob s rc)) = pr_arp (rc_rows rc)" "pr_events (rc_rows (add_dns ob s rc)) = pr_events (rc_rows rc)"
  "rc_ready (add_dns ob s rc) = rc_ready rc" "rc_ip_mac (add_dns ob s rc) = rc_ip_mac rc" "rc_mac_ips (add_dns ob s rc) = rc_mac_ips rc"
  "rc_mac_last_ip (add_dns ob s rc) = rc_mac_last_ip rc" "rc_mismatch_at (add_dns ob s rc) = rc_mismatch_at rc"
  by (simp_all add: add_dns_def Let_def split: option.split)

lemma add_dns_ok: "recorder_ok n rc \<Longrightarrow> recorder_ok n (add_dns ob s rc)"
  by (auto simp: recorder_ok_def rows_within_def add_dns_def Let_def length_update distinct_update map_of_eq_None_iff
      split: option.split dest: map_of_SomeD intro: rev_image_eqI)

lemma ok_learn [simp]: "recorder_ok n (learn_pair pair rc) \<longleftrightarrow> recorder_ok n rc"
  by (simp add: recorder_ok_def)

text \<open>A claim that is counted: its row \<open>row\<close> is updated, its events are raised, the pair is learnt.\<close>

definition arp_counted :: "arp_sighting \<Rightarrow> ustr \<Rightarrow> rat \<Rightarrow> recorder \<Rightarrow> arp_row \<Rightarrow> recorder" where
  "arp_counted ob s now rc row = learn_pair (ao_ip ob, ao_mac ob) (mismatch_step ob s now (fold add_event (change_events ob s rc)
     (rc\<lparr>rc_rows := (rc_rows rc)\<lparr>pr_arp := AList.update (ao_ip ob, ao_mac ob) (count_arp ob s row) (pr_arp (rc_rows rc))\<rparr>\<rparr>)))"

lemma add_arp_cases:
  "add_arp known ob s now rc =
     (let rc1 = load_arp_state known rc in
      case map_of (pr_arp (rc_rows rc)) (ao_ip ob, ao_mac ob) of
        None \<Rightarrow> if length (pr_arp (rc_rows rc)) \<ge> rc_max rc then rc1\<lparr>rc_dropped := rc_dropped rc + 1\<rparr>
                else arp_counted ob s now rc1 (new_arp_row ob s)
      | Some row \<Rightarrow> arp_counted ob s now rc1 row)"
  by (simp add: add_arp_def arp_counted_def Let_def split: option.split)

lemma arp_counted_ok:
  assumes ok: "recorder_ok n rc" and room: "(ao_ip ob, ao_mac ob) \<in> fst ` set (pr_arp (rc_rows rc)) \<or> length (pr_arp (rc_rows rc)) < n"
  shows "recorder_ok n (arp_counted ob s now rc row)"
proof -
  let ?d = "AList.update (ao_ip ob, ao_mac ob) (count_arp ob s row) (pr_arp (rc_rows rc))"
  let ?rc = "rc\<lparr>rc_rows := (rc_rows rc)\<lparr>pr_arp := ?d\<rparr>\<rparr>"
  have d: "length ?d \<le> n" "distinct (map fst ?d)" using ok room
    by (auto simp: length_update recorder_ok_def rows_within_def distinct_update)
  have n: "rc_max rc = n" using ok by (simp add: recorder_ok_def)
  have e: "length (pr_events (rc_rows (fold add_event evs ?rc))) \<le> n" for evs
    using events_within [of ?rc evs] ok by (simp add: recorder_ok_def rows_within_def)
  have m: "length (pr_events (rc_rows (mismatch_step ob s now (fold add_event evs ?rc)))) \<le> n"
    "length (rc_mismatch_at (mismatch_step ob s now (fold add_event evs ?rc))) \<le> n" for evs
    using mismatch_within [of "fold add_event evs ?rc"] e [of evs] ok n by (simp_all add: recorder_ok_def)
  show ?thesis using d m n ok unfolding arp_counted_def ok_learn by (simp add: recorder_ok_def rows_within_def)
qed

lemma add_arp_ok: "recorder_ok n rc \<Longrightarrow> recorder_ok n (add_arp known ob s now rc)"
proof -
  assume ok: "recorder_ok n rc"
  have l: "recorder_ok n (load_arp_state known rc)" and n: "rc_max rc = n" using ok by (simp_all add: recorder_ok_def)
  show ?thesis
  proof (cases "map_of (pr_arp (rc_rows rc)) (ao_ip ob, ao_mac ob)")
    case None
    have "recorder_ok n ((load_arp_state known rc)\<lparr>rc_dropped := k\<rparr>)" for k using l by (simp add: recorder_ok_def)
    then show ?thesis using arp_counted_ok [OF l] None n by (simp add: add_arp_cases Let_def not_le)
  next
    case (Some row)
    then have "(ao_ip ob, ao_mac ob) \<in> fst ` set (pr_arp (rc_rows rc))" by (force dest: map_of_SomeD)
    then show ?thesis using arp_counted_ok [OF l] Some by (simp add: add_arp_cases Let_def)
  qed
qed

lemma add_arp_backlog: "same_backlog rc (add_arp known ob s now rc)"
  by (simp add: same_backlog_def add_arp_cases arp_counted_def Let_def split: option.split)

lemma observe_ok: "recorder_ok n rc \<Longrightarrow> recorder_ok n (observe_rows known obs arp s now rc)"
proof -
  assume ok: "recorder_ok n rc"
  have "recorder_ok n (fold (\<lambda>ob. add_dns ob s) obs rc)" using ok by (induction obs arbitrary: rc) (simp_all add: add_dns_ok)
  then show ?thesis by (simp add: observe_rows_def Let_def add_arp_ok split: option.split)
qed

lemma observe_backlog: "same_backlog rc (observe_rows known obs arp s now rc)"
proof -
  have "same_backlog rc (fold (\<lambda>ob. add_dns ob s) obs rc)"
    by (induction obs arbitrary: rc) (simp_all add: same_backlog_def)
  then show ?thesis using add_arp_backlog by (auto simp: observe_rows_def Let_def same_backlog_def split: option.split)
qed

text \<open>How many writes in a row have failed, and the values of this count along a run.\<close>

definition count_failure :: "recorder \<Rightarrow> history_op \<Rightarrow> nat \<Rightarrow> nat" where
  "count_failure rc op f =
     (if rc_writing rc = None then f else case op of Write_failed \<Rightarrow> f + 1 | Written \<Rightarrow> 0 | _ \<Rightarrow> f)"

fun failure_counts :: "(ustr \<times> ustr) list option \<Rightarrow> history_op list \<Rightarrow> recorder \<times> history_db \<Rightarrow> nat \<Rightarrow> nat list" where
  "failure_counts known [] st f = []"
| "failure_counts known (op # ops) st f =
     (let f' = count_failure (fst st) op f in f' # failure_counts known ops (history_step known op st) f')"

lemma last_n_within: "length xs \<le> (min f 4 + 1) * n \<Longrightarrow> length (last_n (n * 4) xs) \<le> min (f + 1) 4 * n"
proof (cases "f < 4")
  case True
  moreover assume "length xs \<le> (min f 4 + 1) * n"
  ultimately have "length xs \<le> (f + 1) * n" by simp
  moreover have "length (last_n (n * 4) xs) \<le> length xs" by (simp add: last_n_def)
  ultimately show ?thesis using True by simp
qed (auto simp: last_n_def)

definition backlog_ok :: "nat \<Rightarrow> nat \<Rightarrow> recorder \<Rightarrow> bool" where
  "backlog_ok n f rc \<longleftrightarrow> (case rc_writing rc of
       None \<Rightarrow> rows_within (min f 4 * n) (rc_retry rc)
     | Some w \<Rightarrow> rows_within ((min f 4 + 1) * n) w \<and> rc_retry rc = no_rows)"

lemma step_memory:
  assumes "recorder_ok n rc" "backlog_ok n f rc" "history_step known op (rc, db) = (rc', db')"
  shows "recorder_ok n rc' \<and> backlog_ok n (count_failure rc op f) rc'"
proof (cases op)
  case (Observe obs arp s now)
  then show ?thesis using assms observe_ok [OF assms(1), of known obs arp s now] observe_backlog [of rc known obs arp s now]
    by (auto simp: history_step_def count_failure_def backlog_ok_def same_backlog_def split: option.splits)
next
  case Flush
  show ?thesis
  proof (cases "rc_writing rc")
    case None
    then show ?thesis using Flush assms
      by (auto simp: history_step_def count_failure_def backlog_ok_def flush_take_def Let_def recorder_ok_def rows_within_def no_rows_def)
  qed (use Flush assms in \<open>simp add: history_step_def count_failure_def\<close>)
next
  case Written
  then show ?thesis using assms
    by (auto simp: history_step_def count_failure_def backlog_ok_def recorder_ok_def no_rows_def rows_within_def
        split: option.splits)
next
  case Write_failed
  show ?thesis
  proof (cases "rc_writing rc")
    case None
    then show ?thesis using Write_failed assms
      by (auto simp: history_step_def count_failure_def backlog_ok_def flush_failed_def rows_within_def min_def intro: order_trans)
  next
    case (Some w)
    then have "rows_within ((min f 4 + 1) * n) w" "rc_max rc = n" using assms(1,2) by (simp_all add: backlog_ok_def recorder_ok_def)
    then show ?thesis using Write_failed Some assms(1,3) last_n_within [of "pr_dns w" f n] last_n_within [of "pr_arp w" f n]
        last_n_within [of "pr_events w" f n]
      by (auto simp: history_step_def count_failure_def backlog_ok_def flush_failed_def Let_def rows_within_def recorder_ok_def)
  qed
qed

section \<open>Aggregation loses nothing\<close>

text \<open>A row without its remembered peers, of which each stage keeps a bounded number.\<close>

definition bare :: "dns_row \<Rightarrow> dns_row" where
  "bare row = row\<lparr>hd_clients := [], hd_resolvers := []\<rparr>"

definition single_dns :: "dns_observation \<Rightarrow> ustr \<Rightarrow> dns_row" where
  "single_dns ob s = count_dns ob s (new_dns_row ob s)"

definition single_arp :: "arp_sighting \<Rightarrow> ustr \<Rightarrow> arp_row" where
  "single_arp ob s = count_arp ob s (new_arp_row ob s)"

lemma bare_merge: "bare (merge_dns_row x row) = bare (merge_dns_row (map_option bare x) (bare row))"
  by (cases x) (simp_all add: bare_def merge_dns_row_def cong: option.case_cong if_cong)

lemma opt_merge_with:
  "opt_merge min x (opt_with min y n) = opt_merge min (opt_merge min x y) (Some n)"
  "opt_merge max x (opt_with max y n) = opt_merge max (opt_merge max x y) (Some n)"
  by (auto simp: opt_merge_def opt_with_def min.assoc max.assoc split: option.split)

lemma count_dns_eq:
  "count_dns ob s row = \<lparr>hd_source = do_source ob, hd_transport = do_transport ob,
     hd_queries = (if do_response ob then hd_queries row else hd_queries row + 1),
     hd_responses = (if do_response ob then hd_responses row + 1 else hd_responses row),
     hd_errors = (if do_response ob \<and> do_rcode ob \<noteq> U ''NOERROR'' then hd_errors row + 1 else hd_errors row),
     hd_rcode = (if do_response ob then do_rcode ob else hd_rcode row),
     hd_ttl_min = (case do_ttl ob of None \<Rightarrow> hd_ttl_min row | Some n \<Rightarrow> opt_with min (hd_ttl_min row) n),
     hd_ttl_max = (case do_ttl ob of None \<Rightarrow> hd_ttl_max row | Some n \<Rightarrow> opt_with max (hd_ttl_max row) n),
     hd_ttl_last = (case do_ttl ob of None \<Rightarrow> hd_ttl_last row | Some n \<Rightarrow> Some n),
     hd_client = (if do_client ob \<noteq> [] then do_client ob else hd_client row),
     hd_resolver = (if do_resolver ob \<noteq> [] then do_resolver ob else hd_resolver row),
     hd_clients = remember_peer (do_client ob) (hd_clients row), hd_resolvers = remember_peer (do_resolver ob) (hd_resolvers row),
     hd_first = min (hd_first row) s, hd_last = max (hd_last row) s\<rparr>"
  by (cases row; cases "do_ttl ob"; cases "do_response ob"; cases "do_client ob = []"; cases "do_resolver ob = []")
     (simp_all add: count_dns_def Let_def min_def max_def not_le less_imp_le cong: if_cong, auto)

lemma merge_count_dns:
  assumes "do_rcode ob \<noteq> []"
  shows "bare (merge_dns_row x (count_dns ob s row)) = bare (merge_dns_row (Some (merge_dns_row x row)) (single_dns ob s))"
proof (cases x)
  case None
  show ?thesis using assms
    by (rule_tac dns_row.equality)
       (simp_all add: None bare_def merge_dns_row_def single_dns_def count_dns_eq new_dns_row_def opt_with_def opt_merge_def split: option.split)
next
  case (Some old)
  show ?thesis using assms
    by (rule_tac dns_row.equality)
       (simp_all add: Some bare_def merge_dns_row_def single_dns_def count_dns_eq new_dns_row_def opt_with_def opt_merge_def
         min.assoc max.assoc split: option.split)
qed

lemma merge_count_arp: "merge_arp_row x (count_arp ob s row) = merge_arp_row (Some (merge_arp_row x row)) (single_arp ob s)"
proof -
  have m: "(if s < b then s else b) = min b s" "(if b < s then s else b) = max b s" for b :: ustr
    by (auto simp: min_def max_def)
  show ?thesis
    by (cases x) (simp_all add: merge_arp_row_def single_arp_def count_arp_def new_arp_row_def m min.assoc max.assoc)
qed

lemma fold_merge_distinct:
  "distinct (map fst xs) \<Longrightarrow> fold (merge_row f) xs t k = (case map_of xs k of None \<Rightarrow> t k | Some r \<Rightarrow> Some (f (t k) r))"
proof (induction xs arbitrary: t)
  case (Cons x xs)
  then have "map_of xs (fst x) = None" by (simp add: map_of_eq_None_iff)
  then show ?case using Cons by (cases x) (auto simp: merge_row_def split: option.split)
qed simp

text \<open>Counting an observation in its aggregate is merging it on its own afterwards, seen through \<open>b\<close>.\<close>

lemma fold_merge_update:
  assumes d: "distinct (map fst d)"
    and count: "\<And>x row. b (f x (count row)) = b (f (Some (f x row)) (count new))"
  shows "map_option b (fold (merge_row f) (AList.update key (count (case map_of d key of None \<Rightarrow> new | Some r \<Rightarrow> r)) d) t k)
       = map_option b (merge_row f (key, count new) (fold (merge_row f) d t) k)"
proof (cases "k = key")
  case False
  then show ?thesis using distinct_update [OF d, of key] d
    by (simp add: fold_merge_distinct update_conv merge_row_def)
next
  case True
  show ?thesis
  proof (cases "map_of d key")
    case None
    then show ?thesis using True distinct_update [OF d, of key] d by (simp add: fold_merge_distinct update_conv merge_row_def)
  next
    case (Some row)
    then show ?thesis using True distinct_update [OF d, of key] d count [of "t key" row]
      by (simp add: fold_merge_distinct update_conv merge_row_def)
  qed
qed

definition backlog :: "recorder \<Rightarrow> pending_rows" where
  "backlog rc = (case rc_writing rc of None \<Rightarrow> rc_retry rc | Some w \<Rightarrow> w)"

text \<open>The tables as they will be once everything in memory is written.\<close>

definition abs_dns :: "recorder \<Rightarrow> history_db \<Rightarrow> dns_key \<rightharpoonup> dns_row" where
  "abs_dns rc db = fold (merge_row merge_dns_row) (pr_dns (rc_rows rc)) (fold (merge_row merge_dns_row) (pr_dns (backlog rc)) (db_dns db))"

definition abs_arp :: "recorder \<Rightarrow> history_db \<Rightarrow> arp_key \<rightharpoonup> arp_row" where
  "abs_arp rc db = fold (merge_row merge_arp_row) (pr_arp (rc_rows rc)) (fold (merge_row merge_arp_row) (pr_arp (backlog rc)) (db_arp db))"

definition abs_events :: "recorder \<Rightarrow> history_db \<Rightarrow> arp_event list" where
  "abs_events rc db = db_events db @ map insert_arp_event (pr_events (backlog rc) @ pr_events (rc_rows rc))"

definition bare_table :: "(dns_key \<rightharpoonup> dns_row) \<Rightarrow> (dns_key \<rightharpoonup> dns_row)" where
  "bare_table t = (\<lambda>k. map_option bare (t k))"

text \<open>The reference: every observation is written on its own, in the order it was made.\<close>

definition record_dns :: "dns_observation \<times> ustr \<Rightarrow> (dns_key \<rightharpoonup> dns_row) \<Rightarrow> (dns_key \<rightharpoonup> dns_row)" where
  "record_dns e t = merge_row merge_dns_row (dns_key_of (fst e), single_dns (fst e) (snd e)) t"

definition record_arp :: "arp_sighting \<times> ustr \<Rightarrow> (arp_key \<rightharpoonup> arp_row) \<Rightarrow> (arp_key \<rightharpoonup> arp_row)" where
  "record_arp e t = merge_row merge_arp_row ((ao_ip (fst e), ao_mac (fst e)), single_arp (fst e) (snd e)) t"

lemma bare_record: "bare_table t = bare_table t' \<Longrightarrow> bare_table (record_dns e t) = bare_table (record_dns e t')"
proof -
  assume eq: "bare_table t = bare_table t'"
  have e: "map_option bare (t k) = map_option bare (t' k)" for k using eq by (metis bare_table_def)
  have m: "bare (merge_dns_row (t k) r) = bare (merge_dns_row (t' k) r)" for k r
    using bare_merge [of "t k" r] bare_merge [of "t' k" r] e [of k] by metis
  show ?thesis unfolding bare_table_def
  proof
    fix k show "map_option bare (record_dns e t k) = map_option bare (record_dns e t' k)"
      using e [of k] m by (simp add: record_dns_def merge_row_def)
  qed
qed

lemma bare_records: "bare_table t = bare_table t' \<Longrightarrow> bare_table (fold record_dns es t) = bare_table (fold record_dns es t')"
proof (induction es arbitrary: t t')
  case (Cons e es)
  from Cons.IH [OF bare_record [OF Cons.prems]] show ?case unfolding fold_simps .
qed simp

lemma add_dns_dropped: "rc_dropped rc \<le> rc_dropped (add_dns ob s rc)"
  by (simp add: add_dns_def Let_def split: option.split)

lemma abs_add_dns:
  assumes "recorder_ok n rc" "rc_dropped (add_dns ob s rc) = rc_dropped rc" "do_rcode ob \<noteq> []"
  shows "bare_table (abs_dns (add_dns ob s rc) db) = bare_table (record_dns (ob, s) (abs_dns rc db))"
    "abs_arp (add_dns ob s rc) db = abs_arp rc db" "abs_events (add_dns ob s rc) db = abs_events rc db"
proof -
  have rows: "pr_dns (rc_rows (add_dns ob s rc)) = AList.update (dns_key_of ob)
      (count_dns ob s (case map_of (pr_dns (rc_rows rc)) (dns_key_of ob) of None \<Rightarrow> new_dns_row ob s | Some r \<Rightarrow> r)) (pr_dns (rc_rows rc))"
    using assms(2) by (auto simp: add_dns_def Let_def split: option.splits if_splits)
  have b: "backlog (add_dns ob s rc) = backlog rc" by (simp add: backlog_def split: option.split)
  show "bare_table (abs_dns (add_dns ob s rc) db) = bare_table (record_dns (ob, s) (abs_dns rc db))"
    unfolding bare_table_def abs_dns_def rows b record_dns_def single_dns_def fst_conv snd_conv
    by (intro ext fold_merge_update merge_count_dns [OF assms(3), unfolded single_dns_def]) (use assms(1) in \<open>simp add: recorder_ok_def\<close>)
  show "abs_arp (add_dns ob s rc) db = abs_arp rc db" "abs_events (add_dns ob s rc) db = abs_events rc db"
    by (simp_all add: abs_arp_def abs_events_def b)
qed

lemma abs_add_all_dns:
  assumes "recorder_ok n rc" "rc_dropped (fold (\<lambda>ob. add_dns ob s) obs rc) = rc_dropped rc" "list_all (\<lambda>ob. do_rcode ob \<noteq> []) obs"
  shows "bare_table (abs_dns (fold (\<lambda>ob. add_dns ob s) obs rc) db) = bare_table (fold record_dns (map (\<lambda>ob. (ob, s)) obs) (abs_dns rc db))
    \<and> abs_arp (fold (\<lambda>ob. add_dns ob s) obs rc) db = abs_arp rc db \<and> abs_events (fold (\<lambda>ob. add_dns ob s) obs rc) db = abs_events rc db"
  using assms
proof (induction obs arbitrary: rc)
  case (Cons ob obs)
  have le: "rc_dropped (fold (\<lambda>ob. add_dns ob s) obs r) \<ge> rc_dropped r" for r
    by (induction obs arbitrary: r) (auto intro: order_trans [OF add_dns_dropped])
  have d: "rc_dropped (add_dns ob s rc) = rc_dropped rc"
    using le [of "add_dns ob s rc"] add_dns_dropped [of rc ob s] Cons.prems(2) by simp
  have ok: "recorder_ok n (add_dns ob s rc)" using Cons.prems(1) by (rule add_dns_ok)
  have one: "bare_table (abs_dns (add_dns ob s rc) db) = bare_table (record_dns (ob, s) (abs_dns rc db))"
    "abs_arp (add_dns ob s rc) db = abs_arp rc db" "abs_events (add_dns ob s rc) db = abs_events rc db"
    using abs_add_dns [OF Cons.prems(1) d] Cons.prems(3) by simp_all
  show ?case
    using Cons.IH [OF ok] bare_records [OF one(1), of "map (\<lambda>ob. (ob, s)) obs"] one(2,3) Cons.prems(2,3) d by simp
qed simp

text \<open>What the pairs seen so far, oldest first, say of an address and of a device.\<close>

definition knows :: "recorder \<Rightarrow> (ustr \<times> ustr) list \<Rightarrow> bool" where
  "knows rc prior \<longleftrightarrow> rc_ip_mac rc = map_of (rev prior) \<and> rc_mac_last_ip rc = map_of (map prod.swap (rev prior))
     \<and> rc_mac_ips rc = (\<lambda>mac. if mac \<in> snd ` set prior then Some {ip. (ip, mac) \<in> set prior} else None)"

lemma knows_learn: "knows rc prior \<Longrightarrow> knows (learn_pair p rc) (prior @ [p])"
  by (cases p) (auto simp: knows_def learn_pair_def fun_eq_iff image_iff)

lemma knows_learn_all: "knows rc prior \<Longrightarrow> knows (fold learn_pair ps rc) (prior @ ps)"
proof (induction ps arbitrary: rc prior)
  case (Cons p ps)
  from Cons.IH [OF knows_learn [OF Cons.prems, of p]] show ?case by simp
qed simp

definition prior_ok :: "(ustr \<times> ustr) list option \<Rightarrow> recorder \<Rightarrow> (ustr \<times> ustr) list \<Rightarrow> bool" where
  "prior_ok known rc prior \<longleftrightarrow>
     (if rc_ready rc then knows rc prior else knows rc [] \<and> prior = (case known of None \<Rightarrow> [] | Some pairs \<Rightarrow> pairs))"

lemma knows_cong: "rc_ip_mac rc' = rc_ip_mac rc \<Longrightarrow> rc_mac_last_ip rc' = rc_mac_last_ip rc \<Longrightarrow> rc_mac_ips rc' = rc_mac_ips rc \<Longrightarrow>
    knows rc' prior = knows rc prior"
  by (simp add: knows_def)

lemma knows_load: "prior_ok known rc prior \<Longrightarrow> knows (load_arp_state known rc) prior"
proof (cases "rc_ready rc")
  case False
  assume p: "prior_ok known rc prior"
  then have "knows (rc\<lparr>rc_ready := True\<rparr>) []" using False by (simp add: prior_ok_def knows_def)
  from knows_learn_all [OF this] show ?thesis using p False
    by (auto simp: prior_ok_def load_arp_state_def knows_def split: option.splits)
qed (simp add: prior_ok_def load_arp_state_def)

text \<open>The reference for the events of a claim.\<close>

definition claim_events :: "(ustr \<times> ustr) list \<Rightarrow> arp_sighting \<Rightarrow> ustr \<Rightarrow> arp_event list" where
  "claim_events prior ob s =
     (if ao_mac ob \<notin> snd ` set prior then [arp_event_of New_device ob s [] [] (U ''first seen claiming '' @ ao_ip ob)]
      else if (ao_ip ob, ao_mac ob) \<notin> set prior
      then [arp_event_of Mac_new_ip ob s (the (map_of (map prod.swap (rev prior)) (ao_mac ob))) [] (ao_mac ob @ U '' now also uses '' @ ao_ip ob)]
      else [])
     @ (case map_of (rev prior) (ao_ip ob) of
          None \<Rightarrow> []
        | Some previous \<Rightarrow>
            if previous \<noteq> [] \<and> previous \<noteq> ao_mac ob
            then [arp_event_of Ip_mac_changed ob s [] previous (ao_ip ob @ U '' moved from '' @ previous @ U '' to '' @ ao_mac ob)]
            else [])"

fun history_events :: "(ustr \<times> ustr) list \<Rightarrow> (arp_sighting \<times> ustr) list \<Rightarrow> arp_event list" where
  "history_events prior [] = []"
| "history_events prior ((ob, s) # claims) = claim_events prior ob s @ history_events (prior @ [(ao_ip ob, ao_mac ob)]) claims"

lemma change_events_claim: "knows rc prior \<Longrightarrow> change_events ob s rc = claim_events prior ob s"
proof -
  assume k: "knows rc prior"
  have "\<exists>ip. map_of (map prod.swap (rev prior)) (ao_mac ob) = Some ip" if "(a, ao_mac ob) \<in> set prior" for a
  proof -
    have "ao_mac ob \<in> fst ` set (map prod.swap (rev prior))" using that by (force simp: image_iff)
    then show ?thesis by (metis map_of_eq_None_iff not_Some_eq)
  qed
  then show ?thesis using k by (fastforce simp: change_events_def claim_events_def knows_def split: option.split)
qed

definition no_mismatch :: "arp_event \<Rightarrow> bool" where "no_mismatch ev \<longleftrightarrow> ev_kind ev \<noteq> Mac_mismatch"

lemma change_kind: "filter no_mismatch (map insert_arp_event (claim_events prior ob s)) = map insert_arp_event (claim_events prior ob s)"
  by (simp add: claim_events_def no_mismatch_def insert_arp_event_def arp_event_of_def split: option.split)

lemma add_event_dropped: "rc_dropped rc \<le> rc_dropped (add_event ev rc)"
  by (simp add: add_event_def)

lemma add_events_dropped: "rc_dropped rc \<le> rc_dropped (fold add_event evs rc)"
  by (induction evs arbitrary: rc) (auto intro: order_trans [OF add_event_dropped])

lemma add_events_all:
  "rc_dropped (fold add_event evs rc) = rc_dropped rc \<Longrightarrow> pr_events (rc_rows (fold add_event evs rc)) = pr_events (rc_rows rc) @ evs"
proof (induction evs arbitrary: rc)
  case (Cons ev evs)
  have d: "rc_dropped (add_event ev rc) = rc_dropped rc"
    using Cons.prems add_events_dropped [of "add_event ev rc" evs] add_event_dropped [of rc ev] by simp
  then have e: "pr_events (rc_rows (add_event ev rc)) = pr_events (rc_rows rc) @ [ev]" by (auto simp: add_event_def split: if_splits)
  show ?case using Cons.IH [of "add_event ev rc"] Cons.prems d e by simp
qed simp

lemma mismatch_dropped: "rc_dropped rc \<le> rc_dropped (mismatch_step ob s now rc)"
  by (simp add: mismatch_step_def Let_def add_event_def)

lemma mismatch_events:
  "filter no_mismatch (map insert_arp_event (pr_events (rc_rows (mismatch_step ob s now rc))))
     = filter no_mismatch (map insert_arp_event (pr_events (rc_rows rc)))"
  by (simp add: mismatch_step_def Let_def add_event_def no_mismatch_def insert_arp_event_def arp_event_of_def)

lemma abs_arp_counted:
  assumes ok: "recorder_ok n rc" and k: "knows rc prior" and drop: "rc_dropped (arp_counted ob s now rc row) = rc_dropped rc"
    and row: "row = (case map_of (pr_arp (rc_rows rc)) (ao_ip ob, ao_mac ob) of None \<Rightarrow> new_arp_row ob s | Some r \<Rightarrow> r)"
  shows "abs_dns (arp_counted ob s now rc row) db = abs_dns rc db"
    "abs_arp (arp_counted ob s now rc row) db = record_arp (ob, s) (abs_arp rc db)"
    "filter no_mismatch (abs_events (arp_counted ob s now rc row) db)
       = filter no_mismatch (abs_events rc db) @ map insert_arp_event (claim_events prior ob s)"
    "knows (arp_counted ob s now rc row) (prior @ [(ao_ip ob, ao_mac ob)])"
proof -
  let ?key = "(ao_ip ob, ao_mac ob)"
  let ?x = "rc\<lparr>rc_rows := (rc_rows rc)\<lparr>pr_arp := AList.update ?key (count_arp ob s row) (pr_arp (rc_rows rc))\<rparr>\<rparr>"
  let ?y = "fold add_event (change_events ob s rc) ?x"
  have b: "backlog (arp_counted ob s now rc row) = backlog rc" by (simp add: backlog_def arp_counted_def split: option.split)
  show "abs_dns (arp_counted ob s now rc row) db = abs_dns rc db" unfolding abs_dns_def b by (simp add: arp_counted_def)
  have rows: "pr_arp (rc_rows (arp_counted ob s now rc row)) = AList.update ?key
      (count_arp ob s (case map_of (pr_arp (rc_rows rc)) ?key of None \<Rightarrow> new_arp_row ob s | Some r \<Rightarrow> r)) (pr_arp (rc_rows rc))"
    unfolding row by (simp add: arp_counted_def)
  have "distinct (map fst (pr_arp (rc_rows rc)))" using ok by (simp add: recorder_ok_def)
  then have "map_option id (abs_arp (arp_counted ob s now rc row) db k) = map_option id (record_arp (ob, s) (abs_arp rc db) k)" for k
    unfolding abs_arp_def b rows record_arp_def fst_conv snd_conv single_arp_def
    by (rule fold_merge_update) (subst merge_count_arp, simp add: single_arp_def)
  then show "abs_arp (arp_counted ob s now rc row) db = record_arp (ob, s) (abs_arp rc db)" by (simp add: option.map_id fun_eq_iff)
  have d: "rc_dropped ?y = rc_dropped ?x" 
    using drop add_events_dropped [of ?x "change_events ob s rc"] mismatch_dropped [of ?y ob s now] by (simp add: arp_counted_def)
  have "filter no_mismatch (map insert_arp_event (pr_events (rc_rows (arp_counted ob s now rc row))))
      = filter no_mismatch (map insert_arp_event (pr_events (rc_rows rc) @ change_events ob s rc))"
    using add_events_all [OF d] by (simp add: arp_counted_def mismatch_events)
  then show "filter no_mismatch (abs_events (arp_counted ob s now rc row) db)
       = filter no_mismatch (abs_events rc db) @ map insert_arp_event (claim_events prior ob s)"
    unfolding abs_events_def b change_events_claim [OF k] by (simp add: change_kind)
  have "knows (mismatch_step ob s now ?y) prior" using k by (simp add: knows_def)
  then show "knows (arp_counted ob s now rc row) (prior @ [?key])" unfolding arp_counted_def by (rule knows_learn)
qed

lemma abs_load [simp]: "abs_dns (load_arp_state known rc) db = abs_dns rc db" "abs_arp (load_arp_state known rc) db = abs_arp rc db"
  "abs_events (load_arp_state known rc) db = abs_events rc db"
  by (simp_all add: abs_dns_def abs_arp_def abs_events_def backlog_def split: option.split)

lemma abs_add_arp:
  assumes "recorder_ok n rc" "prior_ok known rc prior" "rc_dropped (add_arp known ob s now rc) = rc_dropped rc"
  shows "abs_dns (add_arp known ob s now rc) db = abs_dns rc db"
    "abs_arp (add_arp known ob s now rc) db = record_arp (ob, s) (abs_arp rc db)"
    "filter no_mismatch (abs_events (add_arp known ob s now rc) db)
       = filter no_mismatch (abs_events rc db) @ map insert_arp_event (claim_events prior ob s)"
    "prior_ok known (add_arp known ob s now rc) (prior @ [(ao_ip ob, ao_mac ob)])"
proof -
  let ?rc = "load_arp_state known rc"
  have ok: "recorder_ok n ?rc" using assms(1) by (simp add: recorder_ok_def)
  define row where "row = (case map_of (pr_arp (rc_rows ?rc)) (ao_ip ob, ao_mac ob) of None \<Rightarrow> new_arp_row ob s | Some r \<Rightarrow> r)"
  have eq: "add_arp known ob s now rc = arp_counted ob s now ?rc row"
    using assms(3) by (auto simp: add_arp_cases row_def Let_def split: option.splits if_splits)
  have d: "rc_dropped (arp_counted ob s now ?rc row) = rc_dropped ?rc" using assms(3) eq by simp
  note * = abs_arp_counted [OF ok knows_load [OF assms(2)] d row_def]
  have "rc_ready (arp_counted ob s now ?rc row)" by (simp add: arp_counted_def)
  then show "abs_dns (add_arp known ob s now rc) db = abs_dns rc db"
    "abs_arp (add_arp known ob s now rc) db = record_arp (ob, s) (abs_arp rc db)"
    "filter no_mismatch (abs_events (add_arp known ob s now rc) db)
       = filter no_mismatch (abs_events rc db) @ map insert_arp_event (claim_events prior ob s)"
    "prior_ok known (add_arp known ob s now rc) (prior @ [(ao_ip ob, ao_mac ob)])"
    using * unfolding eq by (simp_all add: prior_ok_def)
qed

lemma add_arp_dropped: "rc_dropped rc \<le> rc_dropped (add_arp known ob s now rc)"
proof -
  have "rc_dropped r \<le> rc_dropped (arp_counted ob s now r row)" for r row
  proof -
    let ?x = "r\<lparr>rc_rows := (rc_rows r)\<lparr>pr_arp := AList.update (ao_ip ob, ao_mac ob) (count_arp ob s row) (pr_arp (rc_rows r))\<rparr>\<rparr>"
    have "rc_dropped r \<le> rc_dropped (fold add_event (change_events ob s r) ?x)"
      using add_events_dropped [of ?x "change_events ob s r"] by simp
    also have "\<dots> \<le> rc_dropped (mismatch_step ob s now (fold add_event (change_events ob s r) ?x))" by (rule mismatch_dropped)
    finally show ?thesis by (simp add: arp_counted_def)
  qed
  from this [of "load_arp_state known rc"] show ?thesis by (auto simp: add_arp_cases Let_def split: option.split)
qed

text \<open>What a step hands over.\<close>

definition dns_of :: "history_op \<Rightarrow> (dns_observation \<times> ustr) list" where
  "dns_of op = (case op of Observe obs arp s now \<Rightarrow> map (\<lambda>ob. (ob, s)) obs | _ \<Rightarrow> [])"

definition arp_of :: "history_op \<Rightarrow> (arp_sighting \<times> ustr) list" where
  "arp_of op = (case op of Observe obs (Some ob) s now \<Rightarrow> [(ob, s)] | _ \<Rightarrow> [])"

lemma dns_dropped: "rc_dropped rc \<le> rc_dropped (fold (\<lambda>ob. add_dns ob s) obs rc)"
  by (induction obs arbitrary: rc) (auto intro: order_trans [OF add_dns_dropped])

lemma observe_dropped: "rc_dropped rc \<le> rc_dropped (observe_rows known obs arp s now rc)"
  using dns_dropped [of rc s obs] add_arp_dropped
  by (auto simp: observe_rows_def Let_def split: option.split intro: order_trans)

lemma step_dropped: "history_step known op (rc, db) = (rc', db') \<Longrightarrow> rc_dropped rc \<le> rc_dropped rc'"
  using observe_dropped [of rc known]
  by (auto simp: history_step_def flush_take_def flush_failed_def Let_def split: history_op.splits option.splits if_splits)

lemma prior_add_dns: "prior_ok known (fold (\<lambda>ob. add_dns ob s) obs rc) prior = prior_ok known rc prior"
  by (induction obs arbitrary: rc) (simp_all add: prior_ok_def knows_def)

definition refines_step ::
  "(ustr \<times> ustr) list option \<Rightarrow> (ustr \<times> ustr) list \<Rightarrow> (dns_observation \<times> ustr) list \<Rightarrow> (arp_sighting \<times> ustr) list
    \<Rightarrow> recorder \<times> history_db \<Rightarrow> recorder \<times> history_db \<Rightarrow> bool" where
  "refines_step known prior dns arp st st' \<longleftrightarrow> (case st of (rc, db) \<Rightarrow> case st' of (rc', db') \<Rightarrow>
     bare_table (abs_dns rc' db') = bare_table (fold record_dns dns (abs_dns rc db))
     \<and> abs_arp rc' db' = fold record_arp arp (abs_arp rc db)
     \<and> filter no_mismatch (abs_events rc' db') = filter no_mismatch (abs_events rc db) @ map insert_arp_event (history_events prior arp)
     \<and> prior_ok known rc' (prior @ map (\<lambda>(ob, s). (ao_ip ob, ao_mac ob)) arp))"

lemma refines_observe:
  assumes "recorder_ok n rc" "prior_ok known rc prior" "rc_dropped (observe_rows known obs arp s now rc) = rc_dropped rc"
    "list_all (\<lambda>ob. do_rcode ob \<noteq> []) obs"
  shows "refines_step known prior (map (\<lambda>ob. (ob, s)) obs) (case arp of None \<Rightarrow> [] | Some ob \<Rightarrow> [(ob, s)]) (rc, db)
    (observe_rows known obs arp s now rc, db)"
proof -
  let ?rc = "fold (\<lambda>ob. add_dns ob s) obs rc"
  have ok: "recorder_ok n ?rc" using assms(1) by (induction obs arbitrary: rc) (simp_all add: add_dns_ok)
  have d1: "rc_dropped ?rc = rc_dropped rc"
    using assms(3) dns_dropped [of rc s obs] add_arp_dropped [where rc = ?rc and known = known and s = s and now = now]
    by (auto simp: observe_rows_def Let_def split: option.splits) (metis le_antisym)
  have p: "prior_ok known ?rc prior" using assms(2) by (simp add: prior_add_dns)
  note a = abs_add_all_dns [OF assms(1) d1 assms(4), of db]
  show ?thesis
  proof (cases arp)
    case None
    then show ?thesis using a p by (simp add: refines_step_def observe_rows_def Let_def)
  next
    case (Some ob)
    have d2: "rc_dropped (add_arp known ob s now ?rc) = rc_dropped ?rc"
      using assms(3) d1 Some by (simp add: observe_rows_def Let_def)
    show ?thesis using a abs_add_arp(1-3) [OF ok p d2, of db] abs_add_arp(4) [OF ok p d2] Some by (simp add: refines_step_def observe_rows_def Let_def)
  qed
qed

lemma last_n_all: "length xs \<le> n \<Longrightarrow> last_n n xs = xs"
  by (simp add: last_n_def)

lemma abs_flush_take:
  assumes "rc_writing rc = None"
  shows "abs_dns (flush_take rc) db = abs_dns rc db" "abs_arp (flush_take rc) db = abs_arp rc db"
    "abs_events (flush_take rc) db = abs_events rc db"
proof -
  have "backlog (flush_take rc) = \<lparr>pr_dns = pr_dns (rc_retry rc) @ pr_dns (rc_rows rc), pr_arp = pr_arp (rc_retry rc) @ pr_arp (rc_rows rc),
      pr_events = pr_events (rc_retry rc) @ pr_events (rc_rows rc)\<rparr>" "rc_rows (flush_take rc) = no_rows" "backlog rc = rc_retry rc"
    using assms by (simp_all add: backlog_def flush_take_def Let_def)
  then show "abs_dns (flush_take rc) db = abs_dns rc db" "abs_arp (flush_take rc) db = abs_arp rc db"
    "abs_events (flush_take rc) db = abs_events rc db"
    by (simp_all add: abs_dns_def abs_arp_def abs_events_def no_rows_def)
qed

lemma abs_written:
  assumes "rc_writing rc = Some w" "rc_retry rc = no_rows"
  shows "abs_dns (rc\<lparr>rc_writing := None\<rparr>) (write_history w db) = abs_dns rc db"
    "abs_arp (rc\<lparr>rc_writing := None\<rparr>) (write_history w db) = abs_arp rc db"
    "abs_events (rc\<lparr>rc_writing := None\<rparr>) (write_history w db) = abs_events rc db"
  using assms by (simp_all add: abs_dns_def abs_arp_def abs_events_def backlog_def write_history_def no_rows_def)

lemma refines_history_step:
  assumes ok: "recorder_ok n rc" and b: "backlog_ok n f rc" and p: "prior_ok known rc prior"
    and step: "history_step known op (rc, db) = (rc', db')" and d: "rc_dropped rc' = rc_dropped rc"
    and f: "count_failure rc op f \<le> 4" and r: "list_all (\<lambda>e. do_rcode (fst e) \<noteq> []) (dns_of op)"
  shows "refines_step known prior (dns_of op) (arp_of op) (rc, db) (rc', db')"
proof (cases op)
  case (Observe obs arp s now)
  have "list_all (\<lambda>ob. do_rcode ob \<noteq> []) obs" using r Observe by (simp add: dns_of_def list_all_iff)
  moreover have "rc' = observe_rows known obs arp s now rc" "db' = db" using step Observe by (simp_all add: history_step_def)
  ultimately show ?thesis using refines_observe [OF ok p, of obs arp s now db] d Observe
    by (auto simp: dns_of_def arp_of_def split: option.splits)
next
  case Flush
  have "prior_ok known (flush_take rc) prior" using p by (auto simp: prior_ok_def flush_take_def Let_def knows_def split: if_splits)
  then show ?thesis using Flush step p abs_flush_take [of rc db]
    by (cases "rc_writing rc") (simp_all add: history_step_def refines_step_def dns_of_def arp_of_def)
next
  case Written
  show ?thesis
  proof (cases "rc_writing rc")
    case None
    then show ?thesis using Written step p by (simp add: history_step_def refines_step_def dns_of_def arp_of_def)
  next
    case (Some w)
    then have retry: "rc_retry rc = no_rows" using b by (simp add: backlog_ok_def)
    have "prior_ok known (rc\<lparr>rc_writing := None\<rparr>) prior" using p by (auto simp: prior_ok_def knows_def split: if_splits)
    then show ?thesis using Written step abs_written [OF Some retry, of db] Some
      by (simp add: history_step_def refines_step_def dns_of_def arp_of_def)
  qed
next
  case Write_failed
  show ?thesis
  proof (cases "rc_writing rc")
    case None
    then show ?thesis using Write_failed step p
      by (simp add: history_step_def flush_failed_def refines_step_def dns_of_def arp_of_def)
  next
    case (Some w)
    have "rows_within (n * 4) w" using b f Some Write_failed
      by (auto simp: backlog_ok_def count_failure_def rows_within_def min_def intro: order_trans)
    then have "rc' = rc\<lparr>rc_retry := w, rc_writing := None, rc_write_errors := rc_write_errors rc + 1\<rparr>" "db' = db"
      using step Write_failed Some ok
      by (auto simp: history_step_def flush_failed_def Let_def rows_within_def last_n_all recorder_ok_def)
    then show ?thesis using Write_failed Some p
      by (auto simp: refines_step_def dns_of_def arp_of_def abs_dns_def abs_arp_def abs_events_def backlog_def prior_ok_def knows_def
          split: if_splits)
  qed
qed

lemma history_events_append:
  "history_events prior (xs @ ys) = history_events prior xs @ history_events (prior @ map (\<lambda>(ob, s). (ao_ip ob, ao_mac ob)) xs) ys"
  by (induction prior xs rule: history_events.induct) simp_all

lemma refines_trans:
  assumes "refines_step known prior d1 a1 st st1"
    and "refines_step known (prior @ map (\<lambda>(ob, s). (ao_ip ob, ao_mac ob)) a1) d2 a2 st1 st2"
  shows "refines_step known prior (d1 @ d2) (a1 @ a2) st st2"
proof -
  obtain rc db rc1 db1 rc2 db2 where st: "st = (rc, db)" "st1 = (rc1, db1)" "st2 = (rc2, db2)" by (metis surj_pair)
  have "bare_table (abs_dns rc2 db2) = bare_table (fold record_dns d2 (fold record_dns d1 (abs_dns rc db)))"
    using assms bare_records [of "abs_dns rc1 db1" "fold record_dns d1 (abs_dns rc db)" d2] by (simp add: refines_step_def st)
  then show ?thesis using assms by (simp add: refines_step_def st history_events_append)
qed

lemma run_dropped: "rc_dropped (fst st) \<le> rc_dropped (fst (fold (history_step known) ops st))"
proof (induction ops arbitrary: st)
  case (Cons op ops)
  obtain rc db rc' db' where "st = (rc, db)" "history_step known op (rc, db) = (rc', db')" by (metis surj_pair)
  then show ?case using Cons.IH [of "(rc', db')"] step_dropped [of known op rc db rc' db'] by simp
qed simp

lemma refines_run:
  assumes "recorder_ok n (fst st)" "backlog_ok n f (fst st)" "prior_ok known (fst st) prior"
    and "rc_dropped (fst (fold (history_step known) ops st)) = rc_dropped (fst st)"
    and "list_all (\<lambda>f. f \<le> 4) (failure_counts known ops st f)" "list_all (\<lambda>e. do_rcode (fst e) \<noteq> []) (concat (map dns_of ops))"
  shows "refines_step known prior (concat (map dns_of ops)) (concat (map arp_of ops)) st (fold (history_step known) ops st)"
  using assms
proof (induction ops arbitrary: st f prior)
  case Nil
  then show ?case by (cases st) (simp add: refines_step_def)
next
  case (Cons op ops)
  obtain rc db rc' db' where st: "st = (rc, db)" "history_step known op (rc, db) = (rc', db')" by (metis surj_pair)
  have mono: "rc_dropped rc \<le> rc_dropped rc'" "rc_dropped rc' \<le> rc_dropped (fst (fold (history_step known) ops (rc', db')))"
    using step_dropped [OF st(2)] run_dropped [of "(rc', db')" known ops] by simp_all
  have d: "rc_dropped rc' = rc_dropped rc" "rc_dropped (fst (fold (history_step known) ops (rc', db'))) = rc_dropped rc'"
    using Cons.prems(4) mono st by simp_all
  have mem: "recorder_ok n rc'" "backlog_ok n (count_failure rc op f) rc'"
    using step_memory [OF _ _ st(2)] Cons.prems(1,2) st(1) by auto
  have one: "refines_step known prior (dns_of op) (arp_of op) (rc, db) (rc', db')"
    using refines_history_step [OF _ _ _ st(2) d(1)] Cons.prems st by (auto simp: Let_def)
  then have p: "prior_ok known rc' (prior @ map (\<lambda>(ob, s). (ao_ip ob, ao_mac ob)) (arp_of op))"
    by (simp add: refines_step_def)
  show ?case
    using refines_trans [OF one Cons.IH [of "(rc', db')" "count_failure rc op f"]] mem p d(2) Cons.prems(5,6) st
    by (simp add: Let_def)
qed

lemma new_ok: "recorder_ok n (new_recorder n)" "backlog_ok n 0 (new_recorder n)"
  "prior_ok known (new_recorder n) (case known of None \<Rightarrow> [] | Some pairs \<Rightarrow> pairs)"
  by (simp_all add: new_recorder_def recorder_ok_def backlog_ok_def prior_ok_def knows_def no_rows_def rows_within_def fun_eq_iff)

section \<open>Properties\<close>

text \<open>
  C23. Aggregating and deferring the history changes nothing of it. Unless the recorder counted something as
  dropped or five writes in a row failed, the tables, with what still waits in memory, hold what they would hold if every DNS and ARP
  observation had been written on its own and at once (up to the bounded lists of peers), and the ARP events are exactly
  those the pairs seen so far call for: a device never seen, a known device with a new address, an address that moved.
\<close>

theorem history_refines:
  assumes "history_run known n db ops = (rc, db')" and "rc_dropped rc = 0"
    and "list_all (\<lambda>f. f \<le> 4) (failure_counts known ops (new_recorder n, db) 0)"
    and "list_all (\<lambda>e. do_rcode (fst e) \<noteq> []) (concat (map dns_of ops))"
  shows "bare_table (abs_dns rc db') = bare_table (fold record_dns (concat (map dns_of ops)) (db_dns db))
    \<and> abs_arp rc db' = fold record_arp (concat (map arp_of ops)) (db_arp db)
    \<and> filter no_mismatch (abs_events rc db') = filter no_mismatch (db_events db)
        @ map insert_arp_event (history_events (case known of None \<Rightarrow> [] | Some pairs \<Rightarrow> pairs) (concat (map arp_of ops)))
    \<and> (if rc_rows rc = no_rows \<and> backlog rc = no_rows
       then abs_dns rc db' = db_dns db' \<and> abs_arp rc db' = db_arp db' \<and> abs_events rc db' = db_events db' else True)"
proof -
  have run: "fold (history_step known) ops (new_recorder n, db) = (rc, db')" using assms(1) by (simp add: history_run_def)
  have start: "abs_dns (new_recorder n) db = db_dns db" "abs_arp (new_recorder n) db = db_arp db" "abs_events (new_recorder n) db = db_events db"
    by (simp_all add: abs_dns_def abs_arp_def abs_events_def backlog_def new_recorder_def no_rows_def)
  have "refines_step known (case known of None \<Rightarrow> [] | Some pairs \<Rightarrow> pairs) (concat (map dns_of ops)) (concat (map arp_of ops))
      (new_recorder n, db) (rc, db')"
    using refines_run [of n "(new_recorder n, db)" 0 known "case known of None \<Rightarrow> [] | Some pairs \<Rightarrow> pairs" ops] assms(2-4) new_ok run
    by (simp add: new_recorder_def)
  moreover have "abs_dns rc db' = db_dns db' \<and> abs_arp rc db' = db_arp db' \<and> abs_events rc db' = db_events db'"
    if "rc_rows rc = no_rows" "backlog rc = no_rows"
    by (simp add: abs_dns_def abs_arp_def abs_events_def that) (simp add: no_rows_def)
  ultimately show ?thesis by (auto simp only: refines_step_def start prod.case if_True if_False split: if_splits)
qed

text \<open>
  The memory of the recorder is bounded in every run, whatever the network says and however long the database is
  away: at most the limit of rows and events of each kind is pending, four times the limit waits to be retried, five times
  is in a write, and the table of mismatches stays within the limit.
\<close>

theorem history_bounded:
  "case history_run known n db ops of (rc, db') \<Rightarrow>
     rows_within n (rc_rows rc) \<and> rows_within (4 * n) (rc_retry rc) \<and> length (rc_mismatch_at rc) \<le> n
     \<and> (case rc_writing rc of None \<Rightarrow> True | Some w \<Rightarrow> rows_within (5 * n) w)"
proof -
  have "\<exists>f. recorder_ok n (fst (fold (history_step known) ops st)) \<and> backlog_ok n f (fst (fold (history_step known) ops st))"
    if "recorder_ok n (fst st)" "backlog_ok n f (fst st)" for st f
    using that
  proof (induction ops arbitrary: st f)
    case (Cons op ops)
    obtain rc db rc' db' where st: "st = (rc, db)" "history_step known op (rc, db) = (rc', db')" by (metis surj_pair)
    show ?case using Cons.IH [of "(rc', db')"] step_memory [OF _ _ st(2)] Cons.prems st by auto
  qed auto
  from this [of "(new_recorder n, db)" 0] new_ok obtain f where
    "recorder_ok n (fst (history_run known n db ops))" "backlog_ok n f (fst (history_run known n db ops))"
    by (auto simp: history_run_def)
  moreover have "rows_within (min f 4 * n) w \<Longrightarrow> rows_within (4 * n) w" "rows_within ((min f 4 + 1) * n) w \<Longrightarrow> rows_within (5 * n) w" for w
    by (rule rows_within_mono, assumption, rule mult_le_mono1, simp)+
  moreover have "rows_within (4 * n) no_rows" by (simp add: rows_within_def no_rows_def)
  ultimately show ?thesis
    by (auto simp: recorder_ok_def backlog_ok_def split: prod.split option.splits)
qed

section \<open>Witness\<close>

definition sample_dns :: dns_observation where
  "sample_dns = \<lparr>do_domain = U ''a.io'', do_type = U ''A'', do_answer = [], do_response = False, do_rcode = U ''NOERROR'', do_ttl = None,
     do_source = U ''dns'', do_transport = U ''udp'', do_client = U ''10.0.0.2'', do_resolver = U ''10.0.0.1''\<rparr>"

definition sample_arp :: "string \<Rightarrow> string \<Rightarrow> arp_sighting" where
  "sample_arp ip mac = \<lparr>ao_ip = U ip, ao_mac = U mac, ao_operation = U ''reply'', ao_interface = [], ao_gratuitous = False, ao_mismatch = []\<rparr>"

definition sample_ops :: "history_op list" where
  "sample_ops = [Observe [sample_dns] (Some (sample_arp ''10.0.0.9'' ''m1'')) (U ''t1'') 0, Flush, Write_failed,
     Observe [sample_dns] (Some (sample_arp ''10.0.0.9'' ''m2'')) (U ''t2'') 1, Flush, Written]"

definition empty_db :: history_db where "empty_db = \<lparr>db_dns = Map.empty, db_arp = Map.empty, db_events = []\<rparr>"

lemmas sample_defs = sample_ops_def sample_dns_def sample_arp_def empty_db_def new_recorder_def no_rows_def history_step_def observe_rows_def
  add_dns_def add_arp_cases arp_counted_def load_arp_state_def change_events_def mismatch_step_def add_event_def learn_pair_def
  flush_take_def flush_failed_def last_n_def dns_key_of_def arp_event_of_def count_failure_def Let_def

theorem history_refines_witness:
  "map ev_kind (filter no_mismatch (db_events (snd (history_run None 5 empty_db sample_ops)))) = [New_device, New_device, Ip_mac_changed]"
proof -
  obtain rc db' where run: "history_run None 5 empty_db sample_ops = (rc, db')" by (metis surj_pair)
  have final: "rc_dropped rc = 0 \<and> rc_rows rc = no_rows \<and> backlog rc = no_rows"
    using run by (auto simp: history_run_def sample_defs backlog_def)
  have f: "list_all (\<lambda>f. f \<le> 4) (failure_counts None sample_ops (new_recorder 5, empty_db) 0)"
    by (simp add: sample_defs)
  have r: "list_all (\<lambda>e. do_rcode (fst e) \<noteq> []) (concat (map dns_of sample_ops))" by (simp add: sample_ops_def dns_of_def sample_dns_def)
  have "filter no_mismatch (db_events db')
      = map insert_arp_event (history_events [] [(sample_arp ''10.0.0.9'' ''m1'', U ''t1''), (sample_arp ''10.0.0.9'' ''m2'', U ''t2'')])"
    using history_refines [OF run _ f r] final by (auto simp: empty_db_def sample_ops_def arp_of_def)
  then show ?thesis using run
    by (simp add: claim_events_def arp_event_of_def sample_arp_def insert_arp_event_def U_eq_iff)
qed

end
