(* ===== verification/Mobile_Service.thy ===== *)
theory Mobile_Service
  imports Rule_Normalize Py_Text Event_Windows "HOL-Library.AList"
begin

text \<open>
  The mobile stream of \<^verbatim>\<open>mobile_stream.py\<close> (\<open>MobileStreamService\<close>): pairings, sessions, the fan-out of events to
  the phones, and the server state, with one operation per critical section of the lock. An operation reads the
  clock once, where the code may read it again a moment later in the same critical section; a reading of 0 counts as
  unset, as in the code. The random identifiers, tokens and codes are arguments, and so is the wall clock of the
  displayed times. A dictionary keyed by identifier is a map; the subscribers keep their order. The queue of a
  subscriber is looked up by its number, which outlives its place in the subscribers.
\<close>

section \<open>State\<close>

definition MOBILE_STREAM_DEFAULT_PORT :: int where "MOBILE_STREAM_DEFAULT_PORT = 45679"
definition PAIRING_APPROVAL_TTL_SECONDS :: time where "PAIRING_APPROVAL_TTL_SECONDS = 300"
definition PAIRING_TTL_SECONDS :: time where "PAIRING_TTL_SECONDS = 60"
definition STREAM_QUEUE_SIZE :: nat where "STREAM_QUEUE_SIZE = 200"
definition MAX_STREAM_EVENT_SECONDS :: time where "MAX_STREAM_EVENT_SECONDS = 24 * 60 * 60"
definition MOBILE_SESSION_IDLE_TTL_SECONDS :: time where "MOBILE_SESSION_IDLE_TTL_SECONDS = 24 * 60 * 60"
definition MOBILE_SESSION_ABSOLUTE_TTL_SECONDS :: time where "MOBILE_SESSION_ABSOLUTE_TTL_SECONDS = 30 * 24 * 60 * 60"
definition LOG_BACKLOG :: nat where "LOG_BACKLOG = 40"

record interface_address =
  ia_name :: ustr
  ia_address :: ustr
  ia_loopback :: bool

record mobile_pairing =
  mp_interface :: ustr
  mp_address :: ustr
  mp_port :: int
  mp_created :: time
  mp_expires :: time
  mp_code :: ustr
  mp_seen :: time
  mp_approved :: time
  mp_consumed :: time
  mp_failed :: time
  mp_client :: ustr
  mp_user_agent :: ustr
  mp_seen_utc :: ustr

record mobile_session =
  ms_interface :: ustr
  ms_address :: ustr
  ms_client :: ustr
  ms_user_agent :: ustr
  ms_created :: time
  ms_last_seen :: time
  ms_revoked :: time
  ms_event_count :: nat

record mobile_server =
  srv_interface :: ustr
  srv_address :: ustr
  srv_port :: int
  srv_running :: bool
  srv_url_base :: ustr

record mobile =
  mob_pairings :: "ustr \<rightharpoonup> mobile_pairing"
  mob_sessions :: "ustr \<rightharpoonup> mobile_session"
  mob_subscribers :: "(nat \<times> ustr) list"
  mob_queues :: "nat \<rightharpoonup> pydict list"
  mob_log_levels :: "(nat \<times> nat) list"
  mob_log_ring :: "pydict list"
  mob_log_stop :: bool
  mob_server :: mobile_server

definition idle_server :: mobile_server where
  "idle_server = \<lparr>srv_interface = [], srv_address = [], srv_port = MOBILE_STREAM_DEFAULT_PORT, srv_running = False, srv_url_base = []\<rparr>"

definition new_mobile :: mobile where
  "new_mobile =
     \<lparr>mob_pairings = Map.empty, mob_sessions = Map.empty, mob_subscribers = [], mob_queues = Map.empty,
      mob_log_levels = [], mob_log_ring = [], mob_log_stop = False, mob_server = idle_server\<rparr>"

text \<open>The entries of a dictionary that a sweep leaves.\<close>

definition sweep :: "('v \<Rightarrow> bool) \<Rightarrow> ('k \<rightharpoonup> 'v) \<Rightarrow> 'k \<rightharpoonup> 'v" where
  "sweep expired m = (\<lambda>k. case m k of None \<Rightarrow> None | Some v \<Rightarrow> if expired v then None else Some v)"

section \<open>Log levels and the fan-out\<close>

definition LOG_FEED_LEVELS :: "ustr list" where
  "LOG_FEED_LEVELS = [U ''DEBUG'', U ''INFO'', U ''WARNING'', U ''ERROR'']"

definition LOG_RANK :: "(ustr \<times> nat) list" where
  "LOG_RANK = [(U ''DEBUG'', 10), (U ''INFO'', 20), (U ''WARNING'', 30), (U ''ERROR'', 40), (U ''CRITICAL'', 50)]"

definition normalize_log_level :: "ustr option \<Rightarrow> ustr option" where
  "normalize_log_level value =
     (let name = upper (strip (case value of None \<Rightarrow> [] | Some v \<Rightarrow> v)) in
      if name \<in> set LOG_FEED_LEVELS then Some name else None)"

text \<open>The rank of a level; nothing but a string has the name of a level as its text.\<close>

definition log_rank :: "pyval \<Rightarrow> nat" where
  "log_rank level = (case level of
       PStr s \<Rightarrow> (case map_of LOG_RANK (upper s) of None \<Rightarrow> 0 | Some r \<Rightarrow> r)
     | _ \<Rightarrow> 0)"

definition is_log :: "pydict \<Rightarrow> bool" where
  "is_log event \<longleftrightarrow> get_or event ''type'' PNone = PStr (U ''log'')"

text \<open>\<open>put_nowait\<close>, and on a full queue \<open>get_nowait\<close> before it: the oldest event makes room.\<close>

definition queue_put :: "pydict \<Rightarrow> pydict list \<Rightarrow> pydict list" where
  "queue_put event q = (if length q < STREAM_QUEUE_SIZE then q @ [event] else drop 1 q @ [event])"

definition queue_of :: "mobile \<Rightarrow> nat \<Rightarrow> pydict list" where
  "queue_of s sid = (case mob_queues s sid of None \<Rightarrow> [] | Some q \<Rightarrow> q)"

text \<open>Which subscribers an event concerns, and which of them turn out dead.\<close>

definition concerns :: "mobile \<Rightarrow> pydict \<Rightarrow> ustr option \<Rightarrow> nat \<times> ustr \<Rightarrow> bool" where
  "concerns s event token sub \<longleftrightarrow>
     (case token of None \<Rightarrow> True | Some t \<Rightarrow> snd sub = t)
     \<and> (if is_log event
        then (case map_of (mob_log_levels s) (fst sub) of None \<Rightarrow> False | Some wanted \<Rightarrow> wanted \<le> log_rank (get_or event ''level'' PNone))
        else True)"

definition dead_subscriber :: "mobile \<Rightarrow> ustr option \<Rightarrow> nat \<times> ustr \<Rightarrow> bool" where
  "dead_subscriber s token sub =
     (case mob_sessions s (snd sub) of None \<Rightarrow> True | Some m \<Rightarrow> ms_revoked m \<noteq> 0 \<and> token = None)"

definition count_event_for :: "ustr \<Rightarrow> mobile \<Rightarrow> mobile" where
  "count_event_for token s = (case mob_sessions s token of
       None \<Rightarrow> s
     | Some m \<Rightarrow> s\<lparr>mob_sessions := (mob_sessions s)(token \<mapsto> m\<lparr>ms_event_count := ms_event_count m + 1\<rparr>)\<rparr>)"

definition deliver_event :: "pydict \<Rightarrow> nat \<times> ustr \<Rightarrow> mobile \<Rightarrow> mobile" where
  "deliver_event event sub s =
     count_event_for (snd sub) (s\<lparr>mob_queues := (mob_queues s)(fst sub \<mapsto> queue_put event (queue_of s (fst sub)))\<rparr>)"

definition notify_all :: "pydict \<Rightarrow> ustr option \<Rightarrow> mobile \<Rightarrow> mobile" where
  "notify_all event token s =
     (let concerned = filter (concerns s event token) (mob_subscribers s);
          dead = map fst (filter (dead_subscriber s token) concerned);
          s1 = fold (deliver_event event) (filter (\<lambda>sub. \<not> dead_subscriber s token sub) concerned) s in
      s1\<lparr>mob_subscribers := filter (\<lambda>sub. fst sub \<notin> set dead) (mob_subscribers s1)\<rparr>)"

definition revoked_event :: "ustr \<Rightarrow> pydict" where
  "revoked_event utc = [(U ''type'', PStr (U ''revoked'')), (U ''generated_at'', PStr utc)]"

section \<open>Sweeping\<close>

definition session_expired :: "time \<Rightarrow> mobile_session \<Rightarrow> bool" where
  "session_expired now m \<longleftrightarrow>
     ms_revoked m \<noteq> 0 \<or> now - ms_last_seen m > MOBILE_SESSION_IDLE_TTL_SECONDS
     \<or> now - ms_created m > MOBILE_SESSION_ABSOLUTE_TTL_SECONDS"

definition prune_sessions :: "time \<Rightarrow> mobile \<Rightarrow> mobile" where
  "prune_sessions now s = s\<lparr>mob_sessions := sweep (session_expired now) (mob_sessions s)\<rparr>"

definition pairing_expired :: "time \<Rightarrow> mobile_pairing \<Rightarrow> bool" where
  "pairing_expired now p \<longleftrightarrow> mp_expires p \<le> now \<or> mp_failed p \<noteq> 0"

definition prune :: "time \<Rightarrow> mobile \<Rightarrow> mobile" where
  "prune now s = prune_sessions now (s\<lparr>mob_pairings := sweep (pairing_expired now) (mob_pairings s)\<rparr>)"

section \<open>The server\<close>

definition server_stop :: "time \<Rightarrow> ustr \<Rightarrow> mobile \<Rightarrow> mobile" where
  "server_stop now utc s =
     (notify_all (revoked_event utc) None
       (s\<lparr>mob_server := idle_server, mob_pairings := Map.empty,
          mob_sessions := (\<lambda>t. map_option (\<lambda>m. m\<lparr>ms_revoked := now\<rparr>) (mob_sessions s t))\<rparr>))\<lparr>mob_log_stop := True\<rparr>"

definition server_listen :: "interface_address \<Rightarrow> int \<Rightarrow> mobile \<Rightarrow> mobile" where
  "server_listen sel port s =
     s\<lparr>mob_server := \<lparr>srv_interface = ia_name sel, srv_address = ia_address sel, srv_port = port, srv_running = True,
        srv_url_base = U ''https://'' @ ia_address sel @ 58 # dec_int port\<rparr>\<rparr>"

definition select_interface :: "interface_address list \<Rightarrow> ustr \<Rightarrow> pyexc + interface_address" where
  "select_interface interfaces interface =
     (let name = strip interface in
      if name = [] then Inl ValueError
      else case find (\<lambda>i. ia_name i = name) interfaces of
        None \<Rightarrow> Inl ValueError
      | Some sel \<Rightarrow> if ia_loopback sel then Inl ValueError else Inr sel)"

text \<open>\<open>can_listen\<close>: whether binding the address and starting to serve succeed. \<open>stop\<close> ends with a \<open>status\<close>.\<close>

definition server_start ::
    "interface_address list \<Rightarrow> bool \<Rightarrow> ustr \<Rightarrow> pyval \<Rightarrow> time \<Rightarrow> ustr \<Rightarrow> mobile \<Rightarrow> mobile \<times> (pyexc + unit)" where
  "server_start interfaces can_listen interface port now utc s =
     (case select_interface interfaces interface of
        Inl err \<Rightarrow> (s, Inl err)
      | Inr sel \<Rightarrow>
          let port = max 1 (min 65535 (safe_int port MOBILE_STREAM_DEFAULT_PORT)); srv = mob_server s in
          if srv_running srv \<and> srv_interface srv = ia_name sel \<and> srv_port srv = port then (prune now s, Inr ())
          else
            let s1 = prune now (server_stop now utc s) in
            if can_listen then (prune now (server_listen sel port s1), Inr ()) else (s1, Inl ValueError))"

section \<open>Pairing\<close>

definition new_pairing :: "mobile_server \<Rightarrow> time \<Rightarrow> mobile_pairing" where
  "new_pairing srv now =
     \<lparr>mp_interface = srv_interface srv, mp_address = srv_address srv, mp_port = srv_port srv,
      mp_created = now, mp_expires = now + PAIRING_APPROVAL_TTL_SECONDS, mp_code = [],
      mp_seen = 0, mp_approved = 0, mp_consumed = 0, mp_failed = 0, mp_client = [], mp_user_agent = [], mp_seen_utc = []\<rparr>"

text \<open>\<open>create_pairing\<close> after \<open>start\<close> has returned.\<close>

definition add_pairing :: "ustr \<Rightarrow> time \<Rightarrow> mobile \<Rightarrow> mobile" where
  "add_pairing pid now s = s\<lparr>mob_pairings := (mob_pairings s)(pid \<mapsto> new_pairing (mob_server s) now)\<rparr>"

definition set_pairing :: "ustr \<Rightarrow> mobile_pairing \<Rightarrow> mobile \<Rightarrow> mobile" where
  "set_pairing pid p s = s\<lparr>mob_pairings := (mob_pairings s)(pid \<mapsto> p)\<rparr>"

definition drop_pairing :: "ustr \<Rightarrow> mobile \<Rightarrow> mobile" where
  "drop_pairing pid s = s\<lparr>mob_pairings := (mob_pairings s)(pid := None)\<rparr>"

definition open_pairing :: "ustr \<Rightarrow> ustr \<Rightarrow> ustr \<Rightarrow> ustr \<Rightarrow> time \<Rightarrow> mobile \<Rightarrow> mobile \<times> mobile_pairing option" where
  "open_pairing pid client user_agent utc now s =
     (let s1 = prune now s in
      case mob_pairings s1 pid of
        None \<Rightarrow> (s1, None)
      | Some p \<Rightarrow>
          if mp_consumed p \<noteq> 0 \<or> mp_failed p \<noteq> 0 then (s1, None)
          else if mp_expires p \<le> now then (drop_pairing pid s1, None)
          else
            let p' = (if mp_approved p = 0 \<and> mp_seen p = 0
                      then p\<lparr>mp_seen := now, mp_seen_utc := utc, mp_client := client, mp_user_agent := take 180 user_agent\<rparr>
                      else p) in
            (set_pairing pid p' s1, Some p'))"

definition six_digits :: "nat \<Rightarrow> ustr" where
  "six_digits draw = (let t = dec (draw mod 1000000) in replicate (6 - length t) 48 @ t)"

datatype pairing_status = Pending | Awaiting_approval | Waiting_code | Paired | Closed | Expired

record pairing_view =
  pv_status :: pairing_status
  pv_code :: ustr
  pv_client :: ustr
  pv_user_agent :: ustr
  pv_seen_at :: ustr
  pv_expires_in :: int
  pv_url :: ustr

definition status_of_pairing :: "time \<Rightarrow> mobile_pairing \<Rightarrow> pairing_status" where
  "status_of_pairing now p =
     (if mp_expires p \<le> now then Expired
      else if mp_failed p \<noteq> 0 then Closed
      else if mp_consumed p \<noteq> 0 then Paired
      else if mp_approved p \<noteq> 0 then Waiting_code
      else if mp_seen p \<noteq> 0 then Awaiting_approval
      else Pending)"

definition pairing_view :: "ustr \<Rightarrow> time \<Rightarrow> mobile \<Rightarrow> mobile_pairing \<Rightarrow> pairing_view" where
  "pairing_view pid now s p =
     \<lparr>pv_status = status_of_pairing now p, pv_code = mp_code p, pv_client = mp_client p, pv_user_agent = mp_user_agent p,
      pv_seen_at = mp_seen_utc p, pv_expires_in = max 0 (trunc_rat (mp_expires p - now)),
      pv_url = srv_url_base (mob_server s) @ U ''/mobile/pair/'' @ pid\<rparr>"

definition view_pairing :: "ustr \<Rightarrow> time \<Rightarrow> mobile \<Rightarrow> mobile \<times> pairing_view option" where
  "view_pairing pid now s =
     (let s1 = prune now s in (s1, map_option (pairing_view pid now s1) (mob_pairings s1 pid)))"

definition approve_pairing :: "ustr \<Rightarrow> nat \<Rightarrow> time \<Rightarrow> mobile \<Rightarrow> mobile \<times> pairing_view option" where
  "approve_pairing pid draw now s =
     (let s1 = prune now s in
      case mob_pairings s1 pid of
        None \<Rightarrow> (s1, None)
      | Some p \<Rightarrow>
          if mp_consumed p \<noteq> 0 \<or> mp_failed p \<noteq> 0 then (s1, None)
          else if mp_expires p \<le> now then (drop_pairing pid s1, None)
          else if mp_seen p = 0 then (s1, None)
          else
            let p' = (if mp_approved p = 0
                      then p\<lparr>mp_approved := now, mp_code := six_digits draw, mp_expires := now + PAIRING_TTL_SECONDS\<rparr>
                      else p);
                s2 = set_pairing pid p' s1 in
            (s2, Some (pairing_view pid now s2 p')))"

definition new_session :: "mobile_pairing \<Rightarrow> ustr \<Rightarrow> ustr \<Rightarrow> time \<Rightarrow> mobile_session" where
  "new_session p client user_agent now =
     \<lparr>ms_interface = mp_interface p, ms_address = mp_address p, ms_client = client, ms_user_agent = take 180 user_agent,
      ms_created = now, ms_last_seen = now, ms_revoked = 0, ms_event_count = 0\<rparr>"

text \<open>The pairing that is consumed is removed in the same critical section.\<close>

definition verify_pairing :: "ustr \<Rightarrow> ustr \<Rightarrow> ustr \<Rightarrow> ustr \<Rightarrow> ustr \<Rightarrow> time \<Rightarrow> mobile \<Rightarrow> mobile \<times> ustr option" where
  "verify_pairing pid code client user_agent token now s =
     (case mob_pairings s pid of
        None \<Rightarrow> (s, None)
      | Some p \<Rightarrow>
          if mp_expires p \<le> now \<or> mp_consumed p \<noteq> 0 \<or> mp_failed p \<noteq> 0 then (s, None)
          else if mp_approved p = 0 \<or> mp_code p = [] then (s, None)
          else if mp_client p \<noteq> [] \<and> client \<noteq> mp_client p then (set_pairing pid (p\<lparr>mp_failed := now\<rparr>) s, None)
          else if strip code \<noteq> mp_code p then (set_pairing pid (p\<lparr>mp_failed := now\<rparr>) s, None)
          else
            (drop_pairing pid (s\<lparr>mob_sessions := (mob_sessions s)(token \<mapsto> new_session p client user_agent now)\<rparr>), Some token))"

section \<open>Sessions\<close>

definition revoke_session :: "ustr \<Rightarrow> ustr \<Rightarrow> time \<Rightarrow> mobile \<Rightarrow> mobile \<times> bool" where
  "revoke_session token utc now s =
     (case mob_sessions s token of
        None \<Rightarrow> (s, False)
      | Some m \<Rightarrow>
          (notify_all (revoked_event utc) (Some token)
             (s\<lparr>mob_sessions := (mob_sessions s)(token \<mapsto> m\<lparr>ms_revoked := now\<rparr>)\<rparr>), True))"

definition use_session :: "ustr \<Rightarrow> time \<Rightarrow> mobile \<Rightarrow> mobile \<times> mobile_session option" where
  "use_session token now s =
     (let s1 = prune_sessions now s in
      case mob_sessions s1 token of
        None \<Rightarrow> (s1, None)
      | Some m \<Rightarrow>
          if ms_revoked m \<noteq> 0 then (s1, None)
          else
            let m' = m\<lparr>ms_last_seen := now\<rparr> in
            (s1\<lparr>mob_sessions := (mob_sessions s1)(token \<mapsto> m')\<rparr>, Some m'))"

section \<open>The event stream of one phone\<close>

definition log_backlog :: "nat \<Rightarrow> mobile \<Rightarrow> pydict list" where
  "log_backlog rank s =
     (let matching = filter (\<lambda>event. rank \<le> log_rank (get_or event ''level'' PNone)) (mob_log_ring s) in
      drop (length matching - LOG_BACKLOG) matching)"

text \<open>Registering: the queue gets a number no open stream has. \<open>recent\<close> is the ring a follower starts with.\<close>

definition stream_open :: "nat \<Rightarrow> ustr \<Rightarrow> ustr option \<Rightarrow> bool \<Rightarrow> pydict list \<Rightarrow> time \<Rightarrow> mobile \<Rightarrow> mobile \<times> pydict list option" where
  "stream_open sid token level following recent now s =
     (case use_session token now s of
        (s1, None) \<Rightarrow> (s1, None)
      | (s1, Some m) \<Rightarrow>
          let s2 = s1\<lparr>mob_subscribers := AList.update sid token (mob_subscribers s1),
                      mob_queues := (mob_queues s1)(sid \<mapsto> [])\<rparr> in
          (case level of
             None \<Rightarrow> (s2, Some [])
           | Some name \<Rightarrow>
               let rank = log_rank (PStr name);
                   s3 = s2\<lparr>mob_log_levels := AList.update sid rank (mob_log_levels s2)\<rparr>;
                   s4 = (if following \<and> \<not> mob_log_stop s3 then s3 else s3\<lparr>mob_log_stop := False, mob_log_ring := recent\<rparr>) in
               (s4, Some (log_backlog rank s4))))"

text \<open>
  One turn of the loop of \<open>event_stream\<close> before it waits for an event: the stream ends after a day, or with a notice
  when its session is no longer good.
\<close>

datatype stream_turn = Goes_on | Cut_off | Timed_over

definition stream_check :: "ustr \<Rightarrow> time \<Rightarrow> time \<Rightarrow> mobile \<Rightarrow> mobile \<times> stream_turn" where
  "stream_check token started now s =
     (if now - started < MAX_STREAM_EVENT_SECONDS
      then (case use_session token now s of (s1, None) \<Rightarrow> (s1, Cut_off) | (s1, Some m) \<Rightarrow> (s1, Goes_on))
      else (s, Timed_over))"

lemma revoked_cut_off:
  assumes "mob_sessions s token = Some m" "ms_revoked m \<noteq> 0"
  shows "snd (stream_check token started now s) \<noteq> Goes_on"
  using assms by (simp add: stream_check_def use_session_def prune_sessions_def sweep_def session_expired_def)

text \<open>Taking the next event; \<open>None\<close> is the timeout that makes the keep-alive comment.\<close>

definition stream_get :: "nat \<Rightarrow> mobile \<Rightarrow> mobile \<times> pydict option" where
  "stream_get sid s = (case queue_of s sid of
       [] \<Rightarrow> (s, None)
     | event # q \<Rightarrow> (s\<lparr>mob_queues := (mob_queues s)(sid \<mapsto> q)\<rparr>, Some event))"

definition stream_close :: "nat \<Rightarrow> mobile \<Rightarrow> mobile" where
  "stream_close sid s =
     (let levels = AList.delete sid (mob_log_levels s) in
      s\<lparr>mob_subscribers := AList.delete sid (mob_subscribers s), mob_queues := (mob_queues s)(sid := None), mob_log_levels := levels,
        mob_log_stop := mob_log_stop s \<or> levels = []\<rparr>)"

text \<open>\<open>_poll_logs_locked\<close>, given the new lines in the order of their times; the ring keeps the last 1500.\<close>

definition LOG_RING_SIZE :: nat where "LOG_RING_SIZE = 1500"

definition log_line :: "pydict \<Rightarrow> mobile \<Rightarrow> mobile" where
  "log_line event s =
     (let ring = mob_log_ring s @ [event] in
      notify_all event None (s\<lparr>mob_log_ring := drop (length ring - LOG_RING_SIZE) ring\<rparr>))"

definition publish_logs :: "pydict list \<Rightarrow> mobile \<Rightarrow> mobile" where
  "publish_logs fresh s = fold log_line fresh s"

end
