(* ===== verification/Mobile_Pairing.thy ===== *)
theory Mobile_Pairing
  imports Mobile_Service
begin

text \<open>
  Runs of the mobile stream, and an abstract specification of who gets in: a pairing is a phase with a deadline, a
  session its times and whether it is revoked; nothing is ever swept. The service refines it, and in it a session
  is shown to go back to a human approval of the device that uses it.
\<close>

section \<open>Runs\<close>

datatype mobile_op =
    Op_stop ustr
  | Op_listen interface_address int
  | Op_status
  | Op_create ustr
  | Op_view ustr
  | Op_open ustr ustr ustr ustr
  | Op_approve ustr nat
  | Op_verify ustr ustr ustr ustr ustr
  | Op_revoke ustr ustr
  | Op_use ustr
  | Op_notify pydict
  | Op_logs "pydict list"
  | Op_stream_open nat ustr "ustr option" bool "pydict list"
  | Op_stream_get nat
  | Op_stream_close nat

datatype mobile_out =
    Quiet
  | Viewed "pairing_view option"
  | Opened "mobile_pairing option"
  | Approved "pairing_view option"
  | Verified "ustr option"
  | Revoked bool
  | Used "mobile_session option"
  | Streaming "pydict list option"
  | Taken "pydict option"

definition mobile_step :: "time \<Rightarrow> mobile_op \<Rightarrow> mobile \<Rightarrow> mobile \<times> mobile_out" where
  "mobile_step now op s = (case op of
       Op_stop utc \<Rightarrow> (server_stop now utc s, Quiet)
     | Op_listen sel port \<Rightarrow> (server_listen sel port s, Quiet)
     | Op_status \<Rightarrow> (prune now s, Quiet)
     | Op_create pid \<Rightarrow> (add_pairing pid now s, Quiet)
     | Op_view pid \<Rightarrow> map_prod id Viewed (view_pairing pid now s)
     | Op_open pid client ua utc \<Rightarrow> map_prod id Opened (open_pairing pid client ua utc now s)
     | Op_approve pid draw \<Rightarrow> map_prod id Approved (approve_pairing pid draw now s)
     | Op_verify pid code client ua token \<Rightarrow> map_prod id Verified (verify_pairing pid code client ua token now s)
     | Op_revoke token utc \<Rightarrow> map_prod id Revoked (revoke_session token utc now s)
     | Op_use token \<Rightarrow> map_prod id Used (use_session token now s)
     | Op_notify event \<Rightarrow> (notify_all event None s, Quiet)
     | Op_logs fresh \<Rightarrow> (publish_logs fresh s, Quiet)
     | Op_stream_open sid token level following recent \<Rightarrow>
         map_prod id Streaming (stream_open sid token level following recent now s)
     | Op_stream_get sid \<Rightarrow> map_prod id Taken (stream_get sid s)
     | Op_stream_close sid \<Rightarrow> (stream_close sid s, Quiet))"

text \<open>Starting the server is such a run.\<close>

lemma server_start_steps:
  "\<exists>ops. set ops \<subseteq> {Op_stop utc, Op_status} \<union> {Op_listen sel p | sel p. True}
     \<and> fst (server_start interfaces can_listen interface port now utc s) = fst (run mobile_step s (map (Pair now) ops))"
proof (cases "select_interface interfaces interface")
  case (Inl e)
  then show ?thesis by (intro exI [of _ "[]"]) (simp add: server_start_def)
next
  case (Inr sel)
  let ?port = "max 1 (min 65535 (safe_int port MOBILE_STREAM_DEFAULT_PORT))"
  let ?ops = "if srv_running (mob_server s) \<and> srv_interface (mob_server s) = ia_name sel \<and> srv_port (mob_server s) = ?port then [Op_status]
    else [Op_stop utc, Op_status] @ (if can_listen then [Op_listen sel ?port, Op_status] else [])"
  show ?thesis
    by (intro exI [of _ ?ops]) (auto simp: server_start_def Inr mobile_step_def Let_def)
qed

section \<open>Specification\<close>

datatype pairing_phase = Drawn | Knocked ustr | Accepted ustr ustr | Spent

datatype mobile_obs =
    Saw_nothing
  | Saw_pairing "pairing_phase option"
  | Saw_token "ustr option"
  | Saw_session bool

record mobile_spec =
  sp_pairings :: "ustr \<rightharpoonup> pairing_phase \<times> time"
  sp_sessions :: "ustr \<rightharpoonup> time \<times> time \<times> bool"

definition new_spec :: mobile_spec where
  "new_spec = \<lparr>sp_pairings = Map.empty, sp_sessions = Map.empty\<rparr>"

definition session_dead :: "time \<Rightarrow> time \<times> time \<times> bool \<Rightarrow> bool" where
  "session_dead now k = (case k of (created, used, revoked) \<Rightarrow>
     revoked \<or> now - used > MOBILE_SESSION_IDLE_TTL_SECONDS \<or> now - created > MOBILE_SESSION_ABSOLUTE_TTL_SECONDS)"

text \<open>The phase of a pairing that is still good for something.\<close>

definition live_phase :: "time \<Rightarrow> ustr \<Rightarrow> mobile_spec \<Rightarrow> (pairing_phase \<times> time) option" where
  "live_phase now pid a = (case sp_pairings a pid of
       Some (ph, d) \<Rightarrow> if ph \<noteq> Spent \<and> now < d then Some (ph, d) else None
     | None \<Rightarrow> None)"

definition set_phase :: "ustr \<Rightarrow> pairing_phase \<times> time \<Rightarrow> mobile_spec \<Rightarrow> mobile_spec" where
  "set_phase pid x a = a\<lparr>sp_pairings := (sp_pairings a)(pid \<mapsto> x)\<rparr>"

definition spec_use :: "ustr \<Rightarrow> time \<Rightarrow> mobile_spec \<Rightarrow> mobile_spec \<times> mobile_obs" where
  "spec_use token now a = (case sp_sessions a token of
       None \<Rightarrow> (a, Saw_session False)
     | Some (created, used, revoked) \<Rightarrow>
         if session_dead now (created, used, revoked) then (a, Saw_session False)
         else (a\<lparr>sp_sessions := (sp_sessions a)(token \<mapsto> (created, now, False))\<rparr>, Saw_session True))"

definition spec_open :: "ustr \<Rightarrow> ustr \<Rightarrow> time \<Rightarrow> mobile_spec \<Rightarrow> mobile_spec \<times> mobile_obs" where
  "spec_open pid client now a = (case live_phase now pid a of
       None \<Rightarrow> (a, Saw_pairing None)
     | Some (Drawn, d) \<Rightarrow> (set_phase pid (Knocked client, d) a, Saw_pairing (Some (Knocked client)))
     | Some (ph, d) \<Rightarrow> (a, Saw_pairing (Some ph)))"

definition spec_approve :: "ustr \<Rightarrow> nat \<Rightarrow> time \<Rightarrow> mobile_spec \<Rightarrow> mobile_spec \<times> mobile_obs" where
  "spec_approve pid draw now a = (case live_phase now pid a of
       Some (Knocked c, d) \<Rightarrow>
         (set_phase pid (Accepted c (six_digits draw), now + PAIRING_TTL_SECONDS) a, Saw_pairing (Some (Accepted c (six_digits draw))))
     | Some (Accepted c k, d) \<Rightarrow> (a, Saw_pairing (Some (Accepted c k)))
     | _ \<Rightarrow> (a, Saw_pairing None))"

text \<open>One guess per pairing, by the device that knocked (if its address is known).\<close>

definition spec_verify :: "ustr \<Rightarrow> ustr \<Rightarrow> ustr \<Rightarrow> ustr \<Rightarrow> time \<Rightarrow> mobile_spec \<Rightarrow> mobile_spec \<times> mobile_obs" where
  "spec_verify pid code client token now a = (case live_phase now pid a of
       Some (Accepted c k, d) \<Rightarrow>
         (let a1 = set_phase pid (Spent, d) a in
          if (c = [] \<or> client = c) \<and> strip code = k
          then (a1\<lparr>sp_sessions := (sp_sessions a1)(token \<mapsto> (now, now, False))\<rparr>, Saw_token (Some token))
          else (a1, Saw_token None))
     | _ \<Rightarrow> (a, Saw_token None))"

definition revoke_key :: "time \<times> time \<times> bool \<Rightarrow> time \<times> time \<times> bool" where
  "revoke_key k = (case k of (created, used, revoked) \<Rightarrow> (created, used, True))"

definition spec_step :: "time \<Rightarrow> mobile_op \<Rightarrow> mobile_spec \<Rightarrow> mobile_spec \<times> mobile_obs" where
  "spec_step now op a = (case op of
       Op_stop utc \<Rightarrow> (\<lparr>sp_pairings = Map.empty, sp_sessions = map_option revoke_key \<circ> sp_sessions a\<rparr>, Saw_nothing)
     | Op_create pid \<Rightarrow> (set_phase pid (Drawn, now + PAIRING_APPROVAL_TTL_SECONDS) a, Saw_nothing)
     | Op_view pid \<Rightarrow> (a, Saw_pairing (map_option fst (live_phase now pid a)))
     | Op_open pid client ua utc \<Rightarrow> spec_open pid client now a
     | Op_approve pid draw \<Rightarrow> spec_approve pid draw now a
     | Op_verify pid code client ua token \<Rightarrow> spec_verify pid code client token now a
     | Op_revoke token utc \<Rightarrow>
         (a\<lparr>sp_sessions := (\<lambda>t. if t = token then map_option revoke_key (sp_sessions a t) else sp_sessions a t)\<rparr>, Saw_nothing)
     | Op_use token \<Rightarrow> spec_use token now a
     | Op_stream_open sid token level following recent \<Rightarrow> spec_use token now a
     | _ \<Rightarrow> (a, Saw_nothing))"

text \<open>What the outputs of the service say: the phase of a pairing, a token, whether a session is good.\<close>

definition phase_of :: "mobile_pairing \<Rightarrow> pairing_phase" where
  "phase_of p =
     (if mp_approved p \<noteq> 0 then Accepted (mp_client p) (mp_code p) else if mp_seen p \<noteq> 0 then Knocked (mp_client p) else Drawn)"

definition phase_of_view :: "pairing_view \<Rightarrow> pairing_phase" where
  "phase_of_view v = (case pv_status v of
       Pending \<Rightarrow> Drawn
     | Awaiting_approval \<Rightarrow> Knocked (pv_client v)
     | Waiting_code \<Rightarrow> Accepted (pv_client v) (pv_code v)
     | _ \<Rightarrow> Spent)"

definition observe_out :: "mobile_out \<Rightarrow> mobile_obs" where
  "observe_out out = (case out of
       Viewed v \<Rightarrow> Saw_pairing (map_option phase_of_view v)
     | Opened p \<Rightarrow> Saw_pairing (map_option phase_of p)
     | Approved v \<Rightarrow> Saw_pairing (map_option phase_of_view v)
     | Verified t \<Rightarrow> Saw_token t
     | Used m \<Rightarrow> Saw_session (m \<noteq> None)
     | Streaming q \<Rightarrow> Saw_session (q \<noteq> None)
     | _ \<Rightarrow> Saw_nothing)"

section \<open>Refinement\<close>

definition session_key :: "mobile_session \<Rightarrow> time \<times> time \<times> bool" where
  "session_key m = (ms_created m, ms_last_seen m, ms_revoked m \<noteq> 0)"

definition pairing_rel :: "time \<Rightarrow> mobile_pairing option \<Rightarrow> (pairing_phase \<times> time) option \<Rightarrow> bool" where
  "pairing_rel t c x = (case c of
       None \<Rightarrow> (case x of None \<Rightarrow> True | Some (ph, d) \<Rightarrow> ph = Spent \<or> d \<le> t)
     | Some p \<Rightarrow> (\<exists>ph d. x = Some (ph, d)
         \<and> mp_consumed p = 0 \<and> (mp_approved p \<noteq> 0 \<longrightarrow> mp_seen p \<noteq> 0 \<and> mp_code p \<noteq> [])
         \<and> (if mp_failed p \<noteq> 0 then ph = Spent else ph = phase_of p \<and> d = mp_expires p)))"

definition session_rel :: "time \<Rightarrow> (time \<times> time \<times> bool) option \<Rightarrow> (time \<times> time \<times> bool) option \<Rightarrow> bool" where
  "session_rel t c x = (case c of
       None \<Rightarrow> (case x of None \<Rightarrow> True | Some k \<Rightarrow> session_dead t k)
     | Some k \<Rightarrow> x = Some k)"

definition spec_rel :: "time \<Rightarrow> mobile \<Rightarrow> mobile_spec \<Rightarrow> bool" where
  "spec_rel t s a \<longleftrightarrow>
     (\<forall>pid. pairing_rel t (mob_pairings s pid) (sp_pairings a pid))
     \<and> (\<forall>tok. session_rel t (map_option session_key (mob_sessions s tok)) (sp_sessions a tok))"

lemma spec_relI:
  assumes "\<And>pid. pairing_rel t (mob_pairings s pid) (sp_pairings a pid)"
    "\<And>tok. session_rel t (map_option session_key (mob_sessions s tok)) (sp_sessions a tok)"
  shows "spec_rel t s a"
  using assms by (simp add: spec_rel_def)

lemma phase_of_not_Spent [simp]: "phase_of p \<noteq> Spent"
  by (simp add: phase_of_def)

lemma six_digits_not_Nil [simp]: "six_digits n \<noteq> []"
proof -
  have "dec (n mod 1000000) \<noteq> []" by (subst dec.simps) simp
  then show ?thesis by (simp add: six_digits_def Let_def)
qed

subsection \<open>Frames\<close>

lemma count_event_for_frame:
  "mob_pairings (count_event_for t s) = mob_pairings s"
  "map_option session_key (mob_sessions (count_event_for t s) tok) = map_option session_key (mob_sessions s tok)"
  by (auto simp: count_event_for_def session_key_def split: option.split)

lemma deliver_frame:
  "mob_pairings (deliver_event e sub s) = mob_pairings s"
  "map_option session_key (mob_sessions (deliver_event e sub s) tok) = map_option session_key (mob_sessions s tok)"
  by (simp_all add: deliver_event_def count_event_for_frame)

lemma fold_deliver_frame:
  "mob_pairings (fold (deliver_event e) subs s) = mob_pairings s"
  "map_option session_key (mob_sessions (fold (deliver_event e) subs s) tok) = map_option session_key (mob_sessions s tok)"
  by (induction subs arbitrary: s) (simp_all add: deliver_frame)

lemma notify_frame [simp]:
  "mob_pairings (notify_all e t s) = mob_pairings s"
  "map_option session_key (mob_sessions (notify_all e t s) tok) = map_option session_key (mob_sessions s tok)"
  by (simp_all add: notify_all_def Let_def fold_deliver_frame)

lemma publish_frame [simp]:
  "mob_pairings (publish_logs fresh s) = mob_pairings s"
  "map_option session_key (mob_sessions (publish_logs fresh s) tok) = map_option session_key (mob_sessions s tok)"
  by (induction fresh arbitrary: s) (simp_all add: publish_logs_def log_line_def Let_def)

lemma spec_rel_frame:
  assumes "spec_rel t s a" "mob_pairings s' = mob_pairings s"
    "\<And>tok. map_option session_key (mob_sessions s' tok) = map_option session_key (mob_sessions s tok)"
  shows "spec_rel t s' a"
  using assms by (simp add: spec_rel_def)

subsection \<open>Sweeping is not observable\<close>

lemma session_dead_mono: "session_dead t k \<Longrightarrow> t \<le> t' \<Longrightarrow> session_dead t' k"
  by (auto simp: session_dead_def split: prod.splits)

lemma session_expired_key: "session_expired now m = session_dead now (session_key m)"
  by (auto simp: session_expired_def session_dead_def session_key_def)

lemma pairing_rel_mono: "pairing_rel t c x \<Longrightarrow> t \<le> t' \<Longrightarrow> pairing_rel t' c x"
  by (fastforce simp: pairing_rel_def split: option.splits)

lemma session_rel_mono: "session_rel t c x \<Longrightarrow> t \<le> t' \<Longrightarrow> session_rel t' c x"
  by (auto simp: session_rel_def intro: session_dead_mono split: option.splits)

lemma spec_rel_mono: "spec_rel t s a \<Longrightarrow> t \<le> t' \<Longrightarrow> spec_rel t' s a"
  by (simp add: spec_rel_def) (blast intro: pairing_rel_mono session_rel_mono)

lemma pairing_rel_sweep: "pairing_rel t (m pid) x \<Longrightarrow> pairing_rel t (sweep (pairing_expired t) m pid) x"
  by (auto simp: pairing_rel_def sweep_def pairing_expired_def split: option.splits if_splits)

lemma session_rel_sweep:
  "session_rel t (map_option session_key (m tok)) x \<Longrightarrow> session_rel t (map_option session_key (sweep (session_expired t) m tok)) x"
  by (cases "m tok") (simp_all add: session_rel_def sweep_def session_expired_key)

lemma spec_rel_prune: "spec_rel t s a \<Longrightarrow> spec_rel t (prune t s) a" "spec_rel t s a \<Longrightarrow> spec_rel t (prune_sessions t s) a"
  by (simp_all add: spec_rel_def prune_def prune_sessions_def pairing_rel_sweep session_rel_sweep)

lemma prune_pairing: "mob_pairings (prune t s) = sweep (pairing_expired t) (mob_pairings s)"
  by (simp add: prune_def prune_sessions_def)

lemma sweep_Some: "sweep P m k = Some v \<Longrightarrow> m k = Some v \<and> \<not> P v"
  by (simp add: sweep_def split: option.splits if_splits)

text \<open>After a sweep a pairing is there exactly when it is live.\<close>

lemma live_after_prune:
  assumes "spec_rel t s a"
  shows "case mob_pairings (prune t s) pid of
      None \<Rightarrow> live_phase t pid a = None
    | Some p \<Rightarrow> live_phase t pid a = Some (phase_of p, mp_expires p) \<and> mp_consumed p = 0 \<and> mp_failed p = 0 \<and> t < mp_expires p
        \<and> (mp_approved p \<noteq> 0 \<longrightarrow> mp_seen p \<noteq> 0 \<and> mp_code p \<noteq> [])"
proof -
  have "pairing_rel t (mob_pairings s pid) (sp_pairings a pid)" using assms by (simp add: spec_rel_def)
  then show ?thesis
    by (auto simp: prune_pairing pairing_rel_def live_phase_def sweep_def pairing_expired_def split: option.splits if_splits)
qed

lemma spec_rel_set:
  assumes "spec_rel t s a" "pairing_rel t (Some p) (Some x)"
  shows "spec_rel t (set_pairing pid p s) (set_phase pid x a)"
  using assms by (simp add: spec_rel_def set_pairing_def set_phase_def)

lemma spec_rel_same:
  assumes "spec_rel t s a" "mob_pairings s pid = Some p"
  shows "spec_rel t (set_pairing pid p s) a"
  using assms by (intro spec_rel_frame [OF assms(1)]) (simp_all add: set_pairing_def fun_upd_idem)

subsection \<open>One step\<close>

definition simulates :: "time \<Rightarrow> mobile \<times> mobile_out \<Rightarrow> mobile_spec \<times> mobile_obs \<Rightarrow> bool" where
  "simulates now c x \<longleftrightarrow> spec_rel now (fst c) (fst x) \<and> observe_out (snd c) = snd x"

lemma sim_view:
  assumes "spec_rel now s a"
  shows "simulates now (map_prod id Viewed (view_pairing pid now s)) (a, Saw_pairing (map_option fst (live_phase now pid a)))"
  using live_after_prune [OF assms, of pid] spec_rel_prune(1) [OF assms]
  by (auto simp: simulates_def view_pairing_def Let_def observe_out_def phase_of_view_def pairing_view_def status_of_pairing_def
      phase_of_def split: option.splits)

lemma sim_open:
  assumes "spec_rel now s a" "0 < now"
  shows "simulates now (map_prod id Opened (open_pairing pid client ua utc now s)) (spec_open pid client now a)"
proof (cases "mob_pairings (prune now s) pid")
  case None
  then show ?thesis
    using live_after_prune [OF assms(1), of pid] spec_rel_prune(1) [OF assms(1)]
    by (simp add: simulates_def open_pairing_def Let_def spec_open_def observe_out_def)
next
  case (Some p)
  note live = live_after_prune [OF assms(1), of pid, unfolded Some, simplified]
  have r: "spec_rel now (prune now s) a" by (rule spec_rel_prune(1) [OF assms(1)])
  show ?thesis
  proof (cases "mp_approved p = 0 \<and> mp_seen p = 0")
    case True
    then show ?thesis
      using live assms(2) Some
      by (auto simp: simulates_def open_pairing_def Let_def spec_open_def observe_out_def phase_of_def pairing_rel_def
          intro!: spec_rel_set [OF r])
  next
    case False
    then show ?thesis
      using live Some spec_rel_same [OF r Some]
      by (auto simp: simulates_def open_pairing_def Let_def spec_open_def observe_out_def phase_of_def)
  qed
qed

lemma sim_approve:
  assumes "spec_rel now s a" "0 < now"
  shows "simulates now (map_prod id Approved (approve_pairing pid draw now s)) (spec_approve pid draw now a)"
proof (cases "mob_pairings (prune now s) pid")
  case None
  then show ?thesis
    using live_after_prune [OF assms(1), of pid] spec_rel_prune(1) [OF assms(1)]
    by (simp add: simulates_def approve_pairing_def Let_def spec_approve_def observe_out_def)
next
  case (Some p)
  note live = live_after_prune [OF assms(1), of pid, unfolded Some, simplified]
  have r: "spec_rel now (prune now s) a" by (rule spec_rel_prune(1) [OF assms(1)])
  consider "mp_seen p = 0" "mp_approved p = 0" | "mp_seen p \<noteq> 0" "mp_approved p = 0" | "mp_seen p \<noteq> 0" "mp_approved p \<noteq> 0"
    using live by blast
  then show ?thesis
  proof cases
    case 1
    then show ?thesis using live Some r
      by (simp add: simulates_def approve_pairing_def Let_def spec_approve_def observe_out_def phase_of_def)
  next
    case 2
    then show ?thesis using live Some assms(2)
      by (auto simp: simulates_def approve_pairing_def Let_def spec_approve_def observe_out_def phase_of_def pairing_rel_def
          PAIRING_TTL_SECONDS_def phase_of_view_def pairing_view_def status_of_pairing_def intro!: spec_rel_set [OF r])
  next
    case 3
    then show ?thesis using live Some spec_rel_same [OF r Some]
      by (simp add: simulates_def approve_pairing_def Let_def spec_approve_def observe_out_def phase_of_def
          phase_of_view_def pairing_view_def status_of_pairing_def)
  qed
qed

lemma spec_rel_grant:
  assumes "spec_rel t s a"
  shows "spec_rel t (drop_pairing pid (s\<lparr>mob_sessions := (mob_sessions s)(token \<mapsto> new_session p client ua now)\<rparr>))
    (a\<lparr>sp_pairings := (sp_pairings a)(pid \<mapsto> (Spent, d)), sp_sessions := (sp_sessions a)(token \<mapsto> (now, now, False))\<rparr>)"
  using assms by (simp add: spec_rel_def session_rel_def session_key_def new_session_def drop_pairing_def pairing_rel_def)

lemma sim_verify:
  assumes "spec_rel now s a" "0 < now"
  shows "simulates now (map_prod id Verified (verify_pairing pid code client ua token now s)) (spec_verify pid code client token now a)"
proof (cases "mob_pairings s pid")
  case None
  have "pairing_rel now None (sp_pairings a pid)" using assms(1) None by (metis spec_rel_def)
  then have "live_phase now pid a = None" by (auto simp: pairing_rel_def live_phase_def split: option.splits)
  then show ?thesis using assms(1) None by (simp add: simulates_def verify_pairing_def spec_verify_def observe_out_def)
next
  case (Some p)
  have rel: "pairing_rel now (Some p) (sp_pairings a pid)" using assms(1) Some by (metis spec_rel_def)
  show ?thesis
  proof (cases "mp_failed p \<noteq> 0 \<or> mp_expires p \<le> now \<or> mp_approved p = 0")
    case True
    then have "case live_phase now pid a of None \<Rightarrow> True | Some (ph, d) \<Rightarrow> \<forall>c k. ph \<noteq> Accepted c k"
      using rel by (auto simp: pairing_rel_def live_phase_def phase_of_def split: if_splits)
    then have "spec_verify pid code client token now a = (a, Saw_token None)"
      by (auto simp: spec_verify_def split: option.splits pairing_phase.splits)
    moreover have "verify_pairing pid code client ua token now s = (s, None)"
      using True Some by (auto simp: verify_pairing_def)
    ultimately show ?thesis using assms(1) by (simp add: simulates_def observe_out_def)
  next
    case False
    then have live: "live_phase now pid a = Some (Accepted (mp_client p) (mp_code p), mp_expires p)" "mp_consumed p = 0" "mp_code p \<noteq> []"
      using rel by (auto simp: pairing_rel_def live_phase_def phase_of_def)
    show ?thesis
    proof (cases "(mp_client p = [] \<or> client = mp_client p) \<and> strip code = mp_code p")
      case True
      then show ?thesis
        using False live Some spec_rel_grant [OF assms(1)]
        by (auto simp: simulates_def verify_pairing_def spec_verify_def observe_out_def Let_def set_phase_def)
    next
      case bad: False
      have "verify_pairing pid code client ua token now s = (set_pairing pid (p\<lparr>mp_failed := now\<rparr>) s, None)"
        using bad False live Some by (auto simp: verify_pairing_def)
      moreover have "spec_verify pid code client token now a = (set_phase pid (Spent, mp_expires p) a, Saw_token None)"
        using bad live by (auto simp: spec_verify_def Let_def)
      moreover have "spec_rel now (set_pairing pid (p\<lparr>mp_failed := now\<rparr>) s) (set_phase pid (Spent, mp_expires p) a)"
        using live rel assms(2) by (intro spec_rel_set [OF assms(1)]) (auto simp: pairing_rel_def)
      ultimately show ?thesis by (simp add: simulates_def observe_out_def)
    qed
  qed
qed

lemma sim_use:
  assumes "spec_rel now s a"
  shows "spec_rel now (fst (use_session token now s)) (fst (spec_use token now a))
    \<and> Saw_session (snd (use_session token now s) \<noteq> None) = snd (spec_use token now a)"
proof -
  let ?s1 = "prune_sessions now s"
  have r: "spec_rel now ?s1 a" by (rule spec_rel_prune(2) [OF assms])
  then have rel: "session_rel now (map_option session_key (mob_sessions ?s1 token)) (sp_sessions a token)" by (simp add: spec_rel_def)
  show ?thesis
  proof (cases "mob_sessions ?s1 token")
    case None
    then show ?thesis
      using rel r by (auto simp: use_session_def Let_def spec_use_def session_rel_def split: option.splits)
  next
    case (Some m)
    then have "\<not> session_expired now m" by (auto simp: prune_sessions_def dest: sweep_Some)
    then have "\<not> session_dead now (session_key m)" "ms_revoked m = 0"
      by (simp_all add: session_expired_key [symmetric]) (simp add: session_expired_def)
    then show ?thesis
      using Some rel r
      by (auto simp: use_session_def Let_def spec_use_def session_rel_def session_key_def spec_rel_def)
  qed
qed

lemma sim_stop:
  assumes "spec_rel now s a" "0 < now"
  shows "spec_rel now (server_stop now utc s) \<lparr>sp_pairings = Map.empty, sp_sessions = map_option revoke_key \<circ> sp_sessions a\<rparr>"
proof (rule spec_relI)
  fix tok
  have "session_rel now (map_option session_key (mob_sessions s tok)) (sp_sessions a tok)" using assms(1) by (simp add: spec_rel_def)
  then show "session_rel now (map_option session_key (mob_sessions (server_stop now utc s) tok))
      (sp_sessions \<lparr>sp_pairings = Map.empty, sp_sessions = map_option revoke_key \<circ> sp_sessions a\<rparr> tok)"
    using assms(2)
    by (cases "mob_sessions s tok") (auto simp: server_stop_def session_rel_def session_key_def revoke_key_def session_dead_def
        option.map_comp comp_def split: option.splits)
qed (simp add: server_stop_def pairing_rel_def)

lemma sim_revoke:
  assumes "spec_rel now s a" "0 < now"
  shows "spec_rel now (fst (revoke_session token utc now s))
    (a\<lparr>sp_sessions := (\<lambda>t. if t = token then map_option revoke_key (sp_sessions a t) else sp_sessions a t)\<rparr>)"
proof (rule spec_relI)
  fix tok
  have "session_rel now (map_option session_key (mob_sessions s tok)) (sp_sessions a tok)" using assms(1) by (simp add: spec_rel_def)
  then show "session_rel now (map_option session_key (mob_sessions (fst (revoke_session token utc now s)) tok))
      (sp_sessions (a\<lparr>sp_sessions := (\<lambda>t. if t = token then map_option revoke_key (sp_sessions a t) else sp_sessions a t)\<rparr>) tok)"
    using assms(2)
    by (cases "mob_sessions s token") (auto simp: revoke_session_def session_rel_def session_key_def revoke_key_def
        session_dead_def split: option.splits)
qed (use assms(1) in \<open>simp add: revoke_session_def spec_rel_def split: option.split\<close>)

lemma stream_open_frame:
  "mob_pairings (fst (stream_open sid token level following recent now s)) = mob_pairings (fst (use_session token now s))"
  "mob_sessions (fst (stream_open sid token level following recent now s)) = mob_sessions (fst (use_session token now s))"
  "snd (stream_open sid token level following recent now s) \<noteq> None \<longleftrightarrow> snd (use_session token now s) \<noteq> None"
  by (auto simp: stream_open_def Let_def split: prod.split option.split)

lemma stream_frame [simp]:
  "mob_pairings (fst (stream_get sid s)) = mob_pairings s" "mob_sessions (fst (stream_get sid s)) = mob_sessions s"
  "mob_pairings (stream_close sid s) = mob_pairings s" "mob_sessions (stream_close sid s) = mob_sessions s"
  by (simp_all add: stream_get_def stream_close_def Let_def split: list.split)

lemma step_simulates:
  assumes "spec_rel t s a" "t \<le> now" "0 < now"
  shows "simulates now (mobile_step now op s) (spec_step now op a)"
proof -
  have r: "spec_rel now s a" by (rule spec_rel_mono [OF assms(1,2)])
  show ?thesis
  proof (cases op)
    case (Op_stop utc)
    then show ?thesis using sim_stop [OF r assms(3)] by (simp add: simulates_def mobile_step_def spec_step_def observe_out_def)
  next
    case (Op_create pid)
    then show ?thesis
      using r by (simp add: simulates_def mobile_step_def spec_step_def observe_out_def add_pairing_def spec_rel_def set_phase_def
          pairing_rel_def new_pairing_def phase_of_def)
  next
    case (Op_revoke token utc)
    then show ?thesis using sim_revoke [OF r assms(3)] by (simp add: simulates_def mobile_step_def spec_step_def observe_out_def)
  next
    case (Op_use token)
    then show ?thesis using sim_use [OF r] by (simp add: simulates_def mobile_step_def spec_step_def observe_out_def)
  next
    case (Op_stream_open sid token level following recent)
    then show ?thesis
      using sim_use [OF r, of token]
      by (simp add: simulates_def mobile_step_def spec_step_def observe_out_def stream_open_frame(3)
          spec_rel_def stream_open_frame(1,2) del: not_None_eq)
  next
    case (Op_status)
    then show ?thesis using spec_rel_prune(1) [OF r] by (simp add: simulates_def mobile_step_def spec_step_def observe_out_def)
  qed (use r sim_view [OF r] sim_open [OF r assms(3)] sim_approve [OF r assms(3)] sim_verify [OF r assms(3)] in
      \<open>simp_all add: mobile_step_def spec_step_def\<close>,
      simp_all add: simulates_def observe_out_def spec_rel_def server_listen_def)
qed

lemma run_simulates:
  assumes "spec_rel t s a" "sorted (t # map fst h)" "\<And>x. x \<in> fst ` set h \<Longrightarrow> 0 < x"
  shows "spec_rel (last (t # map fst h)) (fst (run mobile_step s h)) (fst (run spec_step a h))
    \<and> map observe_out (snd (run mobile_step s h)) = snd (run spec_step a h)"
  using assms
proof (induction h arbitrary: t s a)
  case (Cons x h)
  obtain now op where x: "x = (now, op)" by (cases x)
  have sim: "simulates now (mobile_step now op s) (spec_step now op a)"
    using Cons.prems x by (intro step_simulates [of t]) auto
  have "spec_rel (last (now # map fst h)) (fst (run mobile_step (fst (mobile_step now op s)) h)) (fst (run spec_step (fst (spec_step now op a)) h))
    \<and> map observe_out (snd (run mobile_step (fst (mobile_step now op s)) h)) = snd (run spec_step (fst (spec_step now op a)) h)"
    using sim Cons.prems x by (intro Cons.IH) (auto simp: simulates_def)
  then show ?case using sim x by (auto simp: simulates_def split: prod.splits)
qed simp

end
