(* ===== verification/Mobile_Stream.thy ===== *)
theory Mobile_Stream
  imports Mobile_Pairing
begin

text \<open>
  What reaches a phone: the reduction of an event to its public part (\<open>_public_event\<close> of \<^verbatim>\<open>mobile_stream.py\<close>),
  and what the fan-out puts into the queue of which stream.
\<close>

section \<open>Public events\<close>

definition text_field :: "(pyval \<Rightarrow> ustr) \<Rightarrow> pydict \<Rightarrow> string \<Rightarrow> ustr" where
  "text_field fmt d key = str_or_empty fmt (get_or d key PNone)"

definition number_field :: "pydict \<Rightarrow> string \<Rightarrow> ustr \<times> pyval" where
  "number_field d key = (U key, PInt (safe_int (get_or d key PNone) 0))"

definition public_tags :: "(pyval \<Rightarrow> ustr) \<Rightarrow> pyval \<Rightarrow> pyval list" where
  "public_tags fmt v = (case v of
       PList tags \<Rightarrow>
         map (\<lambda>tag. PDict [(U ''key'', PStr (take 80 (text_field fmt (dict_of tag) ''key''))),
                            (U ''severity'', PStr (take 40 (text_field fmt (dict_of tag) ''severity'')))])
           (filter is_dict (take 8 tags))
     | _ \<Rightarrow> [])"

definition public_packet :: "(pyval \<Rightarrow> ustr) \<Rightarrow> ustr \<Rightarrow> pydict \<Rightarrow> pydict" where
  "public_packet fmt stamp payload =
     (let packet = dict_of (get_or payload ''packet'' PNone); len = get_or packet ''length'' PNone in
      [(U ''type'', PStr (U ''packet'')), (U ''generated_at'', PStr stamp),
       (U ''source'', PStr (if startswith (text_field fmt packet ''interface'') (U ''honeypot:'') then U ''honeypot'' else U ''sniffer'')),
       (U ''src_ip'', PStr (text_field fmt packet ''src_ip'')), (U ''dst_ip'', PStr (text_field fmt packet ''dst_ip'')),
       number_field packet ''src_port'', number_field packet ''dst_port'',
       (U ''proto'', PStr (lower (text_field fmt packet ''proto''))),
       (U ''length'', PInt (safe_int (if truthy len then len else get_or packet ''payload_len'' PNone) 0)),
       (U ''summary'', PStr (take 180 (text_field fmt packet ''summary''))),
       (U ''tags'', PList (public_tags fmt (get_or packet ''tags'' PNone))),
       (U ''persisted'', PBool (truthy (get_or payload ''persisted'' (PBool True))))])"

definition public_stats :: "(pyval \<Rightarrow> ustr) \<Rightarrow> ustr \<Rightarrow> pydict \<Rightarrow> pydict" where
  "public_stats fmt stamp payload =
     (let stats = dict_of (get_or payload ''stats'' PNone) in
      [(U ''type'', PStr (U ''stats_update'')), (U ''generated_at'', PStr stamp),
       (U ''stats'', PDict [number_field stats ''packets_seen'', number_field stats ''packets_stored'',
          number_field stats ''packets_total_bytes'', (U ''mode'', PStr (text_field fmt stats ''mode''))])])"

text \<open>\<open>list(value)\<close>: a number or a truth value raises.\<close>

definition py_list :: "pyval \<Rightarrow> pyexc + pyval list" where
  "py_list v = (case v of
       PList xs \<Rightarrow> Inr xs
     | PStr s \<Rightarrow> Inr (map (\<lambda>c. PStr [c]) s)
     | PBytes b \<Rightarrow> Inr (map (\<lambda>w. PInt (int (unat w))) b)
     | PDict d \<Rightarrow> Inr (map (\<lambda>e. PStr (fst e)) d)
     | _ \<Rightarrow> Inl TypeError)"

definition public_runtime :: "(pyval \<Rightarrow> ustr) \<Rightarrow> ustr \<Rightarrow> pydict \<Rightarrow> pyexc + pydict" where
  "public_runtime fmt stamp payload =
     (let runtime = dict_of (get_or payload ''runtime'' PNone); engines = get_or runtime ''running_engines'' PNone in
      map_sum id (\<lambda>xs. [(U ''type'', PStr (U ''runtime_mode'')), (U ''generated_at'', PStr stamp),
          (U ''running_engines'', PList (take 4 xs)), (U ''mode'', PStr (text_field fmt runtime ''mode''))])
        (if truthy engines then py_list engines else Inr []))"

definition public_event :: "(pyval \<Rightarrow> ustr) \<Rightarrow> ustr \<Rightarrow> pydict \<Rightarrow> pyexc + pydict option" where
  "public_event fmt utc payload =
     (let event_type = strip (text_field fmt payload ''type'');
          stamp = (let g = get_or payload ''generated_at'' PNone in if truthy g then py_str fmt g else utc) in
      if event_type = U ''packet'' then Inr (Some (public_packet fmt stamp payload))
      else if event_type = U ''stats_update'' then Inr (Some (public_stats fmt stamp payload))
      else if event_type = U ''runtime_mode'' then map_sum id Some (public_runtime fmt stamp payload)
      else if event_type = U ''data_clear_progress'' \<or> event_type = U ''job_update'' then
        Inr (Some [(U ''type'', PStr event_type), (U ''generated_at'', PStr stamp), (U ''status'', PStr (text_field fmt payload ''status'')),
                   (U ''message'', PStr (take 180 (text_field fmt payload ''message'')))])
      else Inr None)"

definition record_event :: "(pyval \<Rightarrow> ustr) \<Rightarrow> ustr \<Rightarrow> pydict \<Rightarrow> mobile \<Rightarrow> pyexc + mobile" where
  "record_event fmt utc payload s = (case public_event fmt utc payload of
       Inl err \<Rightarrow> Inl err
     | Inr None \<Rightarrow> Inr s
     | Inr (Some event) \<Rightarrow> Inr (notify_all event None s))"

section \<open>What of a packet is disclosable\<close>

definition PUBLIC_PACKET_KEYS :: "ustr list" where
  "PUBLIC_PACKET_KEYS = map U [''interface'', ''src_ip'', ''dst_ip'', ''src_port'', ''dst_port'', ''proto'', ''length'', ''payload_len'', ''summary'']"

definition only_keys :: "ustr list \<Rightarrow> pydict \<Rightarrow> pydict" where
  "only_keys ks d = filter (\<lambda>e. fst e \<in> set ks) d"

text \<open>A payload without everything else: other fields of the packet, and of a tag all but its key and severity.\<close>

definition redact_tag :: "pyval \<Rightarrow> pyval" where
  "redact_tag tag = (case tag of PDict d \<Rightarrow> PDict (only_keys [U ''key'', U ''severity''] d) | v \<Rightarrow> v)"

definition redact_tags :: "pyval \<Rightarrow> pyval" where
  "redact_tags v = (case v of PList tags \<Rightarrow> PList (map redact_tag tags) | _ \<Rightarrow> PNone)"

definition redact_packet :: "pyval \<Rightarrow> pyval" where
  "redact_packet v = (case v of
       PDict d \<Rightarrow> PDict (only_keys PUBLIC_PACKET_KEYS d @ [(U ''tags'', redact_tags (get_or d ''tags'' PNone))])
     | _ \<Rightarrow> PNone)"

definition redact_payload :: "pydict \<Rightarrow> pydict" where
  "redact_payload payload =
     only_keys (map U [''type'', ''generated_at'', ''persisted'']) payload @ [(U ''packet'', redact_packet (get_or payload ''packet'' PNone))]"

lemma get_or_only: "U key \<in> set ks \<Longrightarrow> get_or (only_keys ks d @ e) key v = (if U key \<in> fst ` set d then get_or d key v else get_or e key v)"
  by (induction d) (auto simp: get_or_def only_keys_def split: option.splits)

lemma get_or_absent: "U key \<notin> fst ` set d \<Longrightarrow> get_or d key v = v"
  by (induction d) (auto simp: get_or_def)

lemma get_or_dropped: "U key \<notin> set ks \<Longrightarrow> get_or (only_keys ks d @ e) key v = get_or e key v"
  by (induction d) (auto simp: get_or_def only_keys_def)

lemma get_or_skip: "U key \<noteq> k \<Longrightarrow> get_or ((k, w) # e) key v = get_or e key v" "get_or [] key v = v"
  by (simp_all add: get_or_def)

lemma get_or_kept:
  assumes "U key \<in> set ks" "U key \<noteq> k"
  shows "get_or (only_keys ks d @ [(k, w)]) key v = get_or d key v"
  using assms by (cases "U key \<in> fst ` set d") (simp_all add: get_or_only get_or_skip get_or_absent)

lemma public_tags_redact: "public_tags fmt (redact_tags v) = public_tags fmt v"
proof (cases v)
  case (PList tags)
  have "text_field fmt (dict_of (redact_tag t)) k = text_field fmt (dict_of t) k" if "k = ''key'' \<or> k = ''severity''" for t k
    using that get_or_only [of k "[U ''key'', U ''severity'']" _ "[]"]
    by (auto simp: redact_tag_def text_field_def dict_of_def get_or_skip get_or_absent split: pyval.split)
  moreover have "is_dict (redact_tag t) = is_dict t" for t by (simp add: redact_tag_def is_dict_def split: pyval.split)
  ultimately show ?thesis
    by (simp add: public_tags_def redact_tags_def PList take_map filter_map comp_def)
qed (simp_all add: public_tags_def redact_tags_def)

lemma redacted_packet_field:
  assumes "U key \<in> set PUBLIC_PACKET_KEYS"
  shows "get_or (dict_of (redact_packet v)) key w = get_or (dict_of v) key w"
proof -
  have "U key \<noteq> U ''tags''" using assms by (auto simp: PUBLIC_PACKET_KEYS_def)
  then show ?thesis using assms
    by (cases v) (simp_all add: redact_packet_def dict_of_def get_or_kept)
qed

lemma redacted_tags: "public_tags fmt (get_or (dict_of (redact_packet v)) ''tags'' PNone) = public_tags fmt (get_or (dict_of v) ''tags'' PNone)"
proof (cases v)
  case (PDict d)
  have "U ''tags'' \<notin> set PUBLIC_PACKET_KEYS" by (simp add: PUBLIC_PACKET_KEYS_def)
  then have "get_or (dict_of (redact_packet v)) ''tags'' PNone = redact_tags (get_or d ''tags'' PNone)"
    by (simp add: PDict redact_packet_def dict_of_def get_or_dropped) (simp add: get_or_def)
  then show ?thesis by (simp add: PDict dict_of_def public_tags_redact)
qed (simp_all add: redact_packet_def dict_of_def)

lemma redacted_payload_field:
  assumes "key \<in> {''type'', ''generated_at'', ''persisted''}"
  shows "get_or (redact_payload payload) key v = get_or payload key v"
  unfolding redact_payload_def by (rule get_or_kept) (use assms in auto)

lemma redacted_payload_packet: "get_or (redact_payload payload) ''packet'' PNone = redact_packet (get_or payload ''packet'' PNone)"
  unfolding redact_payload_def by (subst get_or_dropped) (simp_all add: get_or_def)

lemma public_packet_blind: "public_packet fmt stamp (redact_payload payload) = public_packet fmt stamp payload"
  by (simp add: public_packet_def Let_def redacted_payload_packet redacted_payload_field redacted_tags text_field_def number_field_def
      redacted_packet_field PUBLIC_PACKET_KEYS_def)

lemma public_event_blind:
  assumes "strip (text_field fmt payload ''type'') = U ''packet''"
  shows "public_event fmt utc (redact_payload payload) = public_event fmt utc payload"
  using assms by (simp add: public_event_def Let_def text_field_def redacted_payload_field public_packet_blind)

section \<open>The fan-out\<close>

lemma count_event_streams [simp]:
  "mob_queues (count_event_for t s) = mob_queues s" "mob_subscribers (count_event_for t s) = mob_subscribers s"
  "mob_log_levels (count_event_for t s) = mob_log_levels s" "mob_log_ring (count_event_for t s) = mob_log_ring s"
  by (simp_all add: count_event_for_def split: option.split)

lemma deliver_streams [simp]:
  "mob_queues (deliver_event e sub s) = (mob_queues s)(fst sub \<mapsto> queue_put e (queue_of s (fst sub)))"
  "mob_subscribers (deliver_event e sub s) = mob_subscribers s" "mob_log_levels (deliver_event e sub s) = mob_log_levels s"
  "mob_log_ring (deliver_event e sub s) = mob_log_ring s"
  by (simp_all add: deliver_event_def)

lemma fold_deliver_streams [simp]:
  "mob_subscribers (fold (deliver_event e) subs s) = mob_subscribers s"
  "mob_log_levels (fold (deliver_event e) subs s) = mob_log_levels s"
  "mob_log_ring (fold (deliver_event e) subs s) = mob_log_ring s"
  by (induction subs arbitrary: s) simp_all

lemma fold_deliver_queue:
  "distinct (map fst subs) \<Longrightarrow> mob_queues (fold (deliver_event e) subs s) sid =
     (if sid \<in> fst ` set subs then Some (queue_put e (queue_of s sid)) else mob_queues s sid)"
proof (induction subs arbitrary: s)
  case (Cons sub subs)
  then show ?case by (cases "sid = fst sub") (auto simp: queue_of_def)
qed simp

lemma distinct_kept: "distinct (map fst xs) \<Longrightarrow> distinct (map fst (filter P xs))"
  by (induction xs) auto

lemma notify_streams [simp]:
  "mob_log_levels (notify_all e t s) = mob_log_levels s" "mob_log_ring (notify_all e t s) = mob_log_ring s"
  by (simp_all add: notify_all_def Let_def)

text \<open>Who gets an event, and who is dropped.\<close>

lemma notify_queue:
  assumes "distinct (map fst (mob_subscribers s))"
  shows "mob_queues (notify_all e t s) sid =
    (if \<exists>tok. (sid, tok) \<in> set (mob_subscribers s) \<and> concerns s e t (sid, tok) \<and> \<not> dead_subscriber s t (sid, tok)
     then Some (queue_put e (queue_of s sid)) else mob_queues s sid)"
  using assms by (auto simp: notify_all_def Let_def fold_deliver_queue distinct_kept image_iff)

lemma notify_subscribers:
  assumes "distinct (map fst (mob_subscribers s))"
  shows "mob_subscribers (notify_all e t s) = filter (\<lambda>sub. \<not> (concerns s e t sub \<and> dead_subscriber s t sub)) (mob_subscribers s)"
proof -
  have "fst sub \<in> fst ` {x \<in> set (mob_subscribers s). concerns s e t x \<and> dead_subscriber s t x}
      \<longleftrightarrow> concerns s e t sub \<and> dead_subscriber s t sub" if "sub \<in> set (mob_subscribers s)" for sub
    using that inj_onD [OF conjunct2 [OF iffD1 [OF distinct_map assms]]] by blast
  then show ?thesis by (auto simp: notify_all_def Let_def intro!: filter_cong)
qed

lemma revoked_not_log [simp]: "\<not> is_log (revoked_event utc)"
  by (simp add: is_log_def revoked_event_def get_or_def)

text \<open>
  C37. Revoking a session tells exactly its phone: every stream of that session gets the event, no other queue changes
  and nobody is dropped. Stopping the stream tells nobody: its broadcast follows the revocation of all sessions, so
  every subscriber is taken for dead and dropped before the event is put into any queue.
\<close>

theorem revocation_reaches:
  assumes "distinct (map fst (mob_subscribers s))" "mob_sessions s token = Some m" "now \<noteq> 0"
  shows "mob_queues (fst (revoke_session token utc now s)) =
      (\<lambda>sid. if (sid, token) \<in> set (mob_subscribers s) then Some (queue_put (revoked_event utc) (queue_of s sid)) else mob_queues s sid)
    \<and> mob_subscribers (fst (revoke_session token utc now s)) = mob_subscribers s
    \<and> mob_queues (server_stop now utc s) = mob_queues s \<and> mob_subscribers (server_stop now utc s) = []"
proof -
  let ?r = "s\<lparr>mob_sessions := (mob_sessions s)(token \<mapsto> m\<lparr>ms_revoked := now\<rparr>)\<rparr>"
  let ?t = "s\<lparr>mob_server := idle_server, mob_pairings := Map.empty,
    mob_sessions := (\<lambda>t. map_option (\<lambda>m. m\<lparr>ms_revoked := now\<rparr>) (mob_sessions s t))\<rparr>"
  have r: "concerns ?r (revoked_event utc) (Some token) sub \<longleftrightarrow> snd sub = token"
    "dead_subscriber ?r (Some token) (sid, token) = False" for sub sid
    by (simp_all add: concerns_def dead_subscriber_def)
  have t: "concerns ?t (revoked_event utc) None sub" "dead_subscriber ?t None sub" for sub
    using assms(3) by (auto simp: concerns_def dead_subscriber_def split: option.split)
  have q: "queue_of ?r sid = queue_of s sid" for sid by (simp add: queue_of_def)
  have "mob_queues (notify_all (revoked_event utc) (Some token) ?r) =
      (\<lambda>sid. if (sid, token) \<in> set (mob_subscribers s) then Some (queue_put (revoked_event utc) (queue_of s sid)) else mob_queues s sid)"
    using assms(1) by (intro ext) (auto simp: notify_queue r q)
  moreover have "mob_subscribers (notify_all (revoked_event utc) (Some token) ?r) = mob_subscribers s"
    using assms(1) r by (subst notify_subscribers) (auto intro!: filter_True)
  moreover have "mob_queues (notify_all (revoked_event utc) None ?t) = mob_queues s"
    using assms(1) t by (intro ext) (simp add: notify_queue)
  moreover have "mob_subscribers (notify_all (revoked_event utc) None ?t) = []"
    using assms(1) t by (subst notify_subscribers) simp_all
  ultimately show ?thesis
    using assms(2) by (simp add: revoke_session_def server_stop_def)
qed

definition two_phones :: mobile where
  "two_phones = new_mobile
     \<lparr>mob_sessions := [U ''a'' \<mapsto> new_session (new_pairing idle_server 5) [] [] 5, U ''b'' \<mapsto> new_session (new_pairing idle_server 6) [] [] 6],
      mob_subscribers := [(1, U ''a''), (2, U ''b'')], mob_queues := [1 \<mapsto> [], 2 \<mapsto> []]\<rparr>"

lemma revocation_reaches_witness:
  "mob_queues (fst (revoke_session (U ''a'') (U ''t'') 9 two_phones)) 1 = Some [revoked_event (U ''t'')]
    \<and> mob_queues (fst (revoke_session (U ''a'') (U ''t'') 9 two_phones)) 2 = Some []
    \<and> mob_queues (server_stop 9 (U ''t'') two_phones) 1 = Some []"
proof -
  have d: "distinct (map fst (mob_subscribers two_phones))"
    and m: "mob_sessions two_phones (U ''a'') = Some (new_session (new_pairing idle_server 5) [] [] 5)"
    by (simp_all add: two_phones_def)
  show ?thesis
    using revocation_reaches [OF d m, of 9 "U ''t''"]
    by (simp add: two_phones_def queue_put_def queue_of_def STREAM_QUEUE_SIZE_def)
qed

section \<open>What a phone can receive\<close>

text \<open>A payload reduced to what may leave the desktop.\<close>

definition reduced :: "(pyval \<Rightarrow> ustr) \<Rightarrow> pydict \<Rightarrow> pydict" where
  "reduced fmt payload = (if strip (text_field fmt payload ''type'') = U ''packet'' then redact_payload payload else payload)"

lemma public_event_reduced: "public_event fmt utc (reduced fmt payload) = public_event fmt utc payload"
  by (simp add: reduced_def public_event_blind)

definition disclosable :: "pydict \<Rightarrow> bool" where
  "disclosable e \<longleftrightarrow> (\<exists>fmt utc payload. public_event fmt utc (reduced fmt payload) = Inr (Some e)) \<or> (\<exists>utc. e = revoked_event utc)"

definition asked_for :: "mobile \<Rightarrow> nat \<Rightarrow> pydict \<Rightarrow> bool" where
  "asked_for s sid e = (case map_of (mob_log_levels s) sid of
       None \<Rightarrow> False | Some wanted \<Rightarrow> wanted \<le> log_rank (get_or e ''level'' PNone))"

text \<open>What the rest of the program hands over: payloads to \<open>record_event\<close>, and log lines.\<close>

definition fed :: "mobile_op \<Rightarrow> bool" where
  "fed op = (case op of
       Op_notify e \<Rightarrow> (\<exists>fmt utc payload. public_event fmt utc payload = Inr (Some e))
     | Op_logs es \<Rightarrow> (\<forall>e \<in> set es. is_log e)
     | _ \<Rightarrow> True)"

definition queue_ok :: "mobile \<Rightarrow> nat \<Rightarrow> pydict list \<Rightarrow> bool" where
  "queue_ok s sid q \<longleftrightarrow> length q \<le> STREAM_QUEUE_SIZE \<and> (\<forall>e \<in> set q. if is_log e then asked_for s sid e else disclosable e)"

definition streams_ok :: "mobile \<Rightarrow> bool" where
  "streams_ok s \<longleftrightarrow> distinct (map fst (mob_subscribers s)) \<and> (\<forall>sid. queue_ok s sid (queue_of s sid))"

lemma queue_put_ok:
  assumes "queue_ok s sid q" "if is_log e then asked_for s sid e else disclosable e"
  shows "queue_ok s sid (queue_put e q)"
  using assms by (auto simp: queue_ok_def queue_put_def STREAM_QUEUE_SIZE_def dest: in_set_dropD)

lemma queue_ok_cong: "mob_log_levels s' = mob_log_levels s \<Longrightarrow> queue_ok s' sid q = queue_ok s sid q"
  by (simp add: queue_ok_def asked_for_def)

lemma streams_ok_frame:
  "streams_ok s \<Longrightarrow> mob_subscribers s' = mob_subscribers s \<Longrightarrow> mob_queues s' = mob_queues s \<Longrightarrow> mob_log_levels s' = mob_log_levels s
    \<Longrightarrow> streams_ok s'"
  by (simp add: streams_ok_def queue_of_def queue_ok_cong [of s' s])

lemma notify_ok:
  assumes "streams_ok s" "is_log e \<or> disclosable e"
  shows "streams_ok (notify_all e t s)"
proof -
  have d: "distinct (map fst (mob_subscribers s))" using assms(1) by (simp add: streams_ok_def)
  have "queue_ok s sid (queue_of (notify_all e t s) sid)" for sid
  proof (cases "\<exists>tok. (sid, tok) \<in> set (mob_subscribers s) \<and> concerns s e t (sid, tok) \<and> \<not> dead_subscriber s t (sid, tok)")
    case True
    then have "if is_log e then asked_for s sid e else disclosable e"
      using assms(2) by (auto simp: concerns_def asked_for_def split: option.splits)
    then have "queue_ok s sid (queue_put e (queue_of s sid))" using assms(1) by (intro queue_put_ok) (simp_all add: streams_ok_def)
    then show ?thesis using True by (simp add: queue_of_def notify_queue [OF d])
  next
    case False
    then have "mob_queues (notify_all e t s) sid = mob_queues s sid" by (subst notify_queue [OF d]) (rule if_not_P)
    then show ?thesis using assms(1) by (simp add: queue_of_def streams_ok_def)
  qed
  then show ?thesis
    using d by (simp add: streams_ok_def queue_ok_cong [of "notify_all e t s" s] notify_subscribers distinct_kept)
qed

lemma publish_ok: "streams_ok s \<Longrightarrow> \<forall>e \<in> set es. is_log e \<Longrightarrow> streams_ok (publish_logs es s)"
proof (induction es arbitrary: s)
  case (Cons e es)
  have "streams_ok (log_line e s)"
    unfolding log_line_def Let_def using Cons.prems by (intro notify_ok) (auto intro: streams_ok_frame)
  then show ?case using Cons by (simp add: publish_logs_def)
qed (simp add: publish_logs_def)

lemma prune_streams [simp]:
  "mob_subscribers (prune now s) = mob_subscribers s" "mob_queues (prune now s) = mob_queues s"
  "mob_log_levels (prune now s) = mob_log_levels s"
  "mob_subscribers (prune_sessions now s) = mob_subscribers s" "mob_queues (prune_sessions now s) = mob_queues s"
  "mob_log_levels (prune_sessions now s) = mob_log_levels s"
  by (simp_all add: prune_def prune_sessions_def)

lemma pairing_streams [simp]:
  "mob_subscribers (set_pairing pid p s) = mob_subscribers s" "mob_queues (set_pairing pid p s) = mob_queues s"
  "mob_log_levels (set_pairing pid p s) = mob_log_levels s"
  "mob_subscribers (drop_pairing pid s) = mob_subscribers s" "mob_queues (drop_pairing pid s) = mob_queues s"
  "mob_log_levels (drop_pairing pid s) = mob_log_levels s"
  by (simp_all add: set_pairing_def drop_pairing_def)

lemma pairing_ops_ok:
  assumes "streams_ok s"
  shows "streams_ok (fst (open_pairing pid client ua utc now s))" "streams_ok (fst (approve_pairing pid draw now s))"
    "streams_ok (fst (verify_pairing pid code client ua token now s))" "streams_ok (fst (view_pairing pid now s))"
    "streams_ok (fst (use_session token now s))" "streams_ok (add_pairing pid now s)" "streams_ok (prune now s)"
  by (rule streams_ok_frame [OF assms];
      simp add: open_pairing_def approve_pairing_def verify_pairing_def view_pairing_def use_session_def add_pairing_def Let_def
        split: option.split)+

lemma revoked_disclosable [simp]: "disclosable (revoked_event utc)"
  by (auto simp: disclosable_def)

lemma ending_ok:
  assumes "streams_ok s"
  shows "streams_ok (server_stop now utc s)" "streams_ok (fst (revoke_session token utc now s))"
proof -
  let ?t = "s\<lparr>mob_server := idle_server, mob_pairings := Map.empty,
    mob_sessions := (\<lambda>t. map_option (\<lambda>m. m\<lparr>ms_revoked := now\<rparr>) (mob_sessions s t))\<rparr>"
  have "streams_ok (notify_all (revoked_event utc) None ?t)"
    by (rule notify_ok [OF streams_ok_frame [OF assms]]) simp_all
  then show "streams_ok (server_stop now utc s)" unfolding server_stop_def by (rule streams_ok_frame) simp_all
  show "streams_ok (fst (revoke_session token utc now s))"
  proof (cases "mob_sessions s token")
    case (Some m)
    have "streams_ok (notify_all (revoked_event utc) (Some token) (s\<lparr>mob_sessions := (mob_sessions s)(token \<mapsto> m\<lparr>ms_revoked := now\<rparr>)\<rparr>))"
      by (rule notify_ok [OF streams_ok_frame [OF assms]]) simp_all
    then show ?thesis by (simp add: revoke_session_def Some)
  qed (use assms in \<open>simp add: revoke_session_def\<close>)
qed

lemma queue_ok_other:
  "map_of (mob_log_levels s') sid = map_of (mob_log_levels s) sid \<Longrightarrow> queue_ok s' sid q = queue_ok s sid q"
  by (simp add: queue_ok_def asked_for_def)

lemma queue_ok_Nil [simp]: "queue_ok s sid []"
  by (simp add: queue_ok_def)

lemma register_ok:
  assumes "streams_ok s" "mob_subscribers s' = AList.update sid token (mob_subscribers s)"
    "mob_queues s' = (mob_queues s)(sid \<mapsto> [])" "mob_log_levels s' = mob_log_levels s \<or> mob_log_levels s' = AList.update sid w (mob_log_levels s)"
  shows "streams_ok s'"
proof -
  have "queue_ok s' k (queue_of s' k)" for k
  proof (cases "k = sid")
    case False
    then have "map_of (mob_log_levels s') k = map_of (mob_log_levels s) k" "queue_of s' k = queue_of s k"
      using assms(3,4) by (auto simp: update_conv' queue_of_def)
    then show ?thesis using assms(1) queue_ok_other [of s' k s] by (simp add: streams_ok_def)
  qed (simp add: queue_of_def assms(3))
  then show ?thesis using assms(1,2) by (simp add: streams_ok_def distinct_update)
qed

lemma stream_ops_ok:
  assumes "streams_ok s"
  shows "streams_ok (fst (stream_open sid token level following recent now s))" "streams_ok (fst (stream_get sid s))"
    "streams_ok (stream_close sid s)"
proof -
  obtain s1 m where u: "use_session token now s = (s1, m)" by (cases "use_session token now s")
  then have ok: "streams_ok s1" using pairing_ops_ok(5) [OF assms, of token now] by simp
  show "streams_ok (fst (stream_open sid token level following recent now s))"
  proof (cases m)
    case (Some m')
    show ?thesis
      by (rule register_ok [OF ok, of _ sid token "log_rank (PStr (the level))"])
        (auto simp: stream_open_def u Some Let_def split: option.split)
  qed (use ok u in \<open>simp add: stream_open_def\<close>)
  have get: "queue_ok s k (queue_of (fst (stream_get sid s)) k)" for k
  proof (cases "queue_of s sid")
    case (Cons e q)
    have "queue_ok s sid (e # q)" using assms Cons by (metis streams_ok_def)
    then have "queue_ok s sid q" "queue_ok s k (queue_of s k)" using assms by (simp_all add: queue_ok_def streams_ok_def)
    moreover have "queue_of (fst (stream_get sid s)) k = (if k = sid then q else queue_of s k)"
      by (simp add: stream_get_def Cons) (simp add: queue_of_def)
    ultimately show ?thesis by simp
  qed (use assms in \<open>simp add: stream_get_def streams_ok_def\<close>)
  have "mob_subscribers (fst (stream_get sid s)) = mob_subscribers s" "mob_log_levels (fst (stream_get sid s)) = mob_log_levels s"
    by (simp_all add: stream_get_def split: list.split)
  then show "streams_ok (fst (stream_get sid s))"
    using assms get by (simp add: streams_ok_def queue_ok_cong [of "fst (stream_get sid s)" s])
  have "queue_ok (stream_close sid s) k (queue_of (stream_close sid s) k)" for k
  proof (cases "k = sid")
    case False
    then have "map_of (mob_log_levels (stream_close sid s)) k = map_of (mob_log_levels s) k" "queue_of (stream_close sid s) k = queue_of s k"
      by (simp_all add: stream_close_def Let_def delete_conv' queue_of_def)
    then show ?thesis using assms queue_ok_other [of "stream_close sid s" k s] by (simp add: streams_ok_def)
  qed (simp add: stream_close_def Let_def queue_of_def)
  moreover have "distinct (map fst (AList.delete sid (mob_subscribers s)))" using assms by (simp add: streams_ok_def distinct_delete)
  ultimately show "streams_ok (stream_close sid s)" by (simp add: streams_ok_def) (simp add: stream_close_def Let_def)
qed

lemma step_ok:
  assumes "streams_ok s" "fed op"
  shows "streams_ok (fst (mobile_step now op s))"
proof (cases op)
  case (Op_notify e)
  then obtain fmt utc payload where "public_event fmt utc payload = Inr (Some e)" using assms(2) by (auto simp: fed_def)
  then have "public_event fmt utc (reduced fmt payload) = Inr (Some e)" by (simp add: public_event_reduced)
  then have "disclosable e" unfolding disclosable_def by blast
  then show ?thesis using Op_notify notify_ok [OF assms(1)] by (simp add: mobile_step_def)
next
  case (Op_logs es)
  then show ?thesis using assms publish_ok by (simp add: mobile_step_def fed_def)
next
  case (Op_listen sel port)
  have "streams_ok (server_listen sel port s)" by (rule streams_ok_frame [OF assms(1)]) (simp_all add: server_listen_def)
  then show ?thesis using Op_listen by (simp add: mobile_step_def)
qed (use pairing_ops_ok [OF assms(1)] ending_ok [OF assms(1)] stream_ops_ok [OF assms(1)] in \<open>simp_all add: mobile_step_def\<close>)


definition log_sample :: pydict where
  "log_sample = [(U ''type'', PStr (U ''log'')), (U ''level'', PStr (U ''ERROR''))]"

definition phone_run :: "(time \<times> mobile_op) list" where
  "phone_run =
     [(1, Op_create (U ''p'')), (2, Op_open (U ''p'') [] [] []), (3, Op_approve (U ''p'') 7), (4, Op_verify (U ''p'') (U ''000007'') [] [] (U ''a'')),
      (5, Op_stream_open 1 (U ''a'') (Some (U ''WARNING'')) False []), (6, Op_logs [log_sample])]"


end
