(* ===== verification/Mobile_Sessions.thy ===== *)
theory Mobile_Sessions
  imports Mobile_Pairing
begin

text \<open>
  Where the sessions of the mobile stream come from: every good session goes back to a pairing a human accepted. The
  argument follows the specification through a run and keeps, for every phase and every session, the part of the run
  that led to it.
\<close>

section \<open>Where a session comes from\<close>

definition resets :: "ustr \<Rightarrow> mobile_op \<Rightarrow> bool" where
  "resets pid op = (case op of Op_stop _ \<Rightarrow> True | Op_create p \<Rightarrow> p = pid | _ \<Rightarrow> False)"

definition knocks :: "ustr \<Rightarrow> mobile_op \<Rightarrow> bool" where
  "knocks pid op = (case op of Op_open p _ _ _ \<Rightarrow> p = pid | _ \<Rightarrow> False)"

definition approves :: "ustr \<Rightarrow> mobile_op \<Rightarrow> bool" where
  "approves pid op = (case op of Op_approve p _ \<Rightarrow> p = pid | _ \<Rightarrow> False)"

definition guesses :: "ustr \<Rightarrow> mobile_op \<Rightarrow> bool" where
  "guesses pid op = (case op of Op_verify p _ _ _ _ \<Rightarrow> p = pid | _ \<Rightarrow> False)"

definition cuts :: "ustr \<Rightarrow> mobile_op \<Rightarrow> bool" where
  "cuts token op = (case op of Op_stop _ \<Rightarrow> True | Op_revoke t _ \<Rightarrow> t = token | _ \<Rightarrow> False)"

definition uses :: "ustr \<Rightarrow> mobile_op \<Rightarrow> bool" where
  "uses token op = (case op of Op_use t \<Rightarrow> t = token | Op_stream_open _ t _ _ _ \<Rightarrow> t = token | _ \<Rightarrow> False)"

definition none_of :: "(mobile_op \<Rightarrow> bool) \<Rightarrow> (time \<times> mobile_op) list \<Rightarrow> bool" where
  "none_of P h = list_all (\<lambda>x. \<not> P (snd x)) h"

text \<open>
  In the run \<open>h\<close> the operator drew pairing \<open>pid\<close>, the device at \<open>client\<close> was the first to open it, and while it was
  on display the operator accepted it at \<open>accepted\<close>, which drew \<open>code\<close>; no code was tried since.
\<close>

definition accepted_by :: "ustr \<Rightarrow> ustr \<Rightarrow> ustr \<Rightarrow> time \<Rightarrow> (time \<times> mobile_op) list \<Rightarrow> bool" where
  "accepted_by pid client code accepted h \<longleftrightarrow>
     (\<exists>before drawn waiting knocked ua utc shown draw after.
        h = before @ [(drawn, Op_create pid)] @ waiting @ [(knocked, Op_open pid client ua utc)] @ shown
              @ [(accepted, Op_approve pid draw)] @ after
        \<and> none_of (resets pid) (waiting @ shown @ after)
        \<and> none_of (knocks pid) waiting \<and> none_of (approves pid) shown \<and> none_of (guesses pid) after
        \<and> accepted < drawn + PAIRING_APPROVAL_TTL_SECONDS \<and> code = six_digits draw)"

text \<open>The same for each phase, with the operations that come too late for it.\<close>

definition late :: "(mobile_op \<Rightarrow> bool) \<Rightarrow> time \<Rightarrow> (time \<times> mobile_op) list \<Rightarrow> bool" where
  "late P d h \<longleftrightarrow> (\<forall>x \<in> set h. P (snd x) \<longrightarrow> d \<le> fst x)"

definition moves :: "ustr \<Rightarrow> pairing_phase \<Rightarrow> mobile_op \<Rightarrow> bool" where
  "moves pid ph op = (case ph of
       Drawn \<Rightarrow> knocks pid op | Knocked _ \<Rightarrow> approves pid op | Accepted _ _ \<Rightarrow> guesses pid op | Spent \<Rightarrow> False)"

definition drawn_story :: "ustr \<Rightarrow> time \<Rightarrow> (time \<times> mobile_op) list \<Rightarrow> (time \<times> mobile_op) list \<Rightarrow> bool" where
  "drawn_story pid d h waiting \<longleftrightarrow> (\<exists>before drawn.
     h = before @ [(drawn, Op_create pid)] @ waiting \<and> d = drawn + PAIRING_APPROVAL_TTL_SECONDS \<and> none_of (resets pid) waiting)"

definition knocked_story :: "ustr \<Rightarrow> ustr \<Rightarrow> time \<Rightarrow> (time \<times> mobile_op) list \<Rightarrow> (time \<times> mobile_op) list \<Rightarrow> bool" where
  "knocked_story pid client d h shown \<longleftrightarrow> (\<exists>h1 waiting knocked ua utc.
     h = h1 @ [(knocked, Op_open pid client ua utc)] @ shown \<and> drawn_story pid d h1 waiting
     \<and> none_of (knocks pid) waiting \<and> none_of (resets pid) shown)"

definition accepted_story :: "ustr \<Rightarrow> ustr \<Rightarrow> ustr \<Rightarrow> time \<Rightarrow> (time \<times> mobile_op) list \<Rightarrow> (time \<times> mobile_op) list \<Rightarrow> bool" where
  "accepted_story pid client code accepted h after \<longleftrightarrow> (\<exists>h1 d shown draw.
     h = h1 @ [(accepted, Op_approve pid draw)] @ after \<and> knocked_story pid client d h1 shown \<and> accepted < d
     \<and> none_of (approves pid) shown \<and> none_of (resets pid) after \<and> code = six_digits draw)"

definition phase_story :: "ustr \<Rightarrow> pairing_phase \<Rightarrow> time \<Rightarrow> (time \<times> mobile_op) list \<Rightarrow> bool" where
  "phase_story pid ph d h = (case ph of
       Drawn \<Rightarrow> (\<exists>rest. drawn_story pid d h rest \<and> late (moves pid ph) d rest)
     | Knocked c \<Rightarrow> (\<exists>rest. knocked_story pid c d h rest \<and> late (moves pid ph) d rest)
     | Accepted c k \<Rightarrow> (\<exists>t rest. d = t + PAIRING_TTL_SECONDS \<and> accepted_story pid c k t h rest \<and> late (moves pid ph) d rest)
     | Spent \<Rightarrow> True)"

definition backed_session :: "ustr \<Rightarrow> time \<Rightarrow> time \<Rightarrow> (time \<times> mobile_op) list \<Rightarrow> bool" where
  "backed_session token created used h \<longleftrightarrow>
     (\<exists>h1 pid code client ua h2 c k accepted. h = h1 @ [(created, Op_verify pid code client ua token)] @ h2
        \<and> accepted_by pid c k accepted h1 \<and> created < accepted + PAIRING_TTL_SECONDS \<and> (c = [] \<or> client = c) \<and> strip code = k
        \<and> none_of (cuts token) h2 \<and> (used = created \<or> (\<exists>op. (used, op) \<in> set h2 \<and> uses token op)))"

definition session_story :: "ustr \<Rightarrow> time \<times> time \<times> bool \<Rightarrow> (time \<times> mobile_op) list \<Rightarrow> bool" where
  "session_story token k h = (case k of (created, used, revoked) \<Rightarrow> revoked \<or> backed_session token created used h)"

lemma none_of_simps [simp]:
  "none_of P []" "none_of P (x # h) \<longleftrightarrow> \<not> P (snd x) \<and> none_of P h" "none_of P (h @ h') \<longleftrightarrow> none_of P h \<and> none_of P h'"
  by (simp_all add: none_of_def)

lemma late_simps [simp]: "late P d []" "late P d (h @ [x]) \<longleftrightarrow> late P d h \<and> (P (snd x) \<longrightarrow> d \<le> fst x)"
  by (auto simp: late_def)

lemma late_none:
  assumes "late P d h" "\<And>x. x \<in> set h \<Longrightarrow> fst x < d"
  shows "none_of P h"
  using assms by (force simp: late_def none_of_def list_all_iff)

lemma drawn_story_snoc: "drawn_story pid d h w \<Longrightarrow> \<not> resets pid (snd x) \<Longrightarrow> drawn_story pid d (h @ [x]) (w @ [x])"
  unfolding drawn_story_def by (elim exE conjE, intro exI conjI) (auto simp: none_of_def)

lemma knocked_story_snoc: "knocked_story pid c d h w \<Longrightarrow> \<not> resets pid (snd x) \<Longrightarrow> knocked_story pid c d (h @ [x]) (w @ [x])"
  unfolding knocked_story_def by (elim exE conjE, intro exI conjI) (auto simp: none_of_def)

lemma accepted_story_snoc:
  "accepted_story pid c k t h w \<Longrightarrow> \<not> resets pid (snd x) \<Longrightarrow> accepted_story pid c k t (h @ [x]) (w @ [x])"
  unfolding accepted_story_def by (elim exE conjE, intro exI conjI) (auto simp: none_of_def)

lemma phase_story_snoc:
  assumes "phase_story pid ph d h" "\<not> resets pid (snd x)" "moves pid ph (snd x) \<Longrightarrow> d \<le> fst x"
  shows "phase_story pid ph d (h @ [x])"
proof (cases ph)
  case Drawn
  then obtain rest where "drawn_story pid d h rest" "late (moves pid ph) d rest" using assms(1) by (auto simp: phase_story_def)
  then have "drawn_story pid d (h @ [x]) (rest @ [x]) \<and> late (moves pid ph) d (rest @ [x])"
    using assms(2,3) drawn_story_snoc by auto
  then show ?thesis using Drawn by (auto simp: phase_story_def)
next
  case (Knocked c)
  then obtain rest where "knocked_story pid c d h rest" "late (moves pid ph) d rest" using assms(1) by (auto simp: phase_story_def)
  then have "knocked_story pid c d (h @ [x]) (rest @ [x]) \<and> late (moves pid ph) d (rest @ [x])"
    using assms(2,3) knocked_story_snoc by auto
  then show ?thesis using Knocked by (auto simp: phase_story_def)
next
  case (Accepted c k)
  then obtain t rest where "d = t + PAIRING_TTL_SECONDS" "accepted_story pid c k t h rest" "late (moves pid ph) d rest"
    using assms(1) by (auto simp: phase_story_def)
  then have "d = t + PAIRING_TTL_SECONDS \<and> accepted_story pid c k t (h @ [x]) (rest @ [x]) \<and> late (moves pid ph) d (rest @ [x])"
    using assms(2,3) accepted_story_snoc by auto
  then show ?thesis unfolding phase_story_def Accepted by auto
qed (simp add: phase_story_def)

lemma story_times:
  assumes "sorted (map fst (h @ [(now, op)]))"
  shows "drawn_story pid d h w \<Longrightarrow> x \<in> set w \<Longrightarrow> fst x \<le> now"
    "knocked_story pid c d h w \<Longrightarrow> x \<in> set w \<Longrightarrow> fst x \<le> now"
    "accepted_story pid c k t h w \<Longrightarrow> x \<in> set w \<Longrightarrow> fst x \<le> now"
  using assms by (auto simp: drawn_story_def knocked_story_def accepted_story_def sorted_append)

lemma accepted_by_story: "accepted_story pid c k t h w \<Longrightarrow> none_of (guesses pid) w \<Longrightarrow> accepted_by pid c k t h"
  unfolding accepted_story_def knocked_story_def drawn_story_def accepted_by_def
  by (elim exE conjE, intro exI conjI) (assumption | simp)+

lemma knock_story:
  assumes "phase_story pid Drawn d h" "sorted (map fst (h @ [(now, op)]))" "now < d" "op = Op_open pid c ua utc"
  shows "phase_story pid (Knocked c) d (h @ [(now, op)])"
proof -
  obtain w where w: "drawn_story pid d h w" "late (moves pid Drawn) d w" using assms(1) by (auto simp: phase_story_def)
  have "none_of (moves pid Drawn) w"
    using w(2) by (rule late_none) (use story_times(1) [OF assms(2) w(1)] assms(3) in force)
  then have "none_of (knocks pid) w" by (simp add: moves_def none_of_def)
  then have "knocked_story pid c d (h @ [(now, op)]) []"
    unfolding knocked_story_def assms(4) using w(1) by (intro exI conjI) (rule append_assoc [symmetric] refl | simp)+
  then show ?thesis by (auto simp: phase_story_def intro!: exI [of _ "[]"])
qed

lemma accept_story:
  assumes "phase_story pid (Knocked c) d h" "sorted (map fst (h @ [(now, op)]))" "now < d" "op = Op_approve pid draw"
  shows "phase_story pid (Accepted c (six_digits draw)) (now + PAIRING_TTL_SECONDS) (h @ [(now, op)])"
proof -
  obtain w where w: "knocked_story pid c d h w" "late (moves pid (Knocked c)) d w" using assms(1) by (auto simp: phase_story_def)
  have "none_of (moves pid (Knocked c)) w"
    using w(2) by (rule late_none) (use story_times(2) [OF assms(2) w(1)] assms(3) in force)
  then have "none_of (approves pid) w" by (simp add: moves_def none_of_def)
  then have "accepted_story pid c (six_digits draw) now (h @ [(now, op)]) []"
    unfolding accepted_story_def assms(4) using w(1) assms(3) by (intro exI conjI) (rule refl | simp)+
  then show ?thesis by (auto simp: phase_story_def intro!: exI [of _ "[]"])
qed

lemma grant_story:
  assumes "phase_story pid (Accepted c k) d h" "sorted (map fst (h @ [(now, op)]))" "now < d"
  shows "\<exists>t. accepted_by pid c k t h \<and> now < t + PAIRING_TTL_SECONDS"
proof -
  obtain t w where w: "d = t + PAIRING_TTL_SECONDS" "accepted_story pid c k t h w" "late (moves pid (Accepted c k)) d w"
    using assms(1) by (auto simp: phase_story_def)
  have "none_of (moves pid (Accepted c k)) w"
    using w(3) by (rule late_none) (use story_times(3) [OF assms(2) w(2)] assms(3) in force)
  then have "none_of (guesses pid) w" by (simp add: moves_def none_of_def)
  then show ?thesis using accepted_by_story [OF w(2)] w(1) assms(3) by blast
qed

text \<open>What a step does to the phase of a pairing and to the key of a session.\<close>

lemma live_phase_Some: "live_phase now pid a = Some (ph, d) \<longleftrightarrow> sp_pairings a pid = Some (ph, d) \<and> ph \<noteq> Spent \<and> now < d"
  by (auto simp: live_phase_def split: option.splits)

lemma phase_frames [simp]:
  "sp_pairings (fst (spec_use token now a)) = sp_pairings a" "sp_sessions (set_phase pid x a) = sp_sessions a"
  "sp_sessions (fst (spec_open p c now a)) = sp_sessions a" "sp_sessions (fst (spec_approve p draw now a)) = sp_sessions a"
  "sp_pairings (set_phase p x a) = (sp_pairings a)(p \<mapsto> x)"
  by (simp_all add: spec_use_def set_phase_def spec_open_def spec_approve_def split: option.split pairing_phase.split)

lemma live_phase_None: "live_phase now pid a = None \<Longrightarrow> sp_pairings a pid = Some (ph, d) \<Longrightarrow> ph \<noteq> Spent \<Longrightarrow> d \<le> now"
  by (auto simp: live_phase_def split: if_splits)

lemma open_phase:
  assumes "sp_pairings (fst (spec_open p c now a)) pid = Some (ph, d)"
  shows "sp_pairings a pid = Some (ph, d) \<and> (moves pid ph (Op_open p c ua utc) \<longrightarrow> d \<le> now)
    \<or> p = pid \<and> ph = Knocked c \<and> sp_pairings a pid = Some (Drawn, d) \<and> now < d"
  using assms by (auto simp: spec_open_def moves_def knocks_def approves_def guesses_def live_phase_Some live_phase_None
      split: option.splits pairing_phase.splits if_splits)

lemma approve_phase:
  assumes "sp_pairings (fst (spec_approve p draw now a)) pid = Some (ph, d)"
  shows "sp_pairings a pid = Some (ph, d) \<and> (moves pid ph (Op_approve p draw) \<longrightarrow> d \<le> now)
    \<or> p = pid \<and> d = now + PAIRING_TTL_SECONDS
        \<and> (\<exists>c d0. ph = Accepted c (six_digits draw) \<and> sp_pairings a pid = Some (Knocked c, d0) \<and> now < d0)"
  using assms by (auto simp: spec_approve_def moves_def knocks_def approves_def guesses_def live_phase_Some live_phase_None
      split: option.splits pairing_phase.splits if_splits)

lemma verify_phase:
  assumes "sp_pairings (fst (spec_verify p code c token now a)) pid = Some (ph, d)"
  shows "sp_pairings a pid = Some (ph, d) \<and> (moves pid ph (Op_verify p code c ua token) \<longrightarrow> d \<le> now) \<or> ph = Spent"
  using assms by (auto simp: spec_verify_def moves_def knocks_def approves_def guesses_def live_phase_Some live_phase_None Let_def
      split: option.splits pairing_phase.splits if_splits)

lemma moves_other [simp]:
  "\<not> moves pid ph (Op_stop utc)" "\<not> moves pid ph (Op_listen sel port)" "\<not> moves pid ph Op_status" "\<not> moves pid ph (Op_create p)"
  "\<not> moves pid ph (Op_view p)" "\<not> moves pid ph (Op_revoke t utc)" "\<not> moves pid ph (Op_use t)" "\<not> moves pid ph (Op_notify e)"
  "\<not> moves pid ph (Op_logs es)" "\<not> moves pid ph (Op_stream_open sid t level following recent)"
  "\<not> moves pid ph (Op_stream_get sid)" "\<not> moves pid ph (Op_stream_close sid)"
  by (simp_all add: moves_def knocks_def approves_def guesses_def split: pairing_phase.split)

lemma verify_session:
  assumes "sp_sessions (fst (spec_verify p code c t now a)) token = Some k"
  shows "sp_sessions a token = Some k
    \<or> t = token \<and> k = (now, now, False)
      \<and> (\<exists>c' d. sp_pairings a p = Some (Accepted c' (strip code), d) \<and> now < d \<and> (c' = [] \<or> c = c'))"
proof (cases "live_phase now p a")
  case (Some x)
  then obtain ph d where ph: "live_phase now p a = Some (ph, d)" by (cases x) auto
  show ?thesis
  proof (cases ph)
    case (Accepted c' k')
    have phase: "sp_pairings a p = Some (Accepted c' k', d)" "now < d" using ph Accepted by (simp_all add: live_phase_Some)
    show ?thesis
    proof (cases "(c' = [] \<or> c = c') \<and> strip code = k'")
      case True
      then show ?thesis using assms phase unfolding spec_verify_def ph Accepted by (simp split: if_splits)
    next
      case False
      then show ?thesis using assms unfolding spec_verify_def ph Accepted by (simp add: if_not_P)
    qed
  qed (use assms ph in \<open>simp_all add: spec_verify_def\<close>)
qed (use assms in \<open>simp add: spec_verify_def\<close>)

lemma use_keeps:
  assumes "sp_sessions (fst (spec_use t now a)) token = Some k"
  shows "sp_sessions a token = Some k \<or> t = token \<and> (\<exists>c u. sp_sessions a token = Some (c, u, False) \<and> k = (c, now, False))"
proof (cases "sp_sessions a t")
  case (Some x)
  obtain c u r where x: "x = (c, u, r)" by (cases x)
  show ?thesis
  proof (cases "session_dead now (c, u, r)")
    case False
    then have "\<not> r" by (simp add: session_dead_def)
    then show ?thesis using assms Some x False by (auto simp: spec_use_def split: if_splits)
  qed (use assms Some x in \<open>simp add: spec_use_def\<close>)
qed (use assms in \<open>simp add: spec_use_def\<close>)

lemma step_phase:
  assumes "sp_pairings (fst (spec_step now op a)) pid = Some (ph, d)"
  obtains (same) "sp_pairings a pid = Some (ph, d)" "\<not> resets pid op" "moves pid ph op \<Longrightarrow> d \<le> now"
  | (drawn) "op = Op_create pid" "ph = Drawn" "d = now + PAIRING_APPROVAL_TTL_SECONDS"
  | (knocked) c ua utc where "op = Op_open pid c ua utc" "ph = Knocked c" "sp_pairings a pid = Some (Drawn, d)" "now < d"
  | (accepted) c d0 draw where "op = Op_approve pid draw" "ph = Accepted c (six_digits draw)" "d = now + PAIRING_TTL_SECONDS"
      "sp_pairings a pid = Some (Knocked c, d0)" "now < d0"
  | (spent) "ph = Spent"
proof (cases op)
  case (Op_create p)
  then show thesis using assms that(1,2) by (cases "p = pid") (auto simp: spec_step_def resets_def)
next
  case (Op_open p c ua utc)
  then show thesis using open_phase [of p c now a pid ph d ua utc] assms that(1,3) by (auto simp: spec_step_def resets_def)
next
  case (Op_approve p draw)
  then show thesis using approve_phase [of p draw now a pid ph d] assms that(1,4) by (auto simp: spec_step_def resets_def)
next
  case (Op_verify p code c ua token)
  then show thesis using verify_phase [of p code c token now a pid ph d ua] assms that(1,5) by (auto simp: spec_step_def resets_def)
qed (use assms that(1) in \<open>auto simp: spec_step_def resets_def\<close>)

lemma step_session:
  assumes "sp_sessions (fst (spec_step now op a)) token = Some (created, used, False)"
  obtains (same) "sp_sessions a token = Some (created, used, False)" "\<not> cuts token op"
  | (use) u where "sp_sessions a token = Some (created, u, False)" "used = now" "uses token op" "\<not> cuts token op"
  | (grant) pid code client ua c k d where "op = Op_verify pid code client ua token" "created = now" "used = now"
      "sp_pairings a pid = Some (Accepted c k, d)" "now < d" "c = [] \<or> client = c" "strip code = k"
proof (cases op)
  case (Op_stop utc)
  then show thesis using assms by (auto simp: spec_step_def revoke_key_def split: prod.splits)
next
  case (Op_revoke t utc)
  then show thesis using assms that(1) by (auto simp: spec_step_def revoke_key_def cuts_def split: prod.splits if_splits)
next
  case (Op_verify pid code client ua t)
  then have "sp_sessions (fst (spec_verify pid code client t now a)) token = Some (created, used, False)"
    using assms by (simp add: spec_step_def)
  from verify_session [OF this] show thesis
  proof
    assume "sp_sessions a token = Some (created, used, False)"
    then show thesis using Op_verify by (intro that(1)) (simp_all add: cuts_def)
  next
    assume g: "t = token \<and> (created, used, False) = (now, now, False)
      \<and> (\<exists>c' d. sp_pairings a pid = Some (Accepted c' (strip code), d) \<and> now < d \<and> (c' = [] \<or> client = c'))"
    then obtain c' d where "sp_pairings a pid = Some (Accepted c' (strip code), d)" "now < d" "c' = [] \<or> client = c'" by blast
    with g Op_verify show thesis by (intro that(3) [of pid code client ua]) simp_all
  qed
next
  case (Op_use t)
  then have "sp_sessions (fst (spec_use t now a)) token = Some (created, used, False)" using assms by (simp add: spec_step_def)
  from use_keeps [OF this] show thesis
    using Op_use by (elim disjE conjE exE) (rule that(1) that(2), auto simp: cuts_def uses_def)+
next
  case (Op_stream_open sid t level following recent)
  then have "sp_sessions (fst (spec_use t now a)) token = Some (created, used, False)" using assms by (simp add: spec_step_def)
  from use_keeps [OF this] show thesis
    using Op_stream_open by (elim disjE conjE exE) (rule that(1) that(2), auto simp: cuts_def uses_def)+
qed (use assms that(1) in \<open>auto simp: spec_step_def cuts_def\<close>)

definition spec_story :: "(time \<times> mobile_op) list \<Rightarrow> mobile_spec \<Rightarrow> bool" where
  "spec_story h a \<longleftrightarrow>
     (\<forall>pid ph d. sp_pairings a pid = Some (ph, d) \<longrightarrow> phase_story pid ph d h)
     \<and> (\<forall>token k. sp_sessions a token = Some k \<longrightarrow> session_story token k h)"

lemma backed_sessionI:
  assumes "accepted_by pid c k accepted h1" "created < accepted + PAIRING_TTL_SECONDS" "c = [] \<or> client = c" "strip code = k"
    "none_of (cuts token) h2" "used = created \<or> (\<exists>op. (used, op) \<in> set h2 \<and> uses token op)"
  shows "backed_session token created used (h1 @ [(created, Op_verify pid code client ua token)] @ h2)"
  unfolding backed_session_def using assms by blast

lemma backed_session_snoc:
  assumes "backed_session token created u h" "\<not> cuts token op" "used = u \<or> used = now \<and> uses token op"
  shows "backed_session token created used (h @ [(now, op)])"
proof -
  from assms(1) obtain h1 pid code client ua h2 c k accepted where s: "h = h1 @ [(created, Op_verify pid code client ua token)] @ h2" "accepted_by pid c k accepted h1"
    "created < accepted + PAIRING_TTL_SECONDS" "c = [] \<or> client = c" "strip code = k" "none_of (cuts token) h2"
    "u = created \<or> (\<exists>op. (u, op) \<in> set h2 \<and> uses token op)"
    unfolding backed_session_def by blast
  have "backed_session token created used (h1 @ [(created, Op_verify pid code client ua token)] @ h2 @ [(now, op)])"
    by (rule backed_sessionI [OF s(2-5)]) (use s(6,7) assms(2,3) in auto)
  then show ?thesis using s(1) by simp
qed

lemma spec_story_step:
  assumes "spec_story h a" "sorted (map fst (h @ [(now, op)]))"
  shows "spec_story (h @ [(now, op)]) (fst (spec_step now op a))"
  unfolding spec_story_def
proof (intro conjI allI impI)
  fix pid ph d assume "sp_pairings (fst (spec_step now op a)) pid = Some (ph, d)"
  then show "phase_story pid ph d (h @ [(now, op)])"
  proof (cases rule: step_phase)
    case same
    then show ?thesis using assms(1) by (intro phase_story_snoc) (auto simp: spec_story_def)
  next
    case drawn
    then have "drawn_story pid d (h @ [(now, op)]) []"
      unfolding drawn_story_def by (intro exI [of _ h] exI [of _ now]) simp
    then show ?thesis using drawn(2) by (auto simp: phase_story_def intro!: exI [of _ "[]"])
  next
    case (knocked c ua utc)
    then show ?thesis using assms knock_story [of pid d h now op c ua utc] by (simp add: spec_story_def)
  next
    case (accepted c d0 draw)
    then show ?thesis using assms accept_story [of pid c d0 h now op draw] by (simp add: spec_story_def)
  qed (simp add: phase_story_def)
next
  fix token k assume k: "sp_sessions (fst (spec_step now op a)) token = Some k"
  obtain created used revoked where [simp]: "k = (created, used, revoked)" by (cases k)
  show "session_story token k (h @ [(now, op)])"
  proof (cases revoked)
    case False
    with k have "sp_sessions (fst (spec_step now op a)) token = Some (created, used, False)" by simp
    then show ?thesis
    proof (cases rule: step_session)
      case same
      then have "session_story token (created, used, False) h" using assms(1) by (simp add: spec_story_def)
      then show ?thesis using same(2) False backed_session_snoc [of token created used h op used now] by (simp add: session_story_def)
    next
      case (use u)
      then have "session_story token (created, u, False) h" using assms(1) by (simp add: spec_story_def)
      then show ?thesis using use False backed_session_snoc [of token created u h op used now] by (simp add: session_story_def)
    next
      case (grant pid code client ua c k d)
      then obtain t where "accepted_by pid c k t h" "now < t + PAIRING_TTL_SECONDS"
        using grant_story [of pid c k d h now op] assms by (auto simp: spec_story_def)
      then have "backed_session token created used (h @ [(now, op)])"
        using backed_sessionI [of pid c k t h created client code token "[]" used ua] grant by simp
      then show ?thesis by (simp add: session_story_def)
    qed
  qed (simp add: session_story_def)
qed

lemma fst_run_snoc: "fst (run step s (h @ [(now, e)])) = fst (step now e (fst (run step s h)))"
  by (simp add: run_append split: prod.split)

lemma run_story: "sorted (map fst h) \<Longrightarrow> spec_story h (fst (run spec_step new_spec h))"
proof (induction h rule: rev_induct)
  case Nil
  show ?case by (simp add: spec_story_def new_spec_def)
next
  case (snoc x h)
  obtain now op where [simp]: "x = (now, op)" by (cases x)
  show ?case using snoc spec_story_step [of h _ now op] by (simp add: fst_run_snoc sorted_append)
qed

section \<open>Properties\<close>

lemma run_related:
  assumes "sorted (map fst h)" "\<forall>x \<in> set h. 0 < fst x" "\<forall>x \<in> set h. fst x \<le> now" "0 < now"
  shows "spec_rel now (fst (run mobile_step new_mobile h)) (fst (run spec_step new_spec h))
    \<and> map observe_out (snd (run mobile_step new_mobile h)) = snd (run spec_step new_spec h)"
proof -
  have start: "spec_rel 0 new_mobile new_spec"
    by (simp add: spec_rel_def new_mobile_def new_spec_def pairing_rel_def session_rel_def)
  have "sorted (0 # map fst h)" using assms(1,2) by (auto intro: less_imp_le)
  from run_simulates [OF start this] assms(2)
  have "spec_rel (last (0 # map fst h)) (fst (run mobile_step new_mobile h)) (fst (run spec_step new_spec h))
    \<and> map observe_out (snd (run mobile_step new_mobile h)) = snd (run spec_step new_spec h)" by blast
  moreover have "last (0 # map fst h) \<le> now"
    using assms(3,4) by (cases h rule: rev_cases) auto
  ultimately show ?thesis by (blast intro: spec_rel_mono)
qed

text \<open>
  C7. The service refines its specification. While the clock does not run backwards, every sequence of operations
  gives what the specification gives in which nothing is ever swept: which phase of a pairing the phone and the operator
  see, with the device and the code shown; whether a code is accepted; whether a session is good. In particular a
  pairing takes one guess, and the moment at which the dictionaries are swept makes no difference.
\<close>

theorem mobile_refines:
  assumes "sorted (map fst h)" "\<forall>x \<in> set h. 0 < fst x"
  shows "map observe_out (snd (run mobile_step new_mobile h)) = snd (run spec_step new_spec h)"
proof -
  have "\<forall>x \<in> set h. fst x \<le> Max (insert 1 (fst ` set h))" by simp
  moreover have "0 < Max (insert (1 :: time) (fst ` set h))" by (rule less_le_trans [of _ 1]) simp_all
  ultimately show ?thesis using run_related [OF assms] by blast
qed

definition sample_run :: "(time \<times> mobile_op) list" where
  "sample_run =
     [(10, Op_create (U ''p'')), (20, Op_open (U ''p'') (U ''192.0.2.7'') (U ''phone'') (U ''t'')), (30, Op_approve (U ''p'') 42),
      (40, Op_verify (U ''p'') (U '' 000042'') (U ''192.0.2.7'') (U ''phone'') (U ''tok'')),
      (50, Op_verify (U ''p'') (U ''000042'') (U ''192.0.2.7'') (U ''phone'') (U ''again''))]"

lemma sample_code: "six_digits 42 = U ''000042''"
proof -
  have "dec 4 = [52]" by (subst dec.simps) simp
  moreover have "dec 42 = dec 4 @ [50]" by (subst dec.simps) simp
  ultimately have "dec 42 = [52, 50]" by simp
  moreover have "replicate 4 48 = [48, 48, 48, 48 :: nat]" by (simp add: numeral_eq_Suc)
  ultimately show ?thesis by (simp add: six_digits_def U_def)
qed

lemma sample_strip: "strip (U '' 000042'') = U ''000042''" "strip (U ''000042'') = U ''000042''"
  by (simp_all add: strip_by_def lstrip_by_def rstrip_by_def is_space_def U_def)

lemmas sample_evaluation = sample_run_def sample_code sample_strip spec_step_def spec_open_def spec_approve_def spec_verify_def
  live_phase_def set_phase_def new_spec_def PAIRING_TTL_SECONDS_def PAIRING_APPROVAL_TTL_SECONDS_def

lemma sample_spec:
  "snd (run spec_step new_spec sample_run) =
     [Saw_nothing, Saw_pairing (Some (Knocked (U ''192.0.2.7''))), Saw_pairing (Some (Accepted (U ''192.0.2.7'') (U ''000042''))),
      Saw_token (Some (U ''tok'')), Saw_token None]"
  "sp_sessions (fst (run spec_step new_spec sample_run)) (U ''tok'') = Some (40, 40, False)"
  by (simp_all add: sample_evaluation)

lemma mobile_refines_witness:
  "map observe_out (snd (run mobile_step new_mobile sample_run)) =
     [Saw_nothing, Saw_pairing (Some (Knocked (U ''192.0.2.7''))), Saw_pairing (Some (Accepted (U ''192.0.2.7'') (U ''000042''))),
      Saw_token (Some (U ''tok'')), Saw_token None]"
  using mobile_refines [of sample_run] by (simp add: sample_spec(1)) (simp add: sample_run_def)

definition admitted :: "ustr \<Rightarrow> time \<Rightarrow> (time \<times> mobile_op) list \<Rightarrow> bool" where
  "admitted token now h \<longleftrightarrow> (\<exists>created used. backed_session token created used h
     \<and> now \<le> created + MOBILE_SESSION_ABSOLUTE_TTL_SECONDS \<and> now \<le> used + MOBILE_SESSION_IDLE_TTL_SECONDS)"

text \<open>The clock of a run, and of the moment after it.\<close>

definition clocked :: "(time \<times> mobile_op) list \<Rightarrow> time \<Rightarrow> bool" where
  "clocked h now \<longleftrightarrow> sorted (map fst h @ [now]) \<and> list_all (\<lambda>x. 0 < fst x) h \<and> 0 < now"

lemma clocked_related:
  assumes "clocked h now"
  shows "spec_rel now (fst (run mobile_step new_mobile h)) (fst (run spec_step new_spec h))"
    and "spec_story h (fst (run spec_step new_spec h))"
  using run_related [of h now] run_story [of h] assms by (auto simp: clocked_def sorted_append list_all_iff)

lemma good_session_backed:
  assumes "clocked h now" "snd (use_session token now (fst (run mobile_step new_mobile h))) \<noteq> None"
  shows "admitted token now h"
proof -
  let ?a = "fst (run spec_step new_spec h)"
  from sim_use [OF clocked_related(1) [OF assms(1)], of token] have "snd (spec_use token now ?a) = Saw_session True"
    using assms(2) by simp
  then obtain created used where k: "sp_sessions ?a token = Some (created, used, False)" "\<not> session_dead now (created, used, False)"
    by (auto simp: spec_use_def session_dead_def split: option.splits if_splits)
  have "backed_session token created used h"
    using clocked_related(2) [OF assms(1)] k(1) by (simp add: spec_story_def session_story_def, blast)
  moreover have "now \<le> created + MOBILE_SESSION_ABSOLUTE_TTL_SECONDS" "now \<le> used + MOBILE_SESSION_IDLE_TTL_SECONDS"
    using k(2) by (simp_all add: session_dead_def algebra_simps)
  ultimately show ?thesis unfolding admitted_def by blast
qed

text \<open>
  C4. A phone is let in only after a human accepted it. When a session is good, the run contains, in this order: the
  drawing of a pairing; the first device to open it; the operator accepting it while it was on display, which drew the
  code; and as the very first guess after that, within 60 seconds, exactly that code, from that device (unless its address
  was unknown). Since then the session was neither revoked nor ended by a stop, it is at most 30 days old, and it was
  used within the last 24 hours.
\<close>

theorem session_was_approved:
  assumes "clocked h now" "snd (use_session token now (fst (run mobile_step new_mobile h))) \<noteq> None"
  shows "\<exists>h1 created pid code client ua h2 c k accepted used. h = h1 @ [(created, Op_verify pid code client ua token)] @ h2
      \<and> accepted_by pid c k accepted h1 \<and> created < accepted + PAIRING_TTL_SECONDS \<and> (c = [] \<or> client = c) \<and> strip code = k
      \<and> none_of (cuts token) h2 \<and> now \<le> created + MOBILE_SESSION_ABSOLUTE_TTL_SECONDS
      \<and> (used = created \<or> (\<exists>op. (used, op) \<in> set h2 \<and> uses token op)) \<and> now \<le> used + MOBILE_SESSION_IDLE_TTL_SECONDS"
  using good_session_backed [OF assms] unfolding admitted_def backed_session_def by blast

lemma sample_admits: "snd (use_session (U ''tok'') 60 (fst (run mobile_step new_mobile sample_run))) \<noteq> None"
proof -
  have "spec_rel 60 (fst (run mobile_step new_mobile sample_run)) (fst (run spec_step new_spec sample_run))"
    using run_related [of sample_run 60] by (simp add: sample_run_def)
  from sim_use [OF this, of "U ''tok''"] show ?thesis
    by (simp add: spec_use_def sample_spec(2) session_dead_def MOBILE_SESSION_IDLE_TTL_SECONDS_def MOBILE_SESSION_ABSOLUTE_TTL_SECONDS_def)
qed

lemma session_was_approved_witness:
  "\<exists>h1 created pid code client ua h2 c k accepted used.
     sample_run = h1 @ [(created, Op_verify pid code client ua (U ''tok''))] @ h2
      \<and> accepted_by pid c k accepted h1 \<and> created < accepted + PAIRING_TTL_SECONDS \<and> (c = [] \<or> client = c) \<and> strip code = k
      \<and> none_of (cuts (U ''tok'')) h2 \<and> 60 \<le> created + MOBILE_SESSION_ABSOLUTE_TTL_SECONDS
      \<and> (used = created \<or> (\<exists>op. (used, op) \<in> set h2 \<and> uses (U ''tok'') op)) \<and> 60 \<le> used + MOBILE_SESSION_IDLE_TTL_SECONDS"
  by (rule session_was_approved [OF _ sample_admits]) (simp add: clocked_def sample_run_def)

end
