(* ===== verification/Mobile_Routes.thy ===== *)
theory Mobile_Routes
  imports Mobile_Sessions
begin

text \<open>
  The pages of the mobile stream (\<open>_build_mobile_app\<close> of \<^verbatim>\<open>mobile_stream.py\<close>): which route a path names, what each
  handler answers, and that every answer that discloses something is backed by an approval. The framework resolves a
  route by its exact path and hands over the parsed query; whether it accepts the method is an argument. A page is
  its kind with the token written into it.
\<close>

section \<open>Requests and answers\<close>

record mobile_request =
  rq_path :: ustr
  rq_method :: ustr
  rq_query :: "(ustr \<times> ustr) list"
  rq_headers :: "(ustr \<times> ustr) list"
  rq_body :: bytes
  rq_client :: "ustr option"

datatype mobile_answer =
    Ca_pem ustr
  | Ca_download ustr
  | No_certificate
  | Certificate_page ustr
  | Forbidden
  | Link_closed
  | Awaiting_page
  | Code_page
  | Wrong_code
  | To_session ustr
  | Session_page ustr
  | Session_over
  | Event_stream ustr "ustr option"
  | Not_found
  | Method_refused

definition query_or_empty :: "mobile_request \<Rightarrow> string \<Rightarrow> ustr" where
  "query_or_empty rq key = (case map_of (rq_query rq) (U key) of None \<Rightarrow> [] | Some v \<Rightarrow> v)"

definition request_header :: "mobile_request \<Rightarrow> string \<Rightarrow> ustr" where
  "request_header rq name = (case find (\<lambda>h. lower (fst h) = U name) (rq_headers rq) of None \<Rightarrow> [] | Some h \<Rightarrow> snd h)"

definition client_ip :: "mobile_request \<Rightarrow> ustr" where
  "client_ip rq = (case rq_client rq of None \<Rightarrow> [] | Some c \<Rightarrow> c)"

definition bearer_token :: "mobile_request \<Rightarrow> ustr" where
  "bearer_token rq =
     (let token = query_or_empty rq ''session''; authorization = request_header rq ''authorization'' in
      if token = [] \<and> startswith (lower authorization) (U ''bearer '') then strip (drop 7 authorization) else token)"

definition authorized_session :: "mobile_request \<Rightarrow> time \<Rightarrow> mobile \<Rightarrow> mobile \<times> ustr option" where
  "authorized_session rq now s =
     (let token = bearer_token rq in
      if token = [] then (s, None)
      else case use_session token now s of (s1, m) \<Rightarrow> (s1, map_option (\<lambda>_. token) m))"

section \<open>The code in the form\<close>

text \<open>\<open>urllib.parse.unquote\<close>: ASCII runs are percent-decoded as UTF-8, the rest is kept.\<close>

definition hex_value :: "nat \<Rightarrow> nat option" where
  "hex_value c = (if 48 \<le> c \<and> c \<le> 57 then Some (c - 48) else if 65 \<le> c \<and> c \<le> 70 then Some (c - 55)
     else if 97 \<le> c \<and> c \<le> 102 then Some (c - 87) else None)"

fun percent_decode :: "ustr \<Rightarrow> bytes" where
  "percent_decode (c # a # b # cs) =
     (case (if c = 37 then hex_value a else None, hex_value b) of
        (Some x, Some y) \<Rightarrow> of_nat (16 * x + y) # percent_decode cs
      | _ \<Rightarrow> of_nat c # percent_decode (a # b # cs))"
| "percent_decode (c # cs) = of_nat c # percent_decode cs"
| "percent_decode [] = []"

fun unquote_from :: "ustr \<Rightarrow> ustr \<Rightarrow> ustr" where
  "unquote_from acc [] = utf8_replace (percent_decode acc)"
| "unquote_from acc (c # cs) =
     (if c < 128 then unquote_from (acc @ [c]) cs else utf8_replace (percent_decode acc) @ c # unquote_from [] cs)"

definition unquote_plus :: "ustr \<Rightarrow> ustr" where
  "unquote_plus s = unquote_from [] (map (\<lambda>c. if c = 43 then 32 else c) s)"

text \<open>\<open>parse_qs\<close>: pairs without \<open>=\<close> or with an empty value are left out.\<close>

definition form_pair :: "ustr \<Rightarrow> (ustr \<times> ustr) list" where
  "form_pair part = (case split_at 61 (Some 1) part of
       [name, v] \<Rightarrow> if v = [] then [] else [(unquote_plus name, unquote_plus v)]
     | _ \<Rightarrow> [])"

definition form_code :: "bytes \<Rightarrow> ustr" where
  "form_code body =
     (let pairs = concat (map form_pair (split_at 38 None (utf8_replace (take 4096 body)))) in
      case map_of pairs (U ''code'') of None \<Rightarrow> [] | Some v \<Rightarrow> v)"

section \<open>Handlers\<close>

definition ca_pem_page :: "ustr \<Rightarrow> time \<Rightarrow> mobile_request \<Rightarrow> mobile \<Rightarrow> mobile \<times> mobile_answer" where
  "ca_pem_page pem now rq s = (case authorized_session rq now s of
       (s1, None) \<Rightarrow> (s1, Forbidden) | (s1, Some token) \<Rightarrow> (s1, Ca_pem pem))"

definition ca_download_page :: "ustr \<Rightarrow> time \<Rightarrow> mobile_request \<Rightarrow> mobile \<Rightarrow> mobile \<times> mobile_answer" where
  "ca_download_page pem now rq s = (case authorized_session rq now s of
       (s1, None) \<Rightarrow> (s1, Forbidden)
     | (s1, Some token) \<Rightarrow> (s1, if strip pem = [] then No_certificate else Ca_download pem))"

definition certificate_page :: "time \<Rightarrow> mobile_request \<Rightarrow> mobile \<Rightarrow> mobile \<times> mobile_answer" where
  "certificate_page now rq s = (case authorized_session rq now s of
       (s1, None) \<Rightarrow> (s1, Forbidden) | (s1, Some token) \<Rightarrow> (s1, Certificate_page token))"

definition pair_page :: "ustr \<Rightarrow> time \<Rightarrow> mobile_request \<Rightarrow> mobile \<Rightarrow> mobile \<times> mobile_answer" where
  "pair_page utc now rq s =
     (case open_pairing (query_or_empty rq ''id'') (client_ip rq) (request_header rq ''user-agent'') utc now s of
        (s1, None) \<Rightarrow> (s1, Link_closed)
      | (s1, Some p) \<Rightarrow> (s1, if mp_approved p = 0 then Awaiting_page else Code_page))"

definition pair_verify :: "ustr \<Rightarrow> time \<Rightarrow> mobile_request \<Rightarrow> mobile \<Rightarrow> mobile \<times> mobile_answer" where
  "pair_verify fresh_token now rq s =
     (case verify_pairing (query_or_empty rq ''id'') (form_code (rq_body rq)) (client_ip rq) (request_header rq ''user-agent'')
         fresh_token now s of
        (s1, None) \<Rightarrow> (s1, Wrong_code)
      | (s1, Some token) \<Rightarrow> (s1, if token = [] then Wrong_code else To_session token))"

definition session_page :: "time \<Rightarrow> mobile_request \<Rightarrow> mobile \<Rightarrow> mobile \<times> mobile_answer" where
  "session_page now rq s =
     (let token = query_or_empty rq ''token'' in
      case use_session token now s of (s1, None) \<Rightarrow> (s1, Session_over) | (s1, Some m) \<Rightarrow> (s1, Session_page token))"

definition events_page :: "time \<Rightarrow> mobile_request \<Rightarrow> mobile \<Rightarrow> mobile \<times> mobile_answer" where
  "events_page now rq s =
     (let token = query_or_empty rq ''session''; level = normalize_log_level (Some (query_or_empty rq ''level'')) in
      case use_session token now s of (s1, None) \<Rightarrow> (s1, Forbidden) | (s1, Some m) \<Rightarrow> (s1, Event_stream token level))"

section \<open>Dispatch\<close>

text \<open>A 404 answer of a handler on a path that was not rewritten is replaced by the general one.\<close>

text \<open>\<open>_PAIR_PATH\<close> and \<open>_SESSION_PATH\<close>; \<open>$\<close> also matches before a newline at the end.\<close>

definition pair_path :: "ustr \<Rightarrow> (ustr \<times> bool) option" where
  "pair_path path = (case split_at 47 None path of
       [r, m, p, pid] \<Rightarrow> if r = [] \<and> m = U ''mobile'' \<and> p = U ''pair'' \<and> pid \<noteq> [] then Some (pid, False) else None
     | [r, m, p, pid, v] \<Rightarrow>
         if r = [] \<and> m = U ''mobile'' \<and> p = U ''pair'' \<and> pid \<noteq> [] \<and> (v = U ''verify'' \<or> v = U ''verify'' @ [10])
         then Some (pid, True) else None
     | _ \<Rightarrow> None)"

definition session_path :: "ustr \<Rightarrow> ustr option" where
  "session_path path = (case split_at 47 None path of
       [r, m, p, token] \<Rightarrow> if r = [] \<and> m = U ''mobile'' \<and> p = U ''session'' \<and> token \<noteq> [] then Some token else None
     | _ \<Rightarrow> None)"

definition with_path_params :: "mobile_request \<Rightarrow> string \<Rightarrow> string \<Rightarrow> ustr \<Rightarrow> mobile_request" where
  "with_path_params rq path key v = rq\<lparr>rq_path := U path, rq_query := AList.update (U key) v (rq_query rq)\<rparr>"

text \<open>What a request needs from outside: the framework's check of the method, the certificate, a fresh token, the time of day.\<close>

record mobile_env =
  me_accepts :: "ustr \<Rightarrow> ustr \<Rightarrow> bool"
  me_pem :: ustr
  me_fresh_token :: ustr
  me_utc :: ustr

definition mobile_routes :: "mobile_env \<Rightarrow> time \<Rightarrow> (ustr \<times> (mobile_request \<Rightarrow> mobile \<Rightarrow> mobile \<times> mobile_answer)) list" where
  "mobile_routes env now =
     [(U ''/mobile/ca.pem'', ca_pem_page (me_pem env) now), (U ''/mobile/ca.crt'', ca_download_page (me_pem env) now),
      (U ''/mobile/certificate'', certificate_page now), (U ''/mobile/_pair'', pair_page (me_utc env) now),
      (U ''/mobile/_pair-verify'', pair_verify (me_fresh_token env) now), (U ''/mobile/_session'', session_page now),
      (U ''/mobile/events'', events_page now)]"

definition mobile_dispatch :: "mobile_env \<Rightarrow> time \<Rightarrow> mobile_request \<Rightarrow> mobile \<Rightarrow> mobile \<times> mobile_answer" where
  "mobile_dispatch env now rq s =
     (let stripped_path = rstrip_by (\<lambda>c. c = 47) (rq_path rq); path = (if stripped_path = [] then U ''/'' else stripped_path);
          rewritten = (pair_path path \<noteq> None \<or> session_path path \<noteq> None);
          rq' = (case pair_path path of
                   Some (pid, verify) \<Rightarrow> with_path_params rq (if verify then ''/mobile/_pair-verify'' else ''/mobile/_pair'') ''id'' pid
                 | None \<Rightarrow> (case session_path path of
                     Some token \<Rightarrow> with_path_params rq ''/mobile/_session'' ''token'' token
                   | None \<Rightarrow> rq)) in
      case map_of (mobile_routes env now) (rq_path rq') of
        None \<Rightarrow> (s, Not_found)
      | Some handler \<Rightarrow>
          if me_accepts env (rq_path rq') (rq_method rq')
          then (case handler rq' s of (s1, ans) \<Rightarrow> (s1, if ans = No_certificate \<and> \<not> rewritten then Not_found else ans))
          else (s, Method_refused))"

section \<open>Every disclosure is backed\<close>

text \<open>What an answer gives away, and what must have happened in the run before.\<close>

definition justified :: "(time \<times> mobile_op) list \<Rightarrow> time \<Rightarrow> ustr \<Rightarrow> mobile_answer \<Rightarrow> bool" where
  "justified h now client ans = (case ans of
       Ca_pem _ \<Rightarrow> \<exists>token. admitted token now h
     | Ca_download _ \<Rightarrow> \<exists>token. admitted token now h
     | No_certificate \<Rightarrow> \<exists>token. admitted token now h
     | Certificate_page token \<Rightarrow> admitted token now h
     | Session_page token \<Rightarrow> admitted token now h
     | Event_stream token _ \<Rightarrow> admitted token now h
     | Code_page \<Rightarrow> \<exists>pid c k t. accepted_by pid c k t h \<and> now < t + PAIRING_TTL_SECONDS
     | To_session _ \<Rightarrow> \<exists>pid c k t. accepted_by pid c k t h \<and> now < t + PAIRING_TTL_SECONDS \<and> (c = [] \<or> client = c)
     | _ \<Rightarrow> True)"

lemma authorized_admitted:
  assumes "clocked h now" "snd (authorized_session rq now (fst (run mobile_step new_mobile h))) = Some token"
  shows "admitted token now h"
  using assms(2) good_session_backed [OF assms(1), of token]
  by (auto simp: authorized_session_def Let_def split: if_splits prod.splits)

lemma use_admitted:
  assumes "clocked h now" "use_session token now (fst (run mobile_step new_mobile h)) = (s1, Some m)"
  shows "admitted token now h"
  using assms good_session_backed [OF assms(1), of token] by simp

lemma code_page_accepted:
  assumes "clocked h now" "open_pairing pid client ua utc now (fst (run mobile_step new_mobile h)) = (s1, Some p)" "mp_approved p \<noteq> 0"
  shows "\<exists>c k t. accepted_by pid c k t h \<and> now < t + PAIRING_TTL_SECONDS"
proof -
  let ?a = "fst (run spec_step new_spec h)"
  have "0 < now" using assms(1) by (simp add: clocked_def)
  from sim_open [OF clocked_related(1) [OF assms(1)] this, of pid client ua utc]
  have "snd (spec_open pid client now ?a) = Saw_pairing (Some (Accepted (mp_client p) (mp_code p)))"
    using assms(2,3) by (simp add: simulates_def observe_out_def phase_of_def)
  then obtain d where "sp_pairings ?a pid = Some (Accepted (mp_client p) (mp_code p), d)" "now < d"
    by (auto simp: spec_open_def live_phase_Some split: option.splits pairing_phase.splits)
  then show ?thesis
    using grant_story [of pid "mp_client p" "mp_code p" d h now Op_status] clocked_related(2) [OF assms(1)] assms(1)
    by (auto simp: spec_story_def clocked_def)
qed

lemma verified_accepted:
  assumes "clocked h now" "verify_pairing pid code client ua fresh now (fst (run mobile_step new_mobile h)) = (s1, Some token)"
  shows "\<exists>c k t. accepted_by pid c k t h \<and> now < t + PAIRING_TTL_SECONDS \<and> (c = [] \<or> client = c) \<and> strip code = k"
proof -
  let ?a = "fst (run spec_step new_spec h)"
  have "0 < now" using assms(1) by (simp add: clocked_def)
  from sim_verify [OF clocked_related(1) [OF assms(1)] this, of pid code client ua fresh]
  have v: "snd (spec_verify pid code client fresh now ?a) = Saw_token (Some token)"
    using assms(2) by (simp add: simulates_def observe_out_def)
  obtain c k d where "sp_pairings ?a pid = Some (Accepted c k, d)" "now < d" "c = [] \<or> client = c" "strip code = k"
  proof (cases "live_phase now pid ?a")
    case (Some x)
    obtain ph d where x: "x = (ph, d)" by (cases x)
    show ?thesis
    proof (cases ph)
      case (Accepted c k)
      then have "(c = [] \<or> client = c) \<and> strip code = k"
        using v Some x by (simp add: spec_verify_def Let_def split: if_splits)
      then show ?thesis using Some x Accepted that by (simp add: live_phase_Some)
    qed (use v Some x in \<open>simp_all add: spec_verify_def\<close>)
  qed (use v in \<open>simp add: spec_verify_def\<close>)
  then show ?thesis
    using grant_story [of pid c k d h now Op_status] clocked_related(2) [OF assms(1)] assms(1)
    by (auto simp: spec_story_def clocked_def)
qed

lemma handler_justified:
  assumes "clocked h now" "(path, handler) \<in> set (mobile_routes env now)" "rq_client rq = Some client"
    "handler rq (fst (run mobile_step new_mobile h)) = (s1, ans)"
  shows "justified h now client ans"
proof -
  let ?s = "fst (run mobile_step new_mobile h)"
  have ip: "client_ip rq = client" using assms(3) by (simp add: client_ip_def)
  from assms(2) consider "handler = ca_pem_page (me_pem env) now" | "handler = ca_download_page (me_pem env) now"
    | "handler = certificate_page now" | "handler = pair_page (me_utc env) now" | "handler = pair_verify (me_fresh_token env) now"
    | "handler = session_page now" | "handler = events_page now"
    by (auto simp: mobile_routes_def)
  then show ?thesis
  proof cases
    case 1
    then show ?thesis using assms(4) authorized_admitted [OF assms(1), of rq]
      by (auto simp: ca_pem_page_def justified_def split: prod.splits option.splits)
  next
    case 2
    then show ?thesis using assms(4) authorized_admitted [OF assms(1), of rq]
      by (auto simp: ca_download_page_def justified_def split: prod.splits option.splits if_splits)
  next
    case 3
    then show ?thesis using assms(4) authorized_admitted [OF assms(1), of rq]
      by (auto simp: certificate_page_def justified_def split: prod.splits option.splits)
  next
    case 4
    then show ?thesis using assms(4) code_page_accepted [OF assms(1)]
      by (auto simp: pair_page_def justified_def split: prod.splits option.splits) blast
  next
    case 5
    then show ?thesis using assms(4) verified_accepted [OF assms(1)] ip
      by (auto simp: pair_verify_def justified_def split: prod.splits option.splits if_splits) blast
  next
    case 6
    then show ?thesis using assms(4) use_admitted [OF assms(1)]
      by (auto simp: session_page_def justified_def Let_def split: prod.splits option.splits)
  next
    case 7
    then show ?thesis using assms(4) use_admitted [OF assms(1)]
      by (auto simp: events_page_def justified_def Let_def split: prod.splits option.splits)
  qed
qed

text \<open>
  C12. Nothing is given to a device nobody approved. Whatever is requested after whatever run, with whatever method, headers,
  query and body: the certificate, the session page and the event stream are answered only for a session that goes back to an
  approval; the form for the code only within 60 seconds of an approval; and the redirect into a new session only to the
  approved device. Everything else gets a page that discloses nothing.
\<close>

theorem mobile_gate:
  assumes "clocked h now" "rq_client rq = Some client"
  shows "justified h now client (snd (mobile_dispatch env now rq (fst (run mobile_step new_mobile h))))"
proof -
  let ?s = "fst (run mobile_step new_mobile h)"
  have trivial: "justified h now client Not_found" "justified h now client Method_refused" by (simp_all add: justified_def)
  define rq' where "rq' = (let path = (let p = rstrip_by (\<lambda>c. c = 47) (rq_path rq) in if p = [] then U ''/'' else p) in
    case pair_path path of
      Some (pid, verify) \<Rightarrow> with_path_params rq (if verify then ''/mobile/_pair-verify'' else ''/mobile/_pair'') ''id'' pid
    | None \<Rightarrow> (case session_path path of Some token \<Rightarrow> with_path_params rq ''/mobile/_session'' ''token'' token | None \<Rightarrow> rq))"
  have client: "rq_client rq' = Some client"
    using assms(2) by (simp add: rq'_def Let_def with_path_params_def split: option.split prod.split)
  have handled: "justified h now client ans" if "map_of (mobile_routes env now) p = Some handler" "handler rq' ?s = (s1, ans)" for p handler s1 ans
    using handler_justified [OF assms(1) map_of_SomeD [OF that(1)] client that(2)] .
  show ?thesis
    unfolding mobile_dispatch_def Let_def rq'_def [unfolded Let_def, symmetric]
    using handled trivial by (auto split: option.split prod.split)
qed

definition sample_request :: mobile_request where
  "sample_request = \<lparr>rq_path = U ''/mobile/session/tok'', rq_method = U ''GET'', rq_query = [], rq_headers = [], rq_body = [],
     rq_client = Some (U ''192.0.2.7'')\<rparr>"

definition sample_env :: mobile_env where
  "sample_env = \<lparr>me_accepts = (\<lambda>p m. True), me_pem = [], me_fresh_token = U ''x'', me_utc = U ''t''\<rparr>"

lemma mobile_gate_witness:
  "justified sample_run 60 (U ''192.0.2.7'') (snd (mobile_dispatch sample_env 60 sample_request (fst (run mobile_step new_mobile sample_run))))"
  by (rule mobile_gate) (simp_all add: clocked_def sample_run_def sample_request_def)

end
