(* ===== verification/Access_Log.thy ===== *)
theory Access_Log
  imports Rule_Normalize
begin

text \<open>
  The access log of \<^verbatim>\<open>access_log.py\<close>: one line per request, from values a remote client chooses. What the line is
  made of is written out: the removal of credentials from queries, the escaping of fields, and the line of
  \<open>log_request\<close>. The time stamp and whether the terminal shows colours are arguments.
\<close>

section \<open>Redaction\<close>

definition REDACTED_QUERY_KEYS :: "ustr list" where
  "REDACTED_QUERY_KEYS = map U [''code'', ''security_code'', ''access_token'', ''token'', ''auth'', ''ws_ticket'', ''ticket'']"

definition REDACTED_VALUE :: ustr where "REDACTED_VALUE = U ''REDACTED''"
definition MAX_FIELD_CHARS :: nat where "MAX_FIELD_CHARS = 512"

text \<open>\<open>s.partition(c)\<close>: what comes before the first \<open>c\<close>, and what comes after it, if there is one.\<close>

definition partition_at :: "nat \<Rightarrow> ustr \<Rightarrow> ustr \<times> ustr option" where
  "partition_at c s = (case dropWhile (\<lambda>x. x \<noteq> c) s of [] \<Rightarrow> (s, None) | _ # rest \<Rightarrow> (takeWhile (\<lambda>x. x \<noteq> c) s, Some rest))"

definition redact_chunk :: "ustr \<Rightarrow> ustr" where
  "redact_chunk chunk = (case partition_at 61 chunk of
       (key, Some v) \<Rightarrow> if lower (strip key) \<in> set REDACTED_QUERY_KEYS then key @ 61 # REDACTED_VALUE else chunk
     | (key, None) \<Rightarrow> chunk)"

definition redact_query :: "ustr \<Rightarrow> ustr" where
  "redact_query query = (if query = [] then [] else join [38] (map redact_chunk (split_at 38 None query)))"

definition redact_url :: "ustr \<Rightarrow> ustr" where
  "redact_url value = (case partition_at 63 value of (head, None) \<Rightarrow> value | (head, Some query) \<Rightarrow> head @ 63 # redact_query query)"

section \<open>Fields\<close>

definition escape_char :: "nat \<Rightarrow> ustr" where
  "escape_char c = (if c = 32 \<or> c = 9 then U ''%20'' else if c = 13 \<or> c = 10 then U ''%0A'' else if c < 32 \<or> c = 127 then U ''?'' else [c])"

definition sanitize_field :: "ustr \<Rightarrow> ustr \<Rightarrow> ustr" where
  "sanitize_field value fallback = (let text = strip value in if text = [] then fallback else take MAX_FIELD_CHARS (concat (map escape_char text)))"

section \<open>The line of a request\<close>

record logged_request =
  lr_method :: ustr
  lr_path :: ustr
  lr_query_string :: ustr
  lr_http_version :: ustr
  lr_version :: ustr
  lr_headers :: "(ustr \<times> ustr) list"

abbreviation dash :: ustr where "dash \<equiv> [45]"

definition or_dash :: "ustr \<Rightarrow> ustr" where
  "or_dash s = (if s = [] then dash else s)"

text \<open>\<open>_header\<close> for the Referer: the usual spelling, the title-cased one, then any.\<close>

definition got_header :: "ustr \<Rightarrow> (ustr \<times> ustr) list \<Rightarrow> ustr" where
  "got_header name headers = (case map_of headers name of None \<Rightarrow> [] | Some v \<Rightarrow> v)"

definition logged_header :: "ustr \<Rightarrow> ustr \<Rightarrow> (ustr \<times> ustr) list \<Rightarrow> ustr" where
  "logged_header name titled headers =
     (if got_header name headers \<noteq> [] then got_header name headers
      else if got_header titled headers \<noteq> [] then got_header titled headers
      else (case find (\<lambda>h. lower (fst h) = name) headers of None \<Rightarrow> [] | Some h \<Rightarrow> snd h))"

definition referer_field :: "logged_request \<Rightarrow> ustr" where
  "referer_field rq = sanitize_field (redact_url (logged_header (U ''referer'') (U ''Referer'') (lr_headers rq))) dash"

definition target_field :: "logged_request \<Rightarrow> ustr" where
  "target_field rq =
     (let query = redact_query (lr_query_string rq) in
      sanitize_field (if query \<noteq> [] then or_dash (lr_path rq) @ 63 # query else or_dash (lr_path rq)) dash)"

definition protocol_field :: "logged_request \<Rightarrow> ustr" where
  "protocol_field rq =
     (let protocol = (if lr_http_version rq \<noteq> [] then lr_http_version rq else if lr_version rq \<noteq> [] then lr_version rq else U ''HTTP/1.1'') in
      if startswith (upper protocol) (U ''HTTP'') then sanitize_field protocol dash else U ''HTTP/1.1'')"

definition location_field :: "(ustr \<times> ustr) list option \<Rightarrow> ustr" where
  "location_field response_headers = (case response_headers of
       None \<Rightarrow> dash
     | Some headers \<Rightarrow> (case find (\<lambda>h. lower (fst h) = U ''location'') headers of
           None \<Rightarrow> dash | Some h \<Rightarrow> sanitize_field (snd h) dash))"

definition colorize_status :: "bool \<Rightarrow> int \<Rightarrow> ustr" where
  "colorize_status use_color status =
     (let text = dec_int status; paint = (\<lambda>code. 27 # U code @ text @ 27 # U ''[0m'') in
      if \<not> use_color then text
      else if status \<ge> 500 then paint ''[1;31m'' else if status \<ge> 400 then paint ''[0;33m''
      else if status \<ge> 300 then paint ''[0;36m'' else if status \<ge> 200 then paint ''[0;32m'' else text)"

definition access_fields :: "ustr \<Rightarrow> bool \<Rightarrow> logged_request \<Rightarrow> int \<Rightarrow> (ustr \<times> ustr) list option \<Rightarrow> ustr list" where
  "access_fields stamp use_color rq status response_headers =
     [stamp, protocol_field rq, sanitize_field (lr_method rq) dash, target_field rq, U ''ref='' @ referer_field rq,
      U ''loc='' @ location_field response_headers, colorize_status use_color status]"

definition log_request :: "ustr \<Rightarrow> bool \<Rightarrow> logged_request \<Rightarrow> int \<Rightarrow> (ustr \<times> ustr) list option \<Rightarrow> ustr" where
  "log_request stamp use_color rq status response_headers = join [32] (access_fields stamp use_color rq status response_headers)"

text \<open>The line of a rejected authentication.\<close>

definition log_auth_failure :: "ustr \<Rightarrow> bool \<Rightarrow> logged_request \<Rightarrow> ustr \<Rightarrow> ustr \<Rightarrow> int \<Rightarrow> ustr \<Rightarrow> ustr" where
  "log_auth_failure stamp use_color rq client reason status retry_after =
     join [32] [stamp, U ''SECURITY'', U ''AUTH-FAIL'', protocol_field rq, sanitize_field (lr_method rq) dash, target_field rq,
       U ''client='' @ sanitize_field client dash, U ''reason='' @ sanitize_field reason (U ''unknown''),
       U ''retry_after='' @ retry_after @ U ''s'', colorize_status use_color status]"

section \<open>The line cannot be forged\<close>

lemma dec_int_chars: "c \<in> set (dec_int n) \<Longrightarrow> 45 \<le> c \<and> c < 58"
  using dec_digits by (fastforce simp: dec_int_def is_digit_def split: if_splits)

text \<open>A field: no space and no control character.\<close>

definition field_char :: "nat \<Rightarrow> bool" where
  "field_char c \<longleftrightarrow> 32 < c \<and> c \<noteq> 127"

lemma escape_char_field: "list_all field_char (escape_char c)"
  by (auto simp: escape_char_def field_char_def U_def)

lemma sanitize_field_chars: "list_all field_char fallback \<Longrightarrow> list_all field_char (sanitize_field v fallback)"
  using escape_char_field by (auto simp: sanitize_field_def Let_def list_all_iff dest!: in_set_takeD)

lemma fixed_field: "list_all field_char dash" "list_all field_char (U ''HTTP/1.1'')" "list_all field_char (U ''ref='')"
  "list_all field_char (U ''loc='')"
  by (simp_all add: field_char_def U_def)

lemma colorize_plain: "c \<in> set (colorize_status use_color status) \<Longrightarrow> c \<noteq> 32 \<and> (use_color \<or> field_char c)"
  by (auto simp: colorize_status_def Let_def field_char_def U_def dest!: dec_int_chars split: if_splits)

lemma access_fields_chars:
  assumes "list_all field_char stamp" "f \<in> set (access_fields stamp use_color rq status hs)" "c \<in> set f"
  shows "c \<noteq> 32 \<and> (use_color \<or> field_char c)"
proof -
  have "list_all field_char (protocol_field rq)" "list_all field_char (referer_field rq)" "list_all field_char (target_field rq)"
    "list_all field_char (location_field hs)" "list_all field_char (sanitize_field (lr_method rq) dash)"
    using fixed_field by (auto simp: protocol_field_def referer_field_def target_field_def location_field_def Let_def
        intro: sanitize_field_chars split: option.split)
  then have "list_all field_char f \<or> f = colorize_status use_color status"
    using assms(1,2) fixed_field by (auto simp: access_fields_def)
  then show ?thesis using assms(3) colorize_plain by (auto simp: list_all_iff field_char_def)
qed


definition forged_request :: logged_request where
  "forged_request = \<lparr>lr_method = U ''GET'', lr_path = U ''/ HTTP/1.1 200'' @ [10], lr_query_string = U ''ticket=abc&x=1'',
     lr_http_version = [], lr_version = [], lr_headers = [(U ''referer'', U ''evil loc=/admin 200'')]\<rparr>"


section \<open>The line does not depend on credentials\<close>

text \<open>A request in which the values of the credential parameters are replaced, in its query and its Referer.\<close>

definition rewrite_chunk :: "(ustr \<Rightarrow> ustr) \<Rightarrow> ustr \<Rightarrow> ustr" where
  "rewrite_chunk f chunk = (case partition_at 61 chunk of
       (key, Some v) \<Rightarrow> if lower (strip key) \<in> set REDACTED_QUERY_KEYS then key @ 61 # f v else chunk
     | (key, None) \<Rightarrow> chunk)"

definition rewrite_query :: "(ustr \<Rightarrow> ustr) \<Rightarrow> ustr \<Rightarrow> ustr" where
  "rewrite_query f query = join [38] (map (rewrite_chunk f) (split_at 38 None query))"

definition rewrite_url :: "(ustr \<Rightarrow> ustr) \<Rightarrow> ustr \<Rightarrow> ustr" where
  "rewrite_url f value = (case partition_at 63 value of (head, None) \<Rightarrow> value | (head, Some query) \<Rightarrow> head @ 63 # rewrite_query f query)"

definition rewrite_request :: "(ustr \<Rightarrow> ustr) \<Rightarrow> logged_request \<Rightarrow> logged_request" where
  "rewrite_request f rq = rq\<lparr>lr_query_string := rewrite_query f (lr_query_string rq),
     lr_headers := map (\<lambda>h. (fst h, if lower (fst h) = U ''referer'' then rewrite_url f (snd h) else snd h)) (lr_headers rq)\<rparr>"

lemma partition_at_Some: "partition_at c s = (k, Some v) \<longleftrightarrow> c \<notin> set k \<and> s = k @ c # v"
proof
  assume a: "partition_at c s = (k, Some v)"
  then obtain x where d: "dropWhile (\<lambda>x. x \<noteq> c) s = x # v" and k: "k = takeWhile (\<lambda>x. x \<noteq> c) s"
    by (auto simp: partition_at_def split: list.splits)
  have "x = c" using hd_dropWhile [of "\<lambda>x. x \<noteq> c" s] d by auto
  then show "c \<notin> set k \<and> s = k @ c # v" using takeWhile_dropWhile_id [of "\<lambda>x. x \<noteq> c" s] d k by (auto dest: set_takeWhileD)
next
  assume a: "c \<notin> set k \<and> s = k @ c # v"
  then have "dropWhile (\<lambda>x. x \<noteq> c) s = c # v" "takeWhile (\<lambda>x. x \<noteq> c) s = k"
    by (auto simp: dropWhile_append3 takeWhile_append2 intro!: takeWhile_append2 [THEN trans] dropWhile_append2 [THEN trans])
  then show "partition_at c s = (k, Some v)" by (simp add: partition_at_def)
qed

lemma partition_at_None: "partition_at c s = (k, None) \<Longrightarrow> k = s"
  by (auto simp: partition_at_def split: list.splits)

lemma redact_rewrite_chunk: "redact_chunk (rewrite_chunk f chunk) = redact_chunk chunk"
proof (cases "partition_at 61 chunk")
  case (Pair k v)
  show ?thesis
  proof (cases v)
    case (Some w)
    then have "partition_at 61 (k @ 61 # f w) = (k, Some (f w))" using Pair partition_at_Some by auto
    then show ?thesis using Pair Some by (simp add: rewrite_chunk_def redact_chunk_def)
  qed (use Pair in \<open>simp add: rewrite_chunk_def\<close>)
qed

lemma partition_at_chars: "partition_at c s = (k, v) \<Longrightarrow> set k \<subseteq> set s"
  by (cases v) (auto simp: partition_at_Some dest: partition_at_None)

lemma split_from_free: "c \<notin> set acc \<Longrightarrow> x \<in> set (split_from c None acc s) \<Longrightarrow> c \<notin> set x"
proof (induction s arbitrary: acc)
  case (Cons a s)
  then show ?case using Cons.IH [of "[]"] Cons.IH [of "acc @ [a]"] by (cases "a = c") auto
qed simp

lemma split_at_free: "x \<in> set (split_at c None s) \<Longrightarrow> c \<notin> set x"
  using split_from_free [of c "[]" x s] by (simp add: split_at_def)

lemma rewrite_chunk_free:
  assumes "\<forall>v. 38 \<notin> set (f v)" "38 \<notin> set chunk"
  shows "38 \<notin> set (rewrite_chunk f chunk)"
proof (cases "partition_at 61 chunk")
  case (Pair k v)
  then show ?thesis using assms partition_at_chars [OF Pair] by (cases v) (auto simp: rewrite_chunk_def)
qed

lemma redact_query_eq: "redact_query q = join [38] (map redact_chunk (split_at 38 None q))"
  by (cases q) (simp_all add: redact_query_def split_at_def redact_chunk_def partition_at_def)

lemma redact_rewrite_query:
  assumes "\<forall>v. 38 \<notin> set (f v)"
  shows "redact_query (rewrite_query f q) = redact_query q"
proof -
  have "split_at 38 None (rewrite_query f q) = map (rewrite_chunk f) (split_at 38 None q)"
    unfolding rewrite_query_def
  proof (rule split_at_join)
    show "\<forall>x \<in> set (map (rewrite_chunk f) (split_at 38 None q)). 38 \<notin> set x"
      using rewrite_chunk_free [OF assms] split_at_free by (metis (no_types, lifting) imageE list.set_map)
  qed simp
  then show ?thesis by (simp add: redact_query_eq redact_rewrite_chunk comp_def)
qed

lemma redact_rewrite_url:
  assumes "\<forall>v. 38 \<notin> set (f v)"
  shows "redact_url (rewrite_url f v) = redact_url v" "rewrite_url f v = [] \<longleftrightarrow> v = []"
proof -
  have "redact_url (rewrite_url f v) = redact_url v \<and> (rewrite_url f v = [] \<longleftrightarrow> v = [])"
  proof (cases "partition_at 63 v")
    case (Pair h q)
    show ?thesis
    proof (cases q)
      case (Some w)
      then have "partition_at 63 (h @ 63 # rewrite_query f w) = (h, Some (rewrite_query f w))" "v \<noteq> []"
        using Pair partition_at_Some by auto
      then show ?thesis using Pair Some redact_rewrite_query [OF assms] by (simp add: rewrite_url_def redact_url_def)
    qed (use Pair in \<open>simp add: rewrite_url_def\<close>)
  qed
  then show "redact_url (rewrite_url f v) = redact_url v" "rewrite_url f v = [] \<longleftrightarrow> v = []" by blast+
qed

lemma logged_header_rewrite:
  assumes "\<forall>v. 38 \<notin> set (f v)"
  shows "redact_url (logged_header (U ''referer'') (U ''Referer'') (lr_headers (rewrite_request f rq))) =
    redact_url (logged_header (U ''referer'') (U ''Referer'') (lr_headers rq))"
proof -
  let ?g = "\<lambda>h. (fst h, if lower (fst h) = U ''referer'' then rewrite_url f (snd h) else snd h)"
  have names: "lower (U ''referer'') = U ''referer''" "lower (U ''Referer'') = U ''referer''" by code_simp+
  let ?r = "\<lambda>v. if v = [] then [] else rewrite_url f v"
  have m: "map_of (map ?g hs) n = map_option (rewrite_url f) (map_of hs n)" if "lower n = U ''referer''" for n hs
    using that by (induction hs) auto
  have g: "got_header n (map ?g hs) = ?r (got_header n hs)" if "lower n = U ''referer''" for n hs
    using redact_rewrite_url(2) [OF assms] by (simp add: got_header_def m [OF that] split: option.split)
  have n: "got_header n (map ?g hs) = [] \<longleftrightarrow> got_header n hs = []" if "lower n = U ''referer''" for n hs
    using redact_rewrite_url(2) [OF assms] by (simp add: g [OF that])
  have f: "(case find (\<lambda>h. lower (fst h) = U ''referer'') (map ?g hs) of None \<Rightarrow> [] | Some h \<Rightarrow> snd h) =
      ?r (case find (\<lambda>h. lower (fst h) = U ''referer'') hs of None \<Rightarrow> [] | Some h \<Rightarrow> snd h)" for hs
    by (induction hs) (use redact_rewrite_url(2) [OF assms] in simp_all)
  have "logged_header (U ''referer'') (U ''Referer'') (map ?g hs) = ?r (logged_header (U ''referer'') (U ''Referer'') hs)" for hs
    unfolding logged_header_def using g n f names by simp
  then have "redact_url (logged_header (U ''referer'') (U ''Referer'') (map ?g hs)) = redact_url (logged_header (U ''referer'') (U ''Referer'') hs)" for hs
    using redact_rewrite_url(1) [OF assms] by simp
  then show ?thesis by (simp add: rewrite_request_def)
qed

lemma rewrite_request_simps [simp]:
  "lr_path (rewrite_request f rq) = lr_path rq" "lr_method (rewrite_request f rq) = lr_method rq"
  "lr_http_version (rewrite_request f rq) = lr_http_version rq" "lr_version (rewrite_request f rq) = lr_version rq"
  "lr_query_string (rewrite_request f rq) = rewrite_query f (lr_query_string rq)"
  by (simp_all add: rewrite_request_def)



end
