(* ===== verification/Catalogues.thy ===== *)
theory Catalogues
  imports Rule_Normalize "HOL-Library.Sublist"
begin

text \<open>
  Lookups in the bundled catalogues: the base domain of a name by the Public Suffix List (\<^verbatim>\<open>domain_names.py\<close>), the
  allocation of an address (\<^verbatim>\<open>ip_registry.py\<close>), and the vendor of a MAC address (\<^verbatim>\<open>mac_vendor.py\<close>). The IDNA codec, the
  reader of address literals and \<open>str()\<close> of the remaining values are arguments; so is the content of the data files.
\<close>

section \<open>Base domains\<close>

definition label_text :: "(ustr \<Rightarrow> ustr option) \<Rightarrow> ustr \<Rightarrow> ustr" where
  "label_text idna label = (case idna label of None \<Rightarrow> label | Some a \<Rightarrow> a)"

definition ascii_name :: "(ustr \<Rightarrow> ustr option) \<Rightarrow> ustr \<Rightarrow> ustr" where
  "ascii_name idna value =
     (let text = lower (strip_by (\<lambda>c. c = 46) (strip value)); labels = split_at 46 None text in
      if text = [] \<or> length text > 253 then [] else if [] \<in> set labels then [] else join [46] (map (label_text idna) labels))"

record suffix_rules =
  sr_exact :: "ustr list"
  sr_wildcard :: "ustr list"
  sr_exception :: "ustr list"

definition add_rule :: "(ustr \<Rightarrow> ustr option) \<Rightarrow> ustr \<Rightarrow> suffix_rules \<Rightarrow> suffix_rules" where
  "add_rule idna raw r =
     (let rule = strip raw; put = (\<lambda>text add. let n = ascii_name idna text in if n = [] then r else add n) in
      if rule = [] \<or> startswith rule (U ''//'') then r
      else if startswith rule (U ''!'') then put (drop 1 rule) (\<lambda>n. r\<lparr>sr_exception := n # sr_exception r\<rparr>)
      else if startswith rule (U ''*.'') then put (drop 2 rule) (\<lambda>n. r\<lparr>sr_wildcard := n # sr_wildcard r\<rparr>)
      else put rule (\<lambda>n. r\<lparr>sr_exact := n # sr_exact r\<rparr>))"

definition load_rules :: "(ustr \<Rightarrow> ustr option) \<Rightarrow> ustr list \<Rightarrow> suffix_rules" where
  "load_rules idna lines = fold (add_rule idna) lines \<lparr>sr_exact = [], sr_wildcard = [], sr_exception = []\<rparr>"

text \<open>The loop over the suffixes, one maximum at a time; a wildcard rule stands for one label more and not for the whole name.\<close>

definition suffix_labels :: "ustr list \<Rightarrow> nat \<Rightarrow> ustr list \<Rightarrow> nat" where
  "suffix_labels rules extra labels =
     foldr max (map (\<lambda>i. if join [46] (drop i labels) \<in> set rules then length labels - i + extra else 0) [extra..<length labels]) 0"

definition public_suffix_labels :: "suffix_rules \<Rightarrow> ustr list \<Rightarrow> nat" where
  "public_suffix_labels r labels =
     (let exception = suffix_labels (sr_exception r) 0 labels in
      if exception \<noteq> 0 then exception - 1
      else max 1 (max (suffix_labels (sr_exact r) 0 labels) (suffix_labels (sr_wildcard r) 1 labels)))"

definition base_labels :: "suffix_rules \<Rightarrow> ustr list \<Rightarrow> ustr list" where
  "base_labels r labels =
     (let k = public_suffix_labels r labels in if length labels \<le> k then labels else drop (length labels - (k + 1)) labels)"

definition registrable_domain :: "(ustr \<Rightarrow> ustr option) \<Rightarrow> (ustr \<Rightarrow> bool) \<Rightarrow> suffix_rules \<Rightarrow> ustr \<Rightarrow> ustr" where
  "registrable_domain idna is_address r value =
     (let name = ascii_name idna value; labels = split_at 46 None name in
      if name = [] then [] else if is_address name then name else if length labels = 1 then name else join [46] (base_labels r labels))"

definition describe_domain :: "(ustr \<Rightarrow> ustr option) \<Rightarrow> (ustr \<Rightarrow> bool) \<Rightarrow> suffix_rules \<Rightarrow> ustr \<Rightarrow> ustr \<times> ustr" where
  "describe_domain idna is_address r value =
     (let name = ascii_name idna value; base = registrable_domain idna is_address r name;
          dotted = 46 # base in
      (base, if name \<noteq> [] \<and> base \<noteq> [] \<and> name \<noteq> base \<and> drop (length name - length dotted) name = dotted \<and> length dotted \<le> length name
             then take (length name - (length base + 1)) name else []))"

text \<open>Cutting labels off the front changes nothing while the cut stays in front of every rule that applies.\<close>

lemma foldr_max_0: "\<forall>x \<in> set xs. x = 0 \<Longrightarrow> foldr max xs (0 :: nat) = 0"
  by (induction xs) auto

lemma foldr_max_append: "foldr max (xs @ ys) (0 :: nat) = max (foldr max xs 0) (foldr max ys 0)"
  by (induction xs) auto

lemma foldr_max_ge: "x \<in> set xs \<Longrightarrow> x \<le> foldr max xs (0 :: nat)"
  by (induction xs) auto

lemma suffix_labels_drop:
  assumes "suffix_labels rules extra ls \<le> length ls - j" "extra \<le> 1" "j + extra \<le> length ls"
  shows "suffix_labels rules extra (drop j ls) = suffix_labels rules extra ls"
proof -
  let ?v = "\<lambda>i. if join [46] (drop i ls) \<in> set rules then length ls - i + extra else 0"
  have split: "[extra..<length ls] = [extra..<extra + j] @ [extra + j..<length ls]"
    using assms(3) upt_add_eq_append [of extra "extra + j" "length ls - (extra + j)"] by (simp add: add.commute)
  have tail: "map (\<lambda>i. if join [46] (drop i (drop j ls)) \<in> set rules then length (drop j ls) - i + extra else 0) [extra..<length (drop j ls)]
      = map ?v [extra + j..<length ls]"
  proof (rule nth_equalityI)
    show "length (map (\<lambda>i. if join [46] (drop i (drop j ls)) \<in> set rules then length (drop j ls) - i + extra else 0) [extra..<length (drop j ls)])
      = length (map ?v [extra + j..<length ls])" by simp
  qed (auto simp: add.commute add.left_commute)
  have head: "\<forall>x \<in> set (map ?v [extra..<extra + j]). x = 0"
  proof
    fix x assume x: "x \<in> set (map ?v [extra..<extra + j])"
    then obtain i where i: "extra \<le> i" "i < extra + j" "x = ?v i" by auto
    have "x \<in> set (map ?v [extra..<length ls])" using x split by simp
    then have "x \<le> length ls - j" using foldr_max_ge assms(1) unfolding suffix_labels_def by (meson le_trans)
    then show "x = 0" using i assms(3) by (auto split: if_splits)
  qed
  show ?thesis
    unfolding suffix_labels_def tail split map_append foldr_max_append foldr_max_0 [OF head] by simp
qed


definition sample_rules :: suffix_rules where
  "sample_rules = \<lparr>sr_exact = [U ''uk'', U ''co.uk''], sr_wildcard = [U ''ck''], sr_exception = [U ''www.ck'']\<rparr>"


section \<open>Address allocations\<close>

record range_row =
  rr_start :: int
  rr_end :: int
  rr_country :: pyval
  rr_registry :: pyval

text \<open>\<open>bisect.bisect_right\<close> of the standard library.\<close>

function bisect_from :: "int list \<Rightarrow> int \<Rightarrow> nat \<Rightarrow> nat \<Rightarrow> nat" where
  "bisect_from xs x lo hi =
     (if lo < hi then let mid = (lo + hi) div 2 in if x < xs ! mid then bisect_from xs x lo mid else bisect_from xs x (mid + 1) hi
      else lo)"
  by pat_completeness auto

termination bisect_from
  by (relation "measure (\<lambda>(xs, x, lo, hi). hi - lo)") auto

declare bisect_from.simps [simp del]

definition bisect_right :: "int list \<Rightarrow> int \<Rightarrow> nat" where
  "bisect_right xs x = bisect_from xs x 0 (length xs)"

definition search_rows :: "int list \<Rightarrow> range_row list \<Rightarrow> int \<Rightarrow> range_row option" where
  "search_rows starts rows v =
     (if starts = [] then None
      else let i = bisect_right starts v in
        if i = 0 then None else let row = rows ! (i - 1) in if v \<le> rr_end row then Some row else None)"

record ip_catalogue =
  ic_rows_v4 :: "range_row list"
  ic_rows_v6 :: "range_row list"
  ic_regions :: "(ustr \<times> pyval) list"

text \<open>\<open>parse_ip\<close>: whether the address is of version 6, and its number. The answer: country, registry, region.\<close>

definition ip_lookup :: "(ustr \<Rightarrow> (bool \<times> int) option) \<Rightarrow> (pyval \<Rightarrow> ustr) \<Rightarrow> ip_catalogue \<Rightarrow> ustr \<Rightarrow> (ustr \<times> ustr \<times> pyval) option" where
  "ip_lookup parse_ip fmt cat ip =
     (let text = strip ip in
      if text = [] then None
      else case parse_ip text of
        None \<Rightarrow> None
      | Some (v6, n) \<Rightarrow>
          (let rows = (if v6 then ic_rows_v6 cat else ic_rows_v4 cat) in
           case search_rows (map rr_start rows) rows n of
             None \<Rightarrow> None
           | Some row \<Rightarrow>
               (let registry = str_or_empty fmt (rr_registry row) in
                Some (upper (str_or_empty fmt (rr_country row)), registry,
                      case map_of (ic_regions cat) registry of None \<Rightarrow> PStr [] | Some region \<Rightarrow> region))))"

lemma bisect_from_bounds:
  assumes "sorted xs" "lo \<le> hi" "hi \<le> length xs" "\<forall>i < lo. xs ! i \<le> x" "\<forall>i. hi \<le> i \<and> i < length xs \<longrightarrow> x < xs ! i"
  shows "bisect_from xs x lo hi \<le> length xs \<and> (\<forall>i < bisect_from xs x lo hi. xs ! i \<le> x)
    \<and> (\<forall>i. bisect_from xs x lo hi \<le> i \<and> i < length xs \<longrightarrow> x < xs ! i)"
  using assms
proof (induction xs x lo hi rule: bisect_from.induct)
  case (1 xs x lo hi)
  show ?case
  proof (cases "lo < hi")
    case True
    let ?mid = "(lo + hi) div 2"
    have mid: "lo \<le> ?mid" "?mid < hi" using True by auto
    show ?thesis
    proof (cases "x < xs ! ?mid")
      case less: True
      have "\<forall>i. ?mid \<le> i \<and> i < length xs \<longrightarrow> x < xs ! i"
        using less sorted_nth_mono [OF 1(3)] by (meson less_le_trans)
      moreover have "bisect_from xs x lo hi = bisect_from xs x lo ?mid" by (subst bisect_from.simps) (use less True in \<open>simp add: Let_def\<close>)
      moreover have "lo \<le> ?mid" "?mid \<le> length xs" using mid 1(5) by linarith+
      ultimately show ?thesis using 1(1) [OF True refl less] 1(3,6) by presburger
    next
      case ge: False
      have "\<forall>i < ?mid + 1. xs ! i \<le> x"
      proof (intro allI impI)
        fix i assume "i < ?mid + 1"
        then have "xs ! i \<le> xs ! ?mid" using sorted_nth_mono [OF 1(3), of i ?mid] mid 1(5) by simp
        then show "xs ! i \<le> x" using ge by simp
      qed
      moreover have "bisect_from xs x lo hi = bisect_from xs x (?mid + 1) hi"
        by (subst bisect_from.simps) (use ge True in \<open>simp add: Let_def\<close>)
      moreover have "?mid + 1 \<le> hi" using mid by linarith
      ultimately show ?thesis using 1(2) [OF True refl ge] 1(3,5,7) by presburger
    qed
  next
    case False
    then have "bisect_from xs x lo hi = lo" by (subst bisect_from.simps) simp
    then show ?thesis using False 1(4-7) by simp
  qed
qed

lemma bisect_right_bounds:
  assumes "sorted xs"
  shows "bisect_right xs x \<le> length xs" "i < bisect_right xs x \<Longrightarrow> xs ! i \<le> x"
    "bisect_right xs x \<le> i \<Longrightarrow> i < length xs \<Longrightarrow> x < xs ! i"
  using bisect_from_bounds [of xs 0 "length xs" x] assms by (simp_all add: bisect_right_def)

text \<open>
  The search in the allocation table is exact. If the ranges are in order and do not overlap, the bisection returns
  the range that holds the number, and nothing when none does, as reading the table from the start would.
\<close>

theorem search_rows_exact:
  assumes "sorted_wrt (\<lambda>a b. rr_end a < rr_start b) rows" "list_all (\<lambda>a. rr_start a \<le> rr_end a) rows"
  shows "search_rows (map rr_start rows) rows v = find (\<lambda>a. rr_start a \<le> v \<and> v \<le> rr_end a) rows"
proof -
  let ?starts = "map rr_start rows" and ?P = "\<lambda>a. rr_start a \<le> v \<and> v \<le> rr_end a"
  have order: "rr_end (rows ! i) < rr_start (rows ! j)" if "i < j" "j < length rows" for i j
    using assms(1) that by (simp add: sorted_wrt_iff_nth_less)
  have range: "rr_start (rows ! i) \<le> rr_end (rows ! i)" if "i < length rows" for i
    using assms(2) that by (simp add: list_all_length)
  have "rr_start (rows ! i) \<le> rr_start (rows ! j)" if "i < j" "j < length rows" for i j
    using order [OF that] range [of i] that by linarith
  then have "sorted ?starts" by (simp add: sorted_wrt_iff_nth_less)
  note b = bisect_right_bounds [OF this, where x = v, simplified]
  let ?k = "bisect_right ?starts v"
  have late: "\<not> ?P (rows ! i)" if "?k \<le> i" "i < length rows" for i using b(3) [OF that(1)] that by simp
  show ?thesis
  proof (cases "?k = 0")
    case True
    then have "find ?P rows = None" using late by (auto simp: find_None_iff in_set_conv_nth)
    then show ?thesis using True by (simp add: search_rows_def)
  next
    case False
    then have k: "?k - 1 < length rows" "rr_start (rows ! (?k - 1)) \<le> v" using b(1) b(2) [of "?k - 1"] by auto
    have early: "\<not> ?P (rows ! i)" if "i < ?k - 1" for i using order [OF that k(1)] k(2) by simp
    have result: "search_rows ?starts rows v = (if v \<le> rr_end (rows ! (?k - 1)) then Some (rows ! (?k - 1)) else None)"
      using False k(1) by (auto simp: search_rows_def Let_def)
    show ?thesis
    proof (cases "v \<le> rr_end (rows ! (?k - 1))")
      case True
      then have "find ?P rows = Some (rows ! (?k - 1))"
        unfolding find_Some_iff using k early by (intro exI [of _ "?k - 1"]) simp
      then show ?thesis using True result by simp
    next
      case out: False
      have "\<not> ?P (rows ! i)" if "i < length rows" for i
        using early [of i] late [of i] out that False by (cases "i < ?k - 1"; cases "i = ?k - 1"; simp)
      then have "find ?P rows = None" by (auto simp: find_None_iff in_set_conv_nth)
      then show ?thesis using out result by simp
    qed
  qed
qed

definition sample_rows :: "range_row list" where
  "sample_rows = [\<lparr>rr_start = 10, rr_end = 19, rr_country = PNone, rr_registry = PNone\<rparr>, \<lparr>rr_start = 30, rr_end = 39, rr_country = PNone, rr_registry = PNone\<rparr>]"

lemma search_rows_exact_witness:
  "search_rows (map rr_start sample_rows) sample_rows 35 = Some (sample_rows ! 1) \<and> search_rows (map rr_start sample_rows) sample_rows 25 = None"
proof -
  have s: "sorted_wrt (\<lambda>a b. rr_end a < rr_start b) sample_rows" "list_all (\<lambda>a. rr_start a \<le> rr_end a) sample_rows"
    by (simp_all add: sample_rows_def)
  show ?thesis using search_rows_exact [OF s, of 35] search_rows_exact [OF s, of 25] by (simp add: sample_rows_def)
qed

section \<open>Vendors of MAC addresses\<close>

definition mac_hex :: "(pyval \<Rightarrow> ustr) \<Rightarrow> pyval \<Rightarrow> ustr" where
  "mac_hex fmt value =
     (let digits = filter (\<lambda>c. c \<notin> set (U '':-. '')) (upper (strip (str_or_empty fmt value))) in
      if length digits \<noteq> 12 \<or> \<not> list_all (\<lambda>c. is_digit c \<or> (65 \<le> c \<and> c \<le> 70)) digits then [] else digits)"

datatype mac_kind = Invalid_mac | Broadcast_mac | Multicast_mac | Local_mac | Global_mac | Unknown_mac

record mac_entry =
  me_kind :: mac_kind
  me_vendor :: ustr
  me_registry :: ustr
  me_prefix :: ustr
  me_bits :: nat

definition bare_entry :: "mac_kind \<Rightarrow> mac_entry" where
  "bare_entry k = \<lparr>me_kind = k, me_vendor = [], me_registry = [], me_prefix = [], me_bits = 0\<rparr>"

definition first_octet :: "ustr \<Rightarrow> nat" where
  "first_octet digits = (let d = (\<lambda>c. if is_digit c then c - 48 else c - 55) in 16 * d (digits ! 0) + d (digits ! 1))"

text \<open>\<open>table bits\<close>: the assignments of that many bits; one that is not a non-empty list is passed over.\<close>

fun longest_assignment :: "(nat \<Rightarrow> pydict) \<Rightarrow> ustr \<Rightarrow> nat list \<Rightarrow> (ustr \<times> nat \<times> pyval list) option" where
  "longest_assignment table digits [] = None"
| "longest_assignment table digits (bits # rest) =
     (case map_of (table bits) (take (bits div 4) digits) of
        Some (PList (x # xs)) \<Rightarrow> Some (take (bits div 4) digits, bits, x # xs)
      | _ \<Rightarrow> longest_assignment table digits rest)"

definition mac_lookup :: "(pyval \<Rightarrow> ustr) \<Rightarrow> (nat \<Rightarrow> pydict) \<Rightarrow> pyval \<Rightarrow> mac_entry" where
  "mac_lookup fmt table mac =
     (let digits = mac_hex fmt mac in
      if digits = [] then bare_entry Invalid_mac
      else if digits = U ''FFFFFFFFFFFF'' then bare_entry Broadcast_mac
      else if first_octet digits mod 2 = 1 then bare_entry Multicast_mac
      else if first_octet digits div 2 mod 2 = 1 then bare_entry Local_mac
      else case longest_assignment table digits [36, 28, 24] of
        None \<Rightarrow> bare_entry Unknown_mac
      | Some (p, bits, xs) \<Rightarrow>
          \<lparr>me_kind = Global_mac, me_vendor = py_str fmt (hd xs), me_registry = (if length xs > 1 then py_str fmt (xs ! 1) else []),
           me_prefix = p, me_bits = bits\<rparr>)"

text \<open>The assignment found is one of the catalogue, and no longer one of the address is.\<close>

lemma longest_assignment_Some:
  "longest_assignment table digits bs = Some (p, bits, xs) \<Longrightarrow>
     (\<exists>before after. bs = before @ bits # after \<and> p = take (bits div 4) digits \<and> map_of (table bits) p = Some (PList xs) \<and> xs \<noteq> []
        \<and> list_all (\<lambda>b. \<forall>y ys. map_of (table b) (take (b div 4) digits) \<noteq> Some (PList (y # ys))) before)"
proof (induction bs)
  case (Cons b bs)
  show ?case
  proof (cases "\<exists>y ys. map_of (table b) (take (b div 4) digits) = Some (PList (y # ys))")
    case True
    then show ?thesis using Cons.prems by (intro exI [of _ "[]"] exI [of _ bs]) auto
  next
    case False
    then have "longest_assignment table digits bs = Some (p, bits, xs)"
      using Cons.prems by (auto split: option.splits pyval.splits list.splits)
    from Cons.IH [OF this] obtain before after where "bs = before @ bits # after" "p = take (bits div 4) digits"
      "map_of (table bits) p = Some (PList xs)" "xs \<noteq> []"
      "list_all (\<lambda>b. \<forall>y ys. map_of (table b) (take (b div 4) digits) \<noteq> Some (PList (y # ys))) before" by blast
    then show ?thesis using False by (intro exI [of _ "b # before"] exI [of _ after]) simp
  qed
qed simp

declare longest_assignment.simps [simp del]

lemma mac_vendor_only_global:
  assumes "me_vendor (mac_lookup fmt table mac) \<noteq> []"
  shows "me_kind (mac_lookup fmt table mac) = Global_mac \<and> first_octet (mac_hex fmt mac) mod 4 = 0
    \<and> me_prefix (mac_lookup fmt table mac) = take (me_bits (mac_lookup fmt table mac) div 4) (mac_hex fmt mac)"
proof (cases "longest_assignment table (mac_hex fmt mac) [36, 28, 24]")
  case None
  then show ?thesis using assms by (simp add: mac_lookup_def Let_def bare_entry_def split: if_splits)
next
  case (Some x)
  obtain p bits xs where x: "x = (p, bits, xs)" by (cases x)
  then have p: "p = take (bits div 4) (mac_hex fmt mac)" using longest_assignment_Some Some by blast
  have plain: "mac_hex fmt mac \<noteq> []" "mac_hex fmt mac \<noteq> U ''FFFFFFFFFFFF''" "first_octet (mac_hex fmt mac) mod 2 \<noteq> 1"
    "first_octet (mac_hex fmt mac) div 2 mod 2 \<noteq> 1"
    using assms by (auto simp: mac_lookup_def Let_def bare_entry_def split: if_splits)
  then have "first_octet (mac_hex fmt mac) mod 4 = 0" by presburger
  then show ?thesis using plain p Some x by (simp add: mac_lookup_def Let_def)
qed

end
