(* ===== verification/Ws_Tickets.thy ===== *)
theory Ws_Tickets
  imports Auth_Tokens Event_Windows
begin

text \<open>
  The one-time tickets of the WebSocket routes of \<^verbatim>\<open>app.py\<close>: a client that holds a credential gets a ticket for
  its next connection, because a browser cannot send headers with one. Each operation is one critical section; the random
  ticket is an argument. Clock readings are rationals.
\<close>

section \<open>Tickets\<close>

definition WS_TICKET_TTL_SECONDS :: time where "WS_TICKET_TTL_SECONDS = 15"

record ws_ticket =
  wt_token :: ustr
  wt_client :: ustr
  wt_expires :: time

type_synonym ws_tickets = "ustr \<rightharpoonup> ws_ticket"

definition prune_ws_tickets :: "time \<Rightarrow> ws_tickets \<Rightarrow> ws_tickets" where
  "prune_ws_tickets now m = (\<lambda>k. case m k of None \<Rightarrow> None | Some d \<Rightarrow> if wt_expires d \<le> now then None else Some d)"

text \<open>\<open>token\<close>: the credential of the request, looked for in its headers only.\<close>

definition issue_ws_ticket :: "ustr \<Rightarrow> ustr option \<Rightarrow> ustr \<Rightarrow> time \<Rightarrow> ws_tickets \<Rightarrow> ws_tickets \<times> (pyexc + ustr)" where
  "issue_ws_ticket ticket token client now m =
     (case token of
        Some (c # cs) \<Rightarrow>
          ((prune_ws_tickets now m)(ticket \<mapsto> \<lparr>wt_token = c # cs, wt_client = client, wt_expires = now + WS_TICKET_TTL_SECONDS\<rparr>), Inr ticket)
      | _ \<Rightarrow> (m, Inl ValueError))"

text \<open>\<open>ws_param\<close> and \<open>ticket_param\<close> are the two query parameters; a ticket is used up by any attempt.\<close>

definition consume_ws_ticket :: "ustr \<Rightarrow> ustr \<Rightarrow> ustr \<Rightarrow> time \<Rightarrow> ws_tickets \<Rightarrow> ws_tickets \<times> ustr" where
  "consume_ws_ticket ws_param ticket_param client now m =
     (let ticket = strip (if ws_param \<noteq> [] then ws_param else ticket_param) in
      if ticket = [] then (m, [])
      else
        let m1 = prune_ws_tickets now m; m2 = m1(ticket := None) in
        (m2, case m1 ticket of
               None \<Rightarrow> []
             | Some d \<Rightarrow> if wt_expires d \<le> now then [] else if wt_client d \<noteq> client then [] else strip (wt_token d)))"

text \<open>\<open>_guard_websocket_auth\<close>: what the gate then reads as the credential of the connection.\<close>

definition websocket_credential :: "ustr \<Rightarrow> ustr option \<Rightarrow> ustr option \<Rightarrow> ustr option" where
  "websocket_credential consumed auth_header direct =
     extract_request_token False auth_header (if consumed \<noteq> [] then Some consumed else direct) None"

section \<open>Runs\<close>

datatype ticket_op = Issue ustr "ustr option" ustr | Consume ustr ustr ustr

definition ticket_step :: "time \<Rightarrow> ticket_op \<Rightarrow> ws_tickets \<Rightarrow> ws_tickets \<times> ustr" where
  "ticket_step now op m = (case op of
       Issue ticket token client \<Rightarrow> (fst (issue_ws_ticket ticket token client now m), [])
     | Consume ws_param ticket_param client \<Rightarrow> consume_ws_ticket ws_param ticket_param client now m)"

text \<open>Whether an operation concerns a ticket: it issues it, or presents it.\<close>

definition about_ticket :: "ustr \<Rightarrow> ticket_op \<Rightarrow> bool" where
  "about_ticket t op = (case op of
       Issue ticket token client \<Rightarrow> ticket = t \<and> token \<noteq> None \<and> token \<noteq> Some []
     | Consume ws_param ticket_param client \<Rightarrow> strip (if ws_param \<noteq> [] then ws_param else ticket_param) = t)"

definition last_about :: "ustr \<Rightarrow> (time \<times> ticket_op) list \<Rightarrow> (time \<times> ticket_op) option" where
  "last_about t h = find (\<lambda>x. about_ticket t (snd x)) (rev h)"

text \<open>The ticket that the last operation on it left, if it left one.\<close>

definition issued :: "(time \<times> ticket_op) option \<Rightarrow> ws_ticket option" where
  "issued x = (case x of
       Some (now, Issue ticket (Some token) client) \<Rightarrow> Some \<lparr>wt_token = token, wt_client = client, wt_expires = now + WS_TICKET_TTL_SECONDS\<rparr>
     | _ \<Rightarrow> None)"

definition unexpired :: "time \<Rightarrow> ws_ticket option \<Rightarrow> ws_ticket option" where
  "unexpired now x = (case x of None \<Rightarrow> None | Some d \<Rightarrow> if wt_expires d \<le> now then None else Some d)"

lemma prune_unexpired: "prune_ws_tickets now m t = unexpired now (m t)"
  by (simp add: prune_ws_tickets_def unexpired_def)

lemma unexpired_later: "t \<le> now \<Longrightarrow> unexpired now (unexpired t x) = unexpired now x"
  by (auto simp: unexpired_def split: option.split)

lemma last_about_snoc: "last_about t (h @ [x]) = (if about_ticket t (snd x) then Some x else last_about t h)"
  by (simp add: last_about_def)

lemma tickets_follow:
  assumes "sorted (map fst h @ [now])" "t \<noteq> []"
  shows "unexpired now (fst (run ticket_step Map.empty h) t) = unexpired now (issued (last_about t h))"
  using assms(1)
proof (induction h arbitrary: now rule: rev_induct)
  case (snoc x h)
  obtain t0 op where x: "x = (t0, op)" by (cases x)
  let ?m = "fst (run ticket_step Map.empty h)"
  have le: "t0 \<le> now" using snoc.prems x by (simp add: sorted_append)
  have IH: "unexpired t0 (?m t) = unexpired t0 (issued (last_about t h))"
    using snoc.prems x by (intro snoc.IH) (simp add: sorted_append)
  then have old: "unexpired now (?m t) = unexpired now (issued (last_about t h))" 
    using unexpired_later [OF le, of "?m t"] unexpired_later [OF le, of "issued (last_about t h)"] by simp
  have run: "fst (run ticket_step Map.empty (h @ [x])) = fst (ticket_step t0 op ?m)"
    by (simp add: x run_append split: prod.split)
  show ?case
  proof (cases op)
    case (Issue ticket token client)
    show ?thesis
    proof (cases "token = None \<or> token = Some []")
      case True
      then have "fst (ticket_step t0 op ?m) = ?m" "\<not> about_ticket t op"
        by (auto simp: Issue ticket_step_def issue_ws_ticket_def about_ticket_def)
      then show ?thesis using old unfolding run by (simp add: last_about_snoc x)
    next
      case False
      then obtain c cs where "token = Some (c # cs)" by (cases token) (auto simp: neq_Nil_conv)
      then have step: "fst (ticket_step t0 op ?m) =
            (prune_ws_tickets t0 ?m)(ticket \<mapsto> \<lparr>wt_token = c # cs, wt_client = client, wt_expires = t0 + WS_TICKET_TTL_SECONDS\<rparr>)"
        and about: "about_ticket t op \<longleftrightarrow> ticket = t" and new: "issued (Some x) = Some \<lparr>wt_token = c # cs, wt_client = client, wt_expires = t0 + WS_TICKET_TTL_SECONDS\<rparr>"
        by (simp_all add: Issue x ticket_step_def issue_ws_ticket_def about_ticket_def issued_def)
      show ?thesis
      proof (cases "ticket = t")
        case True
        then show ?thesis using about new unfolding run step by (simp add: last_about_snoc x)
      next
        case False
        then show ?thesis using about old le unfolding run step by (simp add: last_about_snoc x prune_unexpired unexpired_later)
      qed
    qed
  next
    case (Consume a b client)
    let ?k = "strip (if a \<noteq> [] then a else b)"
    have step: "fst (ticket_step t0 op ?m) = (if ?k = [] then ?m else (prune_ws_tickets t0 ?m)(?k := None))"
      by (simp add: Consume ticket_step_def consume_ws_ticket_def Let_def del: if_not_P)
    have about: "about_ticket t op \<longleftrightarrow> ?k = t" by (simp add: Consume about_ticket_def)
    show ?thesis
    proof (cases "?k = t")
      case True
      then have "fst (ticket_step t0 op ?m) t = None" "?k \<noteq> []" using assms(2) unfolding step by simp_all
      then show ?thesis using True about unfolding run by (simp add: last_about_snoc x issued_def Consume unexpired_def)
    next
      case False
      then have "unexpired now (fst (ticket_step t0 op ?m) t) = unexpired now (?m t)"
        unfolding step using le by (simp add: prune_unexpired unexpired_later)
      then show ?thesis using False about old unfolding run by (simp add: last_about_snoc x)
    qed
  qed
qed (simp add: last_about_def issued_def unexpired_def)

text \<open>
  C20. A ticket opens one connection. After any run, presenting a ticket gives the credential it was issued for exactly when
  the last thing that happened to it was its issue, less than 15 seconds ago, to the same client: an attempt, successful or not,
  by whomever, uses it up, and sweeping expired tickets changes nothing.
\<close>

theorem ws_ticket_once:
  assumes "sorted (map fst h @ [now])" "ticket \<noteq> []" "strip ticket = ticket"
  shows "snd (consume_ws_ticket ticket other client now (fst (run ticket_step Map.empty h))) =
    (case last_about ticket h of
       Some (issued_at, Issue _ (Some token) owner) \<Rightarrow> if now < issued_at + WS_TICKET_TTL_SECONDS \<and> owner = client then strip token else []
     | _ \<Rightarrow> [])"
proof -
  have "snd (consume_ws_ticket ticket other client now m) =
      (case unexpired now (m ticket) of None \<Rightarrow> [] | Some d \<Rightarrow> if wt_client d \<noteq> client then [] else strip (wt_token d))" for m
    using assms(2,3) by (auto simp: consume_ws_ticket_def Let_def prune_unexpired unexpired_def split: option.split)
  then have "snd (consume_ws_ticket ticket other client now (fst (run ticket_step Map.empty h))) =
      (case unexpired now (issued (last_about ticket h)) of None \<Rightarrow> [] | Some d \<Rightarrow> if wt_client d \<noteq> client then [] else strip (wt_token d))"
    by (simp only: tickets_follow [OF assms(1,2)])
  then show ?thesis
    by (auto simp: issued_def unexpired_def split: option.split prod.split ticket_op.split) (metis ws_ticket.select_convs(1))
qed

lemma ws_ticket_once_witness:
  "snd (consume_ws_ticket (U ''k'') [] (U ''c'') 9 (fst (run ticket_step Map.empty [(1, Issue (U ''k'') (Some (U ''code'')) (U ''c''))]))) = U ''code''
    \<and> snd (consume_ws_ticket (U ''k'') [] (U ''c'') 9
        (fst (run ticket_step Map.empty [(1, Issue (U ''k'') (Some (U ''code'')) (U ''c'')), (2, Consume (U ''k'') [] (U ''x''))]))) = []"
proof -
  have k: "strip (U ''k'') = U ''k''" "strip (U ''code'') = U ''code''" "U ''k'' \<noteq> []" "U ''code'' \<noteq> []"
    by (simp_all add: strip_by_def lstrip_by_def rstrip_by_def is_space_def U_def)
  show ?thesis
    by (subst (1 2) ws_ticket_once)
      (simp_all add: k last_about_def about_ticket_def WS_TICKET_TTL_SECONDS_def)
qed

end
