(* ===== verification/Spec2Isabelle.thy ===== *)
theory Spec2Isabelle
  imports Packet_Pipeline Parser_Properties Anomaly_Properties Detector_Coverage Detection_Properties Ipc_Frames Ipc_Calls Auth_Tokens Jobs Resource_Guard Runtime_Control History_Recorder Mobile_Stream Mobile_Routes Access_Log Catalogues Ws_Tickets
begin

text \<open>
  A verification development for Sniff4Hound, a network sensor in Python (the package
  \<^verbatim>\<open>sniff4hound/\<close>). This header says what the program's parts are, which theory models which part,
  what the lemmas show, and what is left out.

  \<^bold>\<open>The program.\<close> A privileged process captures frames (\<^verbatim>\<open>sniffer.py\<close>), parses them into packet
  dictionaries, and runs detection on them: user rules (\<^verbatim>\<open>rulesets.py\<close>), the monitor catalogue through an
  Aho-Corasick index (\<^verbatim>\<open>monitors.py\<close>, \<^verbatim>\<open>ahocorasick.py\<close>) and stateful detectors (\<^verbatim>\<open>anomaly.py\<close>). Frames
  wait in a bounded cache (\<^verbatim>\<open>packet_pipeline.py\<close>) from which jobs take batches; alerts are throttled, then
  stored. The web process talks to it over length-prefixed frames (\<^verbatim>\<open>ipc.py\<close>) and lets requests in through
  an authentication gate (\<^verbatim>\<open>auth.py\<close>, \<^verbatim>\<open>app.py\<close>). A second server feeds paired phones (\<^verbatim>\<open>mobile_stream.py\<close>).

  \<^bold>\<open>Conventions.\<close> \<^verbatim>\<open>Prelude\<close>: bytes are lists of 8-bit words and reads past the end are \<open>None\<close> (Python's
  \<open>IndexError\<close>); strings are lists of code points; dictionaries that keep their order are association
  lists. \<^verbatim>\<open>Py_Values\<close> has dynamically typed values and \<open>int()\<close>, \<open>str()\<close>, truth value with their exceptions as
  a sum; \<^verbatim>\<open>Py_Text\<close> the string methods, codecs and address printing. Clock readings are rationals
  given to the operations. What is outside the sources is an argument: the regular-expression engine, the
  \<open>ipaddress\<close> predicates, the JSON codec, the keyed hash, the outcome of database writes.

  \<^bold>\<open>The theories.\<close>
  \<^item> \<^verbatim>\<open>Packet_Pipeline\<close> (\<^verbatim>\<open>packet_pipeline.py\<close>): the cache, its methods as atomic steps of any interleaving, the
    validation of its settings. Shown: the bound, conservation of packets, the exceptions of validation.
  \<^item> \<^verbatim>\<open>App_Protocols\<close>, \<^verbatim>\<open>App_Decoders\<close>, \<^verbatim>\<open>Wire_Formats\<close> (\<^verbatim>\<open>app_protocols.py\<close>, \<^verbatim>\<open>app_decoders.py\<close>, wire-format functions of
    \<^verbatim>\<open>sniffer.py\<close>): protocol naming, the decoders, DNS, TLS, NBNS. Shown: no decoder raises, its fields are
    clean, round trips of encoded names, bounds of DNS messages.
  \<^item> \<^verbatim>\<open>Packets\<close>, \<^verbatim>\<open>Sniffer_App\<close>, \<^verbatim>\<open>Sniffer_Parse\<close> (the parsing methods of \<open>Sniffer\<close>); \<^verbatim>\<open>Parser_Safety\<close> has the invariant
    every parser keeps, \<^verbatim>\<open>Parser_Properties\<close> the statements on \<open>parse_packet\<close>, flow keys, IPv6 extension
    headers, checksums and the traffic of the dashboard.
  \<^item> \<^verbatim>\<open>Pattern_Automaton\<close> (\<^verbatim>\<open>ahocorasick.py\<close>): the trie in an explicit node store, its failure links built
    breadth first, search; shown to report exactly the patterns that occur.
  \<^item> \<^verbatim>\<open>Rulesets\<close>, \<^verbatim>\<open>Rule_Normalize\<close> (\<^verbatim>\<open>rulesets.py\<close>): criteria, nested conditions, classification, and normalisation of
    what users submit. Conditions nest at most to the limit the code sets; the recursion is on that depth.
  \<^item> \<^verbatim>\<open>Monitors\<close>, \<^verbatim>\<open>Monitor_Index\<close> (\<^verbatim>\<open>monitors.py\<close>): normalisation of monitors, the candidate index, and the
    background builds as a step relation; indexed evaluation never adds a hit and ends equal to a plain scan.
  \<^item> \<^verbatim>\<open>Event_Windows\<close> has the two interfaces of the stateful detectors as locales, \<open>cooldown\<close> and
    \<open>sliding_window\<close>; \<^verbatim>\<open>Anomaly\<close> models the detectors and the engine, \<^verbatim>\<open>Anomaly_Properties\<close> interprets the
    locales on them, \<^verbatim>\<open>Detector_Coverage\<close> shows which detectors no parsed packet can trigger.
  \<^item> \<^verbatim>\<open>Alert_Throttle\<close>: \<open>RuleAlertThrottle\<close>, its spacing and its accounting of silenced hits.
  \<^item> \<^verbatim>\<open>Detection\<close>, \<^verbatim>\<open>Detection_Batch\<close>, \<^verbatim>\<open>Detection_Properties\<close> (\<^verbatim>\<open>sniffer.py\<close>): muting, whitelist, exclusions, detection of a
    packet and of a batch with its deferred writes; no matching monitor is lost, every packet is counted.
  \<^item> \<^verbatim>\<open>Ipc_Frames\<close> (\<^verbatim>\<open>ipc.py\<close>): framing on a stream that may be cut anywhere.
  \<^item> \<^verbatim>\<open>Ipc_Calls\<close> (\<^verbatim>\<open>ipc.py\<close>): remote calls with their pending table, readers, reconnects and \<open>close\<close> as a step relation; a
    request runs at most once, no call waits for nothing, and a failure that outlives its connection.
  \<^item> \<^verbatim>\<open>Auth_Limiter\<close>, \<^verbatim>\<open>Auth_Tokens\<close> (\<^verbatim>\<open>auth.py\<close> and the gate of \<^verbatim>\<open>app.py\<close>): failures per source in a sliding window
    with a doubling lockout, HS256 tokens, the security code, and what the gate lets in.
  \<^item> \<^verbatim>\<open>Jobs\<close> (\<^verbatim>\<open>jobs.py\<close>): the queue, its workers, the watchdog and the callers as a step relation; every job is
    settled once, and the pool keeps its size whatever handlers hang.
  \<^item> \<^verbatim>\<open>Resource_Guard\<close> (\<^verbatim>\<open>resource_guard.py\<close>): when the guard pauses and resumes the capture, and that it looks at nothing else.
  \<^item> \<^verbatim>\<open>Runtime_Control\<close> (\<^verbatim>\<open>runtime_controller.py\<close>): engines, mode, and the change of interfaces with its rollback.
  \<^item> \<^verbatim>\<open>History\<close>, \<^verbatim>\<open>History_Recorder\<close> (\<^verbatim>\<open>history.py\<close>, \<^verbatim>\<open>history_recorder.py\<close>, writes of \<^verbatim>\<open>history_store.py\<close>): what a packet adds
    to the DNS and ARP history, and its aggregation, shown to refine a table that is written observation by observation.
  \<^item> \<^verbatim>\<open>Mobile_Service\<close> (\<open>MobileStreamService\<close> of \<^verbatim>\<open>mobile_stream.py\<close>): its pairings, sessions, streams and server; every
    method that holds the lock is one operation. \<^verbatim>\<open>Mobile_Pairing\<close> has its runs and a specification without sweeping,
    \<^verbatim>\<open>Mobile_Sessions\<close> the refinement and what must have happened for a session to be good, \<^verbatim>\<open>Mobile_Stream\<close> the public part
    of an event and what reaches a phone, \<^verbatim>\<open>Mobile_Routes\<close> the pages, and what each answer was backed by.
  \<^item> \<^verbatim>\<open>Ws_Tickets\<close> (\<^verbatim>\<open>app.py\<close>): one-time tickets of WebSocket connections; a ticket serves one attempt.
  \<^item> \<^verbatim>\<open>Access_Log\<close> (\<^verbatim>\<open>access_log.py\<close>): the line of a request, whose columns a client cannot forge and which does not
    depend on the credentials in a query.
  \<^item> \<^verbatim>\<open>Catalogues\<close> (\<^verbatim>\<open>domain_names.py\<close>, \<^verbatim>\<open>ip_registry.py\<close>, \<^verbatim>\<open>mac_vendor.py\<close>): base domains, address allocations and vendors
    as look-ups in given tables; the bisection equals reading the table, the longest assignment wins.

  \<^bold>\<open>Fuel and bounds.\<close> Loops are structural or have a measure. Reading frames from a socket is a
  \<open>partial_function\<close>, shown to return on every finite stream. No function takes fuel beyond a bound the code itself
  has (the jumps of a compressed DNS name, the depth of conditions).

  \<^bold>\<open>Not modelled.\<close> The database layer (\<^verbatim>\<open>store.py\<close>: its behaviour is SQL; only the merges of the history are read from it), the API routes behind the gate, the
  honeypot, process start-up, the consoles, configuration, export, the set-up of the JSON logs, TLS material and mDNS (wrappers of other
  programs), risk scoring in floating point, and release tooling. Of the mobile stream: its sockets, its reading and
  scrubbing of log files, the text of its pages. The files of the catalogues are not modelled, nor when they are loaded. Threads are not modelled as such: every operation the code
  runs under a lock is one atomic step.
\<close>

end
